(* ===== verification/Prelude.thy ===== *)
theory Prelude
  imports Main "HOL-Library.Word"
begin

text \<open>
  Shared vocabulary of the development: the machine types of the C++ code, the
  collections of simplification rules the component theories add to, and the
  generic facts on lists and words that several components use.
\<close>

unbundle bit_operations_syntax

section \<open>Machine types\<close>

type_synonym u8 = "8 word"
type_synonym u16 = "16 word"
type_synonym u32 = "32 word"
type_synonym u64 = "64 word"
type_synonym i32 = "32 word"

named_theorems code_values "numeric values of the wire codes"
named_theorems wire_simps "length and read-back rules of the byte encoders"
named_theorems step_simps "defining equations used when a handler is unfolded"

section \<open>Bounded reads\<close>

text \<open>
  A read through a pointer is \<open>None\<close> where the C++ code would leave the array.
\<close>

definition at :: "'a list \<Rightarrow> nat \<Rightarrow> 'a option" where
  "at xs i = (if i < length xs then Some (xs ! i) else None)"

lemma at_Some [simp]: "i < length xs \<Longrightarrow> at xs i = Some (xs ! i)"
  by (simp add: at_def)

lemma at_None [simp]: "length xs \<le> i \<Longrightarrow> at xs i = None"
  by (simp add: at_def)

lemma at_eq_Some_iff: "at xs i = Some x \<longleftrightarrow> i < length xs \<and> xs ! i = x"
  by (auto simp: at_def)

lemma at_append_left: "i < length xs \<Longrightarrow> at (xs @ ys) i = at xs i"
  by (simp add: at_def nth_append)

lemma at_append_right: "at (xs @ ys) (length xs + i) = at ys i"
  by (simp add: at_def nth_append)

section \<open>Words\<close>

lemma unat_ucast_up_u16 [simp]: "unat (ucast (b :: u8) :: u16) = unat b"
  by (simp add: unsigned_ucast_eq take_bit_nat_eq_self less_le_trans [OF unsigned_less])

lemma unat_u16_lt: "unat (w :: u16) < 65536"
  using unsigned_less [of w] by simp

lemma unat_u8_lt: "unat (w :: u8) < 256"
  using unsigned_less [of w] by simp

section \<open>Runs\<close>

text \<open>
  A run ends with \<open>Return\<close>, with \<open>Fault\<close> (an access outside an array or a failed assertion), or
  with \<open>OutOfFuel\<close> when its loop is still going.
\<close>

datatype 'a run = Return 'a | Fault | OutOfFuel

fun bind_run :: "'a run \<Rightarrow> ('a \<Rightarrow> 'b run) \<Rightarrow> 'b run" where
  "bind_run (Return x) f = f x"
| "bind_run Fault f = Fault"
| "bind_run OutOfFuel f = OutOfFuel"

lemma bind_run_Return: "bind_run m f = Return y \<longleftrightarrow> (\<exists>x. m = Return x \<and> f x = Return y)"
  by (cases m) auto

lemma bind_run_ReturnE: "bind_run m f = Return y \<Longrightarrow> (\<And>x. m = Return x \<Longrightarrow> f x = Return y \<Longrightarrow> P) \<Longrightarrow> P"
  by (cases m) simp_all

end
