(* ===== verification/CommandCodes.thy ===== *)
theory CommandCodes
  imports Prelude
begin

text \<open>
  The command vocabulary of the TOF flight software: \<open>CommunicationCodes\<close> of
  \<^verbatim>\<open>FlightOps/external/shota/CommunicationCodes.hh\<close> (the hub-wide 16 bit codes) and
  \<open>TOFCommandCode\<close> with the two bridge functions of
  \<^verbatim>\<open>FlightOps/include/GRAMS_TOF_CommandDefs.h\<close>.

  \<open>CommunicationCodes\<close> is an \<^verbatim>\<open>enum class : uint16_t\<close> that the controller casts from
  any 16 bit value, so its values are words and its enumerators are constants;
  \<open>TOFCommandCode\<close> is only ever produced by \<open>toTOFCommand\<close> and is a datatype.
\<close>

section \<open>Hub-wide communication codes\<close>

definition construct_code :: "u16 \<Rightarrow> u16 \<Rightarrow> u16" where
  "construct_code code subsystem_mask = code + subsystem_mask"

definition COM_SUBSYSTEM_HUB_MSK :: u16 where "COM_SUBSYSTEM_HUB_MSK = 0x1000"
definition COM_SUBSYSTEM_PDU_MSK :: u16 where "COM_SUBSYSTEM_PDU_MSK = 0x2000"
definition COM_SUBSYSTEM_ORC_MSK :: u16 where "COM_SUBSYSTEM_ORC_MSK = 0x3000"
definition COM_SUBSYSTEM_COL_MSK :: u16 where "COM_SUBSYSTEM_COL_MSK = 0x4000"
definition COM_SUBSYSTEM_TOF_MSK :: u16 where "COM_SUBSYSTEM_TOF_MSK = 0x5000"
definition COM_SUBSYSTEM_TOF_BIAS_MSK :: u16 where "COM_SUBSYSTEM_TOF_BIAS_MSK = 0x6000"
definition COM_SUBSYSTEM_MSK :: u16 where "COM_SUBSYSTEM_MSK = 0xF000"

definition isSubsystem :: "u16 \<Rightarrow> u16 \<Rightarrow> bool" where
  "isSubsystem code subsystem_mask = (code AND COM_SUBSYSTEM_MSK = subsystem_mask)"

definition COM_HeartBeat :: u16 where "COM_HeartBeat = 0xFFFF"

definition hub_codes :: "(string \<times> u16) list" where
  "hub_codes =
     [(''HUB_Emergency_Daq_shutdown'', construct_code 0xFF COM_SUBSYSTEM_HUB_MSK),
      (''HUB_Prepare_Shutdown'', construct_code 0x0 COM_SUBSYSTEM_HUB_MSK),
      (''HUB_Exec_Shutdown'', construct_code 0x1 COM_SUBSYSTEM_HUB_MSK),
      (''HUB_Prepare_Restart'', construct_code 0x2 COM_SUBSYSTEM_HUB_MSK),
      (''HUB_Exec_Restart'', construct_code 0x3 COM_SUBSYSTEM_HUB_MSK),
      (''HUB_Reset_Error'', construct_code 0x4 COM_SUBSYSTEM_HUB_MSK),
      (''HUB_Dummy1'', construct_code 0xF1 COM_SUBSYSTEM_HUB_MSK),
      (''HUB_Dummy2'', construct_code 0xF2 COM_SUBSYSTEM_HUB_MSK)]"

text \<open>The macro \<^verbatim>\<open>PGRAMS_COM_CODE_PDU(name, code)\<close> declares an ON and an OFF enumerator.\<close>

definition PGRAMS_COM_CODE_PDU :: "string \<Rightarrow> u16 \<Rightarrow> (string \<times> u16) list" where
  "PGRAMS_COM_CODE_PDU name code =
     [(''PDU_'' @ name @ ''_ON'', construct_code code COM_SUBSYSTEM_PDU_MSK),
      (''PDU_'' @ name @ ''_OFF'', construct_code (code + 0x1) COM_SUBSYSTEM_PDU_MSK)]"

definition pdu_codes :: "(string \<times> u16) list" where
  "pdu_codes =
     PGRAMS_COM_CODE_PDU ''Cold_TPC_HV'' 0x0 @
     PGRAMS_COM_CODE_PDU ''Cold_Charge_PreAmp'' 0x2 @
     PGRAMS_COM_CODE_PDU ''Cold_SiPM_PreAmp'' 0x4 @
     PGRAMS_COM_CODE_PDU ''Warm_TPC_Shaper'' 0x6 @
     PGRAMS_COM_CODE_PDU ''SiPM'' 0x8 @
     PGRAMS_COM_CODE_PDU ''CAEN_P3V3'' 0xA @
     PGRAMS_COM_CODE_PDU ''CAEN_PM5V'' 0xC @
     PGRAMS_COM_CODE_PDU ''CAEN_P12V'' 0xE @
     PGRAMS_COM_CODE_PDU ''DAQ_CPU'' 0x10"

definition orc_codes :: "(string \<times> u16) list" where
  "orc_codes =
     [(''ORC_Exec_CPU_Restart'', construct_code 0x0 COM_SUBSYSTEM_ORC_MSK),
      (''ORC_Exec_CPU_Shutdown'', construct_code 0x1 COM_SUBSYSTEM_ORC_MSK),
      (''ORC_Boot_All_DAQ'', construct_code 0x2 COM_SUBSYSTEM_ORC_MSK),
      (''ORC_Shutdown_All_DAQ'', construct_code 0x3 COM_SUBSYSTEM_ORC_MSK),
      (''ORC_CPU_Status'', construct_code 0x4 COM_SUBSYSTEM_ORC_MSK)]"

definition col_codes :: "(string \<times> u16) list" where
  "col_codes =
     [(''COL_Configure'', construct_code 0x0 COM_SUBSYSTEM_COL_MSK),
      (''COL_Start_Run'', construct_code 0x1 COM_SUBSYSTEM_COL_MSK),
      (''COL_Stop_Run'', construct_code 0x2 COM_SUBSYSTEM_COL_MSK),
      (''COL_Boot_DAQ'', construct_code 0x3 COM_SUBSYSTEM_COL_MSK),
      (''COL_Boot_Monitor'', construct_code 0x4 COM_SUBSYSTEM_COL_MSK),
      (''COL_Query_Hardware_Status'', construct_code 0x5 COM_SUBSYSTEM_COL_MSK)]"

definition TOF_Start_DAQ :: u16 where
  "TOF_Start_DAQ = construct_code 0x0 COM_SUBSYSTEM_TOF_MSK"
definition TOF_Stop_DAQ :: u16 where
  "TOF_Stop_DAQ = construct_code 0x1 COM_SUBSYSTEM_TOF_MSK"
definition TOF_Reset_DAQ :: u16 where
  "TOF_Reset_DAQ = construct_code 0x2 COM_SUBSYSTEM_TOF_MSK"
definition TOF_Run_Init_System :: u16 where
  "TOF_Run_Init_System = construct_code 0x100 COM_SUBSYSTEM_TOF_MSK"
definition TOF_Run_Make_Bias_Calib_Table :: u16 where
  "TOF_Run_Make_Bias_Calib_Table = construct_code 0x101 COM_SUBSYSTEM_TOF_MSK"
definition TOF_Run_Make_Simple_Bias_Set_Table :: u16 where
  "TOF_Run_Make_Simple_Bias_Set_Table = construct_code 0x102 COM_SUBSYSTEM_TOF_MSK"
definition TOF_Run_Make_Simple_Channel_Map :: u16 where
  "TOF_Run_Make_Simple_Channel_Map = construct_code 0x103 COM_SUBSYSTEM_TOF_MSK"
definition TOF_Run_Make_Simple_Disc_Set_Table :: u16 where
  "TOF_Run_Make_Simple_Disc_Set_Table = construct_code 0x104 COM_SUBSYSTEM_TOF_MSK"
definition TOF_Run_Read_Temperature_Sensors :: u16 where
  "TOF_Run_Read_Temperature_Sensors = construct_code 0x105 COM_SUBSYSTEM_TOF_MSK"
definition TOF_Run_Acquire_Threshold_Calibration :: u16 where
  "TOF_Run_Acquire_Threshold_Calibration = construct_code 0x106 COM_SUBSYSTEM_TOF_MSK"
definition TOF_Run_Acquire_TDC_Calibration :: u16 where
  "TOF_Run_Acquire_TDC_Calibration = construct_code 0x107 COM_SUBSYSTEM_TOF_MSK"
definition TOF_Run_Acquire_QDC_Calibration :: u16 where
  "TOF_Run_Acquire_QDC_Calibration = construct_code 0x108 COM_SUBSYSTEM_TOF_MSK"
definition TOF_Run_Acquire_SiPM_Data :: u16 where
  "TOF_Run_Acquire_SiPM_Data = construct_code 0x109 COM_SUBSYSTEM_TOF_MSK"
definition TOF_Run_Acquire_Threshold_Calibration_BN :: u16 where
  "TOF_Run_Acquire_Threshold_Calibration_BN = construct_code 0x110 COM_SUBSYSTEM_TOF_MSK"
definition TOF_Run_Acquire_Threshold_Calibration_D :: u16 where
  "TOF_Run_Acquire_Threshold_Calibration_D = construct_code 0x111 COM_SUBSYSTEM_TOF_MSK"
definition TOF_Run_Process_Threshold_Calibration :: u16 where
  "TOF_Run_Process_Threshold_Calibration = construct_code 0x200 COM_SUBSYSTEM_TOF_MSK"
definition TOF_Run_Process_TDC_Calibration :: u16 where
  "TOF_Run_Process_TDC_Calibration = construct_code 0x201 COM_SUBSYSTEM_TOF_MSK"
definition TOF_Run_Process_QDC_Calibration :: u16 where
  "TOF_Run_Process_QDC_Calibration = construct_code 0x202 COM_SUBSYSTEM_TOF_MSK"
definition TOF_Run_Convert_Raw_To_Raw :: u16 where
  "TOF_Run_Convert_Raw_To_Raw = construct_code 0x203 COM_SUBSYSTEM_TOF_MSK"
definition TOF_Run_Convert_Raw_To_Singles :: u16 where
  "TOF_Run_Convert_Raw_To_Singles = construct_code 0x204 COM_SUBSYSTEM_TOF_MSK"
definition TOF_ACK :: u16 where
  "TOF_ACK = construct_code 0xFFF COM_SUBSYSTEM_TOF_MSK"
definition TOF_Callback :: u16 where
  "TOF_Callback = construct_code 0xFFE COM_SUBSYSTEM_TOF_MSK"
definition TOF_Status :: u16 where
  "TOF_Status = construct_code 0xFFD COM_SUBSYSTEM_TOF_MSK"
definition TOF_DummyTest :: u16 where
  "TOF_DummyTest = construct_code 0xFFC COM_SUBSYSTEM_TOF_MSK"

lemmas tof_code_defs =
  TOF_Start_DAQ_def
  TOF_Stop_DAQ_def
  TOF_Reset_DAQ_def
  TOF_Run_Init_System_def
  TOF_Run_Make_Bias_Calib_Table_def
  TOF_Run_Make_Simple_Bias_Set_Table_def
  TOF_Run_Make_Simple_Channel_Map_def
  TOF_Run_Make_Simple_Disc_Set_Table_def
  TOF_Run_Read_Temperature_Sensors_def
  TOF_Run_Acquire_Threshold_Calibration_def
  TOF_Run_Acquire_TDC_Calibration_def
  TOF_Run_Acquire_QDC_Calibration_def
  TOF_Run_Acquire_SiPM_Data_def
  TOF_Run_Acquire_Threshold_Calibration_BN_def
  TOF_Run_Acquire_Threshold_Calibration_D_def
  TOF_Run_Process_Threshold_Calibration_def
  TOF_Run_Process_TDC_Calibration_def
  TOF_Run_Process_QDC_Calibration_def
  TOF_Run_Convert_Raw_To_Raw_def
  TOF_Run_Convert_Raw_To_Singles_def
  TOF_ACK_def
  TOF_Callback_def
  TOF_Status_def
  TOF_DummyTest_def
  COM_HeartBeat_def construct_code_def COM_SUBSYSTEM_TOF_MSK_def

declare tof_code_defs [code_values]

definition tof_codes :: "(string \<times> u16) list" where
  "tof_codes =
     [(''TOF_Start_DAQ'', TOF_Start_DAQ),
      (''TOF_Stop_DAQ'', TOF_Stop_DAQ),
      (''TOF_Reset_DAQ'', TOF_Reset_DAQ),
      (''TOF_Run_Init_System'', TOF_Run_Init_System),
      (''TOF_Run_Make_Bias_Calib_Table'', TOF_Run_Make_Bias_Calib_Table),
      (''TOF_Run_Make_Simple_Bias_Set_Table'', TOF_Run_Make_Simple_Bias_Set_Table),
      (''TOF_Run_Make_Simple_Channel_Map'', TOF_Run_Make_Simple_Channel_Map),
      (''TOF_Run_Make_Simple_Disc_Set_Table'', TOF_Run_Make_Simple_Disc_Set_Table),
      (''TOF_Run_Read_Temperature_Sensors'', TOF_Run_Read_Temperature_Sensors),
      (''TOF_Run_Acquire_Threshold_Calibration'', TOF_Run_Acquire_Threshold_Calibration),
      (''TOF_Run_Acquire_TDC_Calibration'', TOF_Run_Acquire_TDC_Calibration),
      (''TOF_Run_Acquire_QDC_Calibration'', TOF_Run_Acquire_QDC_Calibration),
      (''TOF_Run_Acquire_SiPM_Data'', TOF_Run_Acquire_SiPM_Data),
      (''TOF_Run_Acquire_Threshold_Calibration_BN'', TOF_Run_Acquire_Threshold_Calibration_BN),
      (''TOF_Run_Acquire_Threshold_Calibration_D'', TOF_Run_Acquire_Threshold_Calibration_D),
      (''TOF_Run_Process_Threshold_Calibration'', TOF_Run_Process_Threshold_Calibration),
      (''TOF_Run_Process_TDC_Calibration'', TOF_Run_Process_TDC_Calibration),
      (''TOF_Run_Process_QDC_Calibration'', TOF_Run_Process_QDC_Calibration),
      (''TOF_Run_Convert_Raw_To_Raw'', TOF_Run_Convert_Raw_To_Raw),
      (''TOF_Run_Convert_Raw_To_Singles'', TOF_Run_Convert_Raw_To_Singles),
      (''TOF_ACK'', TOF_ACK),
      (''TOF_Callback'', TOF_Callback),
      (''TOF_Status'', TOF_Status),
      (''TOF_DummyTest'', TOF_DummyTest)]"

definition tof_bias_codes :: "(string \<times> u16) list" where
  "tof_bias_codes =
     [(''TOF_Bias_ON'', construct_code 0x0 COM_SUBSYSTEM_TOF_BIAS_MSK),
      (''TOF_Bias_OFF'', construct_code 0x1 COM_SUBSYSTEM_TOF_BIAS_MSK),
      (''TOF_Bias_Set_Voltage'', construct_code 0x2 COM_SUBSYSTEM_TOF_BIAS_MSK)]"

definition CommunicationCodes :: "(string \<times> u16) list" where
  "CommunicationCodes =
     [(''COM_HeartBeat'', COM_HeartBeat)] @ hub_codes @ pdu_codes @ orc_codes @ col_codes
       @ tof_codes @ tof_bias_codes"

section \<open>TOF command codes\<close>

datatype TOFCommandCode =
    START_DAQ
  | STOP_DAQ
  | RESET_DAQ
  | RUN_INIT_SYSTEM
  | RUN_MAKE_BIAS_CALIB_TABLE
  | RUN_MAKE_SIMPLE_BIAS_SET_TABLE
  | RUN_MAKE_SIMPLE_CHANNEL_MAP
  | RUN_MAKE_SIMPLE_DISC_SET_TABLE
  | RUN_READ_TEMPERATURE_SENSORS
  | RUN_ACQUIRE_THRESHOLD_CALIBRATION
  | RUN_ACQUIRE_TDC_CALIBRATION
  | RUN_ACQUIRE_QDC_CALIBRATION
  | RUN_ACQUIRE_SIPM_DATA
  | RUN_ACQUIRE_THRESHOLD_CALIBRATION_BN
  | RUN_ACQUIRE_THRESHOLD_CALIBRATION_D
  | RUN_PROCESS_THRESHOLD_CALIBRATION
  | RUN_PROCESS_TDC_CALIBRATION
  | RUN_PROCESS_QDC_CALIBRATION
  | RUN_CONVERT_RAW_TO_RAW
  | RUN_CONVERT_RAW_TO_SINGLES
  | ACK
  | CALLBACK
  | STATUS
  | DUMMY_TEST
  | HEART_BEAT
  | UNKNOWN

text \<open>The underlying \<^verbatim>\<open>uint16_t\<close> value of an enumerator.\<close>

fun tof_value :: "TOFCommandCode \<Rightarrow> u16" where
  "tof_value START_DAQ = 0x5000"
| "tof_value STOP_DAQ = 0x5001"
| "tof_value RESET_DAQ = 0x5002"
| "tof_value RUN_INIT_SYSTEM = 0x5100"
| "tof_value RUN_MAKE_BIAS_CALIB_TABLE = 0x5101"
| "tof_value RUN_MAKE_SIMPLE_BIAS_SET_TABLE = 0x5102"
| "tof_value RUN_MAKE_SIMPLE_CHANNEL_MAP = 0x5103"
| "tof_value RUN_MAKE_SIMPLE_DISC_SET_TABLE = 0x5104"
| "tof_value RUN_READ_TEMPERATURE_SENSORS = 0x5105"
| "tof_value RUN_ACQUIRE_THRESHOLD_CALIBRATION = 0x5106"
| "tof_value RUN_ACQUIRE_TDC_CALIBRATION = 0x5107"
| "tof_value RUN_ACQUIRE_QDC_CALIBRATION = 0x5108"
| "tof_value RUN_ACQUIRE_SIPM_DATA = 0x5109"
| "tof_value RUN_ACQUIRE_THRESHOLD_CALIBRATION_BN = 0x5110"
| "tof_value RUN_ACQUIRE_THRESHOLD_CALIBRATION_D = 0x5111"
| "tof_value RUN_PROCESS_THRESHOLD_CALIBRATION = 0x5200"
| "tof_value RUN_PROCESS_TDC_CALIBRATION = 0x5201"
| "tof_value RUN_PROCESS_QDC_CALIBRATION = 0x5202"
| "tof_value RUN_CONVERT_RAW_TO_RAW = 0x5203"
| "tof_value RUN_CONVERT_RAW_TO_SINGLES = 0x5204"
| "tof_value ACK = 0x5FFF"
| "tof_value CALLBACK = 0x5FFE"
| "tof_value STATUS = 0x5FFD"
| "tof_value DUMMY_TEST = 0x5FFC"
| "tof_value HEART_BEAT = 0xFFFF"
| "tof_value UNKNOWN = 0x0000"

text \<open>\<^verbatim>\<open>operator<<\<close>: \<open>UNKNOWN\<close> is the default branch.\<close>

fun code_name :: "TOFCommandCode \<Rightarrow> string" where
  "code_name START_DAQ = ''START_DAQ''"
| "code_name STOP_DAQ = ''STOP_DAQ''"
| "code_name RESET_DAQ = ''RESET_DAQ''"
| "code_name RUN_INIT_SYSTEM = ''RUN_INIT_SYSTEM''"
| "code_name RUN_MAKE_BIAS_CALIB_TABLE = ''RUN_MAKE_BIAS_CALIB_TABLE''"
| "code_name RUN_MAKE_SIMPLE_BIAS_SET_TABLE = ''RUN_MAKE_SIMPLE_BIAS_SET_TABLE''"
| "code_name RUN_MAKE_SIMPLE_CHANNEL_MAP = ''RUN_MAKE_SIMPLE_CHANNEL_MAP''"
| "code_name RUN_MAKE_SIMPLE_DISC_SET_TABLE = ''RUN_MAKE_SIMPLE_DISC_SET_TABLE''"
| "code_name RUN_READ_TEMPERATURE_SENSORS = ''RUN_READ_TEMPERATURE_SENSORS''"
| "code_name RUN_ACQUIRE_THRESHOLD_CALIBRATION = ''RUN_ACQUIRE_THRESHOLD_CALIBRATION''"
| "code_name RUN_ACQUIRE_TDC_CALIBRATION = ''RUN_ACQUIRE_TDC_CALIBRATION''"
| "code_name RUN_ACQUIRE_QDC_CALIBRATION = ''RUN_ACQUIRE_QDC_CALIBRATION''"
| "code_name RUN_ACQUIRE_SIPM_DATA = ''RUN_ACQUIRE_SIPM_DATA''"
| "code_name RUN_ACQUIRE_THRESHOLD_CALIBRATION_BN = ''RUN_ACQUIRE_THRESHOLD_CALIBRATION_BN''"
| "code_name RUN_ACQUIRE_THRESHOLD_CALIBRATION_D = ''RUN_ACQUIRE_THRESHOLD_CALIBRATION_D''"
| "code_name RUN_PROCESS_THRESHOLD_CALIBRATION = ''RUN_PROCESS_THRESHOLD_CALIBRATION''"
| "code_name RUN_PROCESS_TDC_CALIBRATION = ''RUN_PROCESS_TDC_CALIBRATION''"
| "code_name RUN_PROCESS_QDC_CALIBRATION = ''RUN_PROCESS_QDC_CALIBRATION''"
| "code_name RUN_CONVERT_RAW_TO_RAW = ''RUN_CONVERT_RAW_TO_RAW''"
| "code_name RUN_CONVERT_RAW_TO_SINGLES = ''RUN_CONVERT_RAW_TO_SINGLES''"
| "code_name ACK = ''ACK''"
| "code_name CALLBACK = ''CALLBACK''"
| "code_name STATUS = ''STATUS''"
| "code_name DUMMY_TEST = ''DUMMY_TEST''"
| "code_name HEART_BEAT = ''HEART_BEAT''"
| "code_name _ = ''UNKNOWN''"

section \<open>The bridge\<close>

fun toCommCode :: "TOFCommandCode \<Rightarrow> u16" where
  "toCommCode START_DAQ = TOF_Start_DAQ"
| "toCommCode STOP_DAQ = TOF_Stop_DAQ"
| "toCommCode RESET_DAQ = TOF_Reset_DAQ"
| "toCommCode RUN_INIT_SYSTEM = TOF_Run_Init_System"
| "toCommCode RUN_MAKE_BIAS_CALIB_TABLE = TOF_Run_Make_Bias_Calib_Table"
| "toCommCode RUN_MAKE_SIMPLE_BIAS_SET_TABLE = TOF_Run_Make_Simple_Bias_Set_Table"
| "toCommCode RUN_MAKE_SIMPLE_CHANNEL_MAP = TOF_Run_Make_Simple_Channel_Map"
| "toCommCode RUN_MAKE_SIMPLE_DISC_SET_TABLE = TOF_Run_Make_Simple_Disc_Set_Table"
| "toCommCode RUN_READ_TEMPERATURE_SENSORS = TOF_Run_Read_Temperature_Sensors"
| "toCommCode RUN_ACQUIRE_THRESHOLD_CALIBRATION = TOF_Run_Acquire_Threshold_Calibration"
| "toCommCode RUN_ACQUIRE_TDC_CALIBRATION = TOF_Run_Acquire_TDC_Calibration"
| "toCommCode RUN_ACQUIRE_QDC_CALIBRATION = TOF_Run_Acquire_QDC_Calibration"
| "toCommCode RUN_ACQUIRE_SIPM_DATA = TOF_Run_Acquire_SiPM_Data"
| "toCommCode RUN_ACQUIRE_THRESHOLD_CALIBRATION_BN = TOF_Run_Acquire_Threshold_Calibration_BN"
| "toCommCode RUN_ACQUIRE_THRESHOLD_CALIBRATION_D = TOF_Run_Acquire_Threshold_Calibration_D"
| "toCommCode RUN_PROCESS_THRESHOLD_CALIBRATION = TOF_Run_Process_Threshold_Calibration"
| "toCommCode RUN_PROCESS_TDC_CALIBRATION = TOF_Run_Process_TDC_Calibration"
| "toCommCode RUN_PROCESS_QDC_CALIBRATION = TOF_Run_Process_QDC_Calibration"
| "toCommCode RUN_CONVERT_RAW_TO_RAW = TOF_Run_Convert_Raw_To_Raw"
| "toCommCode RUN_CONVERT_RAW_TO_SINGLES = TOF_Run_Convert_Raw_To_Singles"
| "toCommCode ACK = TOF_ACK"
| "toCommCode CALLBACK = TOF_Callback"
| "toCommCode DUMMY_TEST = TOF_DummyTest"
| "toCommCode HEART_BEAT = COM_HeartBeat"
| "toCommCode _ = TOF_Status"

definition toTOFCommand :: "u16 \<Rightarrow> TOFCommandCode" where
  "toTOFCommand code =
    (if code = TOF_Start_DAQ then START_DAQ
     else if code = TOF_Stop_DAQ then STOP_DAQ
     else if code = TOF_Reset_DAQ then RESET_DAQ
     else if code = TOF_Run_Init_System then RUN_INIT_SYSTEM
     else if code = TOF_Run_Make_Bias_Calib_Table then RUN_MAKE_BIAS_CALIB_TABLE
     else if code = TOF_Run_Make_Simple_Bias_Set_Table then RUN_MAKE_SIMPLE_BIAS_SET_TABLE
     else if code = TOF_Run_Make_Simple_Channel_Map then RUN_MAKE_SIMPLE_CHANNEL_MAP
     else if code = TOF_Run_Make_Simple_Disc_Set_Table then RUN_MAKE_SIMPLE_DISC_SET_TABLE
     else if code = TOF_Run_Read_Temperature_Sensors then RUN_READ_TEMPERATURE_SENSORS
     else if code = TOF_Run_Acquire_Threshold_Calibration then RUN_ACQUIRE_THRESHOLD_CALIBRATION
     else if code = TOF_Run_Acquire_TDC_Calibration then RUN_ACQUIRE_TDC_CALIBRATION
     else if code = TOF_Run_Acquire_QDC_Calibration then RUN_ACQUIRE_QDC_CALIBRATION
     else if code = TOF_Run_Acquire_SiPM_Data then RUN_ACQUIRE_SIPM_DATA
     else if code = TOF_Run_Acquire_Threshold_Calibration_BN then RUN_ACQUIRE_THRESHOLD_CALIBRATION_BN
     else if code = TOF_Run_Acquire_Threshold_Calibration_D then RUN_ACQUIRE_THRESHOLD_CALIBRATION_D
     else if code = TOF_Run_Process_Threshold_Calibration then RUN_PROCESS_THRESHOLD_CALIBRATION
     else if code = TOF_Run_Process_TDC_Calibration then RUN_PROCESS_TDC_CALIBRATION
     else if code = TOF_Run_Process_QDC_Calibration then RUN_PROCESS_QDC_CALIBRATION
     else if code = TOF_Run_Convert_Raw_To_Raw then RUN_CONVERT_RAW_TO_RAW
     else if code = TOF_Run_Convert_Raw_To_Singles then RUN_CONVERT_RAW_TO_SINGLES
     else if code = TOF_ACK then ACK
     else if code = TOF_Callback then CALLBACK
     else if code = TOF_DummyTest then DUMMY_TEST
     else if code = COM_HeartBeat then HEART_BEAT
     else UNKNOWN)"
section \<open>Facts about the vocabulary\<close>

text \<open>
  No two enumerators of \<open>CommunicationCodes\<close> share a name or a value, and the mask test
  \<open>isSubsystem\<close> with the TOF mask selects exactly the enumerators declared for the TOF.
\<close>

theorem communication_codes_partition:
  "distinct (map fst CommunicationCodes) \<and> distinct (map snd CommunicationCodes) \<and>
   filter (\<lambda>(n, c). isSubsystem c COM_SUBSYSTEM_TOF_MSK) CommunicationCodes = tof_codes"
  by code_simp

lemma toCommCode_value: "c \<noteq> UNKNOWN \<Longrightarrow> toCommCode c = tof_value c"
  by (cases c) (simp_all add: code_values)

lemma toTOFCommand_tof_value:
  "toTOFCommand (tof_value c) = (if c = STATUS then UNKNOWN else c)"
  by (cases c) (simp_all add: toTOFCommand_def code_values)

text \<open>
  The bridge is faithful: for every command other than \<open>STATUS\<close> and \<open>UNKNOWN\<close> the wire code
  is the enumerator's own value and converting back gives the command; a \<open>TOF_Status\<close> code is
  not recognised (\<open>UNKNOWN\<close>), and \<open>UNKNOWN\<close> itself goes out as \<open>TOF_Status\<close>.
\<close>

theorem bridge_roundtrip:
  "(toTOFCommand (toCommCode c) = c \<longleftrightarrow> c \<noteq> STATUS) \<and>
   (toCommCode c = tof_value c \<longleftrightarrow> c \<noteq> UNKNOWN) \<and>
   toTOFCommand TOF_Status = UNKNOWN \<and> toCommCode UNKNOWN = TOF_Status"
  by (cases c) (simp_all add: toTOFCommand_def code_values)

lemma toTOFCommand_known:
  assumes "toTOFCommand w \<noteq> UNKNOWN"
  shows "tof_value (toTOFCommand w) = w"
  using assms by (simp add: toTOFCommand_def code_values split: if_splits)

section \<open>Enumerators are ordered by their value\<close>

lemma inj_tof_value: "inj tof_value"
proof (rule injI)
  fix a b :: TOFCommandCode
  assume "tof_value a = tof_value b"
  then show "a = b"
    by (cases a; cases b; simp)
qed

lemma tof_value_eq_iff [simp]: "tof_value a = tof_value b \<longleftrightarrow> a = b"
  using inj_tof_value by (auto dest: injD)

instantiation TOFCommandCode :: linorder
begin

definition less_eq_TOFCommandCode :: "TOFCommandCode \<Rightarrow> TOFCommandCode \<Rightarrow> bool" where
  "less_eq_TOFCommandCode a b = (tof_value a \<le> tof_value b)"

definition less_TOFCommandCode :: "TOFCommandCode \<Rightarrow> TOFCommandCode \<Rightarrow> bool" where
  "less_TOFCommandCode a b = (tof_value a < tof_value b)"

instance
  by standard
    (auto simp: less_eq_TOFCommandCode_def less_TOFCommandCode_def order_less_le)

end

end
