(* ===== verification/Codec.thy ===== *)
theory Codec
  imports CommandCodes "HOL-Library.Monad_Syntax"
begin

text \<open>
  The packet codec, \<^verbatim>\<open>FlightOps/src/GRAMS_TOF_CommandCodec.cpp\<close>: big-endian field
  access, the two CRC-16 routines, \<open>parse\<close>, \<open>serialize\<close> and \<open>getPacketSize\<close>.

  Reading through a raw pointer is an \<open>option\<close>: \<open>None\<close> is a read outside the array
  (undefined behaviour in C++). So \<open>parse\<close> has an outer option for the memory access and an
  inner one for its \<open>bool\<close> result with the out parameter; \<open>serialize\<close> is \<open>None\<close> where it
  reads \<^verbatim>\<open>argv[i]\<close> past the end of the vector. Logging is not modelled.
\<close>

section \<open>Packets and field access\<close>

record Packet =
  pkt_code :: u16
  pkt_argc :: u16
  pkt_argv :: "i32 list"

definition read16 :: "u8 list \<Rightarrow> nat \<Rightarrow> u16 option" where
  "read16 d p = do {
     b0 \<leftarrow> at d p;
     b1 \<leftarrow> at d (p + 1);
     Some (push_bit 8 (ucast b0) OR ucast b1) }"

definition read32 :: "u8 list \<Rightarrow> nat \<Rightarrow> i32 option" where
  "read32 d p = do {
     b0 \<leftarrow> at d p;
     b1 \<leftarrow> at d (p + 1);
     b2 \<leftarrow> at d (p + 2);
     b3 \<leftarrow> at d (p + 3);
     Some (push_bit 24 (ucast b0) OR push_bit 16 (ucast b1) OR push_bit 8 (ucast b2) OR ucast b3) }"

definition write16 :: "u8 list \<Rightarrow> u16 \<Rightarrow> u8 list" where
  "write16 buf val = (buf @ [ucast (drop_bit 8 val AND 0xFF)]) @ [ucast (val AND 0xFF)]"

text \<open>\<open>val\<close> is an \<^verbatim>\<open>int32_t\<close>: its right shifts are arithmetic.\<close>

definition write32 :: "u8 list \<Rightarrow> i32 \<Rightarrow> u8 list" where
  "write32 buf val =
     buf @ [ucast (signed_drop_bit 24 val AND 0xFF), ucast (signed_drop_bit 16 val AND 0xFF),
            ucast (signed_drop_bit 8 val AND 0xFF), ucast (val AND 0xFF)]"

section \<open>CRC routines\<close>

definition crc_step_1021 :: "u16 \<Rightarrow> u16" where
  "crc_step_1021 crc = (if crc AND 0x8000 \<noteq> 0 then push_bit 1 crc XOR 0x1021 else push_bit 1 crc)"

definition crc_byte_1021 :: "u16 \<Rightarrow> u8 \<Rightarrow> u16" where
  "crc_byte_1021 crc b = (crc_step_1021 ^^ 8) (crc XOR push_bit 8 (ucast b))"

definition computeCRC16_CCITT_1021 :: "u8 list \<Rightarrow> nat \<Rightarrow> u16" where
  "computeCRC16_CCITT_1021 data len = foldl crc_byte_1021 0xFFFF (take len data)"

definition crc_step_8408 :: "u16 \<Rightarrow> u16" where
  "crc_step_8408 crc = (if crc AND 1 \<noteq> 0 then drop_bit 1 crc XOR 0x8408 else drop_bit 1 crc)"

definition crc_byte_8408 :: "u16 \<Rightarrow> u8 \<Rightarrow> u16" where
  "crc_byte_8408 crc b = (crc_step_8408 ^^ 8) (crc XOR ucast b)"

definition computeCRC16_CCITT_8408 :: "u8 list \<Rightarrow> nat \<Rightarrow> u16" where
  "computeCRC16_CCITT_8408 data len = foldl crc_byte_8408 0x0000 (take len data)"

section \<open>Parsing and serialising\<close>

definition MAX_ARGC :: nat where "MAX_ARGC = 32"
definition SIZE_MAX :: nat where "SIZE_MAX = 2 ^ 64 - 1"

definition parse :: "u8 list \<Rightarrow> Packet option option" where
  "parse data =
    (if length data < 12 then Some None else do {
       header1 \<leftarrow> read16 data 0;
       header2 \<leftarrow> read16 data 2;
       if header1 \<noteq> 0xEB90 \<or> header2 \<noteq> 0x5B6A then Some None else do {
       code \<leftarrow> read16 data 4;
       argc \<leftarrow> read16 data 6;
       if unat argc > MAX_ARGC then Some None
       else if unat argc > (SIZE_MAX - 8) div 4 then Some None
       else let payloadSize = 8 + unat argc * 4 in
         if payloadSize > SIZE_MAX - 6 then Some None
         else let expectedSize = payloadSize + 2 + 2 + 2 in
           if length data < expectedSize then Some None else do {
           receivedCRC \<leftarrow> read16 data payloadSize;
           let computedCRC = computeCRC16_CCITT_8408 data payloadSize;
           if receivedCRC \<noteq> computedCRC then Some None else do {
           footer1 \<leftarrow> read16 data (payloadSize + 2);
           footer2 \<leftarrow> read16 data (payloadSize + 4);
           if footer1 \<noteq> 0xC5A4 \<or> footer2 \<noteq> 0xD279 then Some None else do {
           args \<leftarrow> those (map (\<lambda>i. read32 data (8 + i * 4)) [0..<unat argc]);
           Some (Some \<lparr>pkt_code = code, pkt_argc = argc, pkt_argv = args\<rparr>) }}}}})"

definition serialize :: "Packet \<Rightarrow> u16 option \<Rightarrow> u8 list option" where
  "serialize pkt fixedCrc = do {
     let buf = write16 [] 0xEB90;
     let buf = write16 buf 0x5B6A;
     let buf = write16 buf (pkt_code pkt);
     let buf = write16 buf (pkt_argc pkt);
     args \<leftarrow> those (map (at (pkt_argv pkt)) [0..<unat (pkt_argc pkt)]);
     let buf = foldl write32 buf args;
     let crc = (case fixedCrc of Some c \<Rightarrow> c
                | None \<Rightarrow> computeCRC16_CCITT_8408 buf (length buf));
     let buf = write16 buf crc;
     let buf = write16 buf 0xC5A4;
     Some (write16 buf 0xD279) }"

definition getPacketSize :: "Packet \<Rightarrow> nat" where
  "getPacketSize packet = 14 + unat (pkt_argc packet) * 4"

section \<open>Fixed-width encoders\<close>

definition enc16 :: "u16 \<Rightarrow> u8 list" where
  "enc16 v = [ucast (drop_bit 8 v AND 0xFF), ucast (v AND 0xFF)]"

definition enc32 :: "i32 \<Rightarrow> u8 list" where
  "enc32 v = [ucast (signed_drop_bit 24 v AND 0xFF), ucast (signed_drop_bit 16 v AND 0xFF),
              ucast (signed_drop_bit 8 v AND 0xFF), ucast (v AND 0xFF)]"

lemma write16_enc16: "write16 buf v = buf @ enc16 v"
  by (simp add: write16_def enc16_def)

lemma write32_enc32: "write32 buf v = buf @ enc32 v"
  by (simp add: write32_def enc32_def)

lemma length_enc16 [simp]: "length (enc16 v) = 2"
  by (simp add: enc16_def)

lemma length_enc32 [simp]: "length (enc32 v) = 4"
  by (simp add: enc32_def)

lemma foldl_write32: "foldl write32 buf vs = buf @ concat (map enc32 vs)"
  by (induction vs arbitrary: buf) (simp_all add: write32_enc32)

lemma length_concat_enc32 [simp]: "length (concat (map enc32 vs)) = 4 * length vs"
  by (induction vs) simp_all

lemma and_0xFF_u16: "(w :: u16) AND 0xFF = take_bit 8 w"
  by (simp add: take_bit_eq_mask mask_numeral)

lemma and_0xFF_u32: "(w :: u32) AND 0xFF = take_bit 8 w"
  by (simp add: take_bit_eq_mask mask_numeral)

lemma bit_u8_bound: "bit (w :: u8) n \<Longrightarrow> n < 8"
  using bit_imp_le_length [of w n] by simp

lemma bit_u8_beyond: "8 \<le> k \<Longrightarrow> \<not> bit (w :: u8) (k + n)"
  by (auto dest: bit_u8_bound)

lemma bit_u16_bound: "bit (w :: u16) n \<Longrightarrow> n < 16"
  using bit_imp_le_length [of w n] by simp

lemma bit_u32_bound: "bit (w :: u32) n \<Longrightarrow> n < 32"
  using bit_imp_le_length [of w n] by simp

lemma dec16_enc16:
  "push_bit 8 (ucast (ucast (drop_bit 8 v AND 0xFF) :: u8)) OR ucast (ucast (v AND 0xFF) :: u8) = (v :: u16)"
  unfolding and_0xFF_u16
  by (rule bit_word_eqI) (auto simp: bit_simps dest: bit_u16_bound)

lemma dec32_enc32:
  "push_bit 24 (ucast (ucast (signed_drop_bit 24 v AND 0xFF) :: u8))
     OR push_bit 16 (ucast (ucast (signed_drop_bit 16 v AND 0xFF) :: u8))
     OR push_bit 8 (ucast (ucast (signed_drop_bit 8 v AND 0xFF) :: u8))
     OR ucast (ucast (v AND 0xFF) :: u8) = (v :: i32)"
  unfolding and_0xFF_u32
proof (rule bit_word_eqI)
  fix n assume "n < LENGTH(32)"
  then consider "n < 8" | "8 \<le> n" "n < 16" | "16 \<le> n" "n < 24" | "24 \<le> n" "n < 32" by force
  then show "bit (push_bit 24 (ucast (ucast (take_bit 8 (signed_drop_bit 24 v)) :: u8))
     OR push_bit 16 (ucast (ucast (take_bit 8 (signed_drop_bit 16 v)) :: u8))
     OR push_bit 8 (ucast (ucast (take_bit 8 (signed_drop_bit 8 v)) :: u8))
     OR ucast (ucast (take_bit 8 v) :: u8) :: i32) n = bit v n"
    by cases (auto simp: bit_simps)
qed

lemma enc16_dec16: "enc16 (push_bit 8 (ucast a) OR ucast b) = [a, b]"
  unfolding enc16_def and_0xFF_u16
  by (auto intro!: bit_word_eqI simp: bit_simps dest: bit_u8_bound)

lemma enc32_dec32:
  "enc32 (push_bit 24 (ucast a) OR push_bit 16 (ucast b) OR push_bit 8 (ucast c) OR ucast d) = [a, b, c, d]"
  unfolding enc32_def and_0xFF_u32
  by (auto intro!: bit_word_eqI simp: bit_simps bit_u8_beyond)


section \<open>Reading back what was written\<close>

lemma read16_at_enc16 [wire_simps]: "read16 (xs @ enc16 v @ ys) (length xs) = Some v"
proof -
  have "at (xs @ enc16 v @ ys) (length xs) = Some (ucast (drop_bit 8 v AND 0xFF))"
    and "at (xs @ enc16 v @ ys) (length xs + 1) = Some (ucast (v AND 0xFF))"
    using at_append_right [of xs "enc16 v @ ys" 0] at_append_right [of xs "enc16 v @ ys" 1]
    by (simp_all add: enc16_def)
  then show ?thesis by (simp add: read16_def dec16_enc16)
qed

lemma read32_at_enc32 [wire_simps]: "read32 (xs @ enc32 v @ ys) (length xs) = Some v"
proof -
  have "at (xs @ enc32 v @ ys) (length xs + k) = at (enc32 v @ ys) k" for k
    by (rule at_append_right)
  from this [of 0] this [of 1] this [of 2] this [of 3] show ?thesis
    by (simp add: read32_def enc32_def dec32_enc32)
qed

lemma read16_at: "length xs = k \<Longrightarrow> read16 (xs @ enc16 v @ ys) k = Some v"
  using read16_at_enc16 by blast

lemma read32_at: "length xs = k \<Longrightarrow> read32 (xs @ enc32 v @ ys) k = Some v"
  using read32_at_enc32 by blast

lemma read16_Some: "p + 1 < length d \<Longrightarrow> read16 d p = Some (push_bit 8 (ucast (d ! p)) OR ucast (d ! (p + 1)))"
  by (simp add: read16_def)

lemma read16_ex: "p + 1 < length d \<Longrightarrow> \<exists>v. read16 d p = Some v"
  by (simp add: read16_Some)

lemma read32_Some: "p + 3 < length d \<Longrightarrow> \<exists>v. read32 d p = Some v"
  by (simp add: read32_def)

lemma enc16_read16: "read16 d p = Some v \<Longrightarrow> take 2 (drop p d) = enc16 v"
  by (auto simp: read16_def at_eq_Some_iff enc16_dec16 bind_eq_Some_conv
      intro!: nth_equalityI simp: less_2_cases_iff)

lemma enc32_read32: "read32 d p = Some v \<Longrightarrow> take 4 (drop p d) = enc32 v"
proof -
  assume "read32 d p = Some v"
  then obtain "p + 3 < length d" and v: "v = push_bit 24 (ucast (d ! p)) OR push_bit 16 (ucast (d ! (p + 1)))
      OR push_bit 8 (ucast (d ! (p + 2))) OR ucast (d ! (p + 3))"
    by (auto simp: read32_def at_eq_Some_iff bind_eq_Some_conv)
  have "take 4 (drop p d) = [d ! p, d ! (p + 1), d ! (p + 2), d ! (p + 3)]"
  proof (rule nth_equalityI)
    show "length (take 4 (drop p d)) = length [d ! p, d ! (p + 1), d ! (p + 2), d ! (p + 3)]"
      using \<open>p + 3 < length d\<close> by simp
    fix i assume "i < length (take 4 (drop p d))"
    then have "i = 0 \<or> i = 1 \<or> i = 2 \<or> i = 3" by auto
    then show "take 4 (drop p d) ! i = [d ! p, d ! (p + 1), d ! (p + 2), d ! (p + 3)] ! i"
      using \<open>p + 3 < length d\<close> by auto
  qed
  also have "\<dots> = enc32 v" by (simp add: v enc32_dec32)
  finally show ?thesis .
qed

lemma those_map_Some: "(\<And>i. i \<in> set is \<Longrightarrow> f i = Some (g i)) \<Longrightarrow> those (map f is) = Some (map g is)"
  by (induction "is") auto

lemma those_eq_Some_D: "those xs = Some ys \<Longrightarrow> xs = map Some ys"
  by (induction xs arbitrary: ys) (auto split: option.splits)

lemma those_eq_None_iff: "those xs = None \<longleftrightarrow> None \<in> set xs"
  by (induction xs) (auto split: option.splits)


section \<open>The shape of a packet on the wire\<close>

definition payload :: "Packet \<Rightarrow> u8 list" where
  "payload p = enc16 0xEB90 @ enc16 0x5B6A @ enc16 (pkt_code p) @ enc16 (pkt_argc p)
     @ concat (map enc32 (pkt_argv p))"

definition packet_crc :: "Packet \<Rightarrow> u16" where
  "packet_crc p = computeCRC16_CCITT_8408 (payload p) (length (payload p))"

definition frame_bytes :: "Packet \<Rightarrow> u16 \<Rightarrow> u8 list" where
  "frame_bytes p crc = payload p @ enc16 crc @ enc16 0xC5A4 @ enc16 0xD279"

text \<open>A packet that \<open>parse\<close> can produce: the count field is the length and is in bounds.\<close>

definition wf_packet :: "Packet \<Rightarrow> bool" where
  "wf_packet p \<longleftrightarrow> length (pkt_argv p) = unat (pkt_argc p) \<and> unat (pkt_argc p) \<le> MAX_ARGC"

definition wire :: "u16 \<Rightarrow> u16 \<Rightarrow> u16 \<Rightarrow> u16 \<Rightarrow> i32 list \<Rightarrow> u16 \<Rightarrow> u16 \<Rightarrow> u16 \<Rightarrow> u8 list \<Rightarrow> u8 list" where
  "wire h1 h2 c n args crc f1 f2 rest =
     enc16 h1 @ enc16 h2 @ enc16 c @ enc16 n @ concat (map enc32 args)
       @ enc16 crc @ enc16 f1 @ enc16 f2 @ rest"

lemma length_wire [simp]: "length (wire h1 h2 c n args crc f1 f2 rest) = 14 + 4 * length args + length rest"
  by (simp add: wire_def)

lemma length_payload [simp]: "length (payload p) = 8 + 4 * length (pkt_argv p)"
  by (simp add: payload_def)

lemma length_frame_bytes [simp]: "length (frame_bytes p crc) = 14 + 4 * length (pkt_argv p)"
  by (simp add: frame_bytes_def)

lemma wire_frame_bytes:
  "wire 0xEB90 0x5B6A c n args crc 0xC5A4 0xD279 rest =
     frame_bytes \<lparr>pkt_code = c, pkt_argc = n, pkt_argv = args\<rparr> crc @ rest"
  by (simp add: wire_def frame_bytes_def payload_def)

lemma wire_read_header:
  "read16 (wire h1 h2 c n args crc f1 f2 rest) 0 = Some h1"
  "read16 (wire h1 h2 c n args crc f1 f2 rest) 2 = Some h2"
  "read16 (wire h1 h2 c n args crc f1 f2 rest) 4 = Some c"
  "read16 (wire h1 h2 c n args crc f1 f2 rest) 6 = Some n"
  using read16_at [of "[]" 0 h1] read16_at [of "enc16 h1" 2 h2]
    read16_at [of "enc16 h1 @ enc16 h2" 4 c] read16_at [of "enc16 h1 @ enc16 h2 @ enc16 c" 6 n]
  by (simp_all add: wire_def)

lemma wire_read_trailer:
  assumes "length args = k"
  shows "read16 (wire h1 h2 c n args crc f1 f2 rest) (8 + k * 4) = Some crc"
    and "read16 (wire h1 h2 c n args crc f1 f2 rest) (8 + k * 4 + 2) = Some f1"
    and "read16 (wire h1 h2 c n args crc f1 f2 rest) (8 + k * 4 + 4) = Some f2"
proof -
  let ?p = "enc16 h1 @ enc16 h2 @ enc16 c @ enc16 n @ concat (map enc32 args)"
  have w: "wire h1 h2 c n args crc f1 f2 rest = ?p @ enc16 crc @ enc16 f1 @ enc16 f2 @ rest"
    "wire h1 h2 c n args crc f1 f2 rest = (?p @ enc16 crc) @ enc16 f1 @ enc16 f2 @ rest"
    "wire h1 h2 c n args crc f1 f2 rest = (?p @ enc16 crc @ enc16 f1) @ enc16 f2 @ rest"
    by (simp_all add: wire_def)
  show "read16 (wire h1 h2 c n args crc f1 f2 rest) (8 + k * 4) = Some crc"
    unfolding w(1) by (rule read16_at) (simp add: assms)
  show "read16 (wire h1 h2 c n args crc f1 f2 rest) (8 + k * 4 + 2) = Some f1"
    unfolding w(2) by (rule read16_at) (simp add: assms)
  show "read16 (wire h1 h2 c n args crc f1 f2 rest) (8 + k * 4 + 4) = Some f2"
    unfolding w(3) by (rule read16_at) (simp add: assms)
qed

lemma wire_read_arg:
  assumes "i < length args"
  shows "read32 (wire h1 h2 c n args crc f1 f2 rest) (8 + i * 4) = Some (args ! i)"
proof -
  let ?pre = "enc16 h1 @ enc16 h2 @ enc16 c @ enc16 n @ concat (map enc32 (take i args))"
  let ?post = "concat (map enc32 (drop (Suc i) args)) @ enc16 crc @ enc16 f1 @ enc16 f2 @ rest"
  have "concat (map enc32 args) = concat (map enc32 (take i args @ args ! i # drop (Suc i) args))"
    using assms by (simp flip: id_take_nth_drop)
  then have "wire h1 h2 c n args crc f1 f2 rest = ?pre @ enc32 (args ! i) @ ?post"
    by (simp add: wire_def)
  moreover have "read32 (?pre @ enc32 (args ! i) @ ?post) (8 + i * 4) = Some (args ! i)"
    by (rule read32_at) (use assms in simp)
  ultimately show ?thesis by simp
qed

lemma wire_take_payload:
  "take (8 + 4 * length args) (wire h1 h2 c n args crc f1 f2 rest) =
     enc16 h1 @ enc16 h2 @ enc16 c @ enc16 n @ concat (map enc32 args)"
proof -
  have "wire h1 h2 c n args crc f1 f2 rest =
      (enc16 h1 @ enc16 h2 @ enc16 c @ enc16 n @ concat (map enc32 args))
        @ (enc16 crc @ enc16 f1 @ enc16 f2 @ rest)"
    by (simp add: wire_def)
  moreover have "length (enc16 h1 @ enc16 h2 @ enc16 c @ enc16 n @ concat (map enc32 args)) = 8 + 4 * length args"
    by simp
  ultimately show ?thesis by (metis append_eq_conv_conj)
qed

lemma parse_wire:
  assumes "length args = unat n" and "unat n \<le> MAX_ARGC"
  shows "parse (wire h1 h2 c n args crc f1 f2 rest) =
    Some (if h1 = 0xEB90 \<and> h2 = 0x5B6A \<and>
             crc = packet_crc \<lparr>pkt_code = c, pkt_argc = n, pkt_argv = args\<rparr> \<and> f1 = 0xC5A4 \<and> f2 = 0xD279
          then Some \<lparr>pkt_code = c, pkt_argc = n, pkt_argv = args\<rparr> else None)"
proof -
  let ?d = "\<lambda>h1 h2. wire h1 h2 c n args crc f1 f2 rest"
  have args: "those (map (\<lambda>i. read32 (?d h1 h2) (8 + i * 4)) [0..<unat n]) = Some args" for h1 h2
    using assms(1) wire_read_arg [of _ args]
    by (subst those_map_Some [where g = "(!) args"]) (simp_all flip: assms(1) add: map_nth)
  have crc: "computeCRC16_CCITT_8408 (?d 0xEB90 0x5B6A) (8 + unat n * 4) =
      packet_crc \<lparr>pkt_code = c, pkt_argc = n, pkt_argv = args\<rparr>"
    using assms(1) wire_take_payload [of args]
    by (simp add: packet_crc_def computeCRC16_CCITT_8408_def payload_def mult.commute)
  have bounds: "\<not> length (?d h1 h2) < 12" "\<not> unat n > MAX_ARGC" "\<not> unat n > (SIZE_MAX - 8) div 4"
    "\<not> 8 + unat n * 4 > SIZE_MAX - 6" "\<not> length (?d h1 h2) < 8 + unat n * 4 + 2 + 2 + 2" for h1 h2
    using assms by (simp_all add: MAX_ARGC_def SIZE_MAX_def)
  show ?thesis
  proof (cases "h1 = 0xEB90 \<and> h2 = 0x5B6A")
    case True
    then show ?thesis
      unfolding parse_def Let_def using bounds
      by (auto simp only: wire_read_header wire_read_trailer [OF assms(1)] args crc if_True if_False
          Option.bind.simps simp_thms split: if_splits)
  next
    case False
    then show ?thesis
      unfolding parse_def using bounds
      by (auto simp only: wire_read_header if_True if_False Option.bind.simps simp_thms split: if_splits)
  qed
qed

lemma serialize_eq:
  "serialize p f =
    (if unat (pkt_argc p) \<le> length (pkt_argv p)
     then let q = p\<lparr>pkt_argv := take (unat (pkt_argc p)) (pkt_argv p)\<rparr>
          in Some (frame_bytes q (case f of Some c \<Rightarrow> c | None \<Rightarrow> packet_crc q))
     else None)"
proof (cases "unat (pkt_argc p) \<le> length (pkt_argv p)")
  case True
  then have "those (map (at (pkt_argv p)) [0..<unat (pkt_argc p)]) = Some (take (unat (pkt_argc p)) (pkt_argv p))"
    by (subst those_map_Some [where g = "(!) (pkt_argv p)"]) (auto intro: nth_equalityI)
  with True show ?thesis
    by (simp add: serialize_def write16_enc16 foldl_write32 frame_bytes_def payload_def packet_crc_def
        Let_def split: option.split)
next
  case False
  then have "None \<in> set (map (at (pkt_argv p)) [0..<unat (pkt_argc p)])"
    by (auto intro!: image_eqI [where x = "length (pkt_argv p)"])
  with False show ?thesis
    by (simp add: serialize_def those_eq_None_iff [THEN iffD2] Let_def)
qed

section \<open>Every long enough byte string is a wire frame\<close>

lemma chunk16: "p + 1 < length d \<Longrightarrow> \<exists>v. drop p d = enc16 v @ drop (p + 2) d"
proof -
  assume len: "p + 1 < length d"
  then have "take 2 (drop p d) = enc16 (push_bit 8 (ucast (d ! p)) OR ucast (d ! (p + 1)))"
    by (intro enc16_read16 read16_Some)
  then show ?thesis
    by (metis append_take_drop_id drop_drop add.commute)
qed

lemma chunk32: "p + 3 < length d \<Longrightarrow> \<exists>v. drop p d = enc32 v @ drop (p + 4) d"
  by (metis append_take_drop_id drop_drop add.commute enc32_read32 read32_Some)

lemma chunk32s:
  "p + 4 * k \<le> length d \<Longrightarrow> \<exists>args. length args = k \<and> drop p d = concat (map enc32 args) @ drop (p + 4 * k) d"
proof (induction k arbitrary: p)
  case 0
  then show ?case by simp
next
  case (Suc k)
  from Suc.prems obtain v where v: "drop p d = enc32 v @ drop (p + 4) d"
    using chunk32 [of p d] by auto
  from Suc.prems obtain args where "length args = k"
    and "drop (p + 4) d = concat (map enc32 args) @ drop (p + 4 + 4 * k) d"
    using Suc.IH [of "p + 4"] by auto
  with v show ?case
    by (intro exI [where x = "v # args"]) (simp add: algebra_simps)
qed

lemma wire_of_bytes:
  assumes "14 + 4 * k \<le> length d"
  obtains h1 h2 c n args crc f1 f2 where "length args = k"
    and "d = wire h1 h2 c n args crc f1 f2 (drop (14 + 4 * k) d)"
proof -
  have len: "0 + 1 < length d" "2 + 1 < length d" "4 + 1 < length d" "6 + 1 < length d"
    using assms by simp_all
  obtain h1 where "d = enc16 h1 @ drop 2 d" using chunk16 [OF len(1)] by (metis add_0 drop0)
  moreover obtain h2 where "drop 2 d = enc16 h2 @ drop 4 d" using chunk16 [OF len(2)] by auto
  moreover obtain c where "drop 4 d = enc16 c @ drop 6 d" using chunk16 [OF len(3)] by auto
  moreover obtain n where "drop 6 d = enc16 n @ drop 8 d" using chunk16 [OF len(4)] by auto
  moreover obtain args where "length args = k" "drop 8 d = concat (map enc32 args) @ drop (8 + 4 * k) d"
    using chunk32s [of 8 k d] assms by auto
  moreover obtain crc f1 f2 where "drop (8 + 4 * k) d = enc16 crc @ drop (10 + 4 * k) d"
    "drop (10 + 4 * k) d = enc16 f1 @ drop (12 + 4 * k) d"
    "drop (12 + 4 * k) d = enc16 f2 @ drop (14 + 4 * k) d"
    using chunk16 [of "8 + 4 * k" d] chunk16 [of "10 + 4 * k" d] chunk16 [of "12 + 4 * k" d] assms
    by (auto simp: algebra_simps)
  ultimately show ?thesis
    by (intro that [of args h1 h2 c n crc f1 f2]) (simp_all add: wire_def)
qed

lemma parse_short: "length data < 12 \<Longrightarrow> parse data = Some None"
  by (simp add: parse_def)

lemma parse_incomplete:
  assumes "12 \<le> length data" and "read16 data 6 = Some n" and "MAX_ARGC < unat n \<or> length data < 14 + 4 * unat n"
  shows "parse data = Some None"
proof -
  from assms(1) obtain h1 h2 c where "read16 data 0 = Some h1" "read16 data 2 = Some h2" "read16 data 4 = Some c"
    using read16_ex [of 0 data] read16_ex [of 2 data] read16_ex [of 4 data] by auto
  with assms show ?thesis
    by (auto simp: parse_def Let_def)
qed

lemma parse_cases:
  obtains (rejected) "parse data = Some None"
    | (framed) h1 h2 c n args crc f1 f2 where "length args = unat n" "unat n \<le> MAX_ARGC"
      "data = wire h1 h2 c n args crc f1 f2 (drop (14 + 4 * unat n) data)"
proof -
  show ?thesis
  proof (cases "length data < 12")
    case True
    then show ?thesis by (auto intro: rejected parse_short)
  next
    case False
    then obtain n where n: "read16 data 6 = Some n"
      using read16_ex [of 6 data] by auto
    show ?thesis
    proof (cases "unat n \<le> MAX_ARGC \<and> 14 + 4 * unat n \<le> length data")
      case True
      then obtain h1 h2 c n' args crc f1 f2 where w: "length args = unat n"
        "data = wire h1 h2 c n' args crc f1 f2 (drop (14 + 4 * unat n) data)"
        by (auto elim: wire_of_bytes)
      from w(2) have "read16 data 6 = Some n'"
        using wire_read_header(4) by metis
      with n w True show ?thesis by (auto intro: framed)
    next
      case nf: False
      have "parse data = Some None"
        by (rule parse_incomplete [OF _ n]) (use False nf in auto)
      then show ?thesis by (rule rejected)
    qed
  qed
qed

lemma parse_total: "\<exists>r. parse data = Some r"
  by (rule parse_cases [of data]) (metis parse_wire)+

lemma parse_acceptedD:
  assumes "parse data = Some (Some p)"
  shows "wf_packet p \<and> (\<exists>rest. data = frame_bytes p (packet_crc p) @ rest)"
proof (rule parse_cases [of data])
  fix h1 h2 c n args crc f1 f2
  assume len: "length args = unat n" "unat n \<le> MAX_ARGC"
    and data: "data = wire h1 h2 c n args crc f1 f2 (drop (14 + 4 * unat n) data)"
  let ?q = "\<lparr>pkt_code = c, pkt_argc = n, pkt_argv = args\<rparr>"
  have "parse data = Some (if h1 = 0xEB90 \<and> h2 = 0x5B6A \<and> crc = packet_crc ?q \<and> f1 = 0xC5A4 \<and> f2 = 0xD279
      then Some ?q else None)"
    by (subst data) (rule parse_wire [OF len])
  with assms have eqs: "p = ?q" "h1 = 0xEB90" "h2 = 0x5B6A" "crc = packet_crc p" "f1 = 0xC5A4" "f2 = 0xD279"
    by (auto split: if_splits)
  have "data = frame_bytes p (packet_crc p) @ drop (14 + 4 * unat n) data"
    by (subst data) (simp only: eqs wire_frame_bytes)
  moreover have "wf_packet p" using eqs(1) len by (simp add: wf_packet_def)
  ultimately show ?thesis by blast
qed (use assms in simp)

lemma parse_frame_bytes:
  assumes "wf_packet p"
  shows "parse (frame_bytes p crc @ rest) = Some (if crc = packet_crc p then Some p else None)"
proof -
  obtain c n args where p: "p = \<lparr>pkt_code = c, pkt_argc = n, pkt_argv = args\<rparr>" by (cases p)
  then show ?thesis
    using parse_wire [of args n "0xEB90" "0x5B6A" c crc "0xC5A4" "0xD279" rest] assms
    by (simp add: wire_frame_bytes wf_packet_def)
qed

lemma serialize_wf: "wf_packet p \<Longrightarrow> serialize p f = Some (frame_bytes p (case f of Some c \<Rightarrow> c | None \<Rightarrow> packet_crc p))"
  by (simp add: serialize_eq wf_packet_def Let_def split: option.split)

lemma length_frame_wf: "wf_packet p \<Longrightarrow> 14 + 4 * length (pkt_argv p) = getPacketSize p"
  by (simp add: wf_packet_def getPacketSize_def)

section \<open>Correctness of the codec\<close>

text \<open>
  \<open>parse\<close> never reads outside the buffer it is given, whatever bytes arrive: every read is
  covered by one of its size checks.
\<close>

theorem parse_in_bounds: "parse data \<noteq> None"
  using parse_total [of data] by auto

text \<open>
  C32: \<open>parse\<close> accepts a buffer with packet \<open>p\<close> exactly when the buffer starts with the bytes
  \<open>serialize\<close> produces for \<open>p\<close> and \<open>p\<close> has as many arguments as its count field says, at most 32.
  So the accepted prefix determines the packet and the packet determines its prefix.
\<close>

theorem parse_accepts_iff:
  "parse data = Some (Some p) \<longleftrightarrow>
     wf_packet p \<and> (\<exists>bytes rest. serialize p None = Some bytes \<and> data = bytes @ rest)"
  using parse_acceptedD [of data p] parse_frame_bytes [of p "packet_crc p"] serialize_wf [of p None]
  by auto

text \<open>
  C2: \<open>serialize\<close> followed by \<open>parse\<close>, with any bytes after the packet, gives the packet back;
  the length is the one \<open>getPacketSize\<close> announces; and a packet sent with a fixed CRC is
  rejected by \<open>parse\<close> unless that CRC is the one of the payload.
\<close>

theorem serialize_parse_roundtrip:
  assumes "wf_packet p"
  shows "\<exists>bytes. serialize p f = Some bytes \<and> length bytes = getPacketSize p \<and>
    parse (bytes @ rest) =
      Some (case f of None \<Rightarrow> Some p | Some c \<Rightarrow> if c = packet_crc p then Some p else None)"
  using assms by (simp add: serialize_wf parse_frame_bytes length_frame_wf split: option.split)

definition example_packet :: Packet where
  "example_packet = \<lparr>pkt_code = 0x5109, pkt_argc = 2, pkt_argv = [60, 1]\<rparr>"

theorem serialize_parse_roundtrip_witness:
  "wf_packet example_packet \<and>
   (\<exists>bytes. serialize example_packet None = Some bytes \<and> parse (bytes @ [7]) = Some (Some example_packet))"
proof -
  have wf: "wf_packet example_packet"
    by (simp add: wf_packet_def example_packet_def MAX_ARGC_def)
  then show ?thesis
    using serialize_parse_roundtrip [OF wf, of None "[7]"] by auto
qed

text \<open>
  \<open>serialize\<close> reads the argument vector out of bounds exactly when the count field exceeds
  the number of arguments; otherwise it ignores arguments beyond the count.
\<close>

theorem serialize_faults_iff:
  "serialize p f = None \<longleftrightarrow> length (pkt_argv p) < unat (pkt_argc p)"
  by (simp add: serialize_eq Let_def not_le split: option.split)

end
