(* ===== verification/CrcDetection.thy ===== *)
theory CrcDetection
  imports Codec
begin

text \<open>
  What the CRC of the packet codec buys: \<open>crc_step_8408\<close> is linear over exclusive or and maps
  only 0 to 0, so corrupting any one byte of a frame (other than the two bytes of the argument
  count, which move the position of the CRC itself) makes \<open>parse\<close> reject the frame.
\<close>

section \<open>Linearity\<close>

lemma crc_step_8408_alt: "crc_step_8408 c = drop_bit 1 c XOR (if bit c 0 then 0x8408 else 0)"
  by (simp add: crc_step_8408_def and_one_eq bit_0 odd_iff_mod_2_eq_one)

lemma crc_step_8408_xor: "crc_step_8408 (x XOR y) = crc_step_8408 x XOR crc_step_8408 y"
  by (auto simp: crc_step_8408_alt drop_bit_xor bit_xor_iff ac_simps intro: bit_word_eqI)

lemma crc_step_8408_eq_0D:
  assumes "crc_step_8408 x = 0"
  shows "x = 0"
proof -
  have top: "\<not> bit (drop_bit 1 x) 15"
    by (auto simp: bit_drop_bit_eq dest: bit_u16_bound)
  have poly: "bit (0x8408 :: u16) 15" by code_simp
  have "\<not> bit (crc_step_8408 x) 15" by (simp add: assms)
  with top poly have low: "\<not> bit x 0"
    by (auto simp: crc_step_8408_alt bit_xor_iff split: if_splits)
  with assms have drop: "drop_bit 1 x = 0"
    by (simp add: crc_step_8408_alt)
  show "x = 0"
  proof (rule bit_word_eqI)
    fix n
    show "bit x n = bit 0 n"
    proof (cases n)
      case 0
      with low show ?thesis by simp
    next
      case (Suc m)
      have "bit x (Suc m) = bit (drop_bit 1 x) m" by (simp add: bit_drop_bit_eq)
      with drop Suc show ?thesis by simp
    qed
  qed
qed

lemma crc_iter_xor: "(crc_step_8408 ^^ n) (x XOR y) = (crc_step_8408 ^^ n) x XOR (crc_step_8408 ^^ n) y"
  by (induction n) (simp_all add: crc_step_8408_xor)

lemma crc_iter_eq_0D: "(crc_step_8408 ^^ n) x = 0 \<Longrightarrow> x = 0"
  by (induction n) (auto dest: crc_step_8408_eq_0D)

lemma crc_iter_inj: "(crc_step_8408 ^^ n) x = (crc_step_8408 ^^ n) y \<longleftrightarrow> x = y"
proof
  assume "(crc_step_8408 ^^ n) x = (crc_step_8408 ^^ n) y"
  then have "(crc_step_8408 ^^ n) (x XOR y) = 0" by (simp add: crc_iter_xor)
  then have "x XOR y = 0" by (rule crc_iter_eq_0D)
  then have "(x XOR y) XOR y = y" by simp
  then show "x = y" by (simp add: xor.assoc)
qed simp

lemma xor_left_cancel: "(c XOR x = c XOR y) = (x = (y :: u16))"
proof
  assume "c XOR x = c XOR y"
  then have "c XOR (c XOR x) = c XOR (c XOR y)" by (rule arg_cong)
  then show "x = y" by (simp flip: xor.assoc)
qed simp

lemma xor_right_cancel: "(x XOR c = y XOR c) = (x = (y :: u16))"
  using xor_left_cancel [of c x y] by (simp add: xor.commute)

lemma ucast_u8_u16_inj: "(ucast (a :: u8) :: u16) = ucast b \<longleftrightarrow> a = b"
  by (metis unat_ucast_up_u16 unsigned_word_eqI)

lemma crc_byte_8408_inj: "crc_byte_8408 c a = crc_byte_8408 c b \<longleftrightarrow> a = b"
  by (simp add: crc_byte_8408_def crc_iter_inj xor_left_cancel ucast_u8_u16_inj)

lemma crc_byte_8408_state_inj: "crc_byte_8408 c a = crc_byte_8408 c' a \<longleftrightarrow> c = c'"
  by (simp add: crc_byte_8408_def crc_iter_inj xor_right_cancel)

lemma crc_foldl_inj: "foldl crc_byte_8408 c xs = foldl crc_byte_8408 c' xs \<longleftrightarrow> c = c'"
  by (induction xs arbitrary: c c') (simp_all add: crc_byte_8408_state_inj)

lemma crc_one_byte:
  assumes "i < length xs" and "b \<noteq> xs ! i"
  shows "foldl crc_byte_8408 c (xs[i := b]) \<noteq> foldl crc_byte_8408 c xs"
proof -
  have "foldl crc_byte_8408 c xs = foldl crc_byte_8408 c (take i xs @ xs ! i # drop (Suc i) xs)"
    using assms(1) by (simp flip: id_take_nth_drop)
  with assms show ?thesis
    by (simp add: upd_conv_take_nth_drop crc_foldl_inj crc_byte_8408_inj)
qed

section \<open>Single-byte corruption\<close>

lemma packet_crc_payload: "packet_crc p = foldl crc_byte_8408 0 (payload p)"
  by (simp add: packet_crc_def computeCRC16_CCITT_8408_def)

lemma read16_update: "i \<noteq> p \<Longrightarrow> i \<noteq> p + 1 \<Longrightarrow> read16 (d[i := b]) p = read16 d p"
  by (simp add: read16_def at_def)

lemma read16_frame_argc: "read16 (frame_bytes p crc @ rest) 6 = Some (pkt_argc p)"
proof -
  have "frame_bytes p crc @ rest =
      wire 0xEB90 0x5B6A (pkt_code p) (pkt_argc p) (pkt_argv p) crc 0xC5A4 0xD279 rest"
    by (simp add: wire_def frame_bytes_def payload_def)
  then show ?thesis by (simp only: wire_read_header)
qed

lemma frame_update_differs:
  assumes len: "length (payload p) = length (payload q)" and i: "i < length (frame_bytes p (packet_crc p))"
    and eq: "(frame_bytes p (packet_crc p))[i := b] = frame_bytes q (packet_crc q)"
  shows "b = frame_bytes p (packet_crc p) ! i"
proof (cases "i < length (payload p)")
  case True
  with eq len have pay: "(payload p)[i := b] = payload q" and "enc16 (packet_crc p) = enc16 (packet_crc q)"
    by (simp_all add: frame_bytes_def list_update_append1 del: length_payload)
  then have "packet_crc p = packet_crc q"
    by (metis append_Nil2 append_Nil length_0_conv read16_at option.inject)
  with pay True have "b = payload p ! i"
    using crc_one_byte [of i "payload p" b 0] by (auto simp: packet_crc_payload)
  with True show ?thesis by (simp add: frame_bytes_def nth_append)
next
  case False
  with eq len have "payload p = payload q"
    by (simp add: frame_bytes_def list_update_append del: length_payload)
  then have "frame_bytes p (packet_crc p) = frame_bytes q (packet_crc q)"
    by (simp add: frame_bytes_def packet_crc_payload)
  with eq i show ?thesis by (metis nth_list_update_eq)
qed

text \<open>
  A frame accepted by \<open>parse\<close> is rejected (not misread) after any change of a single byte
  inside it, wherever the byte is, the two bytes of the argument count excepted.
\<close>

theorem parse_detects_byte_corruption:
  assumes "parse d = Some (Some p)" and "i < getPacketSize p" and "i \<notin> {6, 7}" and "b \<noteq> d ! i"
  shows "parse (d[i := b]) = Some None"
proof (rule ccontr)
  assume "parse (d[i := b]) \<noteq> Some None"
  then obtain q where q: "parse (d[i := b]) = Some (Some q)"
    using parse_total [of "d[i := b]"] by auto
  from parse_acceptedD [OF assms(1)] obtain rest
    where wf: "wf_packet p" and d: "d = frame_bytes p (packet_crc p) @ rest" by blast
  from parse_acceptedD [OF q] obtain rest'
    where wfq: "wf_packet q" and d': "d[i := b] = frame_bytes q (packet_crc q) @ rest'" by blast
  have i: "i < length (frame_bytes p (packet_crc p))"
    using assms(2) length_frame_wf [OF wf] by simp
  have "read16 (d[i := b]) 6 = read16 d 6"
    using assms(3) by (intro read16_update) auto
  then have "pkt_argc p = pkt_argc q"
    unfolding d' by (simp add: d read16_frame_argc)
  then have len: "length (payload p) = length (payload q)"
    using wf wfq by (simp add: wf_packet_def)
  have "(frame_bytes p (packet_crc p))[i := b] = frame_bytes q (packet_crc q)"
    using d' len i by (simp add: d list_update_append1)
  then have "b = d ! i"
    using frame_update_differs [OF len i] i by (simp add: d nth_append)
  with assms(4) show False by simp
qed

theorem parse_detects_byte_corruption_witness:
  "\<exists>bytes. serialize example_packet None = Some bytes \<and> parse (bytes[4 := 0]) = Some None"
proof -
  have wf: "wf_packet example_packet"
    by (simp add: wf_packet_def example_packet_def MAX_ARGC_def)
  let ?bytes = "frame_bytes example_packet (packet_crc example_packet)"
  have "parse ?bytes = Some (Some example_packet)"
    using parse_frame_bytes [OF wf, of _ "[]"] by simp
  moreover have "4 < getPacketSize example_packet"
    by (simp add: getPacketSize_def)
  moreover have "?bytes ! 4 = 0x51"
    by (simp add: frame_bytes_def payload_def enc16_def example_packet_def)
  ultimately have "parse (?bytes[4 := 0]) = Some None"
    by (intro parse_detects_byte_corruption) simp_all
  then show ?thesis
    using serialize_wf [OF wf, of None] by simp
qed

end
