(* ===== verification/StdMap.thy ===== *)
theory StdMap
  imports Prelude
begin

text \<open>
  The source's \<^verbatim>\<open>std::map\<close> as an association list with strictly increasing keys, in
  iteration order: lookup, insertion by \<^verbatim>\<open>operator[]\<close>, erasure by key. The interface
  \<open>keyed_store\<close> states the laws the clients rely on; it is interpreted on these operations.
\<close>

section \<open>Operations\<close>

type_synonym ('k, 'v) std_map = "('k \<times> 'v) list"

definition map_find :: "('k, 'v) std_map \<Rightarrow> 'k \<Rightarrow> 'v option" where
  "map_find m k = map_of m k"

fun map_put :: "'k::linorder \<Rightarrow> 'v \<Rightarrow> ('k, 'v) std_map \<Rightarrow> ('k, 'v) std_map" where
  "map_put k v [] = [(k, v)]"
| "map_put k v ((k', v') # m) =
     (if k < k' then (k, v) # (k', v') # m
      else if k = k' then (k, v) # m
      else (k', v') # map_put k v m)"

definition map_erase :: "'k \<Rightarrow> ('k, 'v) std_map \<Rightarrow> ('k, 'v) std_map" where
  "map_erase k m = filter (\<lambda>(k', _). k' \<noteq> k) m"

definition map_keys :: "('k, 'v) std_map \<Rightarrow> 'k list" where
  "map_keys m = map fst m"

definition map_ok :: "('k::linorder, 'v) std_map \<Rightarrow> bool" where
  "map_ok m \<longleftrightarrow> sorted_wrt (<) (map_keys m)"

section \<open>The interface\<close>

locale keyed_store =
  fixes find :: "'m \<Rightarrow> 'k \<Rightarrow> 'v option"
    and put :: "'k \<Rightarrow> 'v \<Rightarrow> 'm \<Rightarrow> 'm"
    and erase :: "'k \<Rightarrow> 'm \<Rightarrow> 'm"
    and keys :: "'m \<Rightarrow> 'k list"
    and ok :: "'m \<Rightarrow> bool"
  assumes find_put: "ok m \<Longrightarrow> find (put k v m) k' = (if k' = k then Some v else find m k')"
    and find_erase: "ok m \<Longrightarrow> find (erase k m) k' = (if k' = k then None else find m k')"
    and keys_find: "ok m \<Longrightarrow> k \<in> set (keys m) \<longleftrightarrow> find m k \<noteq> None"
    and ok_put: "ok m \<Longrightarrow> ok (put k v m)"
    and ok_erase: "ok m \<Longrightarrow> ok (erase k m)"
    and distinct_keys: "ok m \<Longrightarrow> distinct (keys m)"
begin

lemma keys_put: "ok m \<Longrightarrow> set (keys (put k v m)) = insert k (set (keys m))"
  by (auto simp: keys_find ok_put find_put split: if_splits)

lemma keys_erase: "ok m \<Longrightarrow> set (keys (erase k m)) = set (keys m) - {k}"
  by (auto simp: keys_find ok_erase find_erase split: if_splits)

lemma length_keys_put_new:
  assumes "ok m" and "find m k = None"
  shows "length (keys (put k v m)) = Suc (length (keys m))"
proof -
  have "length (keys (put k v m)) = card (set (keys (put k v m)))"
    using assms by (simp add: ok_put distinct_keys distinct_card)
  also have "\<dots> = card (insert k (set (keys m)))"
    using assms by (simp add: keys_put)
  also have "\<dots> = Suc (length (keys m))"
    using assms keys_find [of m k] by (simp add: distinct_keys distinct_card)
  finally show ?thesis .
qed

lemma put_put_same: "ok m \<Longrightarrow> find (put k v (put k w m)) = find (put k v m)"
  by (auto simp: find_put ok_put)

lemma erase_put_same: "ok m \<Longrightarrow> find m k = None \<Longrightarrow> find (erase k (put k v m)) = find m"
  by (auto simp: find_put find_erase ok_put)

end

section \<open>The association list implements it\<close>

lemma map_put_keys: "set (map fst (map_put k v m)) = insert k (set (map fst m))"
  by (induction k v m rule: map_put.induct) auto

lemma map_put_ok: "map_ok m \<Longrightarrow> map_ok (map_put k v m)"
proof (induction k v m rule: map_put.induct)
  case (2 k v k' v' m)
  then show ?case
    using map_put_keys [of k v m] by (auto simp: map_ok_def map_keys_def)
qed (simp add: map_ok_def map_keys_def)

lemma map_put_find: "map_ok m \<Longrightarrow> map_find (map_put k v m) k' = (if k' = k then Some v else map_find m k')"
proof (induction k v m rule: map_put.induct)
  case (2 k v k1 v1 m)
  then show ?case
    by (auto simp: map_ok_def map_keys_def map_find_def)
qed (simp add: map_find_def)

lemma map_erase_find: "map_find (map_erase k m) k' = (if k' = k then None else map_find m k')"
  by (induction m) (auto simp: map_find_def map_erase_def)

lemma map_erase_ok: "map_ok m \<Longrightarrow> map_ok (map_erase k m)"
  by (induction m) (auto simp: map_ok_def map_keys_def map_erase_def)

lemma map_keys_find: "k \<in> set (map_keys m) \<longleftrightarrow> map_find m k \<noteq> None"
  by (auto simp: map_keys_def map_find_def map_of_eq_None_iff)

lemma map_ok_distinct: "map_ok m \<Longrightarrow> distinct (map_keys m)"
  by (simp add: map_ok_def strict_sorted_iff)

interpretation sm: keyed_store map_find map_put map_erase map_keys map_ok
  by unfold_locales
    (auto simp: map_put_find map_erase_find map_keys_find map_put_ok map_erase_ok map_ok_distinct)

lemma map_ok_Nil [simp]: "map_ok []"
  by (simp add: map_ok_def map_keys_def)

lemma map_find_Nil [simp]: "map_find [] k = None"
  by (simp add: map_find_def)

lemmas std_map_simps = sm.find_put sm.find_erase sm.ok_put sm.ok_erase sm.keys_put sm.keys_erase

end
