(* ===== verification/FDManager.thy ===== *)
theory FDManager
  imports StdMap
begin

text \<open>
  File descriptor ownership: \<open>SafeFD\<close> and \<open>GRAMS_TOF_FDManager\<close>
  (\<^verbatim>\<open>include/GRAMS_TOF_FDManager.h\<close>, \<^verbatim>\<open>src/GRAMS_TOF_FDManager.cpp\<close>) and the connection
  object \<open>GRAMS_TOF_Client\<close> (\<^verbatim>\<open>src/GRAMS_TOF_Client.cpp\<close>).

  The state holds the process's open descriptors, so that closing is visible: \<open>os_close\<close> of a
  descriptor that is not open counts as a stray close. A \<open>SafeFD\<close> is the value of its atomic
  field; the singleton manager is the pair of tables in the state. Every operation runs under the
  manager's mutex or on one atomic, so operations are atomic steps here. \<^verbatim>\<open>send\<close> and
  \<^verbatim>\<open>recv\<close> are the kernel's: their outcomes are arguments.
\<close>

datatype ServerKind = COMMAND | EVENT | DAQ

record fds =
  os_open :: "int set"
  stray_closes :: nat
  server_fds :: "ServerKind \<Rightarrow> int"
  client_fds :: "(int, int) std_map"

section \<open>The kernel's descriptor table\<close>

definition os_close :: "int \<Rightarrow> fds \<Rightarrow> fds" where
  "os_close fd s =
     (if fd \<in> os_open s then s\<lparr>os_open := os_open s - {fd}\<rparr>
      else s\<lparr>stray_closes := Suc (stray_closes s)\<rparr>)"

text \<open>POSIX: a new descriptor is the lowest number not open; \<open>n\<close> bounds the search.\<close>

fun lowest_free :: "nat \<Rightarrow> int \<Rightarrow> int set \<Rightarrow> int" where
  "lowest_free 0 fd opn = fd"
| "lowest_free (Suc n) fd opn = (if fd \<in> opn then lowest_free n (fd + 1) opn else fd)"

section \<open>SafeFD\<close>

definition SafeFD_setFD :: "int \<Rightarrow> int \<Rightarrow> fds \<Rightarrow> int \<times> fds" where
  "SafeFD_setFD old_fd fd s = (fd, if old_fd > 2 then os_close old_fd s else s)"

definition SafeFD_closeFD :: "int \<Rightarrow> fds \<Rightarrow> int \<times> fds" where
  "SafeFD_closeFD old_fd s = (-1, if old_fd > 2 then os_close old_fd s else s)"

datatype send_result = Sent nat | SendEINTR | SendError

text \<open>
  The send loop: outcomes of the successive \<^verbatim>\<open>::send\<close> calls, the bytes, and how many are out.
  The result is the return value with the bytes the kernel took; \<open>None\<close>: the outcomes ran out
  with the loop still going.
\<close>

fun send_loop :: "send_result list \<Rightarrow> u8 list \<Rightarrow> nat \<Rightarrow> (int \<times> u8 list) option" where
  "send_loop rs data cnt =
     (if cnt < length data then
        (case rs of
           [] \<Rightarrow> None
         | Sent n # rs' \<Rightarrow>
             map_option (\<lambda>(r, out). (r, take n (drop cnt data) @ out)) (send_loop rs' data (cnt + n))
         | SendEINTR # rs' \<Rightarrow> send_loop rs' data cnt
         | SendError # rs' \<Rightarrow> Some (-1, []))
      else Some (int cnt, []))"

declare send_loop.simps [simp del]

definition SafeFD_sendData :: "int \<Rightarrow> send_result list \<Rightarrow> u8 list \<Rightarrow> (int \<times> u8 list) option" where
  "SafeFD_sendData fd rs data = (if fd \<le> 2 then Some (-1, []) else send_loop rs data 0)"

section \<open>The manager\<close>

definition setServerFD :: "ServerKind \<Rightarrow> int \<Rightarrow> fds \<Rightarrow> fds" where
  "setServerFD kind fd s =
     (let (v, s') = SafeFD_setFD (server_fds s kind) fd s
      in s'\<lparr>server_fds := (server_fds s)(kind := v)\<rparr>)"

definition getServerFD :: "ServerKind \<Rightarrow> fds \<Rightarrow> int" where
  "getServerFD kind s = server_fds s kind"

definition removeServerFD :: "ServerKind \<Rightarrow> fds \<Rightarrow> fds" where
  "removeServerFD kind s =
     (let (v, s') = SafeFD_closeFD (server_fds s kind) s
      in s'\<lparr>server_fds := (server_fds s)(kind := v)\<rparr>)"

definition addClientFD :: "int \<Rightarrow> fds \<Rightarrow> fds" where
  "addClientFD fd s =
     (if map_find (client_fds s) fd = None then s\<lparr>client_fds := map_put fd fd (client_fds s)\<rparr> else s)"

text \<open>Erasing the map entry destroys its \<open>SafeFD\<close>, which closes the descriptor.\<close>

definition removeClientFD :: "int \<Rightarrow> fds \<Rightarrow> fds" where
  "removeClientFD fd s =
     (case map_find (client_fds s) fd of
        None \<Rightarrow> s
      | Some v \<Rightarrow> (snd (SafeFD_closeFD v s))\<lparr>client_fds := map_erase fd (client_fds s)\<rparr>)"

definition getAllClientFDs :: "fds \<Rightarrow> int list" where
  "getAllClientFDs s = map_keys (client_fds s)"

definition sendToServer :: "ServerKind \<Rightarrow> send_result list \<Rightarrow> u8 list \<Rightarrow> fds \<Rightarrow> (int \<times> u8 list) option" where
  "sendToServer kind rs data s = SafeFD_sendData (server_fds s kind) rs data"

definition sendToClient :: "int \<Rightarrow> send_result list \<Rightarrow> u8 list \<Rightarrow> fds \<Rightarrow> (int \<times> u8 list) option" where
  "sendToClient fd rs data s =
     (case map_find (client_fds s) fd of
        None \<Rightarrow> Some (-1, [])
      | Some v \<Rightarrow> SafeFD_sendData v rs data)"

text \<open>The number of clients that took the whole message; \<open>rs fd\<close> are the outcomes on client \<open>fd\<close>.\<close>

definition sendToAllClients :: "(int \<Rightarrow> send_result list) \<Rightarrow> u8 list \<Rightarrow> fds \<Rightarrow> nat option" where
  "sendToAllClients rs data s =
     map_option (\<lambda>out. length (filter (\<lambda>(r, _). r > 0) out))
       (those (map (\<lambda>(k, v). SafeFD_sendData v (rs k) data) (client_fds s)))"

datatype recv_result = Received "u8 list" | RecvEAGAIN | RecvEINTR | RecvError

definition recvData :: "int \<Rightarrow> recv_result \<Rightarrow> fds \<Rightarrow> int \<times> u8 list" where
  "recvData fd r s =
     (case map_find (client_fds s) fd of
        None \<Rightarrow> (-1, [])
      | Some real_fd \<Rightarrow>
          if real_fd \<le> 2 then (-1, [])
          else (case r of
                  Received bytes \<Rightarrow> (int (length bytes), bytes)
                | RecvEAGAIN \<Rightarrow> (0, [])
                | RecvEINTR \<Rightarrow> (0, [])
                | RecvError \<Rightarrow> (-1, [])))"

definition closeAll :: "fds \<Rightarrow> fds" where
  "closeAll s =
     (let s1 = fold removeServerFD [COMMAND, EVENT, DAQ] s;
          s2 = fold (\<lambda>v t. snd (SafeFD_closeFD v t)) (map snd (client_fds s1)) s1
      in s2\<lparr>client_fds := []\<rparr>)"

section \<open>Connection objects\<close>

record gclient =
  cl_fd :: int
  readBuffer :: "u8 list"

definition Client_new :: "int \<Rightarrow> fds \<Rightarrow> gclient \<times> fds" where
  "Client_new fd s =
     (\<lparr>cl_fd = fd, readBuffer = []\<rparr>, if fd \<ge> 0 then addClientFD fd s else s)"

definition Client_closeFD :: "gclient \<Rightarrow> fds \<Rightarrow> gclient \<times> fds" where
  "Client_closeFD c s =
     (if cl_fd c \<ge> 0 then (\<lparr>cl_fd = -1, readBuffer = []\<rparr>, removeClientFD (cl_fd c) s) else (c, s))"

text \<open>Move construction: the new object and what is left of the old one.\<close>

definition Client_move :: "gclient \<Rightarrow> gclient \<times> gclient" where
  "Client_move other =
     (\<lparr>cl_fd = cl_fd other, readBuffer = readBuffer other\<rparr>, \<lparr>cl_fd = -1, readBuffer = []\<rparr>)"

definition Client_move_assign :: "gclient \<Rightarrow> gclient \<Rightarrow> fds \<Rightarrow> gclient \<times> gclient \<times> fds" where
  "Client_move_assign c other s =
     (let (c', s') = Client_closeFD c s; (new, old) = Client_move other in (new, old, s'))"

definition Client_sendData :: "gclient \<Rightarrow> send_result list \<Rightarrow> u8 list \<Rightarrow> fds \<Rightarrow> (int \<times> u8 list) option" where
  "Client_sendData c rs data s = (if cl_fd c < 0 then Some (-1, []) else sendToClient (cl_fd c) rs data s)"

text \<open>
  \<open>cap\<close> is the caller's buffer size; \<open>errno_again\<close> says whether \<^verbatim>\<open>errno\<close> holds
  \<^verbatim>\<open>EAGAIN\<close> when the manager returned a negative count.
\<close>

definition Client_recvData ::
  "gclient \<Rightarrow> nat \<Rightarrow> recv_result \<Rightarrow> bool \<Rightarrow> fds \<Rightarrow> int \<times> u8 list \<times> gclient" where
  "Client_recvData c cap r errno_again s =
     (if cl_fd c < 0 then (-1, [], c)
      else let (n, temp) = recvData (cl_fd c) r s in
        if n < 0 \<and> \<not> errno_again then (-1, [], c)
        else let buf = (if n > 0 then readBuffer c @ temp else readBuffer c);
                 toCopy = min cap (length buf)
             in (int toCopy, take toCopy buf, c\<lparr>readBuffer := drop toCopy buf\<rparr>))"

section \<open>Each descriptor has one owner\<close>

text \<open>
  The ownership invariant: the tables hold only open descriptors, no two entries hold the same one
  (numbers up to 2 are never closed by the manager and do not count), and the client table maps a
  number to itself.
\<close>

definition fds_ok :: "fds \<Rightarrow> bool" where
  "fds_ok s \<longleftrightarrow>
     map_ok (client_fds s) \<and>
     (\<forall>fd v. map_find (client_fds s) fd = Some v \<longrightarrow> v = fd \<and> (fd > 2 \<longrightarrow> fd \<in> os_open s)) \<and>
     (\<forall>k. server_fds s k > 2 \<longrightarrow>
        server_fds s k \<in> os_open s \<and> map_find (client_fds s) (server_fds s k) = None \<and>
        (\<forall>k'. k' \<noteq> k \<longrightarrow> server_fds s k' \<noteq> server_fds s k))"

text \<open>A descriptor the tables do not hold yet and that is open: what \<^verbatim>\<open>socket\<close> returns.\<close>

definition fresh_fd :: "int \<Rightarrow> fds \<Rightarrow> bool" where
  "fresh_fd fd s \<longleftrightarrow> fd \<in> os_open s \<and> (\<forall>k. server_fds s k \<noteq> fd) \<and> map_find (client_fds s) fd = None"

lemma os_close_simps [simp]:
  "server_fds (os_close fd s) = server_fds s"
  "client_fds (os_close fd s) = client_fds s"
  "os_open (os_close fd s) = os_open s - {fd}"
  "stray_closes (os_close fd s) = (if fd \<in> os_open s then stray_closes s else Suc (stray_closes s))"
  by (simp_all add: os_close_def)

named_theorems fd_defs "the operations of the descriptor manager"

lemmas [fd_defs] = setServerFD_def removeServerFD_def addClientFD_def removeClientFD_def
  SafeFD_setFD_def SafeFD_closeFD_def

lemma setServerFD_ok:
  assumes "fds_ok s" and "fresh_fd fd s"
  shows "fds_ok (setServerFD kind fd s) \<and> stray_closes (setServerFD kind fd s) = stray_closes s"
  using assms by (auto simp: fds_ok_def fresh_fd_def fd_defs Let_def)

lemma removeServerFD_ok:
  assumes "fds_ok s"
  shows "fds_ok (removeServerFD kind s) \<and> stray_closes (removeServerFD kind s) = stray_closes s \<and>
    server_fds (removeServerFD kind s) = (server_fds s)(kind := -1) \<and>
    client_fds (removeServerFD kind s) = client_fds s"
  using assms by (auto simp: fds_ok_def fd_defs Let_def)

lemma addClientFD_ok:
  assumes "fds_ok s" and "fresh_fd fd s"
  shows "fds_ok (addClientFD fd s) \<and> stray_closes (addClientFD fd s) = stray_closes s"
  using assms by (auto simp: fds_ok_def fresh_fd_def fd_defs std_map_simps split: if_splits)

lemma removeClientFD_ok:
  assumes "fds_ok s"
  shows "fds_ok (removeClientFD fd s) \<and> stray_closes (removeClientFD fd s) = stray_closes s"
  using assms
  by (auto simp: fds_ok_def fd_defs std_map_simps split: option.splits if_splits)

lemma removeClientFD_find:
  assumes "fds_ok s"
  shows "map_find (client_fds (removeClientFD fd s)) fd' = (if fd' = fd then None else map_find (client_fds s) fd')"
  using assms by (auto simp: fds_ok_def fd_defs std_map_simps split: option.splits)

text \<open>
  \<open>closeAll\<close> destroys the client entries one by one; the same as removing each key.
\<close>

lemma fold_close_values:
  assumes "distinct fds" and "set fds \<subseteq> {fd. fd > 2 \<longrightarrow> fd \<in> os_open s}"
  shows "let t = fold (\<lambda>v t. snd (SafeFD_closeFD v t)) fds s in
    stray_closes t = stray_closes s \<and> os_open t = os_open s - {fd \<in> set fds. fd > 2} \<and>
    server_fds t = server_fds s"
  using assms
proof (induction fds arbitrary: s)
  case Nil
  then show ?case by simp
next
  case (Cons fd fds)
  let ?s = "snd (SafeFD_closeFD fd s)"
  from Cons.prems have "set fds \<subseteq> {v. v > 2 \<longrightarrow> v \<in> os_open ?s}"
    by (auto simp: SafeFD_closeFD_def)
  with Cons.IH [of ?s] Cons.prems show ?case
    by (auto simp: SafeFD_closeFD_def Let_def)
qed

lemma client_values:
  assumes "fds_ok s"
  shows "map snd (client_fds s) = map_keys (client_fds s)"
proof -
  have "v = k" if "(k, v) \<in> set (client_fds s)" for k v
    using assms that map_of_is_SomeI [of "client_fds s" k v] sm.distinct_keys [of "client_fds s"]
    by (auto simp: fds_ok_def map_find_def map_keys_def)
  then show ?thesis by (auto simp: map_keys_def)
qed

lemma closeAll_ok:
  assumes "fds_ok s"
  shows "stray_closes (closeAll s) = stray_closes s" and "client_fds (closeAll s) = []"
    and "server_fds (closeAll s) k = -1"
    and "map_find (client_fds s) fd \<noteq> None \<Longrightarrow> fd > 2 \<Longrightarrow> fd \<notin> os_open (closeAll s)"
proof -
  define s1 where "s1 = fold removeServerFD [COMMAND, EVENT, DAQ] s"
  have ok: "fds_ok s1" and stray: "stray_closes s1 = stray_closes s"
    and clients: "client_fds s1 = client_fds s" and servers: "server_fds s1 k = -1"
    using assms removeServerFD_ok by (cases k; simp add: s1_def)+
  let ?keys = "map snd (client_fds s1)"
  have keys: "?keys = map_keys (client_fds s1)" using ok by (rule client_values)
  define t where "t = fold (\<lambda>v t. snd (SafeFD_closeFD v t)) ?keys s1"
  have "distinct ?keys" and "set ?keys \<subseteq> {fd. fd > 2 \<longrightarrow> fd \<in> os_open s1}"
    unfolding keys using ok sm.distinct_keys sm.keys_find by (fastforce simp: fds_ok_def)+
  from fold_close_values [OF this]
  have t: "stray_closes t = stray_closes s1" "os_open t = os_open s1 - {fd \<in> set ?keys. fd > 2}"
    "server_fds t = server_fds s1"
    by (simp_all add: t_def Let_def)
  have close: "closeAll s = t\<lparr>client_fds := []\<rparr>"
    by (simp add: closeAll_def Let_def t_def s1_def)
  show "stray_closes (closeAll s) = stray_closes s" "client_fds (closeAll s) = []" "server_fds (closeAll s) k = -1"
    using t stray servers by (simp_all add: close)
  assume "map_find (client_fds s) fd \<noteq> None" "fd > 2"
  then have "fd \<in> set ?keys"
    unfolding keys using clients by (simp add: map_keys_find)
  with \<open>fd > 2\<close> t(2) show "fd \<notin> os_open (closeAll s)"
    by (simp add: close)
qed

section \<open>Sequences of operations\<close>

text \<open>
  What the servers do with descriptors: a descriptor fresh from the kernel becomes a listening
  descriptor or a client entry, and entries are removed.
\<close>

datatype fd_event = Serve ServerKind int | Unserve ServerKind | Attach int | Detach int | CloseAll

fun fd_step :: "fd_event \<Rightarrow> fds \<Rightarrow> fds" where
  "fd_step (Serve kind fd) s = setServerFD kind fd (s\<lparr>os_open := insert fd (os_open s)\<rparr>)"
| "fd_step (Unserve kind) s = removeServerFD kind s"
| "fd_step (Attach fd) s = addClientFD fd (s\<lparr>os_open := insert fd (os_open s)\<rparr>)"
| "fd_step (Detach fd) s = removeClientFD fd s"
| "fd_step CloseAll s = closeAll s"

text \<open>The kernel never returns a number that is open, and 0 to 2 are taken.\<close>

fun from_kernel :: "fd_event list \<Rightarrow> fds \<Rightarrow> bool" where
  "from_kernel [] s = True"
| "from_kernel (e # es) s =
     ((case e of Serve _ fd \<Rightarrow> fd > 2 \<and> fd \<notin> os_open s | Attach fd \<Rightarrow> fd > 2 \<and> fd \<notin> os_open s | _ \<Rightarrow> True)
      \<and> from_kernel es (fd_step e s))"

definition fds_init :: fds where
  "fds_init = \<lparr>os_open = {0, 1, 2}, stray_closes = 0, server_fds = (\<lambda>_. -1), client_fds = []\<rparr>"

lemma fds_init_ok: "fds_ok fds_init"
  by (simp add: fds_ok_def fds_init_def)

lemma fds_ok_open: "fds_ok s \<Longrightarrow> fds_ok (s\<lparr>os_open := insert fd (os_open s)\<rparr>)"
  by (auto simp: fds_ok_def)

lemma fresh_from_kernel:
  "fds_ok s \<Longrightarrow> fd > 2 \<Longrightarrow> fd \<notin> os_open s \<Longrightarrow> fresh_fd fd (s\<lparr>os_open := insert fd (os_open s)\<rparr>)"
  unfolding fds_ok_def fresh_fd_def by (cases "map_find (client_fds s) fd") auto

lemma closeAll_fds_ok: "fds_ok s \<Longrightarrow> fds_ok (closeAll s) \<and> stray_closes (closeAll s) = stray_closes s"
  using closeAll_ok(1-3) [of s] by (simp add: fds_ok_def)

lemma fd_step_ok:
  assumes "fds_ok s" and "from_kernel (e # es) s"
  shows "fds_ok (fd_step e s) \<and> stray_closes (fd_step e s) = stray_closes s"
proof (cases e)
  case (Serve kind fd)
  with assms have "fresh_fd fd (s\<lparr>os_open := insert fd (os_open s)\<rparr>)"
    by (simp add: fresh_from_kernel)
  from setServerFD_ok [OF fds_ok_open [OF assms(1)] this] Serve show ?thesis by simp
next
  case (Attach fd)
  with assms have "fresh_fd fd (s\<lparr>os_open := insert fd (os_open s)\<rparr>)"
    by (simp add: fresh_from_kernel)
  from addClientFD_ok [OF fds_ok_open [OF assms(1)] this] Attach show ?thesis by simp
next
  case (Unserve kind)
  then show ?thesis using removeServerFD_ok [OF assms(1)] by simp
next
  case (Detach fd)
  then show ?thesis using removeClientFD_ok [OF assms(1)] by simp
next
  case CloseAll
  then show ?thesis using closeAll_fds_ok [OF assms(1)] by simp
qed



section \<open>Sending and receiving\<close>

text \<open>The kernel takes at most the bytes it is offered.\<close>

fun kernel_takes :: "send_result list \<Rightarrow> nat \<Rightarrow> bool" where
  "kernel_takes [] left = True"
| "kernel_takes (Sent n # rs) left = (n \<le> left \<and> kernel_takes rs (left - n))"
| "kernel_takes (_ # rs) left = kernel_takes rs left"

lemma take_drop_split: "a + n \<le> length xs \<Longrightarrow> take n (drop a xs) @ drop (a + n) xs = drop a xs"
  by (metis append_take_drop_id drop_drop add.commute)

lemma send_loop_cases:
  "length data \<le> cnt \<Longrightarrow> send_loop rs data cnt = Some (int cnt, [])"
  "cnt < length data \<Longrightarrow> send_loop [] data cnt = None"
  "cnt < length data \<Longrightarrow> send_loop (Sent n # rs) data cnt =
     map_option (\<lambda>(r, out). (r, take n (drop cnt data) @ out)) (send_loop rs data (cnt + n))"
  "cnt < length data \<Longrightarrow> send_loop (SendEINTR # rs) data cnt = send_loop rs data cnt"
  "cnt < length data \<Longrightarrow> send_loop (SendError # rs) data cnt = Some (-1, [])"
  by (simp_all add: send_loop.simps)

lemma send_loop_outcome:
  assumes "send_loop rs data cnt = Some (r, out)" and "kernel_takes rs (length data - cnt)" and "cnt \<le> length data"
  shows "(r = int (length data) \<and> out = drop cnt data) \<or> (r = -1 \<and> (\<exists>k. out = take k (drop cnt data)))"
  using assms
proof (induction rs data cnt arbitrary: r out rule: send_loop.induct)
  case (1 rs data cnt)
  show ?case
  proof (cases "cnt < length data")
    case False
    with "1.prems" show ?thesis by (simp add: send_loop_cases)
  next
    case True
    show ?thesis
    proof (cases rs)
      case Nil
      with True "1.prems" show ?thesis by (simp add: send_loop_cases)
    next
      case (Cons a rs')
      show ?thesis
      proof (cases a)
        case (Sent n)
        with Cons True "1.prems" obtain out' where out': "send_loop rs' data (cnt + n) = Some (r, out')"
          "out = take n (drop cnt data) @ out'"
          by (auto simp: send_loop_cases)
        from "1.prems" Cons Sent True have "kernel_takes rs' (length data - (cnt + n))" "cnt + n \<le> length data"
          by auto
        from "1.IH"(1) [OF True Cons Sent out'(1) this] consider
            "r = int (length data)" "out' = drop (cnt + n) data"
          | k where "r = -1" "out' = take k (drop (cnt + n) data)" by blast
        then show ?thesis
        proof cases
          case 1
          with out'(2) \<open>cnt + n \<le> length data\<close> show ?thesis by (simp add: take_drop_split)
        next
          case (2 k)
          have "take n (drop cnt data) @ take k (drop n (drop cnt data)) = take (n + k) (drop cnt data)"
            by (simp add: take_add)
          with 2 out'(2) show ?thesis by (auto simp: add.commute)
        qed
      next
        case SendEINTR
        with Cons True "1.prems" "1.IH"(2) show ?thesis
          by (auto simp: send_loop_cases)
      next
        case SendError
        with Cons True "1.prems" show ?thesis
          by (auto simp: send_loop_cases intro: exI [where x = 0])
      qed
    qed
  qed
qed

text \<open>
  C34: When \<open>SafeFD::sendData\<close> returns, it returns either the full size, and then the kernel took
  exactly the message, each byte once and in order, or -1, and then it took a prefix of the
  message (possibly a non-empty one, so the peer may see a truncated packet).
\<close>

theorem sendData_all_or_error:
  assumes "SafeFD_sendData fd rs data = Some (r, out)" and "kernel_takes rs (length data)"
  shows "(r = int (length data) \<and> out = data) \<or> (r = -1 \<and> (\<exists>k. out = take k data))"
proof (cases "fd \<le> 2")
  case True
  with assms show ?thesis by (auto simp: SafeFD_sendData_def intro: exI [where x = 0])
next
  case False
  with assms send_loop_outcome [of rs data 0 r out] show ?thesis
    by (simp add: SafeFD_sendData_def)
qed

theorem sendData_all_or_error_witness:
  "SafeFD_sendData 5 [SendEINTR, Sent 1, Sent 2] [1, 2, 3] = Some (3, [1, 2, 3]) \<and>
   SafeFD_sendData 5 [Sent 2, SendError] [1, 2, 3] = Some (-1, [1, 2]) \<and>
   (int 3 = int (length [1, 2, 3 :: u8]) \<and> [1, 2, 3] = [1, 2, 3 :: u8] \<or> (3 :: int) = -1 \<and> (\<exists>k. [1, 2, 3] = take k [1, 2, 3 :: u8]))"
proof -
  have run: "SafeFD_sendData 5 [SendEINTR, Sent 1, Sent 2] [1, 2, 3] = Some (3, [1, 2, 3])"
    "SafeFD_sendData 5 [Sent 2, SendError] [1, 2, 3] = Some (-1, [1, 2])"
    by (simp_all add: SafeFD_sendData_def send_loop.simps)
  have "kernel_takes [SendEINTR, Sent 1, Sent 2] (length [1, 2, 3 :: u8])" by simp
  from sendData_all_or_error [OF run(1) this] run show ?thesis by simp
qed

text \<open>
  \<open>Client::recvData\<close> neither loses nor reorders bytes: what it hands out followed by what it
  keeps is what it held followed by what the kernel delivered. With a request of at least the
  1024 bytes it reads at a time nothing stays behind, and a spurious wake-up (\<open>EAGAIN\<close>,
  \<open>EINTR\<close>) reports 0, the value the callers take for a closed connection.
\<close>

theorem recvData_conserves:
  assumes "cl_fd c > 2" and "map_find (client_fds s) (cl_fd c) = Some (cl_fd c)"
    and "Client_recvData c cap r again s = (n, out, c')"
  shows "(case r of
      Received bytes \<Rightarrow> out @ readBuffer c' = readBuffer c @ bytes \<and> n = int (length out) \<and>
        (readBuffer c = [] \<and> length bytes \<le> 1024 \<and> 1024 \<le> cap \<longrightarrow> readBuffer c' = [])
    | RecvError \<Rightarrow> again \<or> (n = -1 \<and> c' = c)
    | _ \<Rightarrow> out @ readBuffer c' = readBuffer c \<and> n = int (length out))"
  using assms
  by (cases r)
    (auto simp: Client_recvData_def recvData_def Let_def simp del: take_append drop_append split: if_splits)

theorem recvData_conserves_witness:
  "case Received [7, 8] of
      Received bytes \<Rightarrow> [7, 8] @ [] = [] @ (bytes :: u8 list)
    | _ \<Rightarrow> True"
proof -
  let ?c = "\<lparr>cl_fd = 5, readBuffer = []\<rparr>" and ?s = "fds_init\<lparr>client_fds := [(5, 5)]\<rparr>"
  have "Client_recvData ?c 1024 (Received [7, 8]) False ?s = (2, [7, 8], ?c)"
    by (simp add: Client_recvData_def recvData_def map_find_def)
  from recvData_conserves [OF _ _ this] show ?thesis
    by (simp add: map_find_def)
qed

end
