(* ===== verification/HubConnection.thy ===== *)
theory HubConnection
  imports FDManager
begin

text \<open>
  How \<open>GRAMS_TOF_CommandClient\<close> and \<open>GRAMS_TOF_EventClient\<close> open, lose and give up their single
  connection to the hub (the outer loop of \<open>run\<close>, the \<open>shouldClose\<close> branch of the inner loop, and
  \<open>stop\<close>, in \<^verbatim>\<open>src/GRAMS_TOF_CommandClient.cpp\<close> and
  \<^verbatim>\<open>src/GRAMS_TOF_EventClient.cpp\<close>; the two files differ in the \<open>ServerKind\<close> only).

  The kernel's answers are the fields of \<open>net\<close>. \<^verbatim>\<open>socket\<close> and \<^verbatim>\<open>epoll_create1\<close>
  return the lowest free number; \<^verbatim>\<open>connect\<close> and \<^verbatim>\<open>epoll_ctl\<close> fail on a descriptor that
  is not open. Sleeps are the number in \<open>Retry\<close>.
\<close>

section \<open>State and steps\<close>

record net =
  socket_ok :: bool
  inet_pton_ok :: bool
  connect_ok :: bool
  epoll_create_ok :: bool
  epoll_ctl_ok :: bool

record hub =
  sys :: fds
  hubConnection :: "gclient option"
  running :: bool

datatype attempt = Retry nat | Connected int int

definition os_new_fd :: "fds \<Rightarrow> int \<times> fds" where
  "os_new_fd s =
     (let fd = lowest_free (card (os_open s)) 0 (os_open s)
      in (fd, s\<lparr>os_open := insert fd (os_open s)\<rparr>))"

text \<open>\<^verbatim>\<open>hubConnection_.reset()\<close>: the client's destructor closes its descriptor.\<close>

definition reset_connection :: "hub \<Rightarrow> hub" where
  "reset_connection h =
     (case hubConnection h of
        None \<Rightarrow> h
      | Some c \<Rightarrow> h\<lparr>sys := snd (Client_closeFD c (sys h)), hubConnection := None\<rparr>)"

definition close_and_reset :: "hub \<Rightarrow> hub" where
  "close_and_reset h =
     (case hubConnection h of
        None \<Rightarrow> h
      | Some c \<Rightarrow>
          let (c', s') = Client_closeFD c (sys h)
          in reset_connection (h\<lparr>sys := s', hubConnection := Some c'\<rparr>))"

definition connect_attempt :: "ServerKind \<Rightarrow> net \<Rightarrow> hub \<Rightarrow> attempt \<times> hub" where
  "connect_attempt kind env h0 =
     (let h = reset_connection h0 in
      if \<not> socket_ok env then (Retry 2, h)
      else let (fd, s1) = os_new_fd (sys h);
               s2 = setServerFD kind fd s1 in
      if \<not> inet_pton_ok env then (Retry 2, h\<lparr>sys := removeServerFD kind (os_close fd s2)\<rparr>)
      else if \<not> (connect_ok env \<and> fd \<in> os_open s2)
        then (Retry 5, h\<lparr>sys := removeServerFD kind (os_close fd s2)\<rparr>)
      else let (c, s3) = Client_new fd s2;
               h3 = h\<lparr>sys := s3, hubConnection := Some c\<rparr> in
      if \<not> epoll_create_ok env then (Retry 0, close_and_reset h3)
      else let (ep, s4) = os_new_fd s3 in
      if \<not> (epoll_ctl_ok env \<and> fd \<in> os_open s4)
        then (Retry 0, close_and_reset (h3\<lparr>sys := os_close ep s4\<rparr>))
      else (Connected fd ep, h3\<lparr>sys := s4\<rparr>))"

text \<open>The \<open>shouldClose\<close> branch, then \<^verbatim>\<open>::close(epoll_fd)\<close> after the inner loop.\<close>

definition connection_lost :: "int \<Rightarrow> hub \<Rightarrow> hub" where
  "connection_lost ep h = (let h' = close_and_reset h in h'\<lparr>sys := os_close ep (sys h')\<rparr>)"

text \<open>
  \<open>stop\<close> with the loop it ends: the connection is closed, the inner loop sees no connection and
  closes \<open>ep\<close>, the outer loop ends and removes the server descriptor, and so does \<open>stop\<close>.
\<close>

definition stop_client :: "ServerKind \<Rightarrow> int \<Rightarrow> hub \<Rightarrow> hub" where
  "stop_client kind ep h =
     (if \<not> running h then h
      else let h1 = close_and_reset (h\<lparr>running := False\<rparr>);
               s2 = os_close ep (sys h1);
               s3 = removeServerFD kind s2
           in h1\<lparr>sys := removeServerFD kind s3\<rparr>)"

definition start_client :: "hub \<Rightarrow> hub" where
  "start_client h = (if running h then h else h\<lparr>running := True\<rparr>)"

section \<open>The lowest free descriptor\<close>

lemma lowest_free_below: "a \<le> x \<Longrightarrow> x < lowest_free n a opn \<Longrightarrow> x \<in> opn"
proof (induction n a opn rule: lowest_free.induct)
  case (2 n fd opn)
  then show ?case by (cases "x = fd") (auto split: if_splits)
qed simp

lemma lowest_free_ge: "a \<le> lowest_free n a opn"
  by (induction n a opn rule: lowest_free.induct) auto

lemma lowest_free_full: "lowest_free n a opn \<in> opn \<Longrightarrow> lowest_free n a opn = a + int n"
  by (induction n a opn rule: lowest_free.induct) (auto split: if_splits)

lemma lowest_free_notin:
  assumes "finite opn"
  shows "lowest_free (card opn) a opn \<notin> opn"
proof
  let ?m = "lowest_free (card opn) a opn"
  assume m: "?m \<in> opn"
  then have eq: "?m = a + int (card opn)" by (rule lowest_free_full)
  have "{a..?m} \<subseteq> opn"
    using m lowest_free_below [of a _ "card opn" opn] by (auto simp: order_le_less)
  then have "card {a..?m} \<le> card opn"
    using assms by (intro card_mono)
  with eq show False by simp
qed

lemma os_new_fd_spec:
  assumes "os_new_fd s = (fd, s')" and "finite (os_open s)" and "{0, 1, 2} \<subseteq> os_open s"
  shows "fd \<notin> os_open s" and "fd > 2" and "s' = s\<lparr>os_open := insert fd (os_open s)\<rparr>"
proof -
  have fd: "fd = lowest_free (card (os_open s)) 0 (os_open s)"
    and s': "s' = s\<lparr>os_open := insert fd (os_open s)\<rparr>"
    using assms(1) by (auto simp: os_new_fd_def Let_def)
  show notin: "fd \<notin> os_open s"
    using lowest_free_notin [OF assms(2)] fd by simp
  have "0 \<le> fd" using fd lowest_free_ge [of 0] by simp
  with notin assms(3) show "fd > 2"
    by (cases "fd = 0 \<or> fd = 1 \<or> fd = 2") auto
  show "s' = s\<lparr>os_open := insert fd (os_open s)\<rparr>" by (rule s')
qed

section \<open>Connecting, losing, reconnecting\<close>

text \<open>The process as \<open>ensureStandardFDs\<close> leaves it, with no connection of this kind yet.\<close>

definition idle_hub :: "ServerKind \<Rightarrow> hub \<Rightarrow> bool" where
  "idle_hub kind h \<longleftrightarrow> fds_ok (sys h) \<and> finite (os_open (sys h)) \<and> {0, 1, 2} \<subseteq> os_open (sys h)
     \<and> hubConnection h = None \<and> server_fds (sys h) kind = -1"

definition net_up :: net where
  "net_up = \<lparr>socket_ok = True, inet_pton_ok = True, connect_ok = True, epoll_create_ok = True,
     epoll_ctl_ok = True\<rparr>"

lemma idle_hub_no_client:
  assumes "idle_hub kind h" and "fd \<notin> os_open (sys h)" and "fd > 2"
  shows "map_find (client_fds (sys h)) fd = None"
  using assms by (cases "map_find (client_fds (sys h)) fd") (auto simp: idle_hub_def fds_ok_def)

text \<open>What a successful attempt from the idle state has done.\<close>

lemma connect_attempt_up:
  assumes idle: "idle_hub kind h"
  obtains fd ep where "fd \<notin> os_open (sys h)" "fd > 2" "ep \<notin> insert fd (os_open (sys h))" "ep > 2"
    "fst (os_new_fd (sys h)) = fd"
    "connect_attempt kind net_up h = (Connected fd ep,
       h\<lparr>sys := (sys h)\<lparr>os_open := insert ep (insert fd (os_open (sys h))),
                        server_fds := (server_fds (sys h))(kind := fd),
                        client_fds := map_put fd fd (client_fds (sys h))\<rparr>,
         hubConnection := Some \<lparr>cl_fd = fd, readBuffer = []\<rparr>\<rparr>)"
proof -
  obtain fd s1 where new: "os_new_fd (sys h) = (fd, s1)" by fastforce
  have idleD: "finite (os_open (sys h))" "{0, 1, 2} \<subseteq> os_open (sys h)" "hubConnection h = None"
    "server_fds (sys h) kind = -1"
    using idle by (simp_all add: idle_hub_def)
  note fd = os_new_fd_spec [OF new idleD(1,2)]
  define s3 where "s3 = (sys h)\<lparr>os_open := insert fd (os_open (sys h)),
     server_fds := (server_fds (sys h))(kind := fd), client_fds := map_put fd fd (client_fds (sys h))\<rparr>"
  obtain ep s4 where new': "os_new_fd s3 = (ep, s4)" by fastforce
  have "finite (os_open s3)" "{0, 1, 2} \<subseteq> os_open s3"
    using idleD by (auto simp: s3_def)
  note ep = os_new_fd_spec [OF new' this]
  have "connect_attempt kind net_up h = (Connected fd ep,
     h\<lparr>sys := s4, hubConnection := Some \<lparr>cl_fd = fd, readBuffer = []\<rparr>\<rparr>)"
    using new new' fd idleD idle_hub_no_client [OF idle fd(1,2)]
    by (simp add: connect_attempt_def reset_connection_def net_up_def setServerFD_def SafeFD_setFD_def
        Client_new_def addClientFD_def s3_def ep(3) Let_def)
  moreover have "ep \<notin> insert fd (os_open (sys h))" using ep(1) by (simp add: s3_def)
  ultimately show ?thesis
    using that [of fd ep] fd(1,2) ep(2) new ep(3) by (simp add: s3_def)
qed

lemma connection_lost_sys:
  assumes "hubConnection h = Some \<lparr>cl_fd = fd, readBuffer = b\<rparr>" and "fd > 2"
    and "map_find (client_fds (sys h)) fd = Some fd" and "fd \<in> os_open (sys h)" and "ep \<in> os_open (sys h)"
    and "ep \<noteq> fd"
  shows "connection_lost ep h =
    h\<lparr>sys := (sys h)\<lparr>os_open := os_open (sys h) - {fd} - {ep}, client_fds := map_erase fd (client_fds (sys h))\<rparr>,
      hubConnection := None\<rparr>"
  using assms
  by (simp add: connection_lost_def close_and_reset_def reset_connection_def Client_closeFD_def
      removeClientFD_def SafeFD_closeFD_def os_close_def Let_def)

text \<open>
  A reconnect defeats itself. After a connection from the idle state is lost, the next attempt
  gets the same descriptor number from the kernel, \<open>setServerFD\<close> closes it because the manager
  still holds that number from before, and the attempt fails although the network is up; on the way
  two further closes hit a descriptor that is no longer this connection's.
\<close>

theorem reconnect_closes_its_own_socket:
  assumes "idle_hub kind h" and "connect_attempt kind net_up h = (Connected fd ep, h1)"
  shows "fst (connect_attempt kind net_up (connection_lost ep h1)) = Retry 5 \<and>
    stray_closes (sys (snd (connect_attempt kind net_up (connection_lost ep h1)))) = stray_closes (sys h) + 2"
proof -
  have idleD: "map_ok (client_fds (sys h))" using assms(1) by (simp add: idle_hub_def fds_ok_def)
  from connect_attempt_up [OF assms(1)] assms(2)
  have fd: "fd \<notin> os_open (sys h)" "fd > 2" "ep \<notin> insert fd (os_open (sys h))" "fst (os_new_fd (sys h)) = fd"
    and h1: "h1 = h\<lparr>sys := (sys h)\<lparr>os_open := insert ep (insert fd (os_open (sys h))),
        server_fds := (server_fds (sys h))(kind := fd), client_fds := map_put fd fd (client_fds (sys h))\<rparr>,
      hubConnection := Some \<lparr>cl_fd = fd, readBuffer = []\<rparr>\<rparr>"
    by (auto elim: connect_attempt_up)
  let ?h2 = "connection_lost ep h1"
  have opn: "insert ep (insert fd (os_open (sys h))) - {fd} - {ep} = os_open (sys h)"
    using fd by auto
  have h2: "os_open (sys ?h2) = os_open (sys h)" "server_fds (sys ?h2) kind = fd"
    "stray_closes (sys ?h2) = stray_closes (sys h)" "hubConnection ?h2 = None"
    using fd idleD opn by (simp_all add: h1 connection_lost_sys map_put_find)
  have new: "os_new_fd (sys ?h2) = (fd, (sys ?h2)\<lparr>os_open := insert fd (os_open (sys h))\<rparr>)"
    using h2(1) fd(4) by (simp add: os_new_fd_def Let_def)
  show ?thesis
    using new h2 fd(1,2)
    by (simp add: connect_attempt_def reset_connection_def net_up_def setServerFD_def SafeFD_setFD_def
        removeServerFD_def SafeFD_closeFD_def Let_def)
qed

definition idle_example :: hub where
  "idle_example = \<lparr>sys = fds_init, hubConnection = None, running = True\<rparr>"

theorem reconnect_closes_its_own_socket_witness:
  "\<exists>fd ep h1. connect_attempt COMMAND net_up idle_example = (Connected fd ep, h1) \<and>
     fst (connect_attempt COMMAND net_up (connection_lost ep h1)) = Retry 5"
proof -
  have idle: "idle_hub COMMAND idle_example"
    by (simp add: idle_hub_def idle_example_def fds_init_ok) (simp add: fds_init_def)
  obtain fd ep h1 where c: "connect_attempt COMMAND net_up idle_example = (Connected fd ep, h1)"
    using connect_attempt_up [OF idle] by metis
  from reconnect_closes_its_own_socket [OF idle c] c show ?thesis by blast
qed

text \<open>
  \<open>stop\<close> on a live connection leaves exactly the descriptors that were open before it was
  made and no table entry for it, but closes its socket twice (once for the client object, once
  for the server table).
\<close>

theorem stop_client_releases:
  assumes "idle_hub kind h" and "running h" and "connect_attempt kind net_up h = (Connected fd ep, h1)"
  shows "os_open (sys (stop_client kind ep h1)) = os_open (sys h) \<and>
    map_find (client_fds (sys (stop_client kind ep h1))) = map_find (client_fds (sys h)) \<and>
    server_fds (sys (stop_client kind ep h1)) = server_fds (sys h) \<and>
    \<not> running (stop_client kind ep h1) \<and>
    stray_closes (sys (stop_client kind ep h1)) = stray_closes (sys h) + 1"
proof -
  have idleD: "map_ok (client_fds (sys h))" "server_fds (sys h) kind = -1"
    using assms(1) by (simp_all add: idle_hub_def fds_ok_def)
  from connect_attempt_up [OF assms(1)] assms(3)
  have fd: "fd \<notin> os_open (sys h)" "fd > 2" "ep \<notin> insert fd (os_open (sys h))" "fst (os_new_fd (sys h)) = fd"
    and h1: "h1 = h\<lparr>sys := (sys h)\<lparr>os_open := insert ep (insert fd (os_open (sys h))),
        server_fds := (server_fds (sys h))(kind := fd), client_fds := map_put fd fd (client_fds (sys h))\<rparr>,
      hubConnection := Some \<lparr>cl_fd = fd, readBuffer = []\<rparr>\<rparr>"
    by (auto elim: connect_attempt_up)
  have opn: "insert ep (insert fd (os_open (sys h))) - {fd} - {ep} = os_open (sys h)"
    using fd by auto
  have none: "map_find (client_fds (sys h)) fd = None"
    using idle_hub_no_client [OF assms(1) fd(1,2)] .
  have find: "map_find (map_erase fd (map_put fd fd (client_fds (sys h)))) = map_find (client_fds (sys h))"
    using sm.erase_put_same [OF idleD(1) none] .
  have s: "stop_client kind ep h1 = h\<lparr>running := False, hubConnection := None, sys := (sys h)
     \<lparr>os_open := os_open (sys h), server_fds := (server_fds (sys h))(kind := -1), stray_closes := Suc (stray_closes (sys h)),
      client_fds := map_erase fd (map_put fd fd (client_fds (sys h)))\<rparr>\<rparr>"
    using fd assms(2) idleD opn
    by (simp add: stop_client_def h1 close_and_reset_def reset_connection_def Client_closeFD_def
        removeClientFD_def removeServerFD_def SafeFD_closeFD_def os_close_def map_put_find Let_def)
  show ?thesis
    using idleD find by (simp add: s fun_upd_idem)
qed

theorem stop_client_releases_witness:
  "\<exists>fd ep h1. connect_attempt EVENT net_up idle_example = (Connected fd ep, h1) \<and>
     os_open (sys (stop_client EVENT ep h1)) = {0, 1, 2}"
proof -
  have idle: "idle_hub EVENT idle_example"
    by (simp add: idle_hub_def idle_example_def fds_init_ok) (simp add: fds_init_def)
  have run: "running idle_example" by (simp add: idle_example_def)
  obtain fd ep h1 where c: "connect_attempt EVENT net_up idle_example = (Connected fd ep, h1)"
    using connect_attempt_up [OF idle] by metis
  have "os_open (sys idle_example) = {0, 1, 2}" by (simp add: idle_example_def fds_init_def)
  with stop_client_releases [OF idle run c] c show ?thesis by auto
qed

end
