(* ===== verification/StreamClient.thy ===== *)
theory StreamClient
  imports Codec
begin

text \<open>
  The read loop of \<open>GRAMS_TOF_CommandClient::run\<close> (\<^verbatim>\<open>src/GRAMS_TOF_CommandClient.cpp\<close>,
  "Persistent Read Loop"): bytes from the hub are accumulated, complete packets are cut off the
  front, acknowledged and handed to the handler.

  The connection's \<open>sendData\<close> and the handler are arguments working on a world of any type. An
  option around a result is \<open>None\<close> for an access outside an array. The interface \<open>deframer\<close>
  says what makes a byte-stream loop independent of how the stream is cut into reads; it is
  interpreted on the loop of the code.
\<close>

section \<open>Cutting a stream into frames\<close>

datatype framing = NeedMore | Corrupt | Frame nat

locale deframer =
  fixes peek :: "'b list \<Rightarrow> framing"
    and consume :: "'b list \<Rightarrow> 'w \<Rightarrow> bool \<times> 'w"
    and drain :: "'b list \<Rightarrow> 'w \<Rightarrow> bool \<times> 'b list \<times> 'w"
  assumes frame_bounds: "peek b = Frame n \<Longrightarrow> 0 < n \<and> n \<le> length b"
    and frame_stable: "peek b = Frame n \<Longrightarrow> peek (b @ c) = Frame n"
    and corrupt_stable: "peek b = Corrupt \<Longrightarrow> peek (b @ c) = Corrupt"
    and drain_eq: "drain b w =
      (case peek b of
         NeedMore \<Rightarrow> (False, b, w)
       | Corrupt \<Rightarrow> (True, b, w)
       | Frame n \<Rightarrow> let (ok, w') = consume (take n b) w in
           if ok then drain (drop n b) w' else (True, drop n b, w'))"
begin

lemma drain_NeedMore: "peek b = NeedMore \<Longrightarrow> drain b w = (False, b, w)"
  by (subst drain_eq) simp

lemma drain_Corrupt: "peek b = Corrupt \<Longrightarrow> drain b w = (True, b, w)"
  by (subst drain_eq) simp

lemma drain_Frame:
  "peek b = Frame n \<Longrightarrow> drain b w =
     (let (ok, w') = consume (take n b) w in if ok then drain (drop n b) w' else (True, drop n b, w'))"
  by (subst drain_eq) simp

text \<open>Draining a longer buffer is draining the first part and going on with what is left.\<close>

lemma drain_append:
  "drain (b @ c) w =
     (let (close, left, w') = drain b w in if close then (True, left @ c, w') else drain (left @ c) w')"
proof (induction b arbitrary: w rule: length_induct)
  case (1 b)
  show ?case
  proof (cases "peek b")
    case NeedMore
    then show ?thesis by (simp add: drain_NeedMore)
  next
    case Corrupt
    then show ?thesis by (simp add: drain_Corrupt corrupt_stable)
  next
    case (Frame n)
    obtain ok w' where c: "consume (take n b) w = (ok, w')" by fastforce
    have n: "0 < n" "n \<le> length b" using frame_bounds [OF Frame] by auto
    then have IH: "drain (drop n b @ c) w' =
        (let (close, left, w'') = drain (drop n b) w' in if close then (True, left @ c, w'') else drain (left @ c) w'')"
      using 1 by simp
    show ?thesis
      using n c IH by (simp add: drain_Frame [OF Frame] drain_Frame [OF frame_stable [OF Frame]])
  qed
qed

lemma drain_left:
  "drain b w = (False, left, w') \<Longrightarrow> peek left = NeedMore"
proof (induction b arbitrary: w rule: length_induct)
  case (1 b)
  show ?case
  proof (cases "peek b")
    case (Frame n)
    from 1(2) obtain w1 where "drain (drop n b) w1 = (False, left, w')"
      by (auto simp: drain_Frame [OF Frame] split: prod.splits if_splits)
    moreover have "length (drop n b) < length b"
      using frame_bounds [OF Frame] by auto
    ultimately show ?thesis using 1(1) by blast
  qed (use 1 in \<open>auto simp: drain_NeedMore drain_Corrupt\<close>)
qed

end

section \<open>The loop of the code\<close>

definition MIN_PACKET_SIZE :: nat where "MIN_PACKET_SIZE = 14"

definition ack_packet :: "Packet \<Rightarrow> Packet" where
  "ack_packet pkt = \<lparr>pkt_code = pkt_code pkt, pkt_argc = 1, pkt_argv = [] @ [of_nat (getPacketSize pkt)]\<rparr>"

text \<open>
  Lines 189 to 247. The result is \<open>shouldClose\<close>, the buffer and the world.
\<close>

function process_packets ::
  "(u8 list \<Rightarrow> 'w \<Rightarrow> int \<times> 'w) \<Rightarrow> (Packet \<Rightarrow> 'w \<Rightarrow> 'w) \<Rightarrow> u8 list \<Rightarrow> 'w \<Rightarrow> (bool \<times> u8 list \<times> 'w) option"
where
  "process_packets sendData handler incoming w =
    (if length incoming < MIN_PACKET_SIZE then Some (False, incoming, w)
     else case read16 incoming 6 of None \<Rightarrow> None | Some argc \<Rightarrow>
       if unat argc > MAX_ARGC then Some (True, incoming, w)
       else let expectedSize = MIN_PACKET_SIZE + unat argc * 4 in
       if length incoming < expectedSize then Some (False, incoming, w)
       else let packet_data = take expectedSize incoming; incoming' = drop expectedSize incoming in
       case parse packet_data of
         None \<Rightarrow> None
       | Some None \<Rightarrow> Some (True, incoming', w)
       | Some (Some pkt) \<Rightarrow>
           (case serialize (ack_packet pkt) None of
              None \<Rightarrow> None
            | Some ack \<Rightarrow>
                let (n, w') = sendData ack w in
                if n \<le> 0 then Some (True, incoming', w')
                else process_packets sendData handler incoming' (handler pkt w')))"
  by pat_completeness auto
termination
  by (relation "measure (\<lambda>(_, _, incoming, _). length incoming)") (auto simp: MIN_PACKET_SIZE_def)

declare process_packets.simps [simp del]

record 'w conn =
  active :: bool
  incoming_buffer :: "u8 list"
  world :: 'w

text \<open>
  One turn of the inner loop: \<open>bytes\<close> is what \<open>recvData\<close> stored (none when it returned a count
  of at most 0), \<open>hup\<close> the \<^verbatim>\<open>EPOLLHUP\<close> or \<^verbatim>\<open>EPOLLERR\<close> flag.
\<close>

definition read_turn ::
  "(u8 list \<Rightarrow> 'w \<Rightarrow> int \<times> 'w) \<Rightarrow> (Packet \<Rightarrow> 'w \<Rightarrow> 'w) \<Rightarrow> u8 list \<times> bool \<Rightarrow> 'w conn \<Rightarrow> 'w conn option"
where
  "read_turn sendData handler ev s =
    (if \<not> active s then Some s
     else let (bytes, hup) = ev in
     if bytes = [] \<or> hup then Some (s\<lparr>active := False, incoming_buffer := []\<rparr>)
     else case process_packets sendData handler (incoming_buffer s @ bytes) (world s) of
            None \<Rightarrow> None
          | Some (shouldClose, buf, w) \<Rightarrow>
              if shouldClose then Some \<lparr>active = False, incoming_buffer = [], world = w\<rparr>
              else Some \<lparr>active = True, incoming_buffer = buf, world = w\<rparr>)"

fun read_turns ::
  "(u8 list \<Rightarrow> 'w \<Rightarrow> int \<times> 'w) \<Rightarrow> (Packet \<Rightarrow> 'w \<Rightarrow> 'w) \<Rightarrow> (u8 list \<times> bool) list \<Rightarrow> 'w conn \<Rightarrow> 'w conn option"
where
  "read_turns sendData handler [] s = Some s"
| "read_turns sendData handler (e # es) s =
     (case read_turn sendData handler e s of None \<Rightarrow> None | Some s' \<Rightarrow> read_turns sendData handler es s')"

definition connected :: "'w \<Rightarrow> 'w conn" where
  "connected w = \<lparr>active = True, incoming_buffer = [], world = w\<rparr>"

section \<open>The loop is a deframer\<close>

definition peek_packet :: "u8 list \<Rightarrow> framing" where
  "peek_packet b =
     (if length b < MIN_PACKET_SIZE then NeedMore
      else case read16 b 6 of None \<Rightarrow> NeedMore | Some argc \<Rightarrow>
        if unat argc > MAX_ARGC then Corrupt
        else if length b < MIN_PACKET_SIZE + unat argc * 4 then NeedMore
        else Frame (MIN_PACKET_SIZE + unat argc * 4))"

definition ack_bytes :: "Packet \<Rightarrow> u8 list" where
  "ack_bytes p = frame_bytes (ack_packet p) (packet_crc (ack_packet p))"

definition handle_frame ::
  "(u8 list \<Rightarrow> 'w \<Rightarrow> int \<times> 'w) \<Rightarrow> (Packet \<Rightarrow> 'w \<Rightarrow> 'w) \<Rightarrow> u8 list \<Rightarrow> 'w \<Rightarrow> bool \<times> 'w"
where
  "handle_frame sendData handler frame w =
     (case parse frame of
        Some (Some p) \<Rightarrow> let (n, w') = sendData (ack_bytes p) w in
          if n \<le> 0 then (False, w') else (True, handler p w')
      | _ \<Rightarrow> (False, w))"

lemma wf_ack_packet: "wf_packet (ack_packet p)"
  by (simp add: wf_packet_def ack_packet_def MAX_ARGC_def)

lemma serialize_ack: "serialize (ack_packet p) None = Some (ack_bytes p)"
  by (simp add: serialize_wf [OF wf_ack_packet] ack_bytes_def)

lemma header_read16: "MIN_PACKET_SIZE \<le> length b \<Longrightarrow> \<exists>v. read16 b 6 = Some v"
  by (simp add: MIN_PACKET_SIZE_def read16_def)

lemma process_packets_step:
  "process_packets snd_f hdl b w =
     (case peek_packet b of
        NeedMore \<Rightarrow> Some (False, b, w)
      | Corrupt \<Rightarrow> Some (True, b, w)
      | Frame n \<Rightarrow> let (ok, w') = handle_frame snd_f hdl (take n b) w in
          if ok then process_packets snd_f hdl (drop n b) w' else Some (True, drop n b, w'))"
proof -
  have "\<forall>d. \<exists>r. parse d = Some r" using parse_total by blast
  then obtain r where r: "\<And>d. parse d = Some (r d)" by metis
  show ?thesis
    using header_read16 [of b] r
    by (subst process_packets.simps)
      (auto simp: peek_packet_def handle_frame_def serialize_ack Let_def not_less split: option.split prod.split)
qed

lemma process_packets_total: "process_packets snd_f hdl b w \<noteq> None"
proof (induction b arbitrary: w rule: length_induct)
  case (1 b)
  show ?case
  proof (cases "peek_packet b")
    case (Frame n)
    then have "length (drop n b) < length b"
      by (auto simp: peek_packet_def MIN_PACKET_SIZE_def split: if_splits option.splits)
    then have rest: "process_packets snd_f hdl (drop n b) w' \<noteq> None" for w'
      using 1 by blast
    obtain ok w' where "handle_frame snd_f hdl (take n b) w = (ok, w')" by fastforce
    with Frame rest [of w'] show ?thesis
      by (subst process_packets_step) (simp del: not_None_eq)
  qed (simp_all add: process_packets_step [of _ _ b] del: not_None_eq)
qed

lemma process_packets_result:
  obtains c b' w' where "process_packets snd_f hdl b w = Some (c, b', w')"
  using process_packets_total [of snd_f hdl b w] by (cases "process_packets snd_f hdl b w") auto

lemma read16_append: "read16 b k = Some v \<Longrightarrow> read16 (b @ c) k = Some v"
  by (auto simp: read16_def at_eq_Some_iff bind_eq_Some_conv nth_append)

lemma peek_packet_append:
  "peek_packet b = Frame n \<Longrightarrow> peek_packet (b @ c) = Frame n"
  "peek_packet b = Corrupt \<Longrightarrow> peek_packet (b @ c) = Corrupt"
  by (auto simp: peek_packet_def read16_append split: if_splits option.splits)

interpretation cc: deframer peek_packet "handle_frame snd_f hdl" "\<lambda>b w. the (process_packets snd_f hdl b w)"
  for snd_f :: "u8 list \<Rightarrow> 'w \<Rightarrow> int \<times> 'w" and hdl
proof
  fix b n c and w :: 'w
  show "peek_packet b = Frame n \<Longrightarrow> 0 < n \<and> n \<le> length b"
    by (auto simp: peek_packet_def MIN_PACKET_SIZE_def split: if_splits option.splits)
  show "the (process_packets snd_f hdl b w) =
      (case peek_packet b of
         NeedMore \<Rightarrow> (False, b, w)
       | Corrupt \<Rightarrow> (True, b, w)
       | Frame n \<Rightarrow> let (ok, w') = handle_frame snd_f hdl (take n b) w in
           if ok then the (process_packets snd_f hdl (drop n b) w') else (True, drop n b, w'))"
    by (subst process_packets_step) (simp split: framing.split prod.split)
qed (auto simp: peek_packet_append)

section \<open>Reads\<close>

lemma process_packets_the: "process_packets snd_f hdl b w = Some (the (process_packets snd_f hdl b w))"
  using process_packets_total [of snd_f hdl b w] by simp

lemma process_packets_append:
  "process_packets snd_f hdl (b @ c) w =
    (case process_packets snd_f hdl b w of
       None \<Rightarrow> None
     | Some (close, left, w') \<Rightarrow>
         if close then Some (True, left @ c, w') else process_packets snd_f hdl (left @ c) w')"
proof -
  obtain c1 b1 w1 where p: "process_packets snd_f hdl b w = Some (c1, b1, w1)"
    by (rule process_packets_result)
  have "the (process_packets snd_f hdl (b @ c) w) =
      (if c1 then (True, b1 @ c, w1) else the (process_packets snd_f hdl (b1 @ c) w1))"
    using cc.drain_append [of snd_f hdl b c w] by (simp add: p)
  then show ?thesis
    using p process_packets_the [of snd_f hdl "b @ c" w] process_packets_the [of snd_f hdl "b1 @ c" w1]
    by (simp split: if_splits)
qed

lemma process_packets_left:
  assumes "process_packets snd_f hdl b w = Some (False, left, w')"
  shows "peek_packet left = NeedMore"
  using cc.drain_left [of snd_f hdl b w left w'] assms by simp

lemma peek_NeedMore_length: "peek_packet b = NeedMore \<Longrightarrow> length b < MIN_PACKET_SIZE + MAX_ARGC * 4"
  using header_read16 [of b]
  by (auto simp: peek_packet_def MAX_ARGC_def not_less split: if_splits option.splits)

definition conn_ok :: "'w conn \<Rightarrow> bool" where
  "conn_ok s \<longleftrightarrow> peek_packet (incoming_buffer s) = NeedMore \<and> (\<not> active s \<longrightarrow> incoming_buffer s = [])"

lemma peek_Nil: "peek_packet [] = NeedMore"
  by (simp add: peek_packet_def MIN_PACKET_SIZE_def)

lemma conn_ok_connected: "conn_ok (connected w)"
  by (simp add: conn_ok_def connected_def peek_Nil)

lemma read_turn_ok:
  assumes "conn_ok s"
  shows "\<exists>s'. read_turn snd_f hdl e s = Some s' \<and> conn_ok s'"
proof -
  obtain c b w where p: "process_packets snd_f hdl (incoming_buffer s @ fst e) (world s) = Some (c, b, w)"
    by (rule process_packets_result)
  have left: "\<not> c \<Longrightarrow> peek_packet b = NeedMore"
    using process_packets_left [of snd_f hdl "incoming_buffer s @ fst e" "world s" b w] p by simp
  obtain bytes hup where e: "e = (bytes, hup)" by fastforce
  show ?thesis
    using assms p left by (simp add: read_turn_def conn_ok_def peek_Nil e)
qed

lemma read_turns_ok:
  assumes "conn_ok s"
  shows "\<exists>s'. read_turns snd_f hdl es s = Some s' \<and> conn_ok s'"
  using assms
proof (induction es arbitrary: s)
  case (Cons e es)
  then show ?case using read_turn_ok [OF Cons.prems, of snd_f hdl e] by auto
qed simp

lemma read_turns_inactive: "\<not> active s \<Longrightarrow> read_turns snd_f hdl es s = Some s"
  by (induction es) (simp_all add: read_turn_def)

text \<open>A sequence of reads with data is one read of all the data.\<close>

lemma read_turns_concat:
  assumes "\<forall>c \<in> set cs. c \<noteq> []" and "cs \<noteq> []" and "conn_ok s"
  shows "read_turns snd_f hdl (map (\<lambda>c. (c, False)) cs) s = read_turn snd_f hdl (concat cs, False) s"
  using assms
proof (induction cs arbitrary: s)
  case (Cons c cs)
  show ?case
  proof (cases "cs = []")
    case True
    then show ?thesis by (simp split: option.split)
  next
    case False
    show ?thesis
    proof (cases "active s")
      case True
      obtain cl b w where p: "process_packets snd_f hdl (incoming_buffer s @ c) (world s) = Some (cl, b, w)"
        by (rule process_packets_result)
      obtain s' where s': "read_turn snd_f hdl (c, False) s = Some s'" "conn_ok s'"
        using read_turn_ok [OF Cons.prems(3)] by blast
      have s'_eq: "s' = (if cl then \<lparr>active = False, incoming_buffer = [], world = w\<rparr>
          else \<lparr>active = True, incoming_buffer = b, world = w\<rparr>)"
        using s'(1) p True Cons.prems(1) by (auto simp: read_turn_def)
      have "concat cs \<noteq> []" using False Cons.prems(1) by (cases cs) auto
      moreover have "read_turns snd_f hdl (map (\<lambda>c. (c, False)) cs) s' = read_turn snd_f hdl (concat cs, False) s'"
        using Cons.IH [OF _ False s'(2)] Cons.prems(1) by simp
      ultimately show ?thesis
        using s'(1) p True Cons.prems(1) process_packets_append [of snd_f hdl "incoming_buffer s @ c" "concat cs" "world s"]
        by (auto simp: s'_eq read_turn_def)
    next
      case inactive: False
      then have "read_turns snd_f hdl (map (\<lambda>c. (c, False)) (c # cs)) s = Some s"
        by (rule read_turns_inactive)
      with inactive show ?thesis by (simp add: read_turn_def)
    qed
  qed
qed simp

lemma frame_peek:
  assumes "wf_packet p"
  shows "peek_packet (frame_bytes p c @ rest) = Frame (getPacketSize p)"
proof -
  have "frame_bytes p c @ rest = wire 0xEB90 0x5B6A (pkt_code p) (pkt_argc p) (pkt_argv p) c 0xC5A4 0xD279 rest"
    by (cases p) (simp add: wire_frame_bytes)
  then have "read16 (frame_bytes p c @ rest) 6 = Some (pkt_argc p)"
    using wire_read_header(4) by metis
  then show ?thesis
    using assms by (simp add: peek_packet_def wf_packet_def MIN_PACKET_SIZE_def getPacketSize_def)
qed

definition stream :: "Packet list \<Rightarrow> u8 list" where
  "stream ps = concat (map (\<lambda>p. frame_bytes p (packet_crc p)) ps)"

text \<open>The world after a packet was acknowledged and handled.\<close>

definition serve_packet ::
  "(u8 list \<Rightarrow> 'w \<Rightarrow> int \<times> 'w) \<Rightarrow> (Packet \<Rightarrow> 'w \<Rightarrow> 'w) \<Rightarrow> Packet \<Rightarrow> 'w \<Rightarrow> 'w" where
  "serve_packet sendData handler p w = handler p (snd (sendData (ack_bytes p) w))"

lemma process_packets_stream:
  assumes "\<forall>p \<in> set ps. wf_packet p" and "\<And>bytes w. fst (snd_f bytes w) > 0" and "peek_packet rest = NeedMore"
  shows "process_packets snd_f hdl (stream ps @ rest) w =
    Some (False, rest, fold (serve_packet snd_f hdl) ps w)"
  using assms(1)
proof (induction ps arbitrary: w)
  case Nil
  then show ?case using assms(3) by (subst process_packets_step) (simp add: stream_def)
next
  case (Cons p ps)
  let ?f = "frame_bytes p (packet_crc p)"
  have wf: "wf_packet p" using Cons.prems by simp
  have len: "length ?f = getPacketSize p" by (simp add: length_frame_wf wf)
  have pk: "peek_packet (?f @ stream ps @ rest) = Frame (getPacketSize p)"
    by (rule frame_peek [OF wf])
  obtain n w' where s: "snd_f (ack_bytes p) w = (n, w')" by fastforce
  with assms(2) have n: "n > 0" by (metis fst_conv)
  have h: "handle_frame snd_f hdl ?f w = (True, hdl p w')"
    using parse_frame_bytes [OF wf, of "packet_crc p" "[]"] s n by (simp add: handle_frame_def)
  have "stream (p # ps) @ rest = ?f @ stream ps @ rest" by (simp add: stream_def)
  then show ?case
    using Cons pk h len s
    by (subst process_packets_step) (simp add: serve_packet_def [abs_def])
qed

section \<open>Correctness of the stream client\<close>

text \<open>
  C1: How the kernel cuts the hub's byte stream into reads does not matter: any sequence of
  non-empty reads leaves the connection, its buffer and the world (acknowledgements sent,
  handlers run, and their order) as one read of the whole stream does, also when the stream is
  corrupt and the connection is dropped on the way.
\<close>

theorem fragmentation_independent:
  assumes "\<forall>c \<in> set cs. c \<noteq> []" and "cs \<noteq> []"
  shows "read_turns sendData handler (map (\<lambda>c. (c, False)) cs) (connected w) =
    read_turns sendData handler [(concat cs, False)] (connected w)"
  using read_turns_concat [OF assms conn_ok_connected, of sendData handler w]
  by (simp split: option.split)

text \<open>
  C4: Nothing sent is lost, duplicated or reordered: when the reads together carry the
  serialised packets \<open>ps\<close> followed by an incomplete tail, and sending works, then each packet is
  acknowledged and handled exactly once, in order, the acknowledgement first; the connection
  stays up and the tail stays buffered.
\<close>

theorem packets_served_in_order:
  assumes "\<forall>p \<in> set ps. wf_packet p" and "\<forall>c \<in> set cs. c \<noteq> []" and "cs \<noteq> []"
    and "concat cs = concat (map (\<lambda>p. the (serialize p None)) ps) @ tail"
    and "length tail < MIN_PACKET_SIZE"
    and "\<And>bytes w. fst (sendData bytes w) > 0"
  shows "read_turns sendData handler (map (\<lambda>c. (c, False)) cs) (connected w) =
    Some \<lparr>active = True, incoming_buffer = tail,
          world = fold (\<lambda>p w. handler p (snd (sendData (the (serialize (ack_packet p) None)) w))) ps w\<rparr>"
proof -
  have "map (\<lambda>p. the (serialize p None)) ps = map (\<lambda>p. frame_bytes p (packet_crc p)) ps"
    using assms(1) by (simp add: serialize_wf)
  then have cs: "concat cs = stream ps @ tail" unfolding stream_def by (simp only: assms(4))
  have need: "peek_packet tail = NeedMore" using assms(5) by (simp add: peek_packet_def)
  have ne: "concat cs \<noteq> []" using assms(2,3) by (cases cs) auto
  have "read_turns sendData handler (map (\<lambda>c. (c, False)) cs) (connected w) =
      read_turn sendData handler (concat cs, False) (connected w)"
    by (rule read_turns_concat [OF assms(2,3) conn_ok_connected])
  also have "\<dots> = Some \<lparr>active = True, incoming_buffer = tail, world = fold (serve_packet sendData handler) ps w\<rparr>"
    using ne process_packets_stream [OF assms(1,6) need, where hdl = handler and w = w]
    by (simp add: read_turn_def connected_def cs)
  finally show ?thesis by (simp add: serve_packet_def [abs_def] serialize_ack)
qed

text \<open>
  C33: Whatever the peer sends, in whatever pieces, the loop never accesses its buffers out of
  bounds and never holds more than 141 bytes of a partial packet after a turn; once the connection
  is dropped its buffer is empty.
\<close>

theorem read_loop_bounded:
  "\<exists>s. read_turns sendData handler es (connected w) = Some s \<and>
     length (incoming_buffer s) < MIN_PACKET_SIZE + MAX_ARGC * 4 \<and> (active s \<or> incoming_buffer s = [])"
  using read_turns_ok [OF conn_ok_connected, of sendData handler es w] peek_NeedMore_length
  by (auto simp: conn_ok_def)

text \<open>Witnesses: a world that logs acknowledgements and handled codes.\<close>

definition log_send :: "u8 list \<Rightarrow> (nat + u16) list \<Rightarrow> int \<times> (nat + u16) list" where
  "log_send bytes l = (int (length bytes) + 1, l @ [Inl (length bytes)])"

definition log_handle :: "Packet \<Rightarrow> (nat + u16) list \<Rightarrow> (nat + u16) list" where
  "log_handle p l = l @ [Inr (pkt_code p)]"

theorem fragmentation_independent_witness:
  "read_turns log_send log_handle [([1, 2], False), ([3], False)] (connected []) =
   read_turns log_send log_handle [([1, 2, 3], False)] (connected [])"
  using fragmentation_independent [of "[[1, 2], [3]]" log_send log_handle "[]"] by simp

theorem packets_served_in_order_witness:
  "read_turns log_send log_handle
     (map (\<lambda>c. (c, False)) [take 5 (the (serialize example_packet None)), drop 5 (the (serialize example_packet None)) @ [7]])
     (connected []) =
   Some \<lparr>active = True, incoming_buffer = [7], world = [Inl 18, Inr 0x5109]\<rparr>"
proof -
  let ?f = "the (serialize example_packet None)"
  have wf: "wf_packet example_packet"
    by (simp add: wf_packet_def example_packet_def MAX_ARGC_def)
  have len: "length ?f = 22"
    by (simp add: serialize_wf [OF wf]) (simp add: example_packet_def)
  have a: "\<forall>c \<in> set [take 5 ?f, drop 5 ?f @ [7]]. c \<noteq> []" using len by (auto simp: take_eq_Nil)
  have "read_turns log_send log_handle (map (\<lambda>c. (c, False)) [take 5 ?f, drop 5 ?f @ [7]]) (connected []) =
    Some \<lparr>active = True, incoming_buffer = [7], world = fold (\<lambda>p w. log_handle p
      (snd (log_send (the (serialize (ack_packet p) None)) w))) [example_packet] []\<rparr>"
    by (rule packets_served_in_order [OF _ a]) (simp_all add: wf log_send_def MIN_PACKET_SIZE_def)
  then show ?thesis
    by (simp add: log_send_def log_handle_def serialize_ack ack_bytes_def)
      (simp add: ack_packet_def example_packet_def)
qed

end
