(* ===== verification/DaqManager.thy ===== *)
theory DaqManager
  imports HubConnection
begin

text \<open>
  \<open>GRAMS_TOF_DAQManager\<close> (\<^verbatim>\<open>src/GRAMS_TOF_DAQManager.cpp\<close>) with the two functions of
  \<open>FrameServer\<close> that own the shared memory: initialisation, clean-up, the listening socket and the
  poll loop that serves the acquisition clients.

  The frame server and the cards are heap objects; the state keeps which are alive, so that
  deleting an object twice and dropping the last pointer to a live one are visible. What the
  kernel and the constructors of other files answer is in \<open>init_env\<close>.
\<close>

section \<open>State\<close>

record daqm =
  dsys :: fds
  daqType :: string
  daqCardList :: "string list"
  daqCardPortBits :: nat
  shmfd :: int
  shmPtr :: bool
  frameServer :: "nat option"
  daqCards :: "nat list"
  heap_live :: "nat set"
  heap_next :: nat
  double_frees :: nat

record init_env =
  e_socket :: bool
  e_bind :: bool
  e_listen :: bool
  e_shm_open :: bool
  e_card :: "string \<Rightarrow> bool"
  e_server :: bool

definition new_object :: "daqm \<Rightarrow> nat \<times> daqm" where
  "new_object m = (heap_next m, m\<lparr>heap_live := insert (heap_next m) (heap_live m), heap_next := Suc (heap_next m)\<rparr>)"

definition delete_object :: "nat \<Rightarrow> daqm \<Rightarrow> daqm" where
  "delete_object p m =
     (if p \<in> heap_live m then m\<lparr>heap_live := heap_live m - {p}\<rparr>
      else m\<lparr>double_frees := Suc (double_frees m)\<rparr>)"

definition daqm_new :: "fds \<Rightarrow> string \<Rightarrow> string list \<Rightarrow> daqm" where
  "daqm_new s ty cards =
     \<lparr>dsys = s, daqType = ty, daqCardList = cards, daqCardPortBits = 5, shmfd = -1, shmPtr = False,
      frameServer = None, daqCards = [], heap_live = {}, heap_next = 0, double_frees = 0\<rparr>"

section \<open>Initialisation and clean-up\<close>

definition createListeningSocket :: "init_env \<Rightarrow> daqm \<Rightarrow> int \<times> daqm" where
  "createListeningSocket e m =
     (if \<not> e_socket e then (-1, m)
      else let (fd, s) = os_new_fd (dsys m) in
      if \<not> e_bind e then (-1, m\<lparr>dsys := os_close fd s\<rparr>)
      else if \<not> e_listen e then (-1, m\<lparr>dsys := os_close fd s\<rparr>)
      else (fd, m\<lparr>dsys := s\<rparr>))"

text \<open>
  \<open>shmfd\<close> is set also when opening fails, \<open>shmPtr\<close> is not. \<^verbatim>\<open>mmap\<close> reports failure by a
  non-null pointer, which passes the code's test, so the pointer counts as set.
\<close>

definition allocateSharedMemory :: "init_env \<Rightarrow> daqm \<Rightarrow> daqm" where
  "allocateSharedMemory e m =
     (if \<not> e_shm_open e then m\<lparr>shmfd := -1\<rparr>
      else let (fd, s) = os_new_fd (dsys m) in m\<lparr>dsys := s, shmfd := fd, shmPtr := True\<rparr>)"

definition freeSharedMemory :: "daqm \<Rightarrow> daqm" where
  "freeSharedMemory m = (if shmfd m \<noteq> -1 then m\<lparr>dsys := os_close (shmfd m) (dsys m)\<rparr> else m)"

fun open_cards :: "init_env \<Rightarrow> string list \<Rightarrow> daqm \<Rightarrow> bool \<times> daqm" where
  "open_cards e [] m = (True, m)"
| "open_cards e (path # paths) m =
     (if \<not> e_card e path then (False, m)
      else let (card, m') = new_object m in open_cards e paths (m'\<lparr>daqCards := daqCards m' @ [card]\<rparr>))"

definition create_frame_server :: "init_env \<Rightarrow> daqm \<Rightarrow> daqm" where
  "create_frame_server e m =
     (if e_server e then let (p, m') = new_object m in m'\<lparr>frameServer := Some p\<rparr>
      else m\<lparr>frameServer := None\<rparr>)"

definition initialize :: "init_env \<Rightarrow> daqm \<Rightarrow> bool \<times> daqm" where
  "initialize e m =
     (if length (daqCardList m) > 2 then (False, m)
      else let m1 = (if daqCardList m = [] then m\<lparr>daqCardList := [''/dev/psdaq0'']\<rparr> else m);
               m2 = (if length (daqCardList m1) = 2 then m1\<lparr>daqCardPortBits := 2\<rparr> else m1);
               (fd, m3) = createListeningSocket e m2 in
      if fd < 0 then (False, m3)
      else let m4 = allocateSharedMemory e (m3\<lparr>dsys := setServerFD DAQ fd (dsys m3)\<rparr>) in
      if shmfd m4 = -1 \<or> \<not> shmPtr m4 then (False, m4)
      else if daqType m4 = ''GBE'' then
        let m5 = create_frame_server e m4 in (frameServer m5 \<noteq> None, m5)
      else if daqType m4 = ''PFP_KX7'' then
        let (ok, m5) = open_cards e (daqCardList m4) m4 in
        if \<not> ok then (False, m5)
        else let m6 = create_frame_server (e\<lparr>e_server := True\<rparr>) m5 in (frameServer m6 \<noteq> None, m6)
      else (False, m4))"

text \<open>\<open>cleanup\<close> leaves all its pointers as they were.\<close>

definition cleanup :: "daqm \<Rightarrow> daqm" where
  "cleanup m =
     (let m1 = (case frameServer m of None \<Rightarrow> m | Some p \<Rightarrow> delete_object p m);
          m2 = fold delete_object (daqCards m1) m1
      in freeSharedMemory m2)"

section \<open>The poll loop\<close>

text \<open>
  A turn of the loop: a connection, an error event on a client or a readable client with the
  status of \<open>handleRequest\<close>. The list holds the sockets of the \<open>PETSYS::Client\<close> objects, whose
  destructor closes them.
\<close>

datatype poll_event = NewClient bool bool | ClientError int | ClientReadable int int

definition erase_poll_client :: "int \<Rightarrow> fds \<times> (int, unit) std_map \<Rightarrow> fds \<times> (int, unit) std_map" where
  "erase_poll_client fd st = (os_close fd (fst st), map_erase fd (snd st))"

fun poll_turn :: "poll_event \<Rightarrow> fds \<times> (int, unit) std_map \<Rightarrow> fds \<times> (int, unit) std_map" where
  "poll_turn (NewClient accepted ctl_ok) st =
     (if \<not> accepted then st
      else let (new_fd, s) = os_new_fd (fst st) in
      if new_fd \<le> 2 then (os_close new_fd s, snd st)
      else if \<not> ctl_ok then (os_close new_fd s, snd st)
      else (s, map_put new_fd () (snd st)))"
| "poll_turn (ClientError fd) st =
     (if map_find (snd st) fd = None then st else erase_poll_client fd st)"
| "poll_turn (ClientReadable fd actionStatus) st =
     (if map_find (snd st) fd = None then st
      else if actionStatus = -1 then erase_poll_client fd st
      else st)"

definition pollSocket :: "bool \<Rightarrow> bool \<Rightarrow> poll_event list \<Rightarrow> fds \<Rightarrow> fds" where
  "pollSocket epoll_ok ctl_ok events s =
     (if \<not> epoll_ok then s
      else let (ep, s1) = os_new_fd s in
      if \<not> ctl_ok then os_close ep s1
      else let (s2, clients) = fold poll_turn events (s1, []);
               s3 = fold os_close (map_keys clients) s2
           in os_close ep s3)"

section \<open>The poll loop gives every descriptor back\<close>

text \<open>During the loop the open descriptors are the initial ones and the clients', and those differ.\<close>

definition poll_ok :: "fds \<Rightarrow> fds \<times> (int, unit) std_map \<Rightarrow> bool" where
  "poll_ok s0 st \<longleftrightarrow> map_ok (snd st) \<and> finite (os_open s0) \<and> {0, 1, 2} \<subseteq> os_open s0 \<and>
     os_open (fst st) = os_open s0 \<union> set (map_keys (snd st)) \<and> os_open s0 \<inter> set (map_keys (snd st)) = {} \<and>
     (\<exists>opn. fst st = s0\<lparr>os_open := opn\<rparr>)"

lemma erase_poll_ok:
  assumes "poll_ok s0 st" and "map_find (snd st) fd \<noteq> None"
  shows "poll_ok s0 (erase_poll_client fd st)"
proof -
  have fd: "fd \<in> set (map_keys (snd st))" using assms(2) by (simp add: map_keys_find)
  then show ?thesis
    using assms(1)
    by (auto simp: poll_ok_def erase_poll_client_def std_map_simps os_close_def)
qed

lemma poll_turn_ok:
  assumes "poll_ok s0 st"
  shows "poll_ok s0 (poll_turn e st)"
proof (cases e)
  case (NewClient accepted ctl_ok)
  obtain fd s where new: "os_new_fd (fst st) = (fd, s)" by fastforce
  have fin: "finite (os_open (fst st))" "{0, 1, 2} \<subseteq> os_open (fst st)"
    using assms by (auto simp: poll_ok_def)
  note fd = os_new_fd_spec [OF new fin]
  show ?thesis
  proof (cases "accepted \<and> ctl_ok")
    case True
    then have "poll_turn e st = (s, map_put fd () (snd st))"
      using NewClient new fd by simp
    moreover have "set (map_keys (map_put fd () (snd st))) = insert fd (set (map_keys (snd st)))"
      using assms by (simp add: poll_ok_def std_map_simps)
    moreover have "map_ok (map_put fd () (snd st))" using assms by (simp add: poll_ok_def std_map_simps)
    moreover have "\<exists>opn. s = s0\<lparr>os_open := opn\<rparr>" using assms fd(3) by (auto simp: poll_ok_def)
    moreover have "os_open s = insert fd (os_open (fst st))" using fd(3) by simp
    ultimately show ?thesis
      using assms fd(1) unfolding poll_ok_def by simp
  next
    case False
    have "os_close fd s = fst st" using fd by (simp add: os_close_def)
    with False have "poll_turn e st = st"
      using NewClient new by (cases st; cases accepted) simp_all
    then show ?thesis using assms by simp
  qed
next
  case (ClientError fd)
  then show ?thesis using assms erase_poll_ok by simp
next
  case (ClientReadable fd status)
  then show ?thesis using assms erase_poll_ok by simp
qed

lemma poll_turns_ok: "poll_ok s0 st \<Longrightarrow> poll_ok s0 (fold poll_turn es st)"
  by (induction es arbitrary: st) (simp_all add: poll_turn_ok)

lemma fold_os_close:
  assumes "distinct ks" and "set ks \<subseteq> os_open s"
  shows "fold os_close ks s = s\<lparr>os_open := os_open s - set ks\<rparr>"
  using assms
proof (induction ks arbitrary: s)
  case (Cons k ks)
  then have "fold os_close ks (os_close k s) = (os_close k s)\<lparr>os_open := os_open (os_close k s) - set ks\<rparr>"
    by (intro Cons.IH) auto
  moreover have "os_close k s = s\<lparr>os_open := os_open s - {k}\<rparr>"
    using Cons.prems by (simp add: os_close_def)
  ultimately show ?case by (simp flip: Diff_insert2)
qed simp

text \<open>
  However the connections come and go while the poll loop runs, when it returns the process
  has exactly the descriptors open that it had before, and nothing was closed twice.
\<close>

theorem poll_socket_releases:
  assumes "finite (os_open s)" and "{0, 1, 2} \<subseteq> os_open s"
  shows "pollSocket epoll_ok ctl_ok events s = s"
proof (cases "epoll_ok \<and> ctl_ok")
  case False
  obtain ep s1 where new: "os_new_fd s = (ep, s1)" by fastforce
  show ?thesis
    using False new os_new_fd_spec [OF new assms] by (auto simp: pollSocket_def os_close_def)
next
  case True
  obtain ep s1 where new: "os_new_fd s = (ep, s1)" by fastforce
  note ep = os_new_fd_spec [OF new assms]
  obtain s2 clients where run: "fold poll_turn events (s1, []) = (s2, clients)" by fastforce
  have "poll_ok s1 (s1, [])"
    using assms ep by (auto simp: poll_ok_def map_keys_def intro: exI [where x = "os_open s1"])
  from poll_turns_ok [OF this, of events] run
  obtain opn where ok: "map_ok clients" "os_open s2 = os_open s1 \<union> set (map_keys clients)"
    "os_open s1 \<inter> set (map_keys clients) = {}" "s2 = s1\<lparr>os_open := opn\<rparr>"
    by (auto simp: poll_ok_def)
  have "fold os_close (map_keys clients) s2 = s2\<lparr>os_open := os_open s2 - set (map_keys clients)\<rparr>"
    using ok(1,2) by (intro fold_os_close sm.distinct_keys) auto
  moreover have "os_open s2 - set (map_keys clients) = os_open s1" using ok(2,3) by auto
  ultimately have "fold os_close (map_keys clients) s2 = s1" using ok(4) by simp
  then show ?thesis
    using True new run ep by (simp add: pollSocket_def os_close_def)
qed

theorem poll_socket_releases_witness:
  "pollSocket True True [NewClient True True, NewClient True True, ClientReadable 4 (-1), NewClient True False, ClientError 9] fds_init = fds_init"
  by (rule poll_socket_releases) (simp_all add: fds_init_def)

section \<open>Clean-up does not forget\<close>

lemma delete_object_simps [simp]:
  "frameServer (delete_object p m) = frameServer m"
  "daqCards (delete_object p m) = daqCards m"
  "heap_live (delete_object p m) = heap_live m - {p}"
  "daqCardList (delete_object p m) = daqCardList m"
  "daqType (delete_object p m) = daqType m"
  "shmfd (delete_object p m) = shmfd m"
  "dsys (delete_object p m) = dsys m"
  "double_frees (delete_object p m) = (if p \<in> heap_live m then double_frees m else Suc (double_frees m))"
  by (simp_all add: delete_object_def)

lemma fold_delete:
  "frameServer (fold delete_object ps m) = frameServer m \<and> daqCards (fold delete_object ps m) = daqCards m \<and>
   heap_live (fold delete_object ps m) = heap_live m - set ps \<and>
   shmfd (fold delete_object ps m) = shmfd m \<and> dsys (fold delete_object ps m) = dsys m \<and>
   daqCardList (fold delete_object ps m) = daqCardList m \<and> daqType (fold delete_object ps m) = daqType m \<and>
   double_frees m \<le> double_frees (fold delete_object ps m)"
proof (induction ps arbitrary: m)
  case (Cons p ps)
  from Cons.IH [of "delete_object p m"] show ?case
    by (auto split: if_splits)
qed simp

lemma cleanup_simps [simp]:
  "frameServer (cleanup m) = frameServer m"
  "daqCards (cleanup m) = daqCards m"
  "daqCardList (cleanup m) = daqCardList m"
  "heap_live (cleanup m) = heap_live m - set_option (frameServer m) - set (daqCards m)"
  using fold_delete [of "daqCards m"]
  by (auto simp: cleanup_def freeSharedMemory_def Let_def split: option.split)

lemma cleanup_double_free:
  assumes "frameServer m = Some p" and "p \<notin> heap_live m"
  shows "double_frees (cleanup m) > double_frees m"
  using assms fold_delete [of "daqCards m" "delete_object p m"]
  by (auto simp: cleanup_def freeSharedMemory_def Let_def)

lemma createListeningSocket_fails:
  assumes "\<not> (e_socket e \<and> e_bind e \<and> e_listen e)"
  shows "\<exists>s. createListeningSocket e m = (-1, m\<lparr>dsys := s\<rparr>)"
proof (cases "e_socket e")
  case False
  then show ?thesis by (intro exI [where x = "dsys m"]) (simp add: createListeningSocket_def)
next
  case True
  then show ?thesis using assms by (auto simp: createListeningSocket_def split: prod.split)
qed

lemma initialize_no_socket:
  assumes "\<not> (e_socket e \<and> e_bind e \<and> e_listen e)" and "length (daqCardList m) \<le> 2"
  shows "\<exists>m'. initialize e m = (False, m') \<and> frameServer m' = frameServer m \<and> heap_live m' = heap_live m"
proof -
  define m2 where "m2 = (let m1 = (if daqCardList m = [] then m\<lparr>daqCardList := [''/dev/psdaq0'']\<rparr> else m)
    in if length (daqCardList m1) = 2 then m1\<lparr>daqCardPortBits := 2\<rparr> else m1)"
  obtain s where s: "createListeningSocket e m2 = (-1, m2\<lparr>dsys := s\<rparr>)"
    using createListeningSocket_fails [OF assms(1)] by blast
  then have "initialize e m = (False, m2\<lparr>dsys := s\<rparr>)"
    using assms(2) by (simp add: initialize_def m2_def Let_def not_less)
  moreover have "frameServer m2 = frameServer m" "heap_live m2 = heap_live m"
    by (simp_all add: m2_def Let_def)
  ultimately show ?thesis by simp
qed

text \<open>
  A reset whose re-initialisation fails before the frame server is created (for instance
  because the listening socket cannot be made) leaves the manager with a pointer to the deleted
  frame server, which \<open>run\<close> still accepts, and the next clean-up (the destructor's) deletes it a
  second time.
\<close>

theorem failed_reset_double_frees:
  assumes "frameServer m = Some p" and "length (daqCardList m) \<le> 2"
    and "\<not> (e_socket e \<and> e_bind e \<and> e_listen e)"
  shows "\<exists>m'. initialize e (cleanup m) = (False, m') \<and> frameServer m' = Some p \<and> p \<notin> heap_live m' \<and>
    double_frees (cleanup m') > double_frees m'"
proof -
  have "\<exists>m'. initialize e (cleanup m) = (False, m') \<and> frameServer m' = frameServer (cleanup m) \<and>
    heap_live m' = heap_live (cleanup m)"
    using assms(2) by (intro initialize_no_socket [OF assms(3)]) simp
  then obtain m' where m': "initialize e (cleanup m) = (False, m')" "frameServer m' = frameServer (cleanup m)"
    "heap_live m' = heap_live (cleanup m)" by blast
  with assms(1) have "frameServer m' = Some p" "p \<notin> heap_live m'" by simp_all
  with m'(1) cleanup_double_free show ?thesis by blast
qed

definition net_ok :: init_env where
  "net_ok = \<lparr>e_socket = True, e_bind = True, e_listen = True, e_shm_open = True, e_card = (\<lambda>_. True), e_server = True\<rparr>"

definition daqm_example :: daqm where
  "daqm_example = snd (initialize net_ok (daqm_new fds_init ''GBE'' [''/dev/psdaq0'']))"

lemma daqm_example_server: "frameServer daqm_example = Some 0 \<and> daqCardList daqm_example = [''/dev/psdaq0'']
    \<and> fst (initialize net_ok (daqm_new fds_init ''GBE'' [''/dev/psdaq0''])) \<and> daqType daqm_example = ''GBE''"
  by (simp add: daqm_example_def initialize_def daqm_new_def net_ok_def createListeningSocket_def
      allocateSharedMemory_def create_frame_server_def new_object_def os_new_fd_def Let_def fds_init_def
      setServerFD_def SafeFD_setFD_def numeral_eq_Suc)

theorem failed_reset_double_frees_witness:
  "\<exists>m'. initialize (net_ok\<lparr>e_bind := False\<rparr>) (cleanup daqm_example) = (False, m') \<and> double_frees (cleanup m') > double_frees m'"
  using failed_reset_double_frees [of daqm_example 0 "net_ok\<lparr>e_bind := False\<rparr>"] daqm_example_server
  by (auto simp: net_ok_def)

end
