(* ===== verification/DaqControl.thy ===== *)
theory DaqControl
  imports DaqManager
begin

text \<open>
  The acquisition thread and the three commands that control it: the START, STOP and RESET entries
  of the table in \<^verbatim>\<open>src/GRAMS_TOF_CommandDispatch.cpp\<close>, \<open>runDAQThread\<close>, and
  \<open>GRAMS_TOF_DAQManager::run\<close> and \<open>stop\<close>. Commands are executed one after the other by the command
  client's thread; the acquisition thread runs beside it. A step is what one thread does between
  two points where the other can interfere: an access to the flag \<open>globalUserStop\<close>, a section
  under \<open>daqMutex\<close>, a join. START holds the mutex while it joins.
\<close>

section \<open>States and steps\<close>

datatype daq_command = Start init_env | Stop | Reset init_env

datatype control_pc = Idle | StartJoin init_env | StopSignal | StopJoin | StopClear
  | ResetSignal init_env | ResetJoin init_env

text \<open>The acquisition thread: not there, entering \<open>run\<close>, polling, past \<open>run\<close>, ended but not joined.\<close>

datatype thread_pc = NoThread | Entered | Polling | Leaving | Ended

record control =
  pending :: "daq_command list"
  cpc :: control_pc
  tpc :: thread_pc
  daqRunning :: bool
  globalUserStop :: bool
  mutex_held :: bool
  mgr :: daqm
  results :: "bool list"

text \<open>Joining returns when the thread has ended; without a joinable thread there is no wait.\<close>

definition joined :: "control \<Rightarrow> bool" where
  "joined s \<longleftrightarrow> tpc s = NoThread \<or> tpc s = Ended"

inductive cstep :: "control \<Rightarrow> control \<Rightarrow> bool" where
  start_rejected: "cpc s = Idle \<Longrightarrow> pending s = Start e # q \<Longrightarrow> daqRunning s \<Longrightarrow>
    cstep s (s\<lparr>pending := q, results := results s @ [False]\<rparr>)"
| start_locks: "cpc s = Idle \<Longrightarrow> pending s = Start e # q \<Longrightarrow> \<not> daqRunning s \<Longrightarrow>
    cstep s (s\<lparr>pending := q, cpc := StartJoin e, mutex_held := True\<rparr>)"
| start_spawns: "cpc s = StartJoin e \<Longrightarrow> joined s \<Longrightarrow> initialize e (mgr s) = (True, m) \<Longrightarrow>
    cstep s (s\<lparr>cpc := Idle, mutex_held := False, mgr := m, daqRunning := True, tpc := Entered,
               results := results s @ [True]\<rparr>)"
| start_fails: "cpc s = StartJoin e \<Longrightarrow> joined s \<Longrightarrow> initialize e (mgr s) = (False, m) \<Longrightarrow>
    cstep s (s\<lparr>cpc := Idle, mutex_held := False, mgr := m, tpc := NoThread, results := results s @ [False]\<rparr>)"
| stop_rejected: "cpc s = Idle \<Longrightarrow> pending s = Stop # q \<Longrightarrow> \<not> daqRunning s \<Longrightarrow>
    cstep s (s\<lparr>pending := q, results := results s @ [False]\<rparr>)"
| stop_checks: "cpc s = Idle \<Longrightarrow> pending s = Stop # q \<Longrightarrow> daqRunning s \<Longrightarrow>
    cstep s (s\<lparr>pending := q, cpc := StopSignal\<rparr>)"
| stop_signals: "cpc s = StopSignal \<Longrightarrow> cstep s (s\<lparr>globalUserStop := True, cpc := StopJoin\<rparr>)"
| stop_joins: "cpc s = StopJoin \<Longrightarrow> joined s \<Longrightarrow> cstep s (s\<lparr>tpc := NoThread, cpc := StopClear\<rparr>)"
| stop_clears: "cpc s = StopClear \<Longrightarrow> cstep s (s\<lparr>daqRunning := False, cpc := Idle, results := results s @ [True]\<rparr>)"
| reset_begins: "cpc s = Idle \<Longrightarrow> pending s = Reset e # q \<Longrightarrow>
    cstep s (s\<lparr>pending := q, daqRunning := False, cpc := ResetSignal e\<rparr>)"
| reset_signals: "cpc s = ResetSignal e \<Longrightarrow> cstep s (s\<lparr>globalUserStop := True, cpc := ResetJoin e\<rparr>)"
| reset_restarts: "cpc s = ResetJoin e \<Longrightarrow> joined s \<Longrightarrow> initialize e (cleanup (mgr s)) = (True, m) \<Longrightarrow>
    cstep s (s\<lparr>cpc := Idle, mgr := m, daqRunning := True, tpc := Entered, results := results s @ [True]\<rparr>)"
| reset_fails: "cpc s = ResetJoin e \<Longrightarrow> joined s \<Longrightarrow> initialize e (cleanup (mgr s)) = (False, m) \<Longrightarrow>
    cstep s (s\<lparr>cpc := Idle, mgr := m, tpc := NoThread, results := results s @ [False]\<rparr>)"
| run_refuses: "tpc s = Entered \<Longrightarrow> frameServer (mgr s) = None \<Longrightarrow> cstep s (s\<lparr>tpc := Leaving\<rparr>)"
| run_clears: "tpc s = Entered \<Longrightarrow> frameServer (mgr s) \<noteq> None \<Longrightarrow>
    cstep s (s\<lparr>tpc := Polling, globalUserStop := False\<rparr>)"
| poll_ends: "tpc s = Polling \<Longrightarrow> globalUserStop s \<Longrightarrow> cstep s (s\<lparr>tpc := Leaving\<rparr>)"
| thread_ends: "tpc s = Leaving \<Longrightarrow> \<not> mutex_held s \<Longrightarrow> cstep s (s\<lparr>tpc := Ended, daqRunning := False\<rparr>)"

text \<open>While the flag is clear, \<open>pollSocket\<close> turns without changing this state: no step.\<close>

definition control_init :: "daqm \<Rightarrow> daq_command list \<Rightarrow> control" where
  "control_init m q = \<lparr>pending = q, cpc = Idle, tpc = NoThread, daqRunning = False, globalUserStop = False,
     mutex_held = False, mgr = m, results = []\<rparr>"

inductive_simps cstep_start: "cstep s s'"

definition reachable :: "daqm \<Rightarrow> daq_command list \<Rightarrow> control \<Rightarrow> bool" where
  "reachable m q s \<longleftrightarrow> cstep\<^sup>*\<^sup>* (control_init m q) s"

section \<open>The invariant\<close>

text \<open>
  When the flag \<open>daqRunning\<close> is down there is no live acquisition thread, except in the middle of
  a RESET, which lowers it first, and the mutex is held exactly while START joins.
\<close>

definition control_ok :: "control \<Rightarrow> bool" where
  "control_ok s \<longleftrightarrow>
     (mutex_held s \<longleftrightarrow> (\<exists>e. cpc s = StartJoin e)) \<and>
     (\<not> daqRunning s \<longrightarrow> joined s \<or> (\<exists>e. cpc s = ResetSignal e \<or> cpc s = ResetJoin e)) \<and>
     ((\<exists>e. cpc s = StartJoin e) \<longrightarrow> \<not> daqRunning s) \<and>
     (cpc s = StopClear \<longrightarrow> joined s) \<and>
     ((\<exists>e. cpc s = ResetSignal e \<or> cpc s = ResetJoin e) \<longrightarrow> \<not> daqRunning s)"

lemma control_ok_init: "control_ok (control_init m q)"
  by (simp add: control_ok_def control_init_def joined_def)

lemma control_ok_step: "cstep s s' \<Longrightarrow> control_ok s \<Longrightarrow> control_ok s'"
  by (induction rule: cstep.induct) (auto simp: control_ok_def joined_def)

lemma control_ok_reachable: "reachable m q s \<Longrightarrow> control_ok s"
  unfolding reachable_def
  by (induction rule: rtranclp_induct) (auto intro: control_ok_init control_ok_step)

section \<open>Correctness of the control of the acquisition\<close>

text \<open>
  START never blocks: in every reachable state in which it holds the mutex to join the
  previous thread, that thread has ended (so it is not waiting for the same mutex), and the next
  thread is never started while one is alive.
\<close>

theorem start_never_blocks:
  assumes "reachable m q s" and "cpc s = StartJoin e"
  shows "joined s \<and> (\<exists>s'. cstep s s' \<and> cpc s' = Idle \<and> \<not> mutex_held s')"
proof -
  from control_ok_reachable [OF assms(1)] assms(2) have j: "joined s"
    by (auto simp: control_ok_def)
  obtain ok m' where i: "initialize e (mgr s) = (ok, m')" by fastforce
  show ?thesis
    using j i assms(2) start_spawns [of s e m'] start_fails [of s e m']
    by (cases ok) fastforce+
qed

lemma rtranclp_two: "r a b \<Longrightarrow> r b c \<Longrightarrow> r\<^sup>*\<^sup>* a c"
  by (meson converse_rtranclp_into_rtranclp r_into_rtranclp)

text \<open>
  The measure of what is left for a join to return once the stop flag cannot be lost any more.
\<close>

definition join_left :: "control \<Rightarrow> nat" where
  "join_left s = (case tpc s of Polling \<Rightarrow> 2 | Leaving \<Rightarrow> 1 | _ \<Rightarrow> 0)"

lemma stop_join_step:
  assumes "cstep s s'" and "cpc s = StopJoin" and "globalUserStop s" and "tpc s \<noteq> Entered" and "\<not> mutex_held s"
  shows "cpc s' = StopClear \<or>
    (cpc s' = StopJoin \<and> globalUserStop s' \<and> tpc s' \<noteq> Entered \<and> \<not> mutex_held s' \<and> join_left s' < join_left s)"
  using assms by (induction rule: cstep.induct) (auto simp: join_left_def)

lemma stop_join_enabled:
  assumes "cpc s = StopJoin" and "globalUserStop s" and "tpc s \<noteq> Entered" and "\<not> mutex_held s"
  shows "\<exists>s'. cstep s s'"
  using assms stop_joins [of s] poll_ends [of s] thread_ends [of s]
  by (cases "tpc s") (auto simp: joined_def)

text \<open>
  Once STOP has raised the flag and the acquisition thread is past the point where it lowers
  it, STOP returns: it is never stuck, and after at most two steps of the thread every execution
  reaches the end of the join.
\<close>

theorem stop_returns:
  assumes "reachable m q s" and "cpc s = StopJoin" and "globalUserStop s" and "tpc s \<noteq> Entered"
  shows "\<forall>n s'. (cstep ^^ n) s s' \<longrightarrow>
    (\<exists>k \<le> n. \<exists>t. (cstep ^^ k) s t \<and> cpc t = StopClear) \<or> (n \<le> 2 \<and> cpc s' = StopJoin \<and> (\<exists>s''. cstep s' s''))"
proof (intro allI impI)
  have mutex: "\<not> mutex_held s" using control_ok_reachable [OF assms(1)] assms(2) by (simp add: control_ok_def)
  fix n s' assume run: "(cstep ^^ n) s s'"
  then have "(\<exists>k \<le> n. \<exists>t. (cstep ^^ k) s t \<and> cpc t = StopClear) \<or>
    (cpc s' = StopJoin \<and> globalUserStop s' \<and> tpc s' \<noteq> Entered \<and> \<not> mutex_held s' \<and> join_left s' + n \<le> join_left s)"
  proof (induction n arbitrary: s')
    case 0
    then show ?case using assms mutex by simp
  next
    case (Suc n)
    then obtain t where t: "(cstep ^^ n) s t" "cstep t s'" by auto
    from Suc.IH [OF t(1)] show ?case
    proof
      assume "\<exists>k \<le> n. \<exists>t. (cstep ^^ k) s t \<and> cpc t = StopClear"
      then show ?thesis by (meson le_SucI)
    next
      assume "cpc t = StopJoin \<and> globalUserStop t \<and> tpc t \<noteq> Entered \<and> \<not> mutex_held t \<and> join_left t + n \<le> join_left s"
      with stop_join_step [OF t(2)] Suc.prems show ?thesis by fastforce
    qed
  qed
  moreover have "join_left s \<le> 2" by (simp add: join_left_def split: thread_pc.split)
  ultimately show "(\<exists>k \<le> n. \<exists>t. (cstep ^^ k) s t \<and> cpc t = StopClear) \<or> (n \<le> 2 \<and> cpc s' = StopJoin \<and> (\<exists>s''. cstep s' s''))"
    using stop_join_enabled by fastforce
qed

text \<open>The run in which STOP overtakes the thread that START has spawned.\<close>

definition gbe_manager :: daqm where
  "gbe_manager = daqm_new fds_init ''GBE'' [''/dev/psdaq0'']"

definition overtaken :: control where
  "overtaken = \<lparr>pending = [], cpc = StopJoin, tpc = Polling, daqRunning = True, globalUserStop = False,
     mutex_held = False, mgr = daqm_example, results = [True]\<rparr>"

lemma gbe_start: "initialize net_ok gbe_manager = (True, daqm_example)"
  using daqm_example_server
  by (simp add: gbe_manager_def daqm_example_def) (metis prod.collapse)

lemma spawned_reachable:
  "reachable gbe_manager (Start net_ok # q)
    \<lparr>pending = q, cpc = Idle, tpc = Entered, daqRunning = True, globalUserStop = False, mutex_held = False,
     mgr = daqm_example, results = [True]\<rparr>"
proof -
  let ?s0 = "control_init gbe_manager (Start net_ok # q)"
  let ?s1 = "?s0\<lparr>pending := q, cpc := StartJoin net_ok, mutex_held := True\<rparr>"
  have "cstep ?s0 ?s1"
    by (rule start_locks) (simp_all add: control_init_def)
  moreover have "cstep ?s1 (?s1\<lparr>cpc := Idle, mutex_held := False, mgr := daqm_example, daqRunning := True, tpc := Entered,
      results := results ?s1 @ [True]\<rparr>)"
    by (rule start_spawns [of _ net_ok]) (simp_all add: control_init_def joined_def gbe_start)
  ultimately show ?thesis
    unfolding reachable_def by (intro rtranclp_two) (simp_all add: control_init_def)
qed

text \<open>
  A STOP that follows START closely is lost and hangs: there is an execution of START, STOP in
  which STOP raises the flag before the acquisition thread enters \<open>run\<close>, the thread lowers it again,
  and from then on no step is possible; the thread polls with the flag down, STOP waits in
  \<^verbatim>\<open>join\<close>, and the command thread serves nothing any more.
\<close>

theorem stop_is_lost:
  "reachable gbe_manager [Start net_ok, Stop] overtaken \<and> cpc overtaken = StopJoin \<and> tpc overtaken = Polling \<and>
   \<not> globalUserStop overtaken \<and> (\<forall>s'. \<not> cstep overtaken s')"
proof -
  let ?s = "\<lparr>pending = [Stop], cpc = Idle, tpc = Entered, daqRunning = True, globalUserStop = False, mutex_held = False,
     mgr = daqm_example, results = [True]\<rparr> :: control"
  let ?s1 = "?s\<lparr>pending := [], cpc := StopSignal\<rparr>"
  let ?s2 = "?s1\<lparr>globalUserStop := True, cpc := StopJoin\<rparr>"
  have "cstep ?s ?s1" by (rule stop_checks) simp_all
  moreover have "cstep ?s1 ?s2" by (rule stop_signals) simp
  moreover have "cstep ?s2 (?s2\<lparr>tpc := Polling, globalUserStop := False\<rparr>)"
    by (rule run_clears) (simp_all add: daqm_example_server)
  moreover have "?s2\<lparr>tpc := Polling, globalUserStop := False\<rparr> = overtaken" by (simp add: overtaken_def)
  ultimately have "reachable gbe_manager [Start net_ok, Stop] overtaken"
    using spawned_reachable [of "[Stop]"] unfolding reachable_def
    by (metis (no_types, lifting) rtranclp.rtrancl_into_rtrancl)
  moreover have "\<not> cstep overtaken s'" for s'
    by (subst cstep_start) (auto simp: overtaken_def joined_def)
  ultimately show ?thesis by (simp add: overtaken_def)
qed

theorem start_never_blocks_witness:
  "\<exists>s. reachable gbe_manager [Start net_ok] s \<and> cpc s = StartJoin net_ok \<and> (\<exists>s'. cstep s s' \<and> cpc s' = Idle)"
proof -
  let ?s0 = "control_init gbe_manager [Start net_ok]"
  let ?s1 = "?s0\<lparr>pending := [], cpc := StartJoin net_ok, mutex_held := True\<rparr>"
  have "cstep ?s0 ?s1" by (rule start_locks) (simp_all add: control_init_def)
  then have r: "reachable gbe_manager [Start net_ok] ?s1" unfolding reachable_def by auto
  have "cpc ?s1 = StartJoin net_ok" by simp
  with start_never_blocks [OF r this] r show ?thesis by blast
qed

theorem stop_returns_witness:
  "\<exists>s. reachable gbe_manager [Start net_ok, Stop] s \<and> cpc s = StopJoin \<and> globalUserStop s \<and>
    (\<forall>s'. (cstep ^^ 4) s s' \<longrightarrow> (\<exists>k \<le> 4. \<exists>t. (cstep ^^ k) s t \<and> cpc t = StopClear))"
proof -
  let ?s = "\<lparr>pending = [Stop], cpc = Idle, tpc = Entered, daqRunning = True, globalUserStop = False, mutex_held = False,
     mgr = daqm_example, results = [True]\<rparr> :: control"
  let ?s1 = "?s\<lparr>tpc := Polling, globalUserStop := False\<rparr>"
  let ?s2 = "?s1\<lparr>pending := [], cpc := StopSignal\<rparr>"
  let ?s3 = "?s2\<lparr>globalUserStop := True, cpc := StopJoin\<rparr>"
  have "cstep ?s ?s1" by (rule run_clears) (simp_all add: daqm_example_server)
  moreover have "cstep ?s1 ?s2" by (rule stop_checks) simp_all
  moreover have "cstep ?s2 ?s3" by (rule stop_signals) simp
  ultimately have r: "reachable gbe_manager [Start net_ok, Stop] ?s3"
    using spawned_reachable [of "[Stop]"] unfolding reachable_def
    by (metis (no_types, lifting) rtranclp.rtrancl_into_rtrancl)
  have "cpc ?s3 = StopJoin" "globalUserStop ?s3" "tpc ?s3 \<noteq> Entered" by simp_all
  note ret = stop_returns [OF r this]
  have "\<exists>k \<le> 4. \<exists>t. (cstep ^^ k) ?s3 t \<and> cpc t = StopClear" if "(cstep ^^ 4) ?s3 s'" for s'
    using ret [rule_format, OF that] by (rule disjE) (assumption, simp)
  with r show ?thesis
    by (intro exI [where x = ?s3]) simp
qed

end
