(* ===== verification/Config.thy ===== *)
theory Config
  imports Prelude "HOL-Library.Char_ord" "HOL-Library.List_Lexorder"
begin

text \<open>
  The configuration singleton, \<^verbatim>\<open>src/GRAMS_TOF_Config.cpp\<close>: values read from an ini file,
  the data directories, and the naming of files by time stamps.

  Exceptions are \<open>Inl\<close> with the message. The environment is a function; the ini parser's result
  is an argument of \<open>load\<close>. A file system is an association list of paths and nodes in the order
  a \<^verbatim>\<open>directory_iterator\<close> delivers them; paths are strings with the operations of
  \<^verbatim>\<open>std::filesystem::path\<close> the code uses. Regular expressions are matched for the patterns the
  code builds from prefixes and suffixes in which \<^verbatim>\<open>.\<close> is the only special character.
\<close>

section \<open>Strings and paths\<close>

fun str_find :: "string \<Rightarrow> string \<Rightarrow> nat option" where
  "str_find sub [] = (if sub = [] then Some 0 else None)"
| "str_find sub (c # cs) =
     (if take (length sub) (c # cs) = sub then Some 0 else map_option Suc (str_find sub cs))"

definition str_replace :: "string \<Rightarrow> nat \<Rightarrow> nat \<Rightarrow> string \<Rightarrow> string" where
  "str_replace s pos n new = take pos s @ new @ drop (pos + n) s"

definition slash :: char where "slash = CHR ''/''"
definition dot :: char where "dot = CHR ''.''"

definition path_append :: "string \<Rightarrow> string \<Rightarrow> string" where
  "path_append p q =
     (if q \<noteq> [] \<and> hd q = slash then q
      else if p = [] \<or> last p = slash then p @ q
      else p @ [slash] @ q)"

definition parent_path :: "string \<Rightarrow> string" where
  "parent_path p =
     (let d = dropWhile (\<lambda>c. c \<noteq> slash) (rev p); d' = dropWhile (\<lambda>c. c = slash) d
      in if d = [] then [] else if d' = [] then [slash] else rev d')"

definition filename_of :: "string \<Rightarrow> string" where
  "filename_of p = rev (takeWhile (\<lambda>c. c \<noteq> slash) (rev p))"

definition stem :: "string \<Rightarrow> string" where
  "stem p =
     (let f = filename_of p; r = dropWhile (\<lambda>c. c \<noteq> dot) (rev f)
      in if f = [dot] \<or> f = [dot, dot] \<or> length r \<le> 1 then f else rev (tl r))"

section \<open>The file system\<close>

datatype node = Regular | Directory | Symlink string

type_synonym fsys = "(string \<times> node) list"

text \<open>Following symbolic links, at most 40 (the kernel's limit).\<close>

fun fs_resolve :: "nat \<Rightarrow> fsys \<Rightarrow> string \<Rightarrow> node option" where
  "fs_resolve 0 fs p = None"
| "fs_resolve (Suc n) fs p =
     (case map_of fs p of Some (Symlink t) \<Rightarrow> fs_resolve n fs t | r \<Rightarrow> r)"

definition fs_exists :: "fsys \<Rightarrow> string \<Rightarrow> bool" where
  "fs_exists fs p \<longleftrightarrow> fs_resolve 40 fs p \<noteq> None"

definition fs_is_directory :: "fsys \<Rightarrow> string \<Rightarrow> bool" where
  "fs_is_directory fs p \<longleftrightarrow> fs_resolve 40 fs p = Some Directory"

definition fs_is_regular :: "fsys \<Rightarrow> string \<Rightarrow> bool" where
  "fs_is_regular fs p \<longleftrightarrow> fs_resolve 40 fs p = Some Regular"

definition dir_entries :: "fsys \<Rightarrow> string \<Rightarrow> string list" where
  "dir_entries fs dir = filter (\<lambda>p. filename_of p \<noteq> [] \<and> p = path_append dir (filename_of p)) (map fst fs)"

definition fs_create_directories :: "string \<Rightarrow> fsys \<Rightarrow> fsys" where
  "fs_create_directories dir fs =
     fs @ map (\<lambda>p. (p, Directory))
       (filter (\<lambda>p. p \<noteq> [] \<and> \<not> fs_exists fs p \<and> (p = dir \<or> dir ! length p = slash))
         (map (\<lambda>n. take n dir) [0..<Suc (length dir)]))"

section \<open>Regular expressions of the code\<close>

datatype rx = Lit char | Digit | AnyChar

definition is_digit :: "char \<Rightarrow> bool" where
  "is_digit c \<longleftrightarrow> CHR ''0'' \<le> c \<and> c \<le> CHR ''9''"

definition is_any :: "char \<Rightarrow> bool" where
  "is_any c \<longleftrightarrow> c \<noteq> CHR 0x0A \<and> c \<noteq> CHR 0x0D"

fun rx_char :: "rx \<Rightarrow> char \<Rightarrow> bool" where
  "rx_char (Lit a) c \<longleftrightarrow> a = c"
| "rx_char Digit c \<longleftrightarrow> is_digit c"
| "rx_char AnyChar c \<longleftrightarrow> is_any c"

text \<open>Matching a pattern of fixed length: what is left of the string.\<close>

fun rx_fixed :: "rx list \<Rightarrow> string \<Rightarrow> string option" where
  "rx_fixed [] s = Some s"
| "rx_fixed (r # rs) [] = None"
| "rx_fixed (r # rs) (c # cs) = (if rx_char r c then rx_fixed rs cs else None)"

definition rx_of :: "string \<Rightarrow> rx list" where
  "rx_of s = map (\<lambda>c. if c = dot then AnyChar else Lit c) s"

definition ts_template :: "rx list" where
  "ts_template =
     replicate 4 Digit @ [Lit CHR ''-''] @ replicate 2 Digit @ [Lit CHR ''-''] @ replicate 2 Digit
     @ [Lit CHR ''_''] @ replicate 2 Digit @ [Lit CHR ''-''] @ replicate 2 Digit @ [Lit CHR ''-'']
     @ replicate 2 Digit @ [Lit dot]"

text \<open>
  The pattern of \<open>getLatestTimestamp\<close>, with its capture group. The digits after the point are
  taken greedily, which is the only way to match because a \<^verbatim>\<open>Z\<close> follows.
\<close>

definition match_timestamp :: "string \<Rightarrow> string \<Rightarrow> string \<Rightarrow> string option" where
  "match_timestamp prefix suffix f =
     (case rx_fixed (rx_of (prefix @ ''_'')) f of
        None \<Rightarrow> None
      | Some s \<Rightarrow>
          (case rx_fixed ts_template s of
             None \<Rightarrow> None
           | Some s1 \<Rightarrow>
               let ds = takeWhile is_digit s1; s2 = dropWhile is_digit s1 in
               if ds = [] then None
               else (case rx_fixed (Lit CHR ''Z'' # rx_of suffix) s2 of
                       None \<Rightarrow> None
                     | Some s3 \<Rightarrow>
                         if list_all is_any s3 then Some (take (length s - length s2 + 1) s) else None)))"

section \<open>State and values\<close>

record config =
  cfg_data :: "string \<rightharpoonup> (string \<rightharpoonup> string)"
  configDir :: string
  configFilePath :: string
  tofdataDir :: string
  loaded :: bool

record ini_file =
  parse_error :: int
  ini_values :: "(string \<times> string \<times> string) list"

definition set_value :: "string \<Rightarrow> string \<Rightarrow> string \<Rightarrow> (string \<rightharpoonup> (string \<rightharpoonup> string)) \<Rightarrow> (string \<rightharpoonup> (string \<rightharpoonup> string))" where
  "set_value sec key val d =
     d(sec \<mapsto> (case d sec of None \<Rightarrow> [key \<mapsto> val] | Some m \<Rightarrow> m(key \<mapsto> val)))"

definition substituteVariables :: "(string \<Rightarrow> string option) \<Rightarrow> config \<Rightarrow> string \<Rightarrow> string + string" where
  "substituteVariables getenv c val =
     (let r1 = (case str_find ''%CDIR%'' val of None \<Rightarrow> val | Some pos \<Rightarrow> str_replace val pos 6 (configDir c));
          r2 = (case str_find ''%PWD%'' r1 of None \<Rightarrow> r1 | Some pos \<Rightarrow> str_replace r1 pos 5 ''.'');
          r3 = (case str_find ''%HOME%'' r2 of None \<Rightarrow> r2 | Some pos \<Rightarrow>
                  (case getenv ''HOME'' of None \<Rightarrow> r2 | Some home \<Rightarrow> str_replace r2 pos 6 home))
      in case str_find ''$TOFDATA'' r3 of
           None \<Rightarrow> Inr r3
         | Some pos \<Rightarrow>
             (case getenv ''TOFDATA'' of
                Some tofdata \<Rightarrow> Inr (str_replace r3 pos 8 tofdata)
              | None \<Rightarrow> Inl ''TOFDATA environment variable not set.''))"

fun load_values ::
  "(string \<Rightarrow> string option) \<Rightarrow> (string \<times> string \<times> string) list \<Rightarrow> config \<Rightarrow> config \<times> string option" where
  "load_values getenv [] c = (c, None)"
| "load_values getenv ((sec, key, raw) # vs) c =
     (case substituteVariables getenv c raw of
        Inl e \<Rightarrow> (c, Some e)
      | Inr val \<Rightarrow> load_values getenv vs (c\<lparr>cfg_data := set_value sec key val (cfg_data c)\<rparr>))"

text \<open>The state changes also when an exception leaves \<open>load\<close> half way.\<close>

definition load :: "(string \<Rightarrow> string option) \<Rightarrow> (string \<Rightarrow> ini_file) \<Rightarrow> string \<Rightarrow> config \<Rightarrow> (string + bool) \<times> config" where
  "load getenv ini filename c =
     (let c1 = c\<lparr>configDir := parent_path filename\<rparr>; reader = ini filename in
      if parse_error reader < 0 then (Inr False, c1)
      else (case load_values getenv (ini_values reader) (c1\<lparr>cfg_data := Map.empty\<rparr>) of
              (c2, Some e) \<Rightarrow> (Inl e, c2)
            | (c2, None) \<Rightarrow> (Inr True, c2)))"

definition setConfigFile :: "(string \<Rightarrow> string option) \<Rightarrow> (string \<Rightarrow> ini_file) \<Rightarrow> string \<Rightarrow> config \<Rightarrow> (string + unit) \<times> config" where
  "setConfigFile getenv ini filename c =
     (let c1 = (if loaded c then c\<lparr>cfg_data := Map.empty\<rparr> else c) in
      case load getenv ini filename c1 of
        (Inl e, c2) \<Rightarrow> (Inl e, c2)
      | (Inr ok, c2) \<Rightarrow>
          if \<not> ok then (Inl (''Failed to load config file: '' @ filename), c2)
          else (Inr (), c2\<lparr>configFilePath := filename, loaded := True\<rparr>))"

definition loadDefaultConfig :: "(string \<Rightarrow> string option) \<Rightarrow> (string \<Rightarrow> ini_file) \<Rightarrow> config \<Rightarrow> (string + bool) \<times> config" where
  "loadDefaultConfig getenv ini c =
     (if loaded c then (Inr True, c)
      else case getenv ''GLIB'' of None \<Rightarrow> (Inr False, c) | Some glib \<Rightarrow>
      case getenv ''TOFDATA'' of None \<Rightarrow> (Inr False, c) | Some tofdata \<Rightarrow>
      let c1 = c\<lparr>tofdataDir := tofdata\<rparr>; path = path_append glib ''config/config.ini'' in
      case load getenv ini path c1 of
        (Inl e, c2) \<Rightarrow> (Inl e, c2)
      | (Inr ok, c2) \<Rightarrow> if ok then (Inr True, c2\<lparr>configFilePath := path, loaded := True\<rparr>) else (Inr False, c2))"

definition getString :: "config \<Rightarrow> string \<Rightarrow> string \<Rightarrow> string + string" where
  "getString c sec key =
     (case cfg_data c sec of
        None \<Rightarrow> Inl (''Missing section: '' @ sec)
      | Some m \<Rightarrow> (case m key of None \<Rightarrow> Inl (''Missing key: '' @ key) | Some v \<Rightarrow> Inr v))"

fun bindE :: "string + 'a \<Rightarrow> ('a \<Rightarrow> string + 'b) \<Rightarrow> string + 'b" where
  "bindE (Inl e) f = Inl e"
| "bindE (Inr x) f = f x"

definition getAbsolutePath :: "string \<Rightarrow> config \<Rightarrow> string \<Rightarrow> string \<Rightarrow> string + string" where
  "getAbsolutePath cwd c sec key = bindE (getString c sec key) (\<lambda>p. Inr (path_append cwd p))"

definition getFileStem :: "config \<Rightarrow> string \<Rightarrow> string \<Rightarrow> string + string" where
  "getFileStem c sec key = bindE (getString c sec key) (\<lambda>p. Inr (stem p))"

definition getFileStemWithDir :: "config \<Rightarrow> string \<Rightarrow> string \<Rightarrow> string + string" where
  "getFileStemWithDir c sec key =
     bindE (getString c sec key) (\<lambda>p. Inr (path_append (parent_path p) (stem p)))"

definition getSTG0Dir :: "config \<Rightarrow> string" where "getSTG0Dir c = tofdataDir c @ ''/stg0''"
definition getSTG1Dir :: "config \<Rightarrow> string" where "getSTG1Dir c = tofdataDir c @ ''/stg1''"
definition getHistDir :: "config \<Rightarrow> string" where "getHistDir c = tofdataDir c @ ''/hist''"
definition getDiscDir :: "config \<Rightarrow> string" where "getDiscDir c = tofdataDir c @ ''/disc''"
definition getQDCDir :: "config \<Rightarrow> string" where "getQDCDir c = tofdataDir c @ ''/qdc''"
definition getTDCDir :: "config \<Rightarrow> string" where "getTDCDir c = tofdataDir c @ ''/tdc''"
definition getCalibrationDir :: "config \<Rightarrow> string" where "getCalibrationDir c = tofdataDir c @ ''/calibration''"

section \<open>Files named by time stamps\<close>

definition getFileByTimestamp :: "fsys \<Rightarrow> string \<Rightarrow> string \<Rightarrow> string \<Rightarrow> string \<Rightarrow> string + string" where
  "getFileByTimestamp fs absDir prefix timestamp suffix =
     (if \<not> fs_exists fs absDir \<or> \<not> fs_is_directory fs absDir
      then Inl (''Directory does not exist: '' @ absDir)
      else case find (\<lambda>p. fs_is_regular fs p \<and>
               (case rx_fixed (rx_of (prefix @ ''_'' @ timestamp @ suffix)) (filename_of p) of
                  None \<Rightarrow> False | Some rest \<Rightarrow> list_all is_any rest)) (dir_entries fs absDir) of
             Some p \<Rightarrow> Inr p
           | None \<Rightarrow> Inl (''No file found for timestamp '' @ timestamp @ '' with suffix '' @ [CHR 0x27] @ suffix @
                  [CHR 0x27] @ '' in '' @ absDir))"

definition makeFilePathWithTimestamp :: "string \<Rightarrow> string \<Rightarrow> string \<Rightarrow> string \<Rightarrow> fsys \<Rightarrow> string \<times> fsys" where
  "makeFilePathWithTimestamp absDir prefix timestamp ext fs =
     (let fs' = (if \<not> fs_exists fs absDir then fs_create_directories absDir fs else fs);
          dotExt = (if ext = [] then [] else if hd ext = dot then ext else [dot] @ ext)
      in (path_append absDir (prefix @ ''_'' @ timestamp @ dotExt), fs'))"

fun latest_of :: "string \<Rightarrow> string \<Rightarrow> fsys \<Rightarrow> string list \<Rightarrow> string \<Rightarrow> string" where
  "latest_of prefix suffix fs [] latestTs = latestTs"
| "latest_of prefix suffix fs (p # ps) latestTs =
     (if \<not> fs_is_regular fs p then latest_of prefix suffix fs ps latestTs
      else case match_timestamp prefix suffix (filename_of p) of
             None \<Rightarrow> latest_of prefix suffix fs ps latestTs
           | Some ts \<Rightarrow>
               latest_of prefix suffix fs ps (if latestTs = [] \<or> ts > latestTs then ts else latestTs))"

definition getLatestTimestamp :: "fsys \<Rightarrow> string \<Rightarrow> string \<Rightarrow> string \<Rightarrow> string + string" where
  "getLatestTimestamp fs absDir prefix suffix =
     (if \<not> fs_exists fs absDir \<or> \<not> fs_is_directory fs absDir
      then Inl (''Directory does not exist: '' @ absDir)
      else let latestTs = latest_of prefix suffix fs (dir_entries fs absDir) [] in
        if latestTs = [] then Inl (''No matching file found with suffix '' @ [CHR 0x27] @ suffix @
          [CHR 0x27] @ '' in '' @ absDir) else Inr latestTs)"

text \<open>A UTC time, down to milliseconds, as \<^verbatim>\<open>std::tm\<close> and the remainder give it.\<close>

record utc =
  t_year :: nat
  t_mon :: nat
  t_day :: nat
  t_hour :: nat
  t_min :: nat
  t_sec :: nat
  t_ms :: nat

definition digit :: "nat \<Rightarrow> char" where "digit n = char_of (48 + n)"

fun dec_pad :: "nat \<Rightarrow> nat \<Rightarrow> string" where
  "dec_pad 0 n = []"
| "dec_pad (Suc w) n = dec_pad w (n div 10) @ [digit (n mod 10)]"

fun show_nat :: "nat \<Rightarrow> string" where
  "show_nat n = (if n < 10 then [digit n] else show_nat (n div 10) @ [digit (n mod 10)])"

declare show_nat.simps [simp del]

definition getCurrentTimestamp :: "utc \<Rightarrow> string" where
  "getCurrentTimestamp t =
     (dec_pad 4 (t_year t) @ ''-'' @ dec_pad 2 (t_mon t) @ ''-'' @ dec_pad 2 (t_day t) @ ''_''
      @ dec_pad 2 (t_hour t) @ ''-'' @ dec_pad 2 (t_min t) @ ''-'' @ dec_pad 2 (t_sec t))
     @ ''.'' @ show_nat (t_ms t) @ ''Z''"

text \<open>
  The directory of \<open>dst\<close> exists. \<^verbatim>\<open>fs::exists\<close> follows links, \<^verbatim>\<open>fs::remove\<close> and
  \<^verbatim>\<open>fs::create_symlink\<close> do not.
\<close>

definition copyOrLink :: "string \<Rightarrow> string \<Rightarrow> bool \<Rightarrow> fsys \<Rightarrow> (string + unit) \<times> fsys" where
  "copyOrLink src dst symlink fs =
     (if \<not> fs_exists fs src then (Inl (''Source file does not exist: '' @ src), fs)
      else if fs_exists fs dst \<and> map_of fs dst = Some Directory \<and> dir_entries fs dst \<noteq> []
        then (Inl ''remove: Directory not empty'', fs)
      else let fs1 = (if fs_exists fs dst then filter (\<lambda>(p, _). p \<noteq> dst) fs else fs) in
        if symlink then
          (if map_of fs1 dst \<noteq> None then (Inl ''create_symlink: File exists'', fs1)
           else (Inr (), fs1 @ [(dst, Symlink src)]))
        else
          (if \<not> fs_is_regular fs1 src then (Inl ''copy_file: not a regular file'', fs1)
           else (Inr (), fs1 @ [(case map_of fs1 dst of Some (Symlink t) \<Rightarrow> t | _ \<Rightarrow> dst, Regular)])))"

section \<open>Digits\<close>

lemma digit_is_digit: "n < 10 \<Longrightarrow> is_digit (digit n)"
  by (auto simp: is_digit_def digit_def less_eq_char_def)

lemma digit_less: "m < n \<Longrightarrow> n < 10 \<Longrightarrow> digit m < digit n"
  by (simp add: digit_def less_char_def)

lemma length_dec_pad [simp]: "length (dec_pad w n) = w"
  by (induction w arbitrary: n) auto

lemma rx_fixed_append:
  "length rs = length s \<Longrightarrow> rx_fixed (rs @ rs') (s @ s') =
     (if list_all2 rx_char rs s then rx_fixed rs' s' else None)"
  by (induction rs s rule: list_induct2) auto

lemma dec_pad_digits: "list_all2 rx_char (replicate w Digit) (dec_pad w n)"
  by (induction w arbitrary: n)
    (auto simp: digit_is_digit simp flip: replicate_append_same intro!: list_all2_appendI)

text \<open>Zero padded numbers of one width are ordered as strings as they are as numbers.\<close>

lemma lex_append_left: "(xs @ ys < xs @ zs) = (ys < (zs :: string))"
  by (induction xs) auto

lemma lex_append_less: "length xs = length xs' \<Longrightarrow> xs < xs' \<Longrightarrow> xs @ ys < xs' @ (ys' :: string)"
  by (induction xs xs' rule: list_induct2) auto

lemma dec_pad_less: "m < n \<Longrightarrow> n < 10 ^ w \<Longrightarrow> dec_pad w m < dec_pad w n"
proof (induction w arbitrary: m n)
  case (Suc w)
  show ?case
  proof (cases "m div 10 < n div 10")
    case True
    with Suc have "dec_pad w (m div 10) < dec_pad w (n div 10)" by simp
    then show ?thesis by (simp add: lex_append_less)
  next
    case False
    with Suc.prems(1) have eq: "m div 10 = n div 10"
      using div_le_mono [of m n 10] by simp
    then have "m mod 10 < n mod 10"
      using Suc.prems(1) div_mult_mod_eq [of m 10] div_mult_mod_eq [of n 10] by linarith
    with eq show ?thesis by (simp add: lex_append_left digit_less)
  qed
qed simp

lemma show_nat_digits: "list_all is_digit (show_nat n)"
  by (induction n rule: show_nat.induct) (simp add: show_nat.simps [of n for n] digit_is_digit)

lemma show_nat_nonempty: "show_nat n \<noteq> []"
  by (simp add: show_nat.simps [of n])

lemma show_nat_pad: "show_nat n = dec_pad (length (show_nat n)) n \<and> n < 10 ^ length (show_nat n)"
proof (induction n rule: show_nat.induct)
  case (1 n)
  show ?case
  proof (cases "n < 10")
    case True
    then show ?thesis by (simp add: show_nat.simps [of n])
  next
    case False
    with 1 have IH: "show_nat (n div 10) = dec_pad (length (show_nat (n div 10))) (n div 10)"
      "n div 10 < 10 ^ length (show_nat (n div 10))" by auto
    from False have n: "show_nat n = show_nat (n div 10) @ [digit (n mod 10)]"
      by (simp add: show_nat.simps [of n])
    have "n < 10 * 10 ^ length (show_nat (n div 10))"
      using IH(2) by (simp add: div_less_iff_less_mult mult.commute)
    with IH(1) show ?thesis by (simp add: n)
  qed
qed

section \<open>Time stamps\<close>

text \<open>Fields as wide as \<^verbatim>\<open>put_time\<close> prints them (a year of four digits).\<close>

definition utc_ok :: "utc \<Rightarrow> bool" where
  "utc_ok t \<longleftrightarrow> t_year t < 10000 \<and> t_mon t < 100 \<and> t_day t < 100 \<and> t_hour t < 100 \<and> t_min t < 100
     \<and> t_sec t < 100 \<and> t_ms t < 1000"

definition utc_secs :: "utc \<Rightarrow> nat list" where
  "utc_secs t = [t_year t, t_mon t, t_day t, t_hour t, t_min t, t_sec t]"

definition ts_head :: "utc \<Rightarrow> string" where
  "ts_head t = dec_pad 4 (t_year t) @ ''-'' @ dec_pad 2 (t_mon t) @ ''-'' @ dec_pad 2 (t_day t) @ ''_''
      @ dec_pad 2 (t_hour t) @ ''-'' @ dec_pad 2 (t_min t) @ ''-'' @ dec_pad 2 (t_sec t)"

lemma timestamp_split: "getCurrentTimestamp t = ts_head t @ ''.'' @ show_nat (t_ms t) @ ''Z''"
  by (simp add: getCurrentTimestamp_def ts_head_def)

lemma length_ts_head [simp]: "length (ts_head t) = 19"
  by (simp add: ts_head_def)

lemma ts_head_less:
  assumes "utc_ok t2" and "utc_secs t1 < utc_secs t2"
  shows "ts_head t1 < ts_head t2"
proof -
  have eq_or_less: "dec_pad w m @ xs < dec_pad w n @ ys" if "m < n \<or> m = n \<and> xs < ys" "n < 10 ^ w" for w m n xs ys
    using that by (auto simp: lex_append_left intro: lex_append_less dec_pad_less)
  have sec: "dec_pad 2 (t_sec t1) < dec_pad 2 (t_sec t2)" if "t_sec t1 < t_sec t2"
    using that assms(1) by (simp add: dec_pad_less utc_ok_def)
  show ?thesis
    unfolding ts_head_def
    using assms sec
    by (intro eq_or_less) (auto simp: utc_ok_def utc_secs_def intro!: eq_or_less)
qed

lemma rx_fixed_digits: "rx_fixed (replicate w Digit @ rs) (dec_pad w n @ s) = rx_fixed rs s"
  using dec_pad_digits [of w n] by (subst rx_fixed_append) auto

lemma rx_of_self: "list_all is_any s \<Longrightarrow> rx_fixed (rx_of s) (s @ r) = Some r"
  by (induction s) (auto simp: rx_of_def)

lemma template_head: "rx_fixed ts_template (ts_head t @ dot # r) = Some r"
  unfolding ts_template_def ts_head_def
  by (simp only: append_assoc append.simps rx_fixed_digits rx_fixed.simps rx_char.simps if_True simp_thms)

lemma takeWhile_digits:
  "takeWhile is_digit (show_nat n @ CHR ''Z'' # r) = show_nat n"
  "dropWhile is_digit (show_nat n @ CHR ''Z'' # r) = CHR ''Z'' # r"
proof -
  have "\<not> is_digit CHR ''Z''" by (simp add: is_digit_def less_eq_char_def)
  moreover have "\<forall>c \<in> set (show_nat n). is_digit c"
    using show_nat_digits [of n] by (simp add: list_all_iff)
  ultimately show "takeWhile is_digit (show_nat n @ CHR ''Z'' # r) = show_nat n"
    "dropWhile is_digit (show_nat n @ CHR ''Z'' # r) = CHR ''Z'' # r"
    by (simp_all add: takeWhile_append2 dropWhile_append2)
qed

lemma match_made_file:
  assumes "list_all is_any prefix" and "rx_fixed (rx_of suffix) tail = Some rest" and "list_all is_any rest"
  shows "match_timestamp prefix suffix (prefix @ ''_'' @ getCurrentTimestamp t @ tail) = Some (getCurrentTimestamp t)"
proof -
  have p: "rx_fixed (rx_of (prefix @ ''_'')) (prefix @ ''_'' @ r) = Some r" for r
    using rx_of_self [of "prefix @ ''_''" r] assms(1) by (simp add: is_any_def)
  have s: "getCurrentTimestamp t @ tail = ts_head t @ dot # show_nat (t_ms t) @ CHR ''Z'' # tail"
    by (simp add: timestamp_split dot_def)
  show ?thesis
    unfolding match_timestamp_def s p
    using assms(2,3) show_nat_nonempty [of "t_ms t"]
    by (simp add: template_head [unfolded dot_def] takeWhile_digits timestamp_split dot_def)
qed

lemma latest_of_spec:
  assumes "latest_of prefix suffix fs ps init = r"
  shows "(r = init \<or> (\<exists>p \<in> set ps. fs_is_regular fs p \<and> match_timestamp prefix suffix (filename_of p) = Some r)) \<and>
    init \<le> r \<and>
    (\<forall>p \<in> set ps. \<forall>ts. fs_is_regular fs p \<and> match_timestamp prefix suffix (filename_of p) = Some ts \<longrightarrow> ts \<le> r)"
  using assms
proof (induction prefix suffix fs ps init rule: latest_of.induct)
  case (2 prefix suffix fs p ps init)
  show ?case
  proof (cases "fs_is_regular fs p")
    case False
    with 2 show ?thesis by auto
  next
    case True
    show ?thesis
    proof (cases "match_timestamp prefix suffix (filename_of p)")
      case None
      with True 2 show ?thesis by auto
    next
      case (Some ts)
      let ?new = "if init = [] \<or> init < ts then ts else init"
      have run: "latest_of prefix suffix fs ps ?new = r"
        using "2.prems" True Some by simp
      have IH: "(r = ?new \<or> (\<exists>p \<in> set ps. fs_is_regular fs p \<and> match_timestamp prefix suffix (filename_of p) = Some r))"
        "?new \<le> r" "\<forall>p \<in> set ps. \<forall>ts. fs_is_regular fs p \<and> match_timestamp prefix suffix (filename_of p) = Some ts \<longrightarrow> ts \<le> r"
        using "2.IH"(3) [of ts] True Some run by simp_all
      have "init \<le> ?new" "ts \<le> ?new" by auto
      with IH(2) have "init \<le> r" "ts \<le> r" by (blast intro: order_trans)+
      with IH(1,3) True Some show ?thesis by auto
    qed
  qed
qed simp

lemma dec_pad_set: "set (dec_pad w n) \<subseteq> {c. is_digit c}"
  by (induction w arbitrary: n) (auto simp: digit_is_digit)

lemma timestamp_no_slash: "slash \<notin> set (getCurrentTimestamp t)"
proof -
  have "\<not> is_digit slash" by (simp add: is_digit_def slash_def less_eq_char_def)
  moreover have "slash \<notin> set (show_nat n)" for n
    using show_nat_digits [of n] calculation by (auto simp: list_all_iff)
  moreover have "slash \<notin> set (dec_pad w n)" for w n
    using dec_pad_set [of w n] calculation(1) by blast
  ultimately show ?thesis by (simp add: getCurrentTimestamp_def slash_def)
qed

lemma filename_append:
  assumes "slash \<notin> set name" and "name \<noteq> []"
  shows "filename_of (path_append dir name) = name"
proof -
  have "hd name \<noteq> slash" using assms by (cases name) auto
  define pre where "pre = (if dir = [] \<or> last dir = slash then dir else dir @ [slash])"
  have pre: "path_append dir name = pre @ name" "pre = [] \<or> last pre = slash"
    using \<open>hd name \<noteq> slash\<close> by (auto simp: path_append_def pre_def)
  have "takeWhile (\<lambda>c. c \<noteq> slash) (rev pre) = []"
    using pre(2) by (cases pre rule: rev_cases) auto
  then show ?thesis
    using assms(1) by (auto simp: filename_of_def pre(1) takeWhile_append)
qed

section \<open>Correctness of the file naming\<close>

text \<open>
  A file named by \<open>makeFilePathWithTimestamp\<close> with a time stamp of \<open>getCurrentTimestamp\<close> is
  found again: once it exists as a regular file of the directory, \<open>getLatestTimestamp\<close> with the
  same prefix succeeds and returns the stamp of that file or one that compares greater.
\<close>

theorem made_file_is_found:
  assumes "list_all is_any prefix" and "list_all is_any ext"
    and "makeFilePathWithTimestamp dir prefix (getCurrentTimestamp t) ext fs0 = (path, fs1)"
    and "path \<in> set (dir_entries fs dir)" and "fs_is_regular fs path" and "fs_is_directory fs dir"
    and "slash \<notin> set (prefix @ ext)" 
  shows "\<exists>ts. getLatestTimestamp fs dir prefix [] = Inr ts \<and> getCurrentTimestamp t \<le> ts"
proof -
  define tail where "tail = (if ext = [] then [] else if hd ext = dot then ext else [dot] @ ext)"
  define name where "name = prefix @ ''_'' @ getCurrentTimestamp t @ tail"
  have path: "path = path_append dir name"
    using assms(3) by (simp add: makeFilePathWithTimestamp_def name_def tail_def Let_def)
  have "slash \<notin> set (getCurrentTimestamp t)" by (rule timestamp_no_slash)
  then have "slash \<notin> set name"
    using assms(7) by (auto simp: name_def tail_def slash_def dot_def)
  then have fname: "filename_of path = name"
    unfolding path by (rule filename_append) (simp add: name_def)
  have "list_all is_any tail" using assms(2) by (auto simp: tail_def is_any_def dot_def)
  then have m: "match_timestamp prefix [] (filename_of path) = Some (getCurrentTimestamp t)"
    unfolding fname name_def using assms(1) by (intro match_made_file) (auto simp: rx_of_def)
  let ?r = "latest_of prefix [] fs (dir_entries fs dir) []"
  have le: "getCurrentTimestamp t \<le> ?r"
    using latest_of_spec [of prefix "[]" fs "dir_entries fs dir" "[]" ?r] assms(4,5) m by blast
  moreover have "getCurrentTimestamp t \<noteq> []" by (simp add: timestamp_split)
  ultimately have "?r \<noteq> []" by auto
  with le assms(6) show ?thesis
    by (simp add: getLatestTimestamp_def fs_exists_def fs_is_directory_def)
qed

text \<open>
  Time stamps compare as strings in the order of time whenever they differ in the second, and
  within a second when their milliseconds have the same number of digits.
\<close>

theorem timestamps_chronological:
  assumes "utc_ok t2"
    and "utc_secs t1 < utc_secs t2 \<or>
      (utc_secs t1 = utc_secs t2 \<and> t_ms t1 < t_ms t2 \<and> length (show_nat (t_ms t1)) = length (show_nat (t_ms t2)))"
  shows "getCurrentTimestamp t1 < getCurrentTimestamp t2"
proof (cases "utc_secs t1 < utc_secs t2")
  case True
  from ts_head_less [OF assms(1) this] show ?thesis
    unfolding timestamp_split by (intro lex_append_less) auto
next
  case False
  with assms(2) have eq: "utc_secs t1 = utc_secs t2" and ms: "t_ms t1 < t_ms t2"
    and len: "length (show_nat (t_ms t1)) = length (show_nat (t_ms t2))" by auto
  have "ts_head t1 = ts_head t2" using eq by (simp add: utc_secs_def ts_head_def)
  moreover have "show_nat (t_ms t1) < show_nat (t_ms t2)"
    using show_nat_pad [of "t_ms t1"] show_nat_pad [of "t_ms t2"] len ms dec_pad_less by metis
  ultimately show ?thesis
    unfolding timestamp_split using len by (simp add: lex_append_left lex_append_less)
qed

definition t_5ms :: utc where
  "t_5ms = \<lparr>t_year = 2025, t_mon = 11, t_day = 18, t_hour = 21, t_min = 42, t_sec = 7, t_ms = 5\<rparr>"

definition t_40ms :: utc where
  "t_40ms = t_5ms\<lparr>t_ms := 40\<rparr>"

definition t_next :: utc where
  "t_next = t_5ms\<lparr>t_min := 43\<rparr>"

definition run_dir :: fsys where
  "run_dir = [(''/d'', Directory), (path_append ''/d'' (''run_'' @ getCurrentTimestamp t_5ms @ ''.rawf''), Regular),
     (path_append ''/d'' (''run_'' @ getCurrentTimestamp t_40ms @ ''.rawf''), Regular)]"

theorem timestamps_chronological_witness: "getCurrentTimestamp t_40ms < getCurrentTimestamp t_next"
  by (rule timestamps_chronological) (simp_all add: utc_ok_def utc_secs_def t_40ms_def t_next_def t_5ms_def)

text \<open>
  Milliseconds are printed without leading zeros, so \<open>getLatestTimestamp\<close> can return a time
  stamp that is not the latest: of two runs 5 and 40 milliseconds into the same second it picks
  the older one.
\<close>

theorem latest_timestamp_is_older:
  "getLatestTimestamp run_dir ''/d'' ''run'' [] = Inr (getCurrentTimestamp t_5ms) \<and>
   t_ms t_5ms < t_ms t_40ms \<and> utc_secs t_5ms = utc_secs t_40ms \<and>
   getCurrentTimestamp t_40ms < getCurrentTimestamp t_5ms"
proof -
  let ?n5 = "''run'' @ ''_'' @ getCurrentTimestamp t_5ms @ ''.rawf''"
  let ?n40 = "''run'' @ ''_'' @ getCurrentTimestamp t_40ms @ ''.rawf''"
  let ?p5 = "path_append ''/d'' ?n5" and ?p40 = "path_append ''/d'' ?n40"
  have less: "getCurrentTimestamp t_40ms < getCurrentTimestamp t_5ms"
  proof -
    have "show_nat 40 @ ''Z'' < show_nat 5 @ ''Z''"
      by (simp add: show_nat.simps digit_def less_char_def)
    moreover have "ts_head t_40ms = ts_head t_5ms" by (simp add: ts_head_def t_40ms_def)
    ultimately show ?thesis
      unfolding timestamp_split by (simp add: lex_append_left) (simp add: t_40ms_def t_5ms_def)
  qed
  have names: "filename_of ?p5 = ?n5" "filename_of ?p40 = ?n40"
    by (rule filename_append; use timestamp_no_slash in \<open>auto simp: slash_def\<close>)+
  have other: "filename_of ''/d'' = ''d''" by code_simp
  have ne: "?p5 \<noteq> ?p40"
  proof
    assume "?p5 = ?p40"
    then have "?n5 = ?n40" using names by metis
    then have "getCurrentTimestamp t_5ms = getCurrentTimestamp t_40ms"
      by (simp only: append_same_eq same_append_eq)
    with less show False by (simp only: less_irrefl)
  qed
  have "?n5 \<noteq> ''d''" "?n40 \<noteq> ''d''" by simp_all
  then have not_d: "?p5 \<noteq> ''/d''" "?p40 \<noteq> ''/d''" using names other by metis+
  have entries: "dir_entries run_dir ''/d'' = [?p5, ?p40]"
    using names other by (simp add: dir_entries_def run_dir_def) (simp add: path_append_def slash_def)
  have reg: "fs_is_regular run_dir ?p5" "fs_is_regular run_dir ?p40" "fs_is_directory run_dir ''/d''"
    using ne not_d by (simp_all add: fs_is_regular_def fs_is_directory_def run_dir_def numeral_eq_Suc)
  have m: "match_timestamp ''run'' [] (''run'' @ ''_'' @ getCurrentTimestamp t @ ''.rawf'') = Some (getCurrentTimestamp t)" for t
    by (rule match_made_file [where rest = "''.rawf''"]) (simp_all add: rx_of_def is_any_def)
  have ts_ne: "getCurrentTimestamp t_5ms \<noteq> []" by (simp add: timestamp_split)
  have "latest_of ''run'' [] run_dir (dir_entries run_dir ''/d'') [] = getCurrentTimestamp t_5ms"
    using reg(1,2) less_not_sym [OF less] ts_ne m [of t_5ms] m [of t_40ms]
    unfolding entries latest_of.simps names by simp
  moreover note ts_ne
  ultimately show ?thesis
    using reg(3) less by (simp add: getLatestTimestamp_def fs_exists_def fs_is_directory_def utc_secs_def)
      (simp add: t_40ms_def t_5ms_def)
qed

theorem made_file_is_found_witness:
  "\<exists>ts. getLatestTimestamp [(''/d'', Directory), (path_append ''/d'' (''run_'' @ getCurrentTimestamp t_5ms @ ''.rawf''), Regular)]
     ''/d'' ''run'' [] = Inr ts \<and> getCurrentTimestamp t_5ms \<le> ts"
proof -
  let ?n = "''run'' @ ''_'' @ getCurrentTimestamp t_5ms @ ''.rawf''"
  let ?p = "path_append ''/d'' ?n"
  let ?fs = "[(''/d'', Directory), (?p, Regular)]"
  have name: "filename_of ?p = ?n"
    by (rule filename_append; use timestamp_no_slash in \<open>auto simp: slash_def\<close>)
  have other: "filename_of ''/d'' = ''d''" by code_simp
  have "?n \<noteq> ''d''" by simp
  then have ne: "?p \<noteq> ''/d''" using name other by metis
  have made: "makeFilePathWithTimestamp ''/d'' ''run'' (getCurrentTimestamp t_5ms) ''rawf'' ?fs = (?p, ?fs)"
    by (simp add: makeFilePathWithTimestamp_def fs_exists_def numeral_eq_Suc dot_def)
  have "?p \<in> set (dir_entries ?fs ''/d'')" using name by (simp add: dir_entries_def)
  moreover have "fs_is_regular ?fs ?p" "fs_is_directory ?fs ''/d''"
    using ne by (simp_all add: fs_is_regular_def fs_is_directory_def numeral_eq_Suc)
  ultimately show ?thesis
    using made_file_is_found [OF _ _ made] by (simp add: is_any_def slash_def)
qed

end
