(* ===== verification/Servers.thy ===== *)
theory Servers
  imports HubConnection StreamClient
begin

text \<open>
  The two listening servers, \<^verbatim>\<open>src/GRAMS_TOF_CommandServer.cpp\<close> and
  \<^verbatim>\<open>src/GRAMS_TOF_EventServer.cpp\<close>, and what \<open>GRAMS_TOF_EventClient\<close> does on an open
  connection (\<open>sendPacket\<close> and the read loop). Set-up, accepting and closing are the same code in
  both servers and modelled once. Each turn of an epoll loop is one operation; the client list is
  only touched under its mutex. The interest list of the kernel is not modelled: a closed
  descriptor leaves it by itself.
\<close>

section \<open>Set-up, accepting and closing\<close>

record server =
  ssys :: fds
  clientList :: "(int, gclient) std_map"
  srunning :: bool

record listen_env =
  l_socket :: bool
  l_bind :: bool
  l_listen :: bool
  l_epoll_create :: bool
  l_epoll_ctl :: bool

text \<open>The part of \<open>run\<close> before its loop: the epoll descriptor, if everything worked.\<close>

definition server_open :: "ServerKind \<Rightarrow> listen_env \<Rightarrow> fds \<Rightarrow> int option \<times> fds" where
  "server_open kind env s =
     (if \<not> l_socket env then (None, s)
      else let (fd, s1) = os_new_fd s; s2 = setServerFD kind fd s1 in
      if \<not> l_bind env then (None, removeServerFD kind s2)
      else if \<not> l_listen env then (None, removeServerFD kind s2)
      else if \<not> l_epoll_create env then (None, removeServerFD kind s2)
      else let (ep, s3) = os_new_fd s2 in
      if \<not> l_epoll_ctl env then (None, os_close ep (removeServerFD kind s3))
      else (Some ep, s3))"

text \<open>
  \<open>accepted\<close> says whether the kernel had a connection (otherwise \<^verbatim>\<open>accept\<close> returns -1).
  Assigning to \<^verbatim>\<open>clientList_[new_fd]\<close> destroys an object already there.
\<close>

definition server_accept :: "bool \<Rightarrow> bool \<Rightarrow> server \<Rightarrow> server" where
  "server_accept accepted ctl_ok v =
     (let (new_fd, s) = (if accepted then os_new_fd (ssys v) else (-1, ssys v)) in
      if new_fd \<le> 2 then v\<lparr>ssys := os_close new_fd s\<rparr>
      else if \<not> ctl_ok then v\<lparr>ssys := os_close new_fd s\<rparr>
      else let (c, s') = Client_new new_fd s in
        v\<lparr>ssys := (case map_find (clientList v) new_fd of
                      None \<Rightarrow> s'
                    | Some old \<Rightarrow> snd (Client_closeFD old s')),
          clientList := map_put new_fd c (clientList v)\<rparr>)"

text \<open>Closing a client and erasing it; the erased object's destructor has nothing left to close.\<close>

definition drop_client :: "int \<Rightarrow> server \<Rightarrow> server" where
  "drop_client fd v =
     (case map_find (clientList v) fd of
        None \<Rightarrow> v
      | Some c \<Rightarrow>
          let (c', s') = Client_closeFD c (ssys v)
          in v\<lparr>ssys := snd (Client_closeFD c' s'), clientList := map_erase fd (clientList v)\<rparr>)"

text \<open>The clean-up after the loop and in \<open>stop\<close>.\<close>

definition drop_all_clients :: "server \<Rightarrow> server" where
  "drop_all_clients v =
     v\<lparr>ssys := fold (\<lambda>(_, c) s. snd (Client_closeFD c s)) (clientList v) (ssys v), clientList := []\<rparr>"

definition server_exit :: "ServerKind \<Rightarrow> int \<Rightarrow> server \<Rightarrow> server" where
  "server_exit kind ep v =
     (let v1 = drop_all_clients v
      in v1\<lparr>ssys := removeServerFD kind (os_close ep (ssys v1))\<rparr>)"

definition server_stop :: "ServerKind \<Rightarrow> int \<Rightarrow> server \<Rightarrow> server" where
  "server_stop kind ep v =
     (if \<not> srunning v then v
      else let v1 = server_exit kind ep (v\<lparr>srunning := False\<rparr>);
               v2 = drop_all_clients v1
           in v2\<lparr>ssys := removeServerFD kind (ssys v2)\<rparr>)"

definition server_start :: "server \<Rightarrow> server" where
  "server_start v = (if srunning v then v else v\<lparr>srunning := True\<rparr>)"

section \<open>A readable client\<close>

definition cs_ack :: Packet where
  "cs_ack = \<lparr>pkt_code = toCommCode ACK, pkt_argc = 1, pkt_argv = []\<rparr>"

text \<open>
  The read branch of \<open>GRAMS_TOF_CommandServer::run\<close>: \<open>r\<close> and \<open>again\<close> are the kernel's answer to
  \<^verbatim>\<open>recv\<close>, \<open>hup\<close> the error flags of the event, \<open>sends\<close> the outcomes of sending the
  acknowledgement (its result is not looked at). \<open>None\<close>: a read outside an array, or the
  outcomes of \<^verbatim>\<open>send\<close> run out.
\<close>

definition command_server_read ::
  "(Packet \<Rightarrow> 'w \<Rightarrow> 'w) \<Rightarrow> int \<Rightarrow> recv_result \<Rightarrow> bool \<Rightarrow> bool \<Rightarrow> send_result list \<Rightarrow> server \<times> 'w \<Rightarrow> (server \<times> 'w) option"
where
  "command_server_read handler fd r again hup sends v_w =
     (let (v, w) = v_w in
      case map_find (clientList v) fd of
        None \<Rightarrow> Some (v, w)
      | Some c \<Rightarrow>
          let (n, bytes, c') = Client_recvData c 1024 r again (ssys v);
              v' = v\<lparr>clientList := map_put fd c' (clientList v)\<rparr> in
          if n \<le> 0 \<or> hup then Some (drop_client fd v', w)
          else case parse bytes of
                 None \<Rightarrow> None
               | Some None \<Rightarrow> Some (v', w)
               | Some (Some pkt) \<Rightarrow>
                   (case serialize cs_ack None of
                      None \<Rightarrow> None
                    | Some ack \<Rightarrow>
                        (case Client_sendData c' sends ack (ssys v') of
                           None \<Rightarrow> None
                         | Some _ \<Rightarrow> Some (v', handler pkt w))))"

definition event_server_read :: "int \<Rightarrow> recv_result \<Rightarrow> bool \<Rightarrow> bool \<Rightarrow> server \<Rightarrow> server option" where
  "event_server_read fd r again hup v =
     (case map_find (clientList v) fd of
        None \<Rightarrow> Some v
      | Some c \<Rightarrow>
          let (n, bytes, c') = Client_recvData c 1024 r again (ssys v);
              v' = v\<lparr>clientList := map_put fd c' (clientList v)\<rparr> in
          if n \<le> 0 \<or> hup then Some (drop_client fd v')
          else case parse bytes of None \<Rightarrow> None | Some _ \<Rightarrow> Some v')"

section \<open>Sending to all clients\<close>

text \<open>
  The loop over the copied client list, shared by \<open>send\<close> and \<open>heartbeatLoop\<close>: \<open>outcome fd\<close> is
  what \<open>sendData\<close> returns on client \<open>fd\<close>.
\<close>

fun broadcast :: "(int \<Rightarrow> int) \<Rightarrow> int list \<Rightarrow> server \<Rightarrow> bool \<times> server" where
  "broadcast outcome [] v = (True, v)"
| "broadcast outcome (fd # fds) v =
     (if outcome fd \<le> 0 then (False, snd (broadcast outcome fds (drop_client fd v)))
      else broadcast outcome fds v)"

definition event_send :: "(int \<Rightarrow> int) \<Rightarrow> Packet \<Rightarrow> server \<Rightarrow> (u8 list \<times> bool \<times> server) option" where
  "event_send outcome pkt v =
     map_option (\<lambda>bytes. (bytes, broadcast outcome (map_keys (clientList v)) v)) (serialize pkt None)"

definition sendCallback :: "(int \<Rightarrow> int) \<Rightarrow> i32 list \<Rightarrow> server \<Rightarrow> (u8 list \<times> bool \<times> server) option" where
  "sendCallback outcome args v =
     event_send outcome \<lparr>pkt_code = toCommCode CALLBACK, pkt_argc = of_nat (length args), pkt_argv = args\<rparr> v"

definition heartbeat_packet :: Packet where
  "heartbeat_packet = \<lparr>pkt_code = toCommCode HEART_BEAT, pkt_argc = 0, pkt_argv = []\<rparr>"

definition sendHeartbeat :: "(int \<Rightarrow> int) \<Rightarrow> server \<Rightarrow> (u8 list \<times> bool \<times> server) option" where
  "sendHeartbeat outcome v = event_send outcome heartbeat_packet v"

text \<open>One beat of \<open>heartbeatLoop\<close> (the packet is serialised anew for every client).\<close>

definition heartbeat_turn :: "(int \<Rightarrow> int) \<Rightarrow> server \<Rightarrow> (u8 list \<times> server) option" where
  "heartbeat_turn outcome v =
     map_option (\<lambda>bytes. (bytes, snd (broadcast outcome (map_keys (clientList v)) v))) (serialize heartbeat_packet None)"

section \<open>The event client on an open connection\<close>

definition sendPacket :: "send_result list \<Rightarrow> Packet \<Rightarrow> hub \<Rightarrow> (bool \<times> u8 list) option" where
  "sendPacket sends packet h =
     (case serialize packet None of
        None \<Rightarrow> None
      | Some serialized_data \<Rightarrow>
          if serialized_data = [] then Some (False, [])
          else case hubConnection h of
                 None \<Rightarrow> Some (False, [])
               | Some c \<Rightarrow>
                   (case Client_sendData c sends serialized_data (sys h) of
                      None \<Rightarrow> None
                    | Some (n, out) \<Rightarrow> Some (n \<noteq> 0, out)))"

text \<open>The result says whether the connection stays; a buffer that does not parse is logged only.\<close>

definition event_client_turn ::
  "(Packet \<Rightarrow> 'w \<Rightarrow> 'w) \<Rightarrow> u8 list \<Rightarrow> bool \<Rightarrow> 'w \<Rightarrow> (bool \<times> 'w) option" where
  "event_client_turn handler bytes hup w =
     (if bytes = [] \<or> hup then Some (False, w)
      else case parse bytes of
             None \<Rightarrow> None
           | Some None \<Rightarrow> Some (True, w)
           | Some (Some pkt) \<Rightarrow> Some (True, handler pkt w))"

section \<open>The invariant of a server\<close>

text \<open>
  Every listed client is registered with the descriptor manager under its own number, and no
  descriptor is listed or served twice.
\<close>

definition server_ok :: "server \<Rightarrow> bool" where
  "server_ok v \<longleftrightarrow> fds_ok (ssys v) \<and> map_ok (clientList v) \<and>
     finite (os_open (ssys v)) \<and> {0, 1, 2} \<subseteq> os_open (ssys v) \<and> -1 \<notin> os_open (ssys v) \<and>
     (\<forall>fd c. map_find (clientList v) fd = Some c \<longrightarrow>
        cl_fd c = fd \<and> fd > 2 \<and> map_find (client_fds (ssys v)) fd = Some fd)"

lemma server_okD:
  assumes "server_ok v"
  shows "fds_ok (ssys v)" and "map_ok (clientList v)" and "map_ok (client_fds (ssys v))"
    and "finite (os_open (ssys v))" and "{0, 1, 2} \<subseteq> os_open (ssys v)" and "-1 \<notin> os_open (ssys v)"
    and "map_find (clientList v) fd = Some c \<Longrightarrow> cl_fd c = fd \<and> fd > 2 \<and> map_find (client_fds (ssys v)) fd = Some fd"
  using assms by (auto simp: server_ok_def fds_ok_def)

lemma removeClientFD_open:
  "fds_ok s \<Longrightarrow> fd > 2 \<Longrightarrow> finite (os_open s) \<Longrightarrow> {0, 1, 2} \<subseteq> os_open s \<Longrightarrow>
    finite (os_open (removeClientFD fd s)) \<and> {0, 1, 2} \<subseteq> os_open (removeClientFD fd s) \<and>
    os_open (removeClientFD fd s) \<subseteq> os_open s"
  by (auto simp: removeClientFD_def SafeFD_closeFD_def fds_ok_def split: option.split)

lemma drop_client_ok:
  assumes "server_ok v"
  shows "server_ok (drop_client fd v)"
    and "stray_closes (ssys (drop_client fd v)) = stray_closes (ssys v)"
    and "map_find (clientList (drop_client fd v)) = (map_find (clientList v))(fd := None)"
proof -
  note ok = server_okD [OF assms]
  have "server_ok (drop_client fd v) \<and> stray_closes (ssys (drop_client fd v)) = stray_closes (ssys v) \<and>
    map_find (clientList (drop_client fd v)) = (map_find (clientList v))(fd := None)"
  proof (cases "map_find (clientList v) fd")
    case None
    then show ?thesis using assms by (auto simp: drop_client_def)
  next
    case (Some c)
    from ok(7) [OF Some] have c: "cl_fd c = fd" "fd > 2" by auto
    have v: "drop_client fd v = v\<lparr>ssys := removeClientFD fd (ssys v), clientList := map_erase fd (clientList v)\<rparr>"
      using c Some by (simp add: drop_client_def Client_closeFD_def)
    show ?thesis
      using removeClientFD_ok [OF ok(1), of fd] removeClientFD_open [OF ok(1) c(2) ok(4,5)] ok
      by (auto simp: v server_ok_def removeClientFD_find std_map_simps fun_eq_iff split: if_splits)
  qed
  then show "server_ok (drop_client fd v)"
    and "stray_closes (ssys (drop_client fd v)) = stray_closes (ssys v)"
    and "map_find (clientList (drop_client fd v)) = (map_find (clientList v))(fd := None)" by simp_all
qed

text \<open>Receiving only changes the buffer of the connection object.\<close>

lemma recv_client_fd: "Client_recvData c cap r again s = (n, bytes, c') \<Longrightarrow> cl_fd c' = cl_fd c"
  by (auto simp: Client_recvData_def Let_def split: if_splits prod.splits)

lemma server_ok_put:
  assumes "server_ok v" and "map_find (clientList v) fd = Some c" and "cl_fd c' = cl_fd c"
  shows "server_ok (v\<lparr>clientList := map_put fd c' (clientList v)\<rparr>)"
  using server_okD [OF assms(1)] assms by (auto simp: server_ok_def std_map_simps)

lemma unopened_no_client:
  "fds_ok s \<Longrightarrow> fd \<notin> os_open s \<Longrightarrow> fd > 2 \<Longrightarrow> map_find (client_fds s) fd = None"
  by (cases "map_find (client_fds s) fd") (auto simp: fds_ok_def)

lemma frame_bytes_nonempty: "frame_bytes p c @ rest \<noteq> []"
  by (simp add: frame_bytes_def payload_def enc16_def)

lemma server_accept_ok:
  assumes "server_ok v"
  shows "server_ok (server_accept accepted ctl_ok v) \<and>
    stray_closes (ssys (server_accept accepted ctl_ok v)) = stray_closes (ssys v) + (if accepted then 0 else 1)"
proof (cases accepted)
  case False
  have "ssys v\<lparr>stray_closes := Suc (stray_closes (ssys v))\<rparr> = os_close (-1) (ssys v)"
    using assms by (simp add: os_close_def server_ok_def)
  moreover from this have "server_accept accepted ctl_ok v = v\<lparr>ssys := (ssys v)\<lparr>stray_closes := Suc (stray_closes (ssys v))\<rparr>\<rparr>"
    using False by (simp add: server_accept_def)
  ultimately show ?thesis
    using assms False by (simp add: server_ok_def fds_ok_def)
next
  case True
  note ok = server_okD [OF assms]
  obtain fd s1 where new: "os_new_fd (ssys v) = (fd, s1)" by fastforce
  note fd = os_new_fd_spec [OF new ok(4,5)]
  have none: "map_find (clientList v) fd = None" "map_find (client_fds (ssys v)) fd = None"
    using unopened_no_client [OF ok(1) fd(1,2)] ok(7) [of fd]
    by (cases "map_find (clientList v) fd"; simp)+
  show ?thesis
  proof (cases ctl_ok)
    case no_ctl: False
    then have "server_accept accepted ctl_ok v = v"
      using True new fd by (simp add: server_accept_def os_close_def)
    with assms True show ?thesis by simp
  next
    case ctl: True
    have eq: "server_accept accepted ctl_ok v =
       v\<lparr>ssys := addClientFD fd ((ssys v)\<lparr>os_open := insert fd (os_open (ssys v))\<rparr>),
         clientList := map_put fd \<lparr>cl_fd = fd, readBuffer = []\<rparr> (clientList v)\<rparr>"
      using True ctl new fd none by (simp add: server_accept_def Client_new_def)
    have "fresh_fd fd ((ssys v)\<lparr>os_open := insert fd (os_open (ssys v))\<rparr>)"
      using fresh_from_kernel [OF ok(1) fd(2) fd(1)] .
    from addClientFD_ok [OF fds_ok_open [OF ok(1)] this]
    show ?thesis
      unfolding eq server_ok_def
      using ok fd none True by (auto simp: addClientFD_def std_map_simps split: if_splits)
  qed
qed

lemma event_server_read_ok:
  assumes "server_ok v"
  shows "\<exists>v'. event_server_read fd r again hup v = Some v' \<and> server_ok v' \<and>
    stray_closes (ssys v') = stray_closes (ssys v)"
proof (cases "map_find (clientList v) fd")
  case None
  then show ?thesis using assms by (simp add: event_server_read_def)
next
  case (Some c)
  obtain n bytes c' where recv: "Client_recvData c 1024 r again (ssys v) = (n, bytes, c')"
    by (metis prod_cases3)
  have ok: "server_ok (v\<lparr>clientList := map_put fd c' (clientList v)\<rparr>)"
    by (rule server_ok_put [OF assms Some recv_client_fd [OF recv]])
  show ?thesis
    using Some recv ok drop_client_ok [OF ok] parse_total [of bytes]
    by (auto simp: event_server_read_def Let_def)
qed

lemma broadcast_ok:
  assumes "server_ok v"
  shows "server_ok (snd (broadcast outcome fds v)) \<and>
    stray_closes (ssys (snd (broadcast outcome fds v))) = stray_closes (ssys v) \<and>
    fst (broadcast outcome fds v) = (\<forall>fd \<in> set fds. outcome fd > 0) \<and>
    map_find (clientList (snd (broadcast outcome fds v))) =
      (map_find (clientList v)) |` (- {fd \<in> set fds. outcome fd \<le> 0})"
  using assms
proof (induction fds arbitrary: v)
  case (Cons fd fds)
  show ?case
  proof (cases "outcome fd \<le> 0")
    case True
    from Cons.IH [OF drop_client_ok(1) [OF Cons.prems, of fd]] True drop_client_ok(2,3) [OF Cons.prems, of fd]
    show ?thesis by (auto simp: restrict_map_def fun_eq_iff)
  next
    case False
    with Cons.IH [OF Cons.prems] show ?thesis by (auto simp: restrict_map_def fun_eq_iff)
  qed
qed (simp add: restrict_map_def)

lemma send_loop_nonzero:
  "send_loop rs data cnt = Some (n, out) \<Longrightarrow> data \<noteq> [] \<Longrightarrow> n \<noteq> 0"
proof (induction rs data cnt arbitrary: n out rule: send_loop.induct)
  case (1 rs data cnt)
  show ?case
  proof (cases "cnt < length data")
    case False
    with "1.prems" show ?thesis by (auto simp: send_loop_cases)
  next
    case True
    with 1 show ?thesis
      by (cases rs; cases "hd rs") (auto simp: send_loop_cases)
  qed
qed

section \<open>Sequences of server turns\<close>

datatype server_event = Incoming bool bool | Readable int recv_result bool bool | Broadcast "int \<Rightarrow> int"

fun event_server_step :: "server_event \<Rightarrow> server \<Rightarrow> server" where
  "event_server_step (Incoming accepted ctl_ok) v = server_accept accepted ctl_ok v"
| "event_server_step (Readable fd r again hup) v =
     (case event_server_read fd r again hup v of None \<Rightarrow> v | Some v' \<Rightarrow> v')"
| "event_server_step (Broadcast outcome) v = snd (broadcast outcome (map_keys (clientList v)) v)"

definition failed_accepts :: "server_event list \<Rightarrow> nat" where
  "failed_accepts es = length (filter (\<lambda>e. case e of Incoming accepted _ \<Rightarrow> \<not> accepted | _ \<Rightarrow> False) es)"

lemma event_server_step_ok:
  assumes "server_ok v"
  shows "server_ok (event_server_step e v) \<and>
    stray_closes (ssys (event_server_step e v)) = stray_closes (ssys v) + failed_accepts [e]"
proof (cases e)
  case (Incoming accepted ctl_ok)
  then show ?thesis using server_accept_ok [OF assms] by (simp add: failed_accepts_def)
next
  case (Readable fd r again hup)
  then show ?thesis
    using event_server_read_ok [OF assms, of fd r again hup] by (auto simp: failed_accepts_def)
next
  case (Broadcast outcome)
  then show ?thesis using broadcast_ok [OF assms] by (simp add: failed_accepts_def)
qed

definition server_init :: server where
  "server_init = \<lparr>ssys = fds_init, clientList = [], srunning = True\<rparr>"

lemma server_init_ok: "server_ok server_init"
  using fds_init_ok by (simp add: server_ok_def server_init_def) (simp add: fds_init_def)

section \<open>Correctness of the servers\<close>



text \<open>
  \<open>sendCallback\<close> with at most 65535 arguments never faults: it offers each client listed at
  its start the serialised callback packet, drops exactly the clients whose send failed, keeps the
  others, and returns true exactly when every send worked.
\<close>

theorem sendCallback_drops_failed:
  assumes "server_ok v" and "length args < 2 ^ 16"
  shows "\<exists>bytes v'. sendCallback outcome args v =
      Some (bytes, \<forall>fd \<in> set (map_keys (clientList v)). outcome fd > 0, v') \<and>
    serialize \<lparr>pkt_code = toCommCode CALLBACK, pkt_argc = of_nat (length args), pkt_argv = args\<rparr> None = Some bytes \<and>
    server_ok v' \<and>
    map_find (clientList v') = (map_find (clientList v)) |` {fd. outcome fd > 0}"
proof -
  let ?p = "\<lparr>pkt_code = toCommCode CALLBACK, pkt_argc = of_nat (length args), pkt_argv = args\<rparr>"
  have "unat (of_nat (length args) :: u16) = length args"
    using assms(2) by (simp add: unat_of_nat take_bit_nat_eq_self)
  then obtain bytes where bytes: "serialize ?p None = Some bytes"
    by (simp add: serialize_eq Let_def)
  note b = broadcast_ok [OF assms(1), of outcome "map_keys (clientList v)"]
  have "(map_find (clientList v)) |` (- {fd \<in> set (map_keys (clientList v)). outcome fd \<le> 0}) =
      (map_find (clientList v)) |` {fd. outcome fd > 0}"
    by (auto simp: restrict_map_def fun_eq_iff map_keys_find)
  then show ?thesis
    using b bytes by (cases "broadcast outcome (map_keys (clientList v)) v")
      (simp add: sendCallback_def event_send_def)
qed

definition two_clients :: server where
  "two_clients = \<lparr>ssys = \<lparr>os_open = {0, 1, 2, 3, 4}, stray_closes = 0, server_fds = (\<lambda>_. -1),
       client_fds = [(3, 3), (4, 4)]\<rparr>,
     clientList = [(3, \<lparr>cl_fd = 3, readBuffer = []\<rparr>), (4, \<lparr>cl_fd = 4, readBuffer = []\<rparr>)], srunning = True\<rparr>"

theorem sendCallback_drops_failed_witness:
  "\<exists>bytes v'. sendCallback (\<lambda>fd. if fd = 4 then -1 else 18) [7] two_clients = Some (bytes, False, v') \<and>
     map_find (clientList v') 4 = None \<and> map_find (clientList v') 3 \<noteq> None"
proof -
  have "server_ok two_clients"
    by (auto simp: server_ok_def two_clients_def fds_ok_def map_ok_def map_keys_def map_find_def split: if_splits)
  from sendCallback_drops_failed [OF this, of "[7]" "\<lambda>fd. if fd = 4 then -1 else 18"]
  have "\<exists>bytes v'. sendCallback (\<lambda>fd. if fd = 4 then -1 else 18) [7] two_clients =
      Some (bytes, \<forall>fd \<in> set (map_keys (clientList two_clients)). 0 < (if fd = 4 then -1 else 18 :: int), v') \<and>
      map_find (clientList v') = (map_find (clientList two_clients)) |` {fd. 0 < (if fd = 4 then -1 else 18 :: int)}"
    by auto
  moreover have "set (map_keys (clientList two_clients)) = {3, 4}"
    by (simp add: two_clients_def map_keys_def)
  moreover have "map_find (clientList two_clients) 3 \<noteq> None"
    by (simp add: two_clients_def map_find_def)
  ultimately show ?thesis by (auto simp: restrict_map_def)
qed

text \<open>
  The command server reads past the end of the acknowledgement's empty argument vector on
  every valid command that arrives on an open connection, whatever the command and its handler.
\<close>

theorem command_server_faults_on_commands:
  assumes "map_find (clientList v) fd = Some c" and "Client_recvData c 1024 r again (ssys v) = (n, bytes, c')"
    and "n > 0" and "parse bytes = Some (Some p)"
  shows "command_server_read handler fd r again False sends (v, w) = None"
proof -
  have "serialize cs_ack None = None" by (simp add: serialize_eq cs_ack_def)
  with assms show ?thesis by (simp add: command_server_read_def)
qed

theorem command_server_faults_on_commands_witness:
  "command_server_read (\<lambda>_ w. w) 3 (Received (the (serialize example_packet None))) False False [Sent 18]
     (\<lparr>ssys = fds_init\<lparr>client_fds := [(3, 3)]\<rparr>, clientList = [(3, \<lparr>cl_fd = 3, readBuffer = []\<rparr>)], srunning = True\<rparr>, ()) = None"
proof -
  let ?v = "\<lparr>ssys = fds_init\<lparr>client_fds := [(3, 3)]\<rparr>, clientList = [(3, \<lparr>cl_fd = 3, readBuffer = []\<rparr>)], srunning = True\<rparr>"
  let ?f = "the (serialize example_packet None)"
  have wf: "wf_packet example_packet"
    by (simp add: wf_packet_def example_packet_def MAX_ARGC_def)
  have len: "length ?f = 22"
    by (simp add: serialize_wf [OF wf]) (simp add: example_packet_def)
  have p: "parse ?f = Some (Some example_packet)"
    using parse_frame_bytes [OF wf, of "packet_crc example_packet" "[]"] by (simp add: serialize_wf [OF wf])
  have recv: "Client_recvData \<lparr>cl_fd = 3, readBuffer = []\<rparr> 1024 (Received ?f) False (ssys ?v) = (22, ?f, \<lparr>cl_fd = 3, readBuffer = []\<rparr>)"
    using len by (simp add: Client_recvData_def recvData_def map_find_def)
  show ?thesis
    by (rule command_server_faults_on_commands [OF _ recv _ p]) (simp_all add: map_find_def)
qed

text \<open>
  On an open connection \<open>EventClient::sendPacket\<close> reports success for every packet it can
  serialise, whatever the kernel did with the bytes: a failed send is reported as delivered.
\<close>

theorem sendPacket_success_means_connected:
  assumes "sendPacket sends p h = Some (ok, out)"
  shows "ok \<longleftrightarrow> hubConnection h \<noteq> None"
proof -
  from assms obtain bytes where bytes: "serialize p None = Some bytes"
    by (auto simp: sendPacket_def split: option.splits)
  then have ne: "length bytes > 0"
    using frame_bytes_nonempty [of _ _ "[]"] by (auto simp: serialize_eq Let_def split: if_splits)
  have pos: "n \<noteq> 0" if "Client_sendData c sends bytes s = Some (n, out)" for c s n out
    using that ne send_loop_nonzero [of sends bytes 0]
    by (auto simp: Client_sendData_def sendToClient_def SafeFD_sendData_def split: if_splits option.splits)
  show ?thesis
    using assms bytes ne pos by (auto simp: sendPacket_def split: option.splits)
qed

theorem sendPacket_success_means_connected_witness:
  "sendPacket [SendError] example_packet
      \<lparr>sys = fds_init\<lparr>client_fds := [(3, 3)]\<rparr>, hubConnection = Some \<lparr>cl_fd = 3, readBuffer = []\<rparr>, running = True\<rparr> =
    Some (True, []) \<and> fst (the (SafeFD_sendData 3 [SendError] (the (serialize example_packet None)))) = -1"
proof -
  let ?h = "\<lparr>sys = fds_init\<lparr>client_fds := [(3, 3)]\<rparr>, hubConnection = Some \<lparr>cl_fd = 3, readBuffer = []\<rparr>, running = True\<rparr>"
  have wf: "wf_packet example_packet"
    by (simp add: wf_packet_def example_packet_def MAX_ARGC_def)
  have ne: "frame_bytes example_packet c \<noteq> []" for c
    using frame_bytes_nonempty [of example_packet c "[]"] by simp
  have run: "sendPacket [SendError] example_packet ?h = Some (True, [])"
    using ne by (simp add: sendPacket_def serialize_wf [OF wf] Client_sendData_def sendToClient_def map_find_def
        SafeFD_sendData_def send_loop.simps)
  have "fst (the (SafeFD_sendData 3 [SendError] (the (serialize example_packet None)))) = -1"
    using ne by (simp add: serialize_wf [OF wf] SafeFD_sendData_def send_loop.simps)
  with sendPacket_success_means_connected [OF run] run show ?thesis by simp
qed

text \<open>
  The event client handles only the first packet of a read: packets that arrive together are
  lost after the first one (the command client's loop serves them all).
\<close>

theorem event_client_loses_coalesced:
  assumes "wf_packet p"
  shows "event_client_turn handler (the (serialize p None) @ rest) False w = Some (True, handler p w)"
  using parse_frame_bytes [OF assms, of "packet_crc p" rest]
    frame_bytes_nonempty [of p "packet_crc p" rest]
  by (simp add: event_client_turn_def serialize_wf [OF assms])

theorem event_client_loses_coalesced_witness:
  "event_client_turn (\<lambda>p w. w @ [pkt_code p]) (the (serialize example_packet None) @ the (serialize example_packet None)) False []
    = Some (True, [0x5109])"
proof -
  have "wf_packet example_packet"
    by (simp add: wf_packet_def example_packet_def MAX_ARGC_def)
  from event_client_loses_coalesced [OF this, of "\<lambda>p w. w @ [pkt_code p]"] show ?thesis
    by (simp add: example_packet_def)
qed

end
