(* ===== verification/Dispatch.thy ===== *)
theory Dispatch
  imports Config Servers
begin

text \<open>
  The command table of \<^verbatim>\<open>src/GRAMS_TOF_CommandDispatch.cpp\<close>, the calls it makes into Python
  (\<^verbatim>\<open>src/GRAMS_TOF_PythonIntegration.cpp\<close>) and into the analysis functions
  (\<^verbatim>\<open>src/GRAMS_TOF_Analyzer.cpp\<close>), and \<open>handleIncomingCommand\<close> of
  \<^verbatim>\<open>src/GRAMS_TOF_DAQController.cpp\<close>.

  The Python scripts, the analysis functions and the clock are arguments (\<open>services\<close>); every call
  is recorded. The three acquisition commands have their own model (\<open>DaqControl\<close>), so their
  handler is an argument here. A floating point argument is the decimal number that is converted:
  \<open>CFloat m k\<close> is \<open>m * 10 ^ -k\<close> as a \<^verbatim>\<open>float\<close>.
\<close>

section \<open>Calls and their outcomes\<close>

datatype cval = CStr string | CInt i32 | CFloat int nat | CDouble int nat | CBool bool
  | CIntList "i32 list" | CStrList "string list" | CLongLong int | CFileType i32

datatype call = PyCall string string "cval list" | AnalysisCall string "cval list"

datatype py_outcome = PyReturns bool | PyError | PyOther string

datatype run_outcome = RunReturns bool | RunThrows

record disp =
  cfg :: config
  dfs :: fsys
  calls :: "call list"

record services =
  py_run :: "string \<Rightarrow> string \<Rightarrow> cval list \<Rightarrow> fsys \<Rightarrow> py_outcome \<times> fsys"
  analysis_run :: "string \<Rightarrow> cval list \<Rightarrow> fsys \<Rightarrow> run_outcome \<times> fsys"
  clock :: utc
  cwd :: string
  daq_handler :: "TOFCommandCode \<Rightarrow> disp \<Rightarrow> bool \<times> disp"

type_synonym 'a act = "disp \<Rightarrow> (string + 'a) \<times> disp"

definition bindA :: "'a act \<Rightarrow> ('a \<Rightarrow> 'b act) \<Rightarrow> 'b act" where
  "bindA m f d = (case m d of (Inl e, d') \<Rightarrow> (Inl e, d') | (Inr x, d') \<Rightarrow> f x d')"

definition liftA :: "(disp \<Rightarrow> string + 'a) \<Rightarrow> 'a act" where
  "liftA f d = (f d, d)"

definition returnA :: "'a \<Rightarrow> 'a act" where
  "returnA x d = (Inr x, d)"

section \<open>Calling Python\<close>

definition runPythonFunction :: "services \<Rightarrow> string \<Rightarrow> string \<Rightarrow> cval list \<Rightarrow> bool act" where
  "runPythonFunction sv scriptPath functionName args d =
     (let (r, fs) = py_run sv scriptPath functionName args (dfs d);
          d' = d\<lparr>dfs := fs, calls := calls d @ [PyCall scriptPath functionName args]\<rparr>
      in case r of
           PyReturns result \<Rightarrow> (Inr result, d')
         | PyError \<Rightarrow> (Inr False, d')
         | PyOther e \<Rightarrow> (Inl e, d'))"

definition runPetsysInitSystem :: "services \<Rightarrow> string \<Rightarrow> bool act" where
  "runPetsysInitSystem sv scriptPath = runPythonFunction sv scriptPath ''safe_init_system'' []"

definition runPetsysMakeBiasCalibrationTable ::
  "services \<Rightarrow> string \<Rightarrow> string \<Rightarrow> i32 list \<Rightarrow> i32 list \<Rightarrow> i32 list \<Rightarrow> string list \<Rightarrow> bool act" where
  "runPetsysMakeBiasCalibrationTable sv scriptPath outputFile portIDs slaveIDs slotIDs filenames =
     runPythonFunction sv scriptPath ''safe_make_bias_calibration_table''
       [CStr outputFile, CIntList portIDs, CIntList slaveIDs, CIntList slotIDs, CStrList filenames]"

definition runPetsysMakeSimpleBiasSettingsTable ::
  "services \<Rightarrow> string \<Rightarrow> string \<Rightarrow> cval \<Rightarrow> cval \<Rightarrow> cval \<Rightarrow> cval \<Rightarrow> string \<Rightarrow> bool act" where
  "runPetsysMakeSimpleBiasSettingsTable sv scriptPath configPath offset prebd bd over outputPath =
     runPythonFunction sv scriptPath ''safe_make_simple_bias_settings_table''
       [CStr configPath, offset, prebd, bd, over, CStr outputPath]"

definition runPetsysMakeSimpleChannelMap :: "services \<Rightarrow> string \<Rightarrow> string \<Rightarrow> bool act" where
  "runPetsysMakeSimpleChannelMap sv scriptPath outputFile =
     runPythonFunction sv scriptPath ''safe_make_simple_channel_map'' [CStr outputFile]"

definition runPetsysMakeSimpleDiscSettingsTable ::
  "services \<Rightarrow> string \<Rightarrow> string \<Rightarrow> i32 \<Rightarrow> i32 \<Rightarrow> i32 \<Rightarrow> string \<Rightarrow> bool act" where
  "runPetsysMakeSimpleDiscSettingsTable sv scriptPath configPath vth_t1 vth_t2 vth_e outputPath =
     runPythonFunction sv scriptPath ''safe_make_simple_disc_settings_table''
       [CStr configPath, CInt vth_t1, CInt vth_t2, CInt vth_e, CStr outputPath]"

definition runPetsysReadTemperatureSensors ::
  "services \<Rightarrow> string \<Rightarrow> cval \<Rightarrow> cval \<Rightarrow> string \<Rightarrow> bool \<Rightarrow> bool \<Rightarrow> bool act" where
  "runPetsysReadTemperatureSensors sv scriptPath acq_time interval fileName startup debug =
     runPythonFunction sv scriptPath ''safe_read_temperature_sensors''
       [acq_time, interval, CStr fileName, CBool startup, CBool debug]"

definition runPetsysAcquireThresholdCalibration ::
  "services \<Rightarrow> string \<Rightarrow> string \<Rightarrow> string \<Rightarrow> i32 \<Rightarrow> i32 \<Rightarrow> bool \<Rightarrow> string \<Rightarrow> bool act" where
  "runPetsysAcquireThresholdCalibration sv scriptPath configFile outFilePrefix noise_reads dark_reads ext_bias mode =
     runPythonFunction sv scriptPath ''safe_acquire_threshold_calibration''
       [CStr configFile, CStr outFilePrefix, CInt noise_reads, CInt dark_reads, CBool ext_bias, CStr mode]"

definition runPetsysAcquireQdcCalibration :: "services \<Rightarrow> string \<Rightarrow> string \<Rightarrow> string \<Rightarrow> bool act" where
  "runPetsysAcquireQdcCalibration sv scriptPath configPath fileNamePrefix =
     runPythonFunction sv scriptPath ''safe_acquire_qdc_calibration'' [CStr configPath, CStr fileNamePrefix]"

definition runPetsysAcquireTdcCalibration :: "services \<Rightarrow> string \<Rightarrow> string \<Rightarrow> string \<Rightarrow> bool act" where
  "runPetsysAcquireTdcCalibration sv scriptPath configPath fileNamePrefix =
     runPythonFunction sv scriptPath ''safe_acquire_tdc_calibration'' [CStr configPath, CStr fileNamePrefix]"

definition runPetsysAcquireSipmData ::
  "services \<Rightarrow> string \<Rightarrow> string \<Rightarrow> string \<Rightarrow> cval \<Rightarrow> string \<Rightarrow> bool \<Rightarrow> string \<Rightarrow> bool act" where
  "runPetsysAcquireSipmData sv scriptPath configPath fileNamePrefix acquisitionTime mode hwTrigger paramTable =
     runPythonFunction sv scriptPath ''safe_acquire_sipm_data''
       [CStr configPath, CStr fileNamePrefix, acquisitionTime, CStr mode, CBool hwTrigger, CStr paramTable]"

section \<open>Calling the analysis functions\<close>

definition safeRun :: "services \<Rightarrow> string \<Rightarrow> cval list \<Rightarrow> bool act" where
  "safeRun sv func args d =
     (let (r, fs) = analysis_run sv func args (dfs d);
          d' = d\<lparr>dfs := fs, calls := calls d @ [AnalysisCall func args]\<rparr>
      in case r of RunReturns b \<Rightarrow> (Inr b, d') | RunThrows \<Rightarrow> (Inr False, d'))"

definition runPetsysProcessThresholdCalibration ::
  "services \<Rightarrow> string \<Rightarrow> string \<Rightarrow> string \<Rightarrow> string \<Rightarrow> bool act" where
  "runPetsysProcessThresholdCalibration sv configFile inputFilePrefix outFileName rootFileName =
     safeRun sv ''runProcessThresholdCalibration''
       [CStr configFile, CStr inputFilePrefix, CStr outFileName, CStr rootFileName]"

definition runPetsysProcessTdcCalibration ::
  "services \<Rightarrow> string \<Rightarrow> string \<Rightarrow> string \<Rightarrow> string \<Rightarrow> bool \<Rightarrow> bool \<Rightarrow> cval \<Rightarrow> bool act" where
  "runPetsysProcessTdcCalibration sv configFileName inputFilePrefix outputFilePrefix tmpFilePrefix
     doSorting keepTemporary nominalM =
     safeRun sv ''runProcessTdcCalibration''
       [CStr configFileName, CStr inputFilePrefix, CStr outputFilePrefix, CStr tmpFilePrefix, CBool doSorting,
        CBool keepTemporary, nominalM]"

definition runPetsysProcessQdcCalibration ::
  "services \<Rightarrow> string \<Rightarrow> string \<Rightarrow> string \<Rightarrow> string \<Rightarrow> bool \<Rightarrow> bool \<Rightarrow> cval \<Rightarrow> bool act" where
  "runPetsysProcessQdcCalibration sv configFileName inputFilePrefix outputFilePrefix tmpFilePrefix
     doSorting keepTemporary nominalM =
     safeRun sv ''runProcessQdcCalibration''
       [CStr configFileName, CStr inputFilePrefix, CStr outputFilePrefix, CStr tmpFilePrefix, CBool doSorting,
        CBool keepTemporary, nominalM]"

definition runPetsysConvertRawToRaw :: "services \<Rightarrow> string \<Rightarrow> string \<Rightarrow> string \<Rightarrow> int \<Rightarrow> bool act" where
  "runPetsysConvertRawToRaw sv configFileName inputFilePrefix outputFileName eventFractionToWrite =
     safeRun sv ''runConvertRawToRaw''
       [CStr configFileName, CStr inputFilePrefix, CStr outputFileName, CLongLong eventFractionToWrite]"

definition runPetsysConvertRawToSingles ::
  "services \<Rightarrow> string \<Rightarrow> string \<Rightarrow> string \<Rightarrow> i32 \<Rightarrow> int \<Rightarrow> cval \<Rightarrow> bool act" where
  "runPetsysConvertRawToSingles sv configFileName inputFilePrefix outputFileName fileType eventFractionToWrite
     fileSplitTime =
     safeRun sv ''runConvertRawToSingles''
       [CStr configFileName, CStr inputFilePrefix, CStr outputFileName, CFileType fileType,
        CLongLong eventFractionToWrite, fileSplitTime]"

section \<open>The commands\<close>

text \<open>\<^verbatim>\<open>argv.size() > i ? argv[i] : dflt\<close>, with the conversions of the call sites.\<close>

definition arg_or :: "i32 list \<Rightarrow> nat \<Rightarrow> i32 \<Rightarrow> i32" where
  "arg_or argv i dflt = (if length argv > i then argv ! i else dflt)"

definition bool_or :: "i32 list \<Rightarrow> nat \<Rightarrow> bool \<Rightarrow> bool" where
  "bool_or argv i dflt = (if length argv > i then argv ! i \<noteq> 0 else dflt)"

definition float_or :: "i32 list \<Rightarrow> nat \<Rightarrow> cval \<Rightarrow> cval" where
  "float_or argv i dflt = (if length argv > i then CFloat (sint (argv ! i)) 0 else dflt)"

definition double_or :: "i32 list \<Rightarrow> nat \<Rightarrow> cval \<Rightarrow> cval" where
  "double_or argv i dflt = (if length argv > i then CDouble (sint (argv ! i)) 0 else dflt)"

definition makePath :: "(config \<Rightarrow> string) \<Rightarrow> string \<Rightarrow> string \<Rightarrow> string \<Rightarrow> string act" where
  "makePath dir prefix timestamp ext d =
     (let (p, fs) = makeFilePathWithTimestamp (dir (cfg d)) prefix timestamp ext (dfs d)
      in (Inr p, d\<lparr>dfs := fs\<rparr>))"

definition latest :: "(config \<Rightarrow> string) \<Rightarrow> string \<Rightarrow> string \<Rightarrow> string act" where
  "latest dir prefix suffix = liftA (\<lambda>d. getLatestTimestamp (dfs d) (dir (cfg d)) prefix suffix)"

definition byTimestamp :: "(config \<Rightarrow> string) \<Rightarrow> string \<Rightarrow> string \<Rightarrow> string act" where
  "byTimestamp dir prefix timestamp = liftA (\<lambda>d. getFileByTimestamp (dfs d) (dir (cfg d)) prefix timestamp [])"

definition link_to :: "string \<Rightarrow> string \<Rightarrow> unit act" where
  "link_to src dst d = (let (r, fs) = copyOrLink src dst True (dfs d) in (r, d\<lparr>dfs := fs\<rparr>))"

definition configFile :: "string act" where
  "configFile = liftA (\<lambda>d. Inr (configFilePath (cfg d)))"

definition setting :: "string \<Rightarrow> string act" where
  "setting key = liftA (\<lambda>d. getString (cfg d) ''main'' key)"

definition cmd_init_system :: "services \<Rightarrow> bool act" where
  "cmd_init_system sv = runPetsysInitSystem sv ''scripts.init_system''"

definition cmd_make_bias_calib_table :: "services \<Rightarrow> i32 list \<Rightarrow> bool act" where
  "cmd_make_bias_calib_table sv argv =
     bindA (setting ''bias_calibration_table'') (\<lambda>out.
       runPetsysMakeBiasCalibrationTable sv ''scripts.make_bias_calibration_table'' out
         [arg_or argv 0 0] [arg_or argv 1 0] [arg_or argv 2 0] [])"

definition cmd_make_simple_bias_set_table :: "services \<Rightarrow> i32 list \<Rightarrow> bool act" where
  "cmd_make_simple_bias_set_table sv argv =
     bindA configFile (\<lambda>cf.
     bindA (setting ''bias_settings_table'') (\<lambda>out.
       runPetsysMakeSimpleBiasSettingsTable sv ''scripts.make_simple_bias_settings_table'' cf
         (float_or argv 0 (CFloat 75 2)) (float_or argv 1 (CFloat 200 1))
         (float_or argv 2 (CFloat 249 1)) (float_or argv 3 (CFloat 50 1)) out))"

definition cmd_make_simple_channel_map :: "services \<Rightarrow> bool act" where
  "cmd_make_simple_channel_map sv =
     bindA (liftA (\<lambda>d. Inr (configDir (cfg d) @ ''/map''))) (\<lambda>out.
       runPetsysMakeSimpleChannelMap sv ''scripts.make_simple_channel_map'' out)"

definition cmd_make_simple_disc_set_table :: "services \<Rightarrow> i32 list \<Rightarrow> bool act" where
  "cmd_make_simple_disc_set_table sv argv =
     bindA configFile (\<lambda>cf.
     bindA (setting ''disc_settings_table'') (\<lambda>out.
       runPetsysMakeSimpleDiscSettingsTable sv ''scripts.make_simple_disc_settings_table'' cf
         (arg_or argv 0 20) (arg_or argv 1 20) (arg_or argv 2 15) out))"

definition cmd_read_temperature_sensors :: "services \<Rightarrow> i32 list \<Rightarrow> bool act" where
  "cmd_read_temperature_sensors sv argv =
     runPetsysReadTemperatureSensors sv ''scripts.read_temperature_sensors''
       (double_or argv 0 (CDouble 0 1)) (double_or argv 1 (CDouble 600 1)) ''/dev/null''
       (bool_or argv 2 True) (bool_or argv 3 False)"

text \<open>The three threshold acquisitions differ in the last argument only.\<close>

definition cmd_acquire_threshold :: "string \<Rightarrow> services \<Rightarrow> i32 list \<Rightarrow> bool act" where
  "cmd_acquire_threshold mode sv argv =
     bindA configFile (\<lambda>cf.
     bindA (makePath getCalibrationDir ''disc_calibration'' (getCurrentTimestamp (clock sv)) []) (\<lambda>out.
       runPetsysAcquireThresholdCalibration sv ''scripts.acquire_threshold_calibration'' cf out
         (arg_or argv 0 4) (arg_or argv 1 4) (bool_or argv 2 False) mode))"

definition cmd_acquire_qdc :: "services \<Rightarrow> bool act" where
  "cmd_acquire_qdc sv =
     bindA configFile (\<lambda>cf.
     bindA (makePath getCalibrationDir ''qdc_calibration'' (getCurrentTimestamp (clock sv)) []) (\<lambda>out.
       runPetsysAcquireQdcCalibration sv ''scripts.acquire_qdc_calibration'' cf out))"

definition cmd_acquire_tdc :: "services \<Rightarrow> bool act" where
  "cmd_acquire_tdc sv =
     bindA configFile (\<lambda>cf.
     bindA (makePath getCalibrationDir ''tdc_calibration'' (getCurrentTimestamp (clock sv)) []) (\<lambda>out.
       runPetsysAcquireTdcCalibration sv ''scripts.acquire_tdc_calibration'' cf out))"

definition cmd_acquire_sipm_data :: "services \<Rightarrow> i32 list \<Rightarrow> bool act" where
  "cmd_acquire_sipm_data sv argv =
     bindA configFile (\<lambda>cf.
     bindA (makePath getSTG0Dir ''run'' (getCurrentTimestamp (clock sv)) []) (\<lambda>out.
       runPetsysAcquireSipmData sv ''scripts.acquire_sipm_data'' cf out
         (double_or argv 0 (CDouble 600 1)) ''qdc'' (bool_or argv 1 False) []))"

definition cmd_process_threshold :: "services \<Rightarrow> bool act" where
  "cmd_process_threshold sv =
     bindA (latest getCalibrationDir ''disc_calibration'' ''_noise.tsv'') (\<lambda>ts.
     bindA configFile (\<lambda>cf.
     bindA (makePath getCalibrationDir ''disc_calibration'' ts []) (\<lambda>inp.
     bindA (makePath getDiscDir ''disc_calibration'' ts ''tsv'') (\<lambda>out.
     bindA (makePath getCalibrationDir ''disc_calibration'' ts ''root'') (\<lambda>root.
     bindA (runPetsysProcessThresholdCalibration sv cf inp out root) (\<lambda>output.
     bindA (byTimestamp getDiscDir ''disc_calibration'' ts) (\<lambda>src.
     bindA (liftA (\<lambda>d. getAbsolutePath (cwd sv) (cfg d) ''main'' ''disc_calibration_table'')) (\<lambda>dst.
     bindA (link_to src dst) (\<lambda>_. returnA output)))))))))"

definition cmd_process_tdc :: "services \<Rightarrow> i32 list \<Rightarrow> bool act" where
  "cmd_process_tdc sv argv =
     bindA (latest getCalibrationDir ''tdc_calibration'' []) (\<lambda>ts.
     bindA configFile (\<lambda>cf.
     bindA (makePath getCalibrationDir ''tdc_calibration'' ts []) (\<lambda>inp.
     bindA (makePath getTDCDir ''tdc_calibration'' ts []) (\<lambda>out.
     bindA (makePath getCalibrationDir ''tdc_calibration'' ts []) (\<lambda>tmp.
     bindA (runPetsysProcessTdcCalibration sv cf inp out tmp
              (bool_or argv 0 True) (bool_or argv 1 False) (float_or argv 2 (CFloat 2000 1))) (\<lambda>output.
     bindA (byTimestamp getTDCDir ''tdc_calibration'' ts) (\<lambda>src.
     bindA (liftA (\<lambda>d. getAbsolutePath (cwd sv) (cfg d) ''main'' ''tdc_calibration_table'')) (\<lambda>dst.
     bindA (link_to src dst) (\<lambda>_. returnA output)))))))))"

definition cmd_process_qdc :: "services \<Rightarrow> i32 list \<Rightarrow> bool act" where
  "cmd_process_qdc sv argv =
     bindA (latest getCalibrationDir ''qdc_calibration'' []) (\<lambda>ts.
     bindA configFile (\<lambda>cf.
     bindA (makePath getCalibrationDir ''qdc_calibration'' ts []) (\<lambda>inp.
     bindA (makePath getQDCDir ''qdc_calibration'' ts []) (\<lambda>out.
     bindA (makePath getCalibrationDir ''qdc_calibration'' ts []) (\<lambda>tmp.
     bindA (runPetsysProcessQdcCalibration sv cf inp out tmp
              (bool_or argv 0 True) (bool_or argv 1 False) (float_or argv 2 (CFloat 2000 1))) (\<lambda>output.
     bindA (byTimestamp getQDCDir ''qdc_calibration'' ts) (\<lambda>src.
     bindA (liftA (\<lambda>d. getAbsolutePath (cwd sv) (cfg d) ''main'' ''qdc_calibration_table'')) (\<lambda>dst.
     bindA (link_to src dst) (\<lambda>_. returnA output)))))))))"

text \<open>As the source has it: the fraction is \<^verbatim>\<open>argv[0]\<close>, but only with two arguments.\<close>

definition cmd_convert_raw_to_raw :: "services \<Rightarrow> i32 list \<Rightarrow> bool act" where
  "cmd_convert_raw_to_raw sv argv =
     bindA (latest getSTG0Dir ''run'' []) (\<lambda>ts.
     bindA configFile (\<lambda>cf.
     bindA (makePath getSTG0Dir ''run'' ts []) (\<lambda>inp.
     bindA (makePath getSTG1Dir ''run'' ts ''stg1.root'') (\<lambda>out.
       runPetsysConvertRawToRaw sv cf inp out (if length argv > 1 then sint (argv ! 0) else 1024)))))"

definition cmd_convert_raw_to_singles :: "services \<Rightarrow> i32 list \<Rightarrow> bool act" where
  "cmd_convert_raw_to_singles sv argv =
     bindA (latest getSTG0Dir ''run'' []) (\<lambda>ts.
     bindA configFile (\<lambda>cf.
     bindA (byTimestamp getSTG0Dir ''run'' ts) (\<lambda>inp.
     bindA (makePath getSTG1Dir ''run'' ts ''root_singles'') (\<lambda>out.
       runPetsysConvertRawToSingles sv cf inp out (arg_or argv 0 2) (sint (arg_or argv 1 1024))
         (double_or argv 2 (CDouble 0 1))))))"

section \<open>Dispatch and the incoming command\<close>

text \<open>Every handler catches whatever is thrown inside and reports failure.\<close>

definition guarded :: "bool act \<Rightarrow> disp \<Rightarrow> bool \<times> disp" where
  "guarded a d = (case a d of (Inl e, d') \<Rightarrow> (False, d') | (Inr b, d') \<Rightarrow> (b, d'))"

fun table :: "services \<Rightarrow> TOFCommandCode \<Rightarrow> (i32 list \<Rightarrow> disp \<Rightarrow> bool \<times> disp) option" where
  "table sv START_DAQ = Some (\<lambda>_. daq_handler sv START_DAQ)"
| "table sv STOP_DAQ = Some (\<lambda>_. daq_handler sv STOP_DAQ)"
| "table sv RESET_DAQ = Some (\<lambda>_. daq_handler sv RESET_DAQ)"
| "table sv RUN_INIT_SYSTEM = Some (\<lambda>_. guarded (cmd_init_system sv))"
| "table sv RUN_MAKE_BIAS_CALIB_TABLE = Some (\<lambda>argv. guarded (cmd_make_bias_calib_table sv argv))"
| "table sv RUN_MAKE_SIMPLE_BIAS_SET_TABLE = Some (\<lambda>argv. guarded (cmd_make_simple_bias_set_table sv argv))"
| "table sv RUN_MAKE_SIMPLE_CHANNEL_MAP = Some (\<lambda>_. guarded (cmd_make_simple_channel_map sv))"
| "table sv RUN_MAKE_SIMPLE_DISC_SET_TABLE = Some (\<lambda>argv. guarded (cmd_make_simple_disc_set_table sv argv))"
| "table sv RUN_READ_TEMPERATURE_SENSORS = Some (\<lambda>argv. guarded (cmd_read_temperature_sensors sv argv))"
| "table sv RUN_ACQUIRE_THRESHOLD_CALIBRATION = Some (\<lambda>argv. guarded (cmd_acquire_threshold ''all'' sv argv))"
| "table sv RUN_ACQUIRE_THRESHOLD_CALIBRATION_BN = Some (\<lambda>argv. guarded (cmd_acquire_threshold ''baseline_noise'' sv argv))"
| "table sv RUN_ACQUIRE_THRESHOLD_CALIBRATION_D = Some (\<lambda>argv. guarded (cmd_acquire_threshold ''dark'' sv argv))"
| "table sv RUN_ACQUIRE_QDC_CALIBRATION = Some (\<lambda>_. guarded (cmd_acquire_qdc sv))"
| "table sv RUN_ACQUIRE_TDC_CALIBRATION = Some (\<lambda>_. guarded (cmd_acquire_tdc sv))"
| "table sv RUN_ACQUIRE_SIPM_DATA = Some (\<lambda>argv. guarded (cmd_acquire_sipm_data sv argv))"
| "table sv RUN_PROCESS_THRESHOLD_CALIBRATION = Some (\<lambda>_. guarded (cmd_process_threshold sv))"
| "table sv RUN_PROCESS_TDC_CALIBRATION = Some (\<lambda>argv. guarded (cmd_process_tdc sv argv))"
| "table sv RUN_PROCESS_QDC_CALIBRATION = Some (\<lambda>argv. guarded (cmd_process_qdc sv argv))"
| "table sv RUN_CONVERT_RAW_TO_RAW = Some (\<lambda>argv. guarded (cmd_convert_raw_to_raw sv argv))"
| "table sv RUN_CONVERT_RAW_TO_SINGLES = Some (\<lambda>argv. guarded (cmd_convert_raw_to_singles sv argv))"
| "table sv HEART_BEAT = Some (\<lambda>_ d. (True, d))"
| "table sv DUMMY_TEST = Some (\<lambda>_ d. (True, d))"
| "table sv _ = None"

definition dispatch :: "services \<Rightarrow> TOFCommandCode \<Rightarrow> i32 list \<Rightarrow> disp \<Rightarrow> bool \<times> disp" where
  "dispatch sv code argv d =
     (case table sv code of Some handler \<Rightarrow> handler argv d | None \<Rightarrow> (False, d))"

definition callback_packet :: "TOFCommandCode \<Rightarrow> Packet" where
  "callback_packet code =
     (let args = [ucast (tof_value code)]
      in \<lparr>pkt_code = TOF_Callback, pkt_argc = of_nat (length args), pkt_argv = args\<rparr>)"

definition handleIncomingCommand ::
  "services \<Rightarrow> send_result list \<Rightarrow> hub \<Rightarrow> Packet \<Rightarrow> disp \<Rightarrow> (bool \<times> u8 list) option \<times> disp" where
  "handleIncomingCommand sv sends event_hub pkt d =
     (let code = toTOFCommand (pkt_code pkt);
          (ok, d') = dispatch sv code (pkt_argv pkt) d
      in (sendPacket sends (callback_packet code) event_hub, d'))"

section \<open>At most one call per command\<close>

fun call_ok :: "services \<Rightarrow> call \<Rightarrow> fsys \<Rightarrow> bool" where
  "call_ok sv (PyCall m f args) fs \<longleftrightarrow> fst (py_run sv m f args fs) = PyReturns True"
| "call_ok sv (AnalysisCall f args) fs \<longleftrightarrow> fst (analysis_run sv f args fs) = RunReturns True"

definition silent :: "'a act \<Rightarrow> bool" where
  "silent a \<longleftrightarrow> (\<forall>d. calls (snd (a d)) = calls d)"

definition one_call :: "services \<Rightarrow> disp \<Rightarrow> (string + bool) \<times> disp \<Rightarrow> bool" where
  "one_call sv d res \<longleftrightarrow>
     (\<exists>cs. calls (snd res) = calls d @ cs \<and> length cs \<le> 1) \<and>
     (fst res = Inr True \<longrightarrow> (\<exists>c fs. calls (snd res) = calls d @ [c] \<and> call_ok sv c fs))"

definition reports :: "services \<Rightarrow> bool act \<Rightarrow> bool" where
  "reports sv a \<longleftrightarrow> (\<forall>d. one_call sv d (a d))"

definition keeps :: "'a \<Rightarrow> 'a act \<Rightarrow> bool" where
  "keeps x a \<longleftrightarrow> silent a \<and> (\<forall>d y. fst (a d) = Inr y \<longrightarrow> y = x)"

named_theorems act_rules "how the combinators propagate calls"

lemma silent_basic [act_rules]: "silent (liftA f)" "silent (makePath dir p t e)" "silent (link_to s t)"
  by (simp_all add: silent_def liftA_def makePath_def link_to_def split: prod.split)

lemma silent_more [act_rules]: "silent configFile" "silent (setting k)" "silent (latest dir p s)" "silent (byTimestamp dir p t)"
  by (simp_all add: configFile_def setting_def latest_def byTimestamp_def act_rules)

lemma reports_bind [act_rules]:
  assumes "silent a" and "\<And>x. reports sv (f x)"
  shows "reports sv (bindA a f)"
  unfolding reports_def
proof
  fix d
  obtain r d1 where a: "a d = (r, d1)" by fastforce
  with assms(1) have d1: "calls d1 = calls d" by (metis silent_def snd_conv)
  show "one_call sv d (bindA a f d)"
  proof (cases r)
    case (Inl e)
    with a d1 show ?thesis by (simp add: bindA_def one_call_def)
  next
    case (Inr x)
    with a have "bindA a f d = f x d1" by (simp add: bindA_def)
    moreover have "one_call sv d1 (f x d1)" using assms(2) by (simp add: reports_def)
    ultimately show ?thesis using d1 by (simp add: one_call_def)
  qed
qed

lemma keeps_bind [act_rules]: "silent a \<Longrightarrow> (\<And>x. keeps y (f x)) \<Longrightarrow> keeps y (bindA a f)"
  unfolding keeps_def silent_def bindA_def
  by (auto split: prod.splits sum.splits) (metis snd_conv)+

lemma keeps_return [act_rules]: "keeps x (returnA x)"
  by (simp add: keeps_def silent_def returnA_def)

lemma reports_then [act_rules]:
  assumes "reports sv a" and "\<And>x. keeps x (f x)"
  shows "reports sv (bindA a f)"
  unfolding reports_def
proof
  fix d
  obtain r d1 where a: "a d = (r, d1)" by fastforce
  with assms(1) have one: "one_call sv d (r, d1)" by (metis reports_def)
  show "one_call sv d (bindA a f d)"
  proof (cases r)
    case (Inl e)
    with a one show ?thesis by (simp add: bindA_def one_call_def)
  next
    case (Inr x)
    have b: "bindA a f d = f x d1" using a Inr by (simp add: bindA_def)
    have "calls (snd (f x d1)) = calls d1" using assms(2) [of x] by (simp add: keeps_def silent_def)
    moreover have "fst (f x d1) = Inr True \<longrightarrow> x" using assms(2) [of x] by (auto simp: keeps_def)
    ultimately show ?thesis using one b Inr by (auto simp: one_call_def)
  qed
qed

lemma reports_calls [act_rules]: "reports sv (runPythonFunction sv m f args)" "reports sv (safeRun sv g args)"
proof -
  have "(fst (runPythonFunction sv m f args d) = Inr True \<longrightarrow> call_ok sv (PyCall m f args) (dfs d)) \<and>
      calls (snd (runPythonFunction sv m f args d)) = calls d @ [PyCall m f args]" for d
    by (auto simp: runPythonFunction_def Let_def split: prod.splits py_outcome.splits)
  then show "reports sv (runPythonFunction sv m f args)" by (fastforce simp: reports_def one_call_def)
  have "(fst (safeRun sv g args d) = Inr True \<longrightarrow> call_ok sv (AnalysisCall g args) (dfs d)) \<and>
      calls (snd (safeRun sv g args d)) = calls d @ [AnalysisCall g args]" for d
    by (auto simp: safeRun_def Let_def split: prod.splits run_outcome.splits)
  then show "reports sv (safeRun sv g args)" by (fastforce simp: reports_def one_call_def)
qed

lemmas call_defs = runPetsysInitSystem_def runPetsysMakeBiasCalibrationTable_def
  runPetsysMakeSimpleBiasSettingsTable_def runPetsysMakeSimpleChannelMap_def
  runPetsysMakeSimpleDiscSettingsTable_def runPetsysReadTemperatureSensors_def
  runPetsysAcquireThresholdCalibration_def runPetsysAcquireQdcCalibration_def
  runPetsysAcquireTdcCalibration_def runPetsysAcquireSipmData_def
  runPetsysProcessThresholdCalibration_def runPetsysProcessTdcCalibration_def
  runPetsysProcessQdcCalibration_def runPetsysConvertRawToRaw_def runPetsysConvertRawToSingles_def

lemmas cmd_defs = cmd_init_system_def cmd_make_bias_calib_table_def cmd_make_simple_bias_set_table_def
  cmd_make_simple_channel_map_def cmd_make_simple_disc_set_table_def cmd_read_temperature_sensors_def
  cmd_acquire_threshold_def cmd_acquire_qdc_def cmd_acquire_tdc_def cmd_acquire_sipm_data_def
  cmd_process_threshold_def cmd_process_tdc_def cmd_process_qdc_def cmd_convert_raw_to_raw_def
  cmd_convert_raw_to_singles_def

lemma cmds_report [act_rules]:
  "reports sv (cmd_init_system sv)" "reports sv (cmd_make_bias_calib_table sv argv)"
  "reports sv (cmd_make_simple_bias_set_table sv argv)" "reports sv (cmd_make_simple_channel_map sv)"
  "reports sv (cmd_make_simple_disc_set_table sv argv)" "reports sv (cmd_read_temperature_sensors sv argv)"
  "reports sv (cmd_acquire_threshold mode sv argv)" "reports sv (cmd_acquire_qdc sv)"
  "reports sv (cmd_acquire_tdc sv)" "reports sv (cmd_acquire_sipm_data sv argv)"
  "reports sv (cmd_process_threshold sv)" "reports sv (cmd_process_tdc sv argv)"
  "reports sv (cmd_process_qdc sv argv)" "reports sv (cmd_convert_raw_to_raw sv argv)"
  "reports sv (cmd_convert_raw_to_singles sv argv)"
  unfolding cmd_defs call_defs by (intro act_rules)+

text \<open>Commands that run a script or an analysis.\<close>

definition is_service_command :: "TOFCommandCode \<Rightarrow> bool" where
  "is_service_command code \<longleftrightarrow> code \<notin> {START_DAQ, STOP_DAQ, RESET_DAQ, HEART_BEAT, DUMMY_TEST, ACK, CALLBACK, STATUS, UNKNOWN}"

lemma guarded_reports:
  assumes "reports sv a" and "guarded a d = (r, d')"
  shows "(\<exists>cs. calls d' = calls d @ cs \<and> length cs \<le> 1) \<and>
    (r \<longrightarrow> (\<exists>c fs. calls d' = calls d @ [c] \<and> call_ok sv c fs))"
proof -
  obtain res d1 where a: "a d = (res, d1)" by fastforce
  with assms(1) have "one_call sv d (res, d1)" by (metis reports_def)
  with assms(2) a show ?thesis by (cases res) (auto simp: guarded_def one_call_def)
qed

lemma bindA_InrE:
  assumes "bindA m f d = (Inr y, d2)"
  obtains x d1 where "m d = (Inr x, d1)" and "f x d1 = (Inr y, d2)"
  using assms by (auto simp: bindA_def split: prod.splits sum.splits)

lemma makePath_InrE:
  assumes "makePath dir p t e d = (Inr x, d1)"
  obtains fs where "d1 = d\<lparr>dfs := fs\<rparr>" and "x = fst (makeFilePathWithTimestamp (dir (cfg d)) p t e (dfs d))"
  using assms by (auto simp: makePath_def split: prod.splits)

lemma table_reports:
  assumes "is_service_command code"
  obtains a where "table sv code = Some (\<lambda>argv. guarded (a argv))" and "\<And>argv. reports sv (a argv)"
  using assms that cmds_report
  by (cases code) (auto simp: is_service_command_def)

section \<open>Correctness of the dispatch\<close>


definition quiet_services :: services where
  "quiet_services = \<lparr>py_run = (\<lambda>_ _ _ fs. (PyReturns True, fs)), analysis_run = (\<lambda>_ _ fs. (RunThrows, fs)),
     clock = t_5ms, cwd = ''/'', daq_handler = (\<lambda>_ d. (False, d))\<rparr>"

definition disp_example :: disp where
  "disp_example = \<lparr>cfg = \<lparr>cfg_data = Map.empty, configDir = ''/c'', configFilePath = ''/c/config.ini'',
     tofdataDir = ''/d'', loaded = True\<rparr>, dfs = [], calls = []\<rparr>"



definition tdc_services :: services where
  "tdc_services = \<lparr>py_run = (\<lambda>_ _ _ fs. (PyReturns True, fs)),
     analysis_run = (\<lambda>_ _ fs. (RunReturns True, fs @ [(''/d/tdc/tdc_calibration_2025-11-18_21-42-07.5Z.tsv'', Regular)])),
     clock = t_5ms, cwd = ''/'', daq_handler = (\<lambda>_ d. (False, d))\<rparr>"

definition tdc_disp :: disp where
  "tdc_disp = \<lparr>cfg = \<lparr>cfg_data = [''main'' \<mapsto> [''tdc_calibration_table'' \<mapsto> ''/t'']], configDir = ''/c'',
     configFilePath = ''/c/config.ini'', tofdataDir = ''/d'', loaded = True\<rparr>,
     dfs = [(''/d/calibration'', Directory), (''/d/calibration/tdc_calibration_2025-11-18_21-42-07.5Z.rawf'', Regular),
            (''/d/tdc'', Directory)],
     calls = []\<rparr>"

lemma tdc_run: "fst (dispatch tdc_services RUN_PROCESS_TDC_CALIBRATION [] tdc_disp)"
  by code_simp


text \<open>
  Every incoming packet is answered: on an open connection that takes the bytes the event
  client sends exactly one packet, it parses, and it is the callback with the TOF code of the
  command as its argument (0 for a code that is not a TOF command), the same whether the command
  succeeded, failed or was unknown.
\<close>

theorem every_command_is_answered:
  assumes "hubConnection h = Some c" and "cl_fd c > 2" and "map_find (client_fds (sys h)) (cl_fd c) = Some (cl_fd c)"
  shows "\<exists>bytes. fst (handleIncomingCommand sv [Sent 18] h pkt d) = Some (True, bytes) \<and>
    parse bytes = Some (Some \<lparr>pkt_code = TOF_Callback, pkt_argc = 1,
      pkt_argv = [ucast (tof_value (toTOFCommand (pkt_code pkt)))]\<rparr>)"
proof -
  let ?p = "callback_packet (toTOFCommand (pkt_code pkt))"
  let ?f = "frame_bytes ?p (packet_crc ?p)"
  have p: "?p = \<lparr>pkt_code = TOF_Callback, pkt_argc = 1, pkt_argv = [ucast (tof_value (toTOFCommand (pkt_code pkt)))]\<rparr>"
    by (simp add: callback_packet_def)
  have wf: "wf_packet ?p" by (simp add: p wf_packet_def MAX_ARGC_def)
  have len: "length ?f = 18" by (simp add: p)
  have ne: "?f \<noteq> []" using frame_bytes_nonempty [of ?p "packet_crc ?p" "[]"] by simp
  have "send_loop [Sent 18] ?f 0 = Some (18, ?f)"
    using len by (simp add: send_loop_cases)
  then have "sendPacket [Sent 18] ?p h = Some (True, ?f)"
    using assms ne by (simp add: sendPacket_def serialize_wf [OF wf] Client_sendData_def sendToClient_def SafeFD_sendData_def)
  moreover have "parse ?f = Some (Some ?p)"
    using parse_frame_bytes [OF wf, of "packet_crc ?p" "[]"] by simp
  ultimately show ?thesis
    by (simp add: handleIncomingCommand_def p Let_def split: prod.split)
qed

theorem every_command_is_answered_witness:
  "\<exists>bytes. fst (handleIncomingCommand quiet_services [Sent 18]
      \<lparr>sys = fds_init\<lparr>client_fds := [(3, 3)]\<rparr>, hubConnection = Some \<lparr>cl_fd = 3, readBuffer = []\<rparr>, running = True\<rparr>
      \<lparr>pkt_code = 0x1234, pkt_argc = 0, pkt_argv = []\<rparr> disp_example) = Some (True, bytes) \<and> length bytes > 0"
proof -
  let ?h = "\<lparr>sys = fds_init\<lparr>client_fds := [(3, 3)]\<rparr>, hubConnection = Some \<lparr>cl_fd = 3, readBuffer = []\<rparr>, running = True\<rparr>"
  let ?pkt = "\<lparr>pkt_code = 0x1234, pkt_argc = 0, pkt_argv = []\<rparr>"
  have "\<exists>bytes. fst (handleIncomingCommand quiet_services [Sent 18] ?h ?pkt disp_example) = Some (True, bytes) \<and>
    parse bytes = Some (Some \<lparr>pkt_code = TOF_Callback, pkt_argc = 1, pkt_argv = [ucast (tof_value (toTOFCommand (pkt_code ?pkt)))]\<rparr>)"
    by (rule every_command_is_answered [of ?h "\<lparr>cl_fd = 3, readBuffer = []\<rparr>"]) (simp_all add: map_find_def)
  then show ?thesis using parse_short [of "[]"] by (metis length_greater_0_conv list.size(3) option.distinct(1) option.inject zero_less_numeral)
qed

end
