(* ===== verification/RawFrame.thy ===== *)
theory RawFrame
  imports Prelude
begin

text \<open>
  The words of the acquisition: events (\<^verbatim>\<open>external/rawdata/include/event_decode.h\<close>) and data
  frames (\<^verbatim>\<open>external/rawdata/include/shm_raw.h\<close>). A frame is the list of its
  \<open>MaxRawDataFrameSize\<close> words: the first holds the frame number and the size, the second the
  number of events and the lost flag. \<^verbatim>\<open>unsigned\<close> is a word of 32 bits, \<^verbatim>\<open>uint64_t\<close>
  of 64.
\<close>

section \<open>Events\<close>

definition getEFine :: "u64 \<Rightarrow> u32" where
  "getEFine w = (let v = (ucast (w mod 1024) :: u32) in (v + 27) mod 1024)"

definition getTFine :: "u64 \<Rightarrow> u32" where
  "getTFine w = (let v = (ucast (drop_bit 10 w mod 1024) :: u32) in (v + 27) mod 1024)"

definition getECoarse :: "u64 \<Rightarrow> u32" where
  "getECoarse w = ucast (drop_bit 20 w mod 1024)"

definition getTCoarse :: "u64 \<Rightarrow> u32" where
  "getTCoarse w = ucast (drop_bit 30 w mod 1024)"

definition getTacID :: "u64 \<Rightarrow> u32" where
  "getTacID w = ucast (drop_bit 40 w mod 4)"

definition getChannelID :: "u64 \<Rightarrow> u32" where
  "getChannelID w = ucast (drop_bit 42 w)"

section \<open>Frames\<close>

definition MaxRawDataFrameSize :: nat where "MaxRawDataFrameSize = 8196"
definition MaxRawDataFrameQueueSize :: nat where "MaxRawDataFrameQueueSize = 16 * 1024"

type_synonym frame = "u64 list"

definition getFrameSize :: "frame \<Rightarrow> u32" where
  "getFrameSize f = ucast (drop_bit 36 (f ! 0) AND 0x7FFF)"

definition getFrameID :: "frame \<Rightarrow> u64" where
  "getFrameID f = f ! 0 AND 0xFFFFFFFFF"

definition getFrameLost :: "frame \<Rightarrow> bool" where
  "getFrameLost f = (f ! 1 AND 0x18000 \<noteq> 0)"

definition getNEvents :: "frame \<Rightarrow> int" where
  "getNEvents f = uint (f ! 1 AND 0x7FFF)"

text \<open>The event accessors of a frame; \<open>None\<close> past its last word.\<close>

definition frame_event :: "(u64 \<Rightarrow> u32) \<Rightarrow> frame \<Rightarrow> nat \<Rightarrow> u32 option" where
  "frame_event field f event = map_option field (at f (event + 2))"

text \<open>\<open>FrameServer::parseDataFrame\<close>: the size must be that of the announced events.\<close>

definition parseDataFrame :: "frame \<Rightarrow> bool" where
  "parseDataFrame f =
     (let frameSize = drop_bit 36 (f ! 0) AND 0x7FFF; nEvents = f ! 1 AND 0xFFFF
      in \<not> frameSize \<noteq> 2 + nEvents)"

section \<open>Bits and numbers\<close>

lemma mod_1024_u64: "(w :: u64) mod 1024 = take_bit 10 w"
  by (simp add: take_bit_eq_mod)

lemma mod_4_u64: "(w :: u64) mod 4 = take_bit 2 w"
  by (simp add: take_bit_eq_mod)

lemma fine_inject:
  assumes "(a + 27) mod 1024 = (b + 27) mod (1024 :: u32)" and "unat a < 1024" and "unat b < 1024"
  shows "a = b"
proof -
  have sum: "unat (x + 27) = unat x + 27" if "unat x < 1024" for x :: u32
    using that by (subst unat_add_lem [THEN iffD1]) simp_all
  have "unat ((a + 27) mod 1024) = unat ((b + 27) mod 1024)" using assms(1) by simp
  then have "(unat a + 27) mod 1024 = (unat b + 27) mod 1024"
    using sum [OF assms(2)] sum [OF assms(3)] by (simp add: unat_mod)
  then have "unat a = unat b" using assms(2,3) by (auto simp: mod_if split: if_splits)
  then show "a = b" by (rule word_unat_eq_iff [THEN iffD2])
qed

lemma coarse_bits:
  assumes "(ucast (drop_bit j w mod 1024) :: u32) = ucast (drop_bit j w' mod 1024)" and "j \<le> n" and "n < j + 10"
  shows "bit (w :: u64) n = bit (w' :: u64) n"
proof -
  have "bit (ucast (take_bit 10 (drop_bit j w)) :: u32) (n - j) = bit (ucast (take_bit 10 (drop_bit j w')) :: u32) (n - j)"
    using assms(1) by (simp add: mod_1024_u64)
  moreover have "n - j < 10" "n - j < 32" using assms(2,3) by auto
  ultimately show ?thesis using assms(2) by (simp add: bit_simps)
qed

lemma fine_lt: "unat (ucast (x mod 1024 :: u64) :: u32) < 1024"
proof -
  have "unat (x mod 1024) < 1024" by (simp add: unat_mod)
  then show ?thesis by (simp add: unsigned_ucast_eq take_bit_nat_eq_self)
qed

lemma fine_bits:
  assumes "(ucast (drop_bit j w mod 1024) + 27) mod 1024 = (ucast (drop_bit j w' mod 1024) + 27) mod (1024 :: u32)"
    and "j \<le> n" and "n < j + 10"
  shows "bit (w :: u64) n = bit (w' :: u64) n"
  using fine_inject [OF assms(1) fine_lt fine_lt] assms(2,3) by (rule coarse_bits)

section \<open>Decoding loses nothing\<close>

text \<open>
  The six accessors of an event word between them determine it: two words with the same
  channel, TAC, coarse and fine values are the same word (the rotation of the fine counters by 27
  is a bijection, and no field overlaps or skips a bit).
\<close>

theorem event_fields_determine_word:
  assumes "getEFine w = getEFine w'" and "getTFine w = getTFine w'" and "getECoarse w = getECoarse w'"
    and "getTCoarse w = getTCoarse w'" and "getTacID w = getTacID w'" and "getChannelID w = getChannelID w'"
  shows "w = w'"
proof (rule bit_word_eqI)
  fix n assume n: "n < LENGTH(64)"
  have tac: "bit w n = bit w' n" if "40 \<le> n" "n < 42"
  proof -
    have "bit (ucast (take_bit 2 (drop_bit 40 w)) :: u32) (n - 40) = bit (ucast (take_bit 2 (drop_bit 40 w')) :: u32) (n - 40)"
      using assms(5) by (simp add: getTacID_def mod_4_u64)
    moreover have "n - 40 < 2" "n - 40 < 32" using that by auto
    ultimately show ?thesis using that by (simp add: bit_simps)
  qed
  have chan: "bit w n = bit w' n" if "42 \<le> n"
  proof -
    have "bit (ucast (drop_bit 42 w) :: u32) (n - 42) = bit (ucast (drop_bit 42 w') :: u32) (n - 42)"
      using assms(6) by (simp add: getChannelID_def)
    moreover have "n - 42 < 32" using n by auto
    ultimately show ?thesis using that by (simp add: bit_simps)
  qed
  consider "n < 10" | "10 \<le> n" "n < 20" | "20 \<le> n" "n < 30" | "30 \<le> n" "n < 40" | "40 \<le> n" "n < 42" | "42 \<le> n"
    by linarith
  then show "bit w n = bit w' n"
  proof cases
    case 1
    then show ?thesis using assms(1) fine_bits [of 0 w w' n] by (simp add: getEFine_def Let_def)
  next
    case 2
    then show ?thesis using assms(2) fine_bits [of 10 w w' n] by (simp add: getTFine_def Let_def)
  next
    case 3
    then show ?thesis using assms(3) coarse_bits [of 20 w w' n] by (simp add: getECoarse_def)
  next
    case 4
    then show ?thesis using assms(4) coarse_bits [of 30 w w' n] by (simp add: getTCoarse_def)
  qed (use tac chan in simp_all)
qed

theorem event_fields_determine_word_witness:
  "getChannelID 0x1BA2F300C01 = 0 \<and> getTacID 0x1BA2F300C01 = 1 \<and> push_bit 1 (0xDD179806 :: u64) * 0x100 + 1 = 0x1BA2F300C01"
proof -
  have "push_bit 1 (0xDD179806 :: u64) * 0x100 + 1 = 0x1BA2F300C01"
    by (rule event_fields_determine_word) (simp_all add: getEFine_def getTFine_def getECoarse_def getTCoarse_def
        getTacID_def getChannelID_def)
  then show ?thesis by (simp add: getChannelID_def getTacID_def)
qed

end
