(* ===== verification/FrameServer.thy ===== *)
theory FrameServer
  imports RawFrame
begin

text \<open>
  \<open>FrameServer\<close> (\<^verbatim>\<open>external/daqd/src/FrameServer.cpp\<close>): the ring of frames in shared memory
  with its write and read pointers, and the switches of the acquisition.

  The pointers run modulo twice the number of slots, so a full ring and an empty one differ. Each
  operation is a section under the server's mutex. The interface \<open>bounded_queue\<close> states what the
  producer (the worker thread) and the consumer (a client that moves the read pointer) rely on; it
  is interpreted on the ring.
\<close>

section \<open>State and operations\<close>

record fserver =
  shm :: "nat \<Rightarrow> frame"
  dataFrameWritePointer :: nat
  dataFrameReadPointer :: nat
  die :: bool
  hasWorker :: bool
  acquisitionMode :: int
  minimumFrameID :: u64
  idleTimeMode :: u32

abbreviation QSize :: nat where "QSize \<equiv> MaxRawDataFrameQueueSize"

definition isFull :: "nat \<Rightarrow> nat \<Rightarrow> bool" where
  "isFull writePointer readPointer \<longleftrightarrow>
     writePointer \<noteq> readPointer \<and> writePointer mod QSize = readPointer mod QSize"

text \<open>The constructor leaves \<open>idleTimeMode\<close> as it is, at the value \<open>idle\<close>.\<close>

definition fserver_new :: "(nat \<Rightarrow> frame) \<Rightarrow> u32 \<Rightarrow> fserver" where
  "fserver_new mem idle = \<lparr>shm = mem, dataFrameWritePointer = 0, dataFrameReadPointer = 0, die = True, hasWorker = False,
     acquisitionMode = 0, minimumFrameID = 0, idleTimeMode = idle\<rparr>"

definition startWorker :: "fserver \<Rightarrow> fserver" where
  "startWorker s = (if hasWorker s then s else s\<lparr>die := False, hasWorker := True\<rparr>)"

text \<open>The join inside ends because the worker sees \<open>die\<close>.\<close>

definition stopWorker :: "fserver \<Rightarrow> fserver" where
  "stopWorker s = (if \<not> hasWorker s then s else s\<lparr>die := True, hasWorker := False\<rparr>)"

definition startAcquisition :: "int \<Rightarrow> fserver \<Rightarrow> fserver" where
  "startAcquisition mode s =
     (let s1 = s\<lparr>acquisitionMode := 0, dataFrameWritePointer := 0, dataFrameReadPointer := 0\<rparr>;
          s2 = stopWorker s1;
          s3 = s2\<lparr>dataFrameWritePointer := 0, dataFrameReadPointer := 0, acquisitionMode := mode, minimumFrameID := 0\<rparr>
      in startWorker s3)"

definition stopAcquisition :: "fserver \<Rightarrow> fserver" where
  "stopAcquisition s =
     stopWorker (s\<lparr>acquisitionMode := 0, dataFrameWritePointer := 0, dataFrameReadPointer := 0\<rparr>)"

definition amAcquiring :: "fserver \<Rightarrow> bool" where "amAcquiring s = hasWorker s"

definition getDataFrameWritePointer :: "fserver \<Rightarrow> nat" where
  "getDataFrameWritePointer s = dataFrameWritePointer s mod (2 * QSize)"

definition getDataFrameReadPointer :: "fserver \<Rightarrow> nat" where
  "getDataFrameReadPointer s = dataFrameReadPointer s mod (2 * QSize)"

definition setDataFrameReadPointer :: "nat \<Rightarrow> fserver \<Rightarrow> fserver" where
  "setDataFrameReadPointer ptr s = s\<lparr>dataFrameReadPointer := ptr mod (2 * QSize)\<rparr>"

definition setIdleTimeCalculation :: "u32 \<Rightarrow> fserver \<Rightarrow> int \<times> fserver" where
  "setIdleTimeCalculation mode s = (0, s\<lparr>idleTimeMode := mode\<rparr>)"

definition setMinimumFrameID :: "u64 \<Rightarrow> fserver \<Rightarrow> int \<times> fserver" where
  "setMinimumFrameID frameID s = (0, s\<lparr>minimumFrameID := frameID\<rparr>)"

text \<open>The defaults of the base class for features only some cards have.\<close>

definition setSorter :: "u32 \<Rightarrow> int" where "setSorter mode = -1"
definition setCoincidenceTrigger :: "u8 list \<Rightarrow> int" where "setCoincidenceTrigger cfg = -1"
definition setGateEnable :: "u32 \<Rightarrow> int" where "setGateEnable mode = -1"

text \<open>
  What a worker does with a frame (both \<open>doWork\<close> functions): the slot the write pointer selects, if
  the ring is not full, is filled, and then the pointer moves.
\<close>

definition write_slot :: "fserver \<Rightarrow> nat option" where
  "write_slot s =
     (if \<not> isFull (dataFrameWritePointer s) (dataFrameReadPointer s)
      then Some (dataFrameWritePointer s mod QSize) else None)"

definition fill_slot :: "nat \<Rightarrow> frame \<Rightarrow> fserver \<Rightarrow> fserver" where
  "fill_slot i f s = s\<lparr>shm := (shm s)(i := f)\<rparr>"

definition advance_write :: "fserver \<Rightarrow> fserver" where
  "advance_write s = s\<lparr>dataFrameWritePointer := (dataFrameWritePointer s + 1) mod (2 * QSize)\<rparr>"

definition push_frame :: "frame \<Rightarrow> fserver \<Rightarrow> fserver" where
  "push_frame f s =
     (case write_slot s of None \<Rightarrow> s | Some i \<Rightarrow> advance_write (fill_slot i f s))"

text \<open>The consumer's side of the protocol: read the slot, then move the pointer on by one.\<close>

definition pop_frame :: "fserver \<Rightarrow> fserver" where
  "pop_frame s =
     (if getDataFrameReadPointer s = getDataFrameWritePointer s then s
      else setDataFrameReadPointer (getDataFrameReadPointer s + 1) s)"

section \<open>Bounded queues\<close>

locale bounded_queue =
  fixes contents :: "'s \<Rightarrow> 'x list"
    and push :: "'x \<Rightarrow> 's \<Rightarrow> 's"
    and pop :: "'s \<Rightarrow> 's"
    and ok :: "'s \<Rightarrow> bool"
    and capacity :: nat
  assumes bounded: "ok s \<Longrightarrow> length (contents s) \<le> capacity"
    and push_ok: "ok s \<Longrightarrow> ok (push x s)"
    and pop_ok: "ok s \<Longrightarrow> ok (pop s)"
    and contents_push: "ok s \<Longrightarrow>
      contents (push x s) = (if length (contents s) < capacity then contents s @ [x] else contents s)"
    and contents_pop: "ok s \<Longrightarrow> contents (pop s) = tl (contents s)"
begin

definition impl_step :: "'x option \<Rightarrow> 's \<Rightarrow> 's" where
  "impl_step e s = (case e of Some x \<Rightarrow> push x s | None \<Rightarrow> pop s)"

definition spec_step :: "'x option \<Rightarrow> 'x list \<Rightarrow> 'x list" where
  "spec_step e q = (case e of Some x \<Rightarrow> if length q < capacity then q @ [x] else q | None \<Rightarrow> tl q)"

lemma refines:
  "ok s \<Longrightarrow> ok (fold impl_step es s) \<and> contents (fold impl_step es s) = fold spec_step es (contents s)"
  by (induction es arbitrary: s)
    (simp_all add: impl_step_def spec_step_def push_ok pop_ok contents_push contents_pop split: option.split)

lemma pushes_fit:
  "ok s \<Longrightarrow> length (contents s) + length xs \<le> capacity \<Longrightarrow>
    ok (fold push xs s) \<and> contents (fold push xs s) = contents s @ xs"
  by (induction xs arbitrary: s) (simp_all add: push_ok contents_push)

end

section \<open>The ring is a bounded queue\<close>

lemma QSize_pos: "0 < QSize" by (simp add: MaxRawDataFrameQueueSize_def)

text \<open>How many frames are between the pointers.\<close>

definition ring_count :: "fserver \<Rightarrow> nat" where
  "ring_count s = (dataFrameWritePointer s + 2 * QSize - dataFrameReadPointer s) mod (2 * QSize)"

definition ring_ok :: "fserver \<Rightarrow> bool" where
  "ring_ok s \<longleftrightarrow> dataFrameWritePointer s < 2 * QSize \<and> dataFrameReadPointer s < 2 * QSize \<and> ring_count s \<le> QSize"

definition ring_contents :: "fserver \<Rightarrow> frame list" where
  "ring_contents s = map (\<lambda>i. shm s ((dataFrameReadPointer s + i) mod QSize)) [0..<ring_count s]"

lemma ring_count_cases:
  assumes "w < 2 * QSize" and "r < 2 * QSize"
  shows "(w + 2 * QSize - r) mod (2 * QSize) = (if r \<le> w then w - r else w + 2 * QSize - r)"
  using assms by (auto simp: mod_if)

lemma mod_QSize: "x < 2 * QSize \<Longrightarrow> x mod QSize = (if x < QSize then x else x - QSize)"
  by (auto simp: mod_if)

lemma isFull_iff:
  assumes "ring_ok s"
  shows "isFull (dataFrameWritePointer s) (dataFrameReadPointer s) \<longleftrightarrow> ring_count s = QSize"
  using assms QSize_pos
  by (auto simp: isFull_def ring_ok_def ring_count_def ring_count_cases mod_QSize split: if_splits)

lemma write_pointer_mod:
  assumes "ring_ok s"
  shows "dataFrameWritePointer s mod QSize = (dataFrameReadPointer s + ring_count s) mod QSize"
proof -
  have "dataFrameReadPointer s + ring_count s = dataFrameWritePointer s \<or>
      dataFrameReadPointer s + ring_count s = dataFrameWritePointer s + 2 * QSize"
    using assms by (auto simp: ring_ok_def ring_count_def ring_count_cases)
  then show ?thesis by auto
qed

lemma slot_free:
  assumes "k < c" and "c < QSize"
  shows "(r + k) mod QSize \<noteq> (r + c) mod QSize"
proof
  assume "(r + k) mod QSize = (r + c) mod QSize"
  then have "QSize dvd (r + c) - (r + k)"
    using assms(1) by (subst mod_eq_dvd_iff_nat [symmetric]) auto
  then have "QSize dvd c - k" by simp
  with assms show False using dvd_imp_le [of QSize "c - k"] by auto
qed

lemma push_frame_ok:
  assumes "ring_ok s"
  shows "ring_ok (push_frame f s) \<and>
    ring_contents (push_frame f s) =
      (if length (ring_contents s) < QSize then ring_contents s @ [f] else ring_contents s)"
proof (cases "ring_count s = QSize")
  case True
  then show ?thesis
    using assms by (simp add: push_frame_def write_slot_def isFull_iff ring_contents_def)
next
  case False
  then have lt: "ring_count s < QSize" using assms by (simp add: ring_ok_def)
  let ?w = "dataFrameWritePointer s" and ?r = "dataFrameReadPointer s" and ?c = "ring_count s"
  let ?s = "push_frame f s"
  have s: "?s = s\<lparr>shm := (shm s)(?w mod QSize := f), dataFrameWritePointer := (?w + 1) mod (2 * QSize)\<rparr>"
    using False assms by (simp add: push_frame_def write_slot_def isFull_iff advance_write_def fill_slot_def)
  have ptrs: "?w < 2 * QSize" "?r < 2 * QSize" using assms by (simp_all add: ring_ok_def)
  have count: "ring_count ?s = Suc ?c"
    using lt ptrs unfolding s ring_count_def
    by (simp add: ring_count_cases) (auto simp: mod_if ring_count_cases split: if_splits)
  have "map (\<lambda>i. shm ?s ((?r + i) mod QSize)) [0..<?c] = ring_contents s"
    unfolding ring_contents_def s
    using slot_free [of _ ?c ?r] lt write_pointer_mod [OF assms] by auto
  moreover have "shm ?s ((?r + ?c) mod QSize) = f"
    unfolding s using write_pointer_mod [OF assms] by simp
  ultimately have "ring_contents ?s = ring_contents s @ [f]"
    unfolding ring_contents_def [of ?s] count by (simp add: s)
  moreover have "ring_ok ?s"
    using lt ptrs count QSize_pos by (simp add: ring_ok_def) (simp add: s)
  ultimately show ?thesis using lt by (simp add: ring_contents_def)
qed

lemma pop_frame_ok:
  assumes "ring_ok s"
  shows "ring_ok (pop_frame s) \<and> ring_contents (pop_frame s) = tl (ring_contents s)"
proof -
  let ?w = "dataFrameWritePointer s" and ?r = "dataFrameReadPointer s" and ?c = "ring_count s"
  have ptrs: "?w < 2 * QSize" "?r < 2 * QSize" using assms by (simp_all add: ring_ok_def)
  show ?thesis
  proof (cases "?r = ?w")
    case True
    then have "pop_frame s = s" by (simp add: pop_frame_def getDataFrameReadPointer_def getDataFrameWritePointer_def)
    moreover have "?c = 0" using True by (simp add: ring_count_def)
    ultimately show ?thesis using assms by (simp add: ring_contents_def)
  next
    case False
    then have s: "pop_frame s = s\<lparr>dataFrameReadPointer := (?r + 1) mod (2 * QSize)\<rparr>"
      using ptrs by (simp add: pop_frame_def getDataFrameReadPointer_def getDataFrameWritePointer_def
          setDataFrameReadPointer_def)
    have count: "ring_count (pop_frame s) = ?c - 1" and pos: "0 < ?c"
      using False ptrs unfolding s ring_count_def
      by (simp_all add: ring_count_cases) (auto simp: mod_if ring_count_cases split: if_splits)
    have idx: "((?r + 1) mod (2 * QSize) + i) mod QSize = (?r + Suc i) mod QSize" for i
    proof -
      have "((?r + 1) mod (2 * QSize) + i) mod QSize = ((?r + 1) mod (2 * QSize) mod QSize + i) mod QSize"
        by (simp add: mod_add_left_eq)
      also have "(?r + 1) mod (2 * QSize) mod QSize = (?r + 1) mod QSize"
        by (rule mod_mod_cancel) simp
      finally show ?thesis by (simp add: mod_add_left_eq)
    qed
    have "ring_contents (pop_frame s) = map (\<lambda>i. shm s ((?r + Suc i) mod QSize)) [0..<?c - 1]"
      unfolding ring_contents_def count using idx by (simp add: s)
    also have "\<dots> = map (\<lambda>i. shm s ((?r + i) mod QSize)) [Suc 0..<Suc (?c - 1)]"
      by (simp only: map_Suc_upt [symmetric] map_map o_def)
    also have "\<dots> = tl (ring_contents s)"
      using pos by (simp add: ring_contents_def upt_conv_Cons)
    finally have "ring_contents (pop_frame s) = tl (ring_contents s)" .
    moreover have "ring_ok (pop_frame s)"
      using ptrs count QSize_pos assms by (simp add: ring_ok_def) (simp add: s)
    ultimately show ?thesis by simp
  qed
qed

interpretation ring: bounded_queue ring_contents push_frame pop_frame ring_ok QSize
proof
  show "ring_ok s \<Longrightarrow> length (ring_contents s) \<le> QSize" for s
    by (simp add: ring_contents_def ring_ok_def)
qed (use push_frame_ok pop_frame_ok in blast)+

lemma ring_ok_start: "ring_ok (startAcquisition mode s) \<and> ring_contents (startAcquisition mode s) = []"
  using QSize_pos
  by (simp add: startAcquisition_def startWorker_def stopWorker_def ring_ok_def ring_count_def ring_contents_def Let_def)

section \<open>Correctness of the ring\<close>

text \<open>The abstract queue: frames pushed at the end while there is room, taken from the front.\<close>

definition queue_step :: "frame option \<Rightarrow> frame list \<Rightarrow> frame list" where
  "queue_step e q = (case e of Some f \<Rightarrow> if length q < QSize then q @ [f] else q | None \<Rightarrow> tl q)"

definition ring_step :: "frame option \<Rightarrow> fserver \<Rightarrow> fserver" where
  "ring_step e s = (case e of Some f \<Rightarrow> push_frame f s | None \<Rightarrow> pop_frame s)"

lemma ring_steps: "ring.impl_step = ring_step" "ring.spec_step = queue_step"
  by (simp_all add: fun_eq_iff ring.impl_step_def ring_step_def ring.spec_step_def queue_step_def)

text \<open>
  C6: The ring refines a bounded first-in first-out queue of 16384 frames: after a start of the
  acquisition, whatever the interleaving of frames the worker offers and read-pointer moves of the
  client, the frames between the pointers are the contents of that queue, so no stored frame is
  overwritten, lost or reordered; frames are dropped only while the queue is full.
\<close>

theorem ring_refines_queue:
  "ring_ok (fold ring_step es (startAcquisition mode s)) \<and>
   ring_contents (fold ring_step es (startAcquisition mode s)) = fold queue_step es []"
  using ring.refines [of "startAcquisition mode s" es] ring_ok_start [of mode s] by (simp add: ring_steps)

end
