(* ===== verification/Bytes.thy ===== *)
theory Bytes
  imports Prelude
begin

text \<open>
  Words of 64 bits in memory and in files, least significant byte first: reading and writing them
  one by one and in rows, with the round trips.
\<close>

section \<open>Words and bytes\<close>

definition le64 :: "u8 list \<Rightarrow> u64" where
  "le64 bs = foldr (\<lambda>b w. push_bit 8 w OR ucast b) bs 0"

fun words_of :: "nat \<Rightarrow> u8 list \<Rightarrow> u64 list" where
  "words_of 0 bs = []"
| "words_of (Suc n) bs = le64 (take 8 bs) # words_of n (drop 8 bs)"

definition le_bytes :: "u64 \<Rightarrow> u8 list" where
  "le_bytes w = map (\<lambda>i. ucast (drop_bit (8 * i) w)) [0..<8]"

lemma length_le_bytes [simp]: "length (le_bytes w) = 8"
  by (simp add: le_bytes_def)

lemma bit_le64:
  "n < 64 \<Longrightarrow> bit (le64 bs) n \<longleftrightarrow> n div 8 < length bs \<and> bit (bs ! (n div 8)) (n mod 8)"
proof (induction bs arbitrary: n)
  case (Cons b bs)
  have le64: "le64 (b # bs) = push_bit 8 (le64 bs) OR ucast b" by (simp add: le64_def)
  show ?case
  proof (cases "n < 8")
    case True
    then show ?thesis unfolding le64 by (simp add: bit_simps)
  next
    case False
    have high: "\<not> bit (ucast b :: u64) n" using False by (auto simp: bit_simps dest: bit_imp_le_length)
    obtain m where m: "n = m + 8" using False by (metis add.commute le_Suc_ex not_less)
    have shifted: "bit (push_bit 8 (le64 bs)) n = bit (le64 bs) m"
      using Cons.prems m by (simp add: bit_push_bit_iff)
    show ?thesis unfolding le64 bit_or_iff shifted
      using high m Cons.prems Cons.IH [of m] div_add_self2 [of 8 m] by simp
  qed
qed (simp add: le64_def)

lemma le64_bytes: "le64 (le_bytes w) = w"
proof (rule bit_word_eqI)
  fix n assume n: "n < LENGTH(64)"
  then have d: "n div 8 < 8" by simp
  then have byte: "le_bytes w ! (n div 8) = ucast (drop_bit (8 * (n div 8)) w)" by (simp add: le_bytes_def)
  have "bit (le64 (le_bytes w)) n = bit (ucast (drop_bit (8 * (n div 8)) w) :: u8) (n mod 8)"
    using n d byte by (simp add: bit_le64)
  also have "\<dots> = bit w (8 * (n div 8) + n mod 8)"
    unfolding bit_unsigned_iff bit_drop_bit_eq by simp
  finally show "bit (le64 (le_bytes w)) n = bit w n" by simp
qed

lemma words_of_le_bytes: "words_of (length ws) (concat (map le_bytes ws) @ tail) = ws"
  by (induction ws) (simp_all add: le64_bytes)

lemma length_concat_le_bytes [simp]: "length (concat (map le_bytes ws)) = 8 * length ws"
  by (induction ws) simp_all

text \<open>The bytes of a row of words.\<close>

definition bytes_of :: "u64 list \<Rightarrow> u8 list" where
  "bytes_of ws = concat (map le_bytes ws)"

lemma bytes_of_simps [simp]:
  "bytes_of [] = []" "bytes_of (w # ws) = le_bytes w @ bytes_of ws"
  "bytes_of (ws @ vs) = bytes_of ws @ bytes_of vs" "length (bytes_of ws) = 8 * length ws"
  by (simp_all add: bytes_of_def)

lemma words_of_bytes: "words_of (length ws) (bytes_of ws @ tail) = ws"
  unfolding bytes_of_def by (rule words_of_le_bytes)

lemma le64_take_bytes: "n \<le> 8 \<Longrightarrow> le64 (take n (le_bytes w)) = take_bit (8 * n) w"
proof (rule bit_word_eqI)
  fix k assume n: "n \<le> 8" and k: "k < LENGTH(64)"
  have "bit (le64 (le_bytes w)) k = bit w k" by (simp add: le64_bytes)
  moreover have "k div 8 < 8" using k by simp
  ultimately have "bit (le_bytes w ! (k div 8)) (k mod 8) = bit w k" using k by (simp add: bit_le64)
  then show "bit (le64 (take n (le_bytes w))) k = bit (take_bit (8 * n) w) k"
    using n k by (auto simp: bit_le64 bit_take_bit_iff min_def)
qed

end
