(* ===== verification/UDPFrameServer.thy ===== *)
theory UDPFrameServer
  imports FrameServer Bytes
begin

text \<open>
  \<open>UDPFrameServer\<close> (\<^verbatim>\<open>external/daqd/src/UDPFrameServer.cpp\<close>): the worker that takes datagrams
  apart into frames and replies, and sending a command with its wait for the reply.

  Buffers keep their old contents behind what is copied in.
\<close>

section \<open>Copies\<close>

text \<open>\<^verbatim>\<open>memcpy\<close> of \<open>n\<close> words from position \<open>p\<close> of \<open>src\<close>; \<open>None\<close> if it leaves an array.\<close>

definition copy_words :: "'a list \<Rightarrow> 'a list \<Rightarrow> nat \<Rightarrow> nat \<Rightarrow> 'a list option" where
  "copy_words dst src p n =
     (if p + n \<le> length src \<and> n \<le> length dst then Some (take n (drop p src) @ drop n dst) else None)"

record udp =
  fsv :: fserver
  devNull :: frame
  dataBuffer :: "u64 list"
  replyQueue :: "u8 list list"

section \<open>The worker\<close>

definition header_size :: "u64 \<Rightarrow> nat" where
  "header_size w = unat (drop_bit 36 w AND 0x7FFF)"

definition target_frame :: "udp \<Rightarrow> frame" where
  "target_frame u = (case write_slot (fsv u) of Some i \<Rightarrow> shm (fsv u) i | None \<Rightarrow> devNull u)"

definition store_target :: "frame \<Rightarrow> udp \<Rightarrow> udp" where
  "store_target f u =
     (case write_slot (fsv u) of Some i \<Rightarrow> u\<lparr>fsv := fill_slot i f (fsv u)\<rparr> | None \<Rightarrow> u\<lparr>devNull := f\<rparr>)"

definition publish :: "udp \<Rightarrow> udp" where
  "publish u = (if write_slot (fsv u) \<noteq> None then u\<lparr>fsv := advance_write (fsv u)\<rparr> else u)"

text \<open>The \<^verbatim>\<open>do ... while\<close> loop over the words of a datagram; \<open>p\<close> is the index of its pointer.\<close>

fun frame_loop :: "nat \<Rightarrow> nat \<Rightarrow> nat \<Rightarrow> udp \<Rightarrow> udp run" where
  "frame_loop 0 nWords p u = OutOfFuel"
| "frame_loop (Suc fuel) nWords p u =
     (if p \<ge> length (dataBuffer u) then Fault
      else let frameSize = header_size (dataBuffer u ! p) in
      case copy_words (target_frame u) (dataBuffer u) p frameSize of
        None \<Rightarrow> Fault
      | Some dataFrame \<Rightarrow>
          let u1 = store_target dataFrame u; p' = p + frameSize in
          if \<not> parseDataFrame dataFrame then Return u1
          else let u2 = (if getFrameID dataFrame < minimumFrameID (fsv u1) then u1 else publish u1) in
            if p' < nWords then frame_loop fuel nWords p' u2 else Return u2)"

text \<open>
  \<^verbatim>\<open>(r-1)/sizeof(uint64_t)\<close> in an \<^verbatim>\<open>unsigned\<close>: for an empty datagram \<open>r - 1\<close> wraps around.
\<close>

definition word_count :: "nat \<Rightarrow> nat" where
  "word_count r = (if r = 0 then ((2 ^ 64 - 1) div 8) mod 2 ^ 32 else (r - 1) div 8)"

text \<open>
  One datagram of \<open>r\<close> bytes in the 65536 bytes of \<open>rxBuffer\<close> (behind it the bytes of earlier ones).
\<close>

definition worker_packet :: "nat \<Rightarrow> u8 list \<Rightarrow> nat \<Rightarrow> udp \<Rightarrow> udp run" where
  "worker_packet fuel rxBuffer r u =
     (if rxBuffer ! 0 = 0x5A then
        (if r = 0 \<or> r - 1 > 2048 then Fault
         else Return (u\<lparr>replyQueue := replyQueue u @ [take (r - 1) (drop 1 rxBuffer)]\<rparr>))
      else if rxBuffer ! 0 = 0xA5 then
        (if acquisitionMode (fsv u) \<noteq> 0 then
           (let nWords = word_count r in
            if nWords > length (dataBuffer u) \<or> 1 + nWords * 8 > length rxBuffer then Fault
            else frame_loop fuel nWords 0
                   (u\<lparr>dataBuffer := words_of nWords (drop 1 rxBuffer) @ drop nWords (dataBuffer u)\<rparr>))
         else Return u)
      else Return u)"

section \<open>Opening and commands\<close>

text \<open>The handshake: at most five requests, until one \<^verbatim>\<open>recv\<close> status is not negative.\<close>

fun handshake :: "nat \<Rightarrow> int list \<Rightarrow> bool option" where
  "handshake 0 statuses = Some False"
| "handshake (Suc attempts) [] = None"
| "handshake (Suc attempts) (status # statuses) =
     (if status \<ge> 0 then Some True else handshake attempts statuses)"

definition createUDPFrameServer :: "bool \<Rightarrow> bool \<Rightarrow> int list \<Rightarrow> bool option" where
  "createUDPFrameServer socket_ok connect_ok statuses =
     (if \<not> socket_ok then Some False else if \<not> connect_ok then Some False else handshake 5 statuses)"

text \<open>The sequence number of two bytes; \<^verbatim>\<open>char\<close> is signed, the sum is taken in 16 bits.\<close>

definition sequence_number :: "u8 \<Rightarrow> u8 \<Rightarrow> u16" where
  "sequence_number b0 b1 = push_bit 8 (scast b0) + scast b1"

definition CommandTimeout :: nat where "CommandTimeout = 250"

text \<open>What one turn of the wait found: nothing, with the milliseconds since the start, or a reply.\<close>

datatype wait_result = Nothing nat | Reply "u8 list"

fun reply_loop :: "u16 \<Rightarrow> u8 list \<Rightarrow> wait_result list \<Rightarrow> (nat \<times> u8 list) run" where
  "reply_loop sentSN buffer [] = OutOfFuel"
| "reply_loop sentSN buffer (Nothing elapsed # ws) =
     (if elapsed > CommandTimeout then Return (0, buffer) else reply_loop sentSN buffer ws)"
| "reply_loop sentSN buffer (Reply reply # ws) =
     (if length reply < 2 then reply_loop sentSN buffer ws
      else if sequence_number (reply ! 0) (reply ! 1) = sentSN then
        (case copy_words buffer reply 0 (length reply) of
           None \<Rightarrow> Fault | Some buffer' \<Rightarrow> Return (length reply, buffer'))
      else reply_loop sentSN buffer ws)"

definition udp_sendCommand :: "u8 list \<Rightarrow> wait_result list \<Rightarrow> (nat \<times> u8 list) run" where
  "udp_sendCommand buffer ws =
     (if length buffer < 2 then Fault
      else reply_loop (sequence_number (buffer ! 0) (buffer ! 1)) buffer ws)"

text \<open>The absolute time, in seconds and nanoseconds, at which the wait for the worker gives up.\<close>

definition wait_deadline :: "nat \<times> nat \<Rightarrow> nat \<times> nat" where
  "wait_deadline now =
     (let tv_nsec = snd now + 10000000
      in (fst now + tv_nsec div 100000000, tv_nsec mod 100000000))"

definition getPortUp_udp :: u64 where "getPortUp_udp = 1"
definition getDAQTemp_udp :: u64 where "getDAQTemp_udp = 0"
definition getPortCounts_udp :: "int \<Rightarrow> int \<Rightarrow> u64" where "getPortCounts_udp port whichCount = 0"

section \<open>Frames in a datagram\<close>

text \<open>A frame as it travels: as many words as its header says, which are those of its events.\<close>

definition wire_frame :: "u64 list \<Rightarrow> bool" where
  "wire_frame f \<longleftrightarrow> 2 \<le> length f \<and> length f \<le> MaxRawDataFrameSize \<and> header_size (f ! 0) = length f \<and> parseDataFrame f"

definition view :: "frame \<Rightarrow> u64 list" where
  "view f = take (header_size (f ! 0)) f"

definition udp_ok :: "udp \<Rightarrow> bool" where
  "udp_ok u \<longleftrightarrow> ring_ok (fsv u) \<and> (\<forall>i. length (shm (fsv u) i) = MaxRawDataFrameSize) \<and>
     length (devNull u) = MaxRawDataFrameSize \<and> length (dataBuffer u) = MaxRawDataFrameSize"

lemma parseDataFrame_prefix: "2 \<le> length f \<Longrightarrow> parseDataFrame (f @ g) = parseDataFrame f"
proof -
  assume f: "2 \<le> length f"
  then have "0 < length f" "1 < length f" by linarith+
  then have "(f @ g) ! 0 = f ! 0" "(f @ g) ! 1 = f ! 1" by (simp_all only: nth_append if_True)
  then show ?thesis by (simp only: parseDataFrame_def)
qed

lemma copy_wire_frame:
  assumes "wire_frame f" and "drop p buf = f @ rest" and "length dst = MaxRawDataFrameSize" and "p \<le> length buf"
  shows "copy_words dst buf p (length f) = Some (f @ drop (length f) dst)"
proof -
  have "length buf - p = length f + length rest" using assms(2) by (metis length_append length_drop)
  with assms show ?thesis by (simp add: copy_words_def wire_frame_def)
qed

text \<open>With room in the ring, storing and publishing a frame is pushing it.\<close>

lemma store_publish:
  assumes "write_slot (fsv u) = Some i"
  shows "publish (store_target f u) = u\<lparr>fsv := push_frame f (fsv u)\<rparr>"
proof -
  have "write_slot (fill_slot i f (fsv u)) = Some i"
    using assms by (auto simp: write_slot_def fill_slot_def split: if_splits)
  with assms show ?thesis by (simp add: publish_def store_target_def push_frame_def)
qed

lemma room_slot: "ring_ok s \<Longrightarrow> length (ring_contents s) < QSize \<Longrightarrow> \<exists>i. write_slot s = Some i"
  by (simp add: write_slot_def isFull_iff ring_contents_def)

lemma push_frame_other [simp]:
  "minimumFrameID (push_frame f s) = minimumFrameID s" "acquisitionMode (push_frame f s) = acquisitionMode s"
  by (simp_all add: push_frame_def advance_write_def fill_slot_def split: option.split)

lemma push_frame_lengths:
  "(\<forall>i. length (shm s i) = n) \<Longrightarrow> length f = n \<Longrightarrow> \<forall>i. length (shm (push_frame f s) i) = n"
  by (simp add: push_frame_def advance_write_def fill_slot_def split: option.split)

lemma udp_ok_push:
  assumes "udp_ok u" and "length f = MaxRawDataFrameSize"
  shows "udp_ok (u\<lparr>fsv := push_frame f (fsv u)\<rparr>)"
  using assms push_frame_lengths [of "fsv u" MaxRawDataFrameSize f] push_frame_ok [of "fsv u" f]
  by (simp add: udp_ok_def)

lemma frame_loop_frames:
  assumes "udp_ok u" and "fs \<noteq> []" and "\<forall>f \<in> set fs. wire_frame f \<and> minimumFrameID (fsv u) \<le> getFrameID f"
    and "drop p (dataBuffer u) = concat fs @ rest" and "p \<le> length (dataBuffer u)"
    and "length (ring_contents (fsv u)) + length fs \<le> QSize" and "length fs \<le> fuel"
    and "nWords = p + length (concat fs)"
  shows "\<exists>u'. frame_loop fuel nWords p u = Return u' \<and> udp_ok u' \<and>
    map view (ring_contents (fsv u')) = map view (ring_contents (fsv u)) @ fs"
  using assms
proof (induction fs arbitrary: u p fuel)
  case (Cons f fs)
  from Cons.prems obtain k where fuel: "fuel = Suc k" "length fs \<le> k" by (cases fuel) auto
  have wf: "wire_frame f" and min: "minimumFrameID (fsv u) \<le> getFrameID f" using Cons.prems(3) by auto
  then have f2: "2 \<le> length f" and size: "header_size (f ! 0) = length f" by (simp_all add: wire_frame_def)
  have "ring_ok (fsv u)" and lens: "length (target_frame u) = MaxRawDataFrameSize"
    using Cons.prems(1) by (auto simp: udp_ok_def target_frame_def split: option.split)
  moreover have room: "length (ring_contents (fsv u)) < QSize" using Cons.prems(6) by simp
  ultimately obtain i where slot: "write_slot (fsv u) = Some i" using room_slot by blast
  have drop: "drop p (dataBuffer u) = f @ (concat fs @ rest)" using Cons.prems(4) by simp
  have len_buf: "length (dataBuffer u) - p = length f + length (concat fs @ rest)"
    using drop by (metis length_append length_drop)
  then have p: "p < length (dataBuffer u)" using f2 by simp
  have head: "dataBuffer u ! p = f ! 0"
  proof -
    have "dataBuffer u ! p = drop p (dataBuffer u) ! 0" using p by simp
    then show ?thesis using f2 unfolding drop by (cases f) simp_all
  qed
  let ?g = "f @ drop (length f) (target_frame u)"
  have copy: "copy_words (target_frame u) (dataBuffer u) p (length f) = Some ?g"
    using copy_wire_frame [OF wf drop lens] p by simp
  have g: "parseDataFrame ?g" "getFrameID ?g = getFrameID f" "view ?g = f" "length ?g = MaxRawDataFrameSize"
    using wf f2 size lens parseDataFrame_prefix [OF f2]
    by (auto simp: wire_frame_def getFrameID_def view_def nth_append)
  let ?u = "u\<lparr>fsv := push_frame ?g (fsv u)\<rparr>"
  have min': "\<not> getFrameID ?g < minimumFrameID (fsv (store_target ?g u))"
    using g(2) min slot by (simp add: store_target_def fill_slot_def)
  have step: "frame_loop fuel nWords p u =
      (if p + length f < nWords then frame_loop k nWords (p + length f) ?u else Return ?u)"
    using p head size copy g(1) min' slot
    by (simp add: fuel(1) Let_def store_publish)
  have cont: "map view (ring_contents (fsv ?u)) = map view (ring_contents (fsv u)) @ [f]"
    using push_frame_ok [OF \<open>ring_ok (fsv u)\<close>, of ?g] room g(3) by simp
  have ok: "udp_ok ?u" using udp_ok_push [OF Cons.prems(1) g(4)] .
  show ?case
  proof (cases "fs = []")
    case True
    then show ?thesis using step cont ok Cons.prems(8) by simp
  next
    case False
    then have "length (concat fs) > 0" using Cons.prems(3) by (cases fs) (auto simp: wire_frame_def)
    then have more: "p + length f < nWords" using Cons.prems(8) by simp
    have "\<exists>u'. frame_loop k nWords (p + length f) ?u = Return u' \<and> udp_ok u' \<and>
        map view (ring_contents (fsv u')) = map view (ring_contents (fsv ?u)) @ fs"
    proof (rule Cons.IH [OF ok False])
      show "\<forall>f \<in> set fs. wire_frame f \<and> minimumFrameID (fsv ?u) \<le> getFrameID f"
        using Cons.prems(3) by simp
      have "drop (p + length f) (dataBuffer u) = drop (length f) (drop p (dataBuffer u))"
        by (simp add: add.commute)
      then show "drop (p + length f) (dataBuffer ?u) = concat fs @ rest" unfolding drop by simp
      show "p + length f \<le> length (dataBuffer ?u)" using len_buf p by simp
      show "length (ring_contents (fsv ?u)) + length fs \<le> QSize"
        using arg_cong [where f = length, OF cont] Cons.prems(6) by simp
    qed (use fuel Cons.prems(8) in auto)
    then show ?thesis using step more cont by auto
  qed
qed simp

section \<open>Sequence numbers\<close>

lemma take_bit_add_wide: "take_bit 8 (take_bit 16 a + take_bit 16 b) = take_bit 8 (a + b :: int)"
proof -
  have "take_bit 8 (take_bit 16 a + take_bit 16 b) =
      take_bit 8 (take_bit 8 (take_bit 16 a) + take_bit 8 (take_bit 16 b))"
    by (simp only: take_bit_add)
  also have "\<dots> = take_bit 8 (a + b)" by (simp add: take_bit_add)
  finally show ?thesis .
qed

lemma ucast_u8_add: "(ucast (a + b :: u16) :: u8) = ucast a + ucast b"
  by transfer (simp add: take_bit_add_wide)

lemma bit_scast_u16: "n < 8 \<Longrightarrow> bit (scast (y :: u8) :: u16) n = bit y n"
proof -
  assume "n < 8"
  then consider "n < 7" | "n = 7" by fastforce
  then show ?thesis by cases (simp_all add: bit_simps min_def)
qed

lemma sequence_number_inject:
  assumes "sequence_number a0 a1 = sequence_number b0 b1"
  shows "a0 = b0 \<and> a1 = b1"
proof -
  have low: "(ucast (sequence_number x y) :: u8) = y" for x y
  proof -
    have "(ucast (push_bit 8 (scast x :: u16)) :: u8) = 0"
      by (rule bit_word_eqI) (simp add: bit_simps)
    moreover have "(ucast (scast y :: u16) :: u8) = y"
      by (rule bit_word_eqI) (simp add: bit_scast_u16 bit_unsigned_iff)
    ultimately show ?thesis by (simp add: sequence_number_def ucast_u8_add)
  qed
  have a1: "a1 = b1" using low [of a0 a1] low [of b0 b1] assms by simp
  then have shifted: "push_bit 8 (scast a0 :: u16) = push_bit 8 (scast b0)"
    using assms by (simp add: sequence_number_def)
  have "bit a0 n = bit b0 n" if "n < 8" for n
  proof -
    have "bit (push_bit 8 (scast a0 :: u16)) (n + 8) = bit (push_bit 8 (scast b0 :: u16)) (n + 8)"
      by (simp only: shifted)
    then show ?thesis using that by (simp add: bit_push_bit_iff bit_scast_u16)
  qed
  then show ?thesis using a1 by (auto intro: bit_word_eqI)
qed

section \<open>Correctness of the worker\<close>

definition data_packet :: "u64 list list \<Rightarrow> u8 list" where
  "data_packet fs = 0xA5 # concat (map le_bytes (concat fs))"

text \<open>
  C9: A datagram of well-formed frames, none below the minimum frame number, that fits the free
  slots is taken apart completely during an acquisition: the worker returns, and the frames it
  stored, cut at the sizes in their headers, are those sent, behind the ones already in the ring
  and in the order sent, whatever bytes earlier datagrams left in the buffers.
\<close>

theorem udp_frames_delivered:
  assumes "udp_ok u" and "acquisitionMode (fsv u) \<noteq> 0" and "fs \<noteq> []"
    and "\<forall>f \<in> set fs. wire_frame f \<and> minimumFrameID (fsv u) \<le> getFrameID f"
    and "length (ring_contents (fsv u)) + length fs \<le> QSize" and "length fs \<le> fuel"
    and "length (data_packet fs @ tail) = 65536"
  shows "\<exists>u'. worker_packet fuel (data_packet fs @ tail) (length (data_packet fs)) u = Return u' \<and> udp_ok u' \<and>
    map view (ring_contents (fsv u')) = map view (ring_contents (fsv u)) @ fs"
proof -
  let ?n = "length (concat fs)" and ?ws = "concat fs"
  let ?u = "u\<lparr>dataBuffer := ?ws @ drop ?n (dataBuffer u)\<rparr>"
  have len: "length (data_packet fs) = Suc (8 * ?n)" by (simp only: data_packet_def length_Cons length_concat_le_bytes)
  have n: "?n \<le> length (dataBuffer u)" "1 + ?n * 8 \<le> length (data_packet fs @ tail)"
    using assms(1,7) unfolding length_append len by (simp_all add: udp_ok_def MaxRawDataFrameSize_def)
  have words: "words_of ?n (drop 1 (data_packet fs @ tail)) = ?ws"
    unfolding data_packet_def by (simp del: length_concat add: words_of_le_bytes)
  have "worker_packet fuel (data_packet fs @ tail) (length (data_packet fs)) u = frame_loop fuel ?n 0 ?u"
    unfolding worker_packet_def len word_count_def
    using n words assms(2) by (simp add: data_packet_def Let_def del: length_concat)
  moreover have "udp_ok ?u" using assms(1) n(1) by (simp add: udp_ok_def del: length_concat)
  ultimately show ?thesis
    using frame_loop_frames [of ?u fs 0 "drop ?n (dataBuffer u)" fuel ?n] assms(3-6) by simp
qed

definition example_udp :: "frame \<Rightarrow> udp" where
  "example_udp old = \<lparr>fsv = (startAcquisition 1 (fserver_new (\<lambda>i. old) 0)), devNull = old,
     dataBuffer = replicate MaxRawDataFrameSize 0, replyQueue = []\<rparr>"

lemma example_udp_ok: "length old = MaxRawDataFrameSize \<Longrightarrow> udp_ok (example_udp old)"
  using ring_ok_start [of 1 "fserver_new (\<lambda>i. old) 0"]
  by (simp add: udp_ok_def example_udp_def)
    (simp add: startAcquisition_def startWorker_def stopWorker_def fserver_new_def)

lemma example_udp_simps [simp]:
  "acquisitionMode (fsv (example_udp old)) = 1" "minimumFrameID (fsv (example_udp old)) = 0"
  "ring_contents (fsv (example_udp old)) = []" "shm (fsv (example_udp old)) i = old" "devNull (example_udp old) = old"
  "dataBuffer (example_udp old) = replicate MaxRawDataFrameSize 0"
  using ring_ok_start [of 1 "fserver_new (\<lambda>i. old) 0"]
  by (simp_all add: example_udp_def startAcquisition_def startWorker_def stopWorker_def fserver_new_def)

theorem udp_frames_delivered_witness:
  "\<exists>u' :: udp. worker_packet 2 (data_packet [[0x2000000005, 0], [0x3000000006, 1, 77]] @ replicate 65495 0) 41
       (example_udp (replicate MaxRawDataFrameSize 0)) = Return u' \<and>
     map view (ring_contents (fsv u')) = [[0x2000000005, 0], [0x3000000006, 1, 77]]"
proof -
  let ?u = "example_udp (replicate MaxRawDataFrameSize 0)"
  let ?fs = "[[0x2000000005, 0], [0x3000000006, 1, 77]] :: u64 list list"
  have ok: "udp_ok ?u" by (rule example_udp_ok) simp
  have wf: "\<forall>f \<in> set ?fs. wire_frame f \<and> minimumFrameID (fsv ?u) \<le> getFrameID f"
    by (simp add: wire_frame_def header_size_def parseDataFrame_def MaxRawDataFrameSize_def)
  have len: "length (data_packet ?fs @ replicate 65495 0) = 65536" "length (data_packet ?fs) = 41"
    by (simp_all add: data_packet_def)
  have mode: "acquisitionMode (fsv ?u) \<noteq> 0" by (simp only: example_udp_simps)
  have ne: "?fs \<noteq> []" by (rule list.discI) (rule refl)
  have room: "length (ring_contents (fsv ?u)) + length ?fs \<le> QSize"
    by (simp only: example_udp_simps MaxRawDataFrameQueueSize_def) simp
  have fuel: "length ?fs \<le> 2" by (simp only: list.size)
  note found = udp_frames_delivered [OF ok mode ne wf room fuel len(1)]
  then obtain u' where run: "worker_packet 2 (data_packet ?fs @ replicate 65495 0) 41 ?u = Return u'"
    and cont: "map view (ring_contents (fsv u')) = map view (ring_contents (fsv ?u)) @ ?fs"
    unfolding len(2) by (elim exE conjE)
  have "map view (ring_contents (fsv u')) = ?fs" using cont by (simp only: example_udp_simps list.map append.simps)
  with run show ?thesis by (intro exI conjI)
qed

section \<open>A frame of size zero\<close>

text \<open>The frames already in memory all pass the check of the sizes.\<close>

definition stale_frames_parse :: "udp \<Rightarrow> bool" where
  "stale_frames_parse u \<longleftrightarrow> parseDataFrame (devNull u) \<and> (\<forall>i. parseDataFrame (shm (fsv u) i))"

lemma store_same: "store_target (target_frame u) u = u"
  by (simp add: store_target_def target_frame_def fill_slot_def split: option.split)

lemma stale_target: "stale_frames_parse u \<Longrightarrow> parseDataFrame (target_frame u)"
  by (simp add: stale_frames_parse_def target_frame_def split: option.split)

lemma publish_other [simp]:
  "stale_frames_parse (publish u) = stale_frames_parse u" "dataBuffer (publish u) = dataBuffer u"
  by (simp_all add: publish_def advance_write_def stale_frames_parse_def)

text \<open>
  A header that announces a frame of no words makes the worker spin for ever once the frames in
  shared memory are valid ones of the past: nothing is copied, the frame left in the slot passes the
  size check in place of the one received, and the pointer does not move. No number of turns ends
  the loop, so the worker never sees that it should stop either.
\<close>

theorem udp_zero_frame_hangs:
  assumes "p < length (dataBuffer u)" and "header_size (dataBuffer u ! p) = 0" and "p < nWords"
    and "stale_frames_parse u"
  shows "frame_loop fuel nWords p u = OutOfFuel"
  using assms
proof (induction fuel arbitrary: u)
  case (Suc fuel)
  have copy: "copy_words (target_frame u) (dataBuffer u) p 0 = Some (target_frame u)"
    using Suc.prems by (simp add: copy_words_def)
  show ?case
    using Suc.prems Suc.IH [of u] Suc.IH [of "publish u"] copy stale_target [OF Suc.prems(4)]
    by (simp add: store_same)
qed simp

theorem udp_zero_frame_hangs_witness:
  "frame_loop 1000000 1 0 (example_udp (0x2000000000 # 0 # replicate 8194 0)) = OutOfFuel"
  by (rule udp_zero_frame_hangs)
    (simp_all add: MaxRawDataFrameSize_def header_size_def stale_frames_parse_def parseDataFrame_def)

section \<open>Replies\<close>

text \<open>
  Sending a command returns either no reply, leaving the buffer as it was, or the bytes of one
  of the replies that arrived, and then that reply has the two sequence bytes of the command; the
  buffer holds the reply, followed by what it held before.
\<close>

theorem udp_reply_matches:
  assumes "udp_sendCommand buffer ws = Return (n, buffer')"
  shows "n = 0 \<and> buffer' = buffer \<or>
    (\<exists>reply. Reply reply \<in> set ws \<and> n = length reply \<and> 2 \<le> n \<and> buffer' = reply @ drop n buffer \<and>
      reply ! 0 = buffer ! 0 \<and> reply ! 1 = buffer ! 1)"
proof -
  have "reply_loop (sequence_number (buffer ! 0) (buffer ! 1)) buffer ws = Return (n, buffer')"
    using assms by (simp add: udp_sendCommand_def split: if_splits)
  then show ?thesis
  proof (induction ws)
    case (Cons w ws)
    show ?case
    proof (cases w)
      case (Nothing elapsed)
      then show ?thesis using Cons by (auto split: if_splits)
    next
      case (Reply reply)
      then show ?thesis
        using Cons sequence_number_inject [of "reply ! 0" "reply ! 1" "buffer ! 0" "buffer ! 1"]
        by (auto simp: copy_words_def split: if_splits)
    qed
  qed simp
qed

theorem udp_reply_matches_witness:
  "udp_sendCommand [1, 2, 3, 4] [Nothing 10, Reply [9, 9, 7], Reply [1, 2, 5]] = Return (3, [1, 2, 5, 4]) \<and>
   [1, 2, 5, 4 :: u8] ! 0 = [1, 2, 3, 4] ! 0"
proof -
  have run: "udp_sendCommand [1, 2, 3, 4] [Nothing 10, Reply [9, 9, 7], Reply [1, 2, 5]] = Return (3, [1, 2, 5, 4])"
    by code_simp
  then show ?thesis using udp_reply_matches [OF run] by auto
qed

section \<open>The wait for a reply\<close>

text \<open>
  The wait for a reply during an acquisition, meant to last 10 ms, gives up at a valid time that
  is late by 0.9 s for every started tenth of the current second: 9.01 s instead of 10 ms
  near the end of a second, far beyond the time-out of the command.
\<close>

theorem wait_deadline_late:
  assumes "ns < 10 ^ 9" and "wait_deadline (s, ns) = (s', ns')"
  shows "ns' < 10 ^ 9 \<and>
    s' * 10 ^ 9 + ns' = (s * 10 ^ 9 + ns) + 10000000 + 900000000 * ((ns + 10000000) div 100000000)"
proof -
  let ?t = "ns + 10000000"
  have "s' = s + ?t div 100000000" "ns' = ?t mod 100000000"
    using assms(2) by (simp_all add: wait_deadline_def Let_def)
  moreover have "?t = ?t div 100000000 * 100000000 + ?t mod 100000000" by simp
  moreover have "?t mod 100000000 < 100000000" by simp
  ultimately show ?thesis by simp
qed

theorem wait_deadline_late_witness: "wait_deadline (7, 980000000) = (16, 90000000) \<and> 9 * 10 ^ 9 + 7 * 10 ^ 9 + (90000000 :: nat) = 16090000000"
proof -
  have run: "wait_deadline (7, 980000000) = (16, 90000000)" by (simp add: wait_deadline_def)
  then show ?thesis using wait_deadline_late [OF _ run] by simp
qed

end
