(* ===== verification/DAQFrameServer.thy ===== *)
theory DAQFrameServer
  imports UDPFrameServer
begin

text \<open>
  \<open>DAQFrameServer\<close> (\<^verbatim>\<open>external/daqd/src/DAQFrameServer.cpp\<close>): the frame server over
  acquisition cards. A card is the abstract class: its answers (frames, replies, counters) are
  inputs. A turn of the worker merges the frames of two cards by frame number.

  The flag \<open>die\<close> is set once by another thread. \<open>die\<close> below is the number of reads that still see
  it unset, so a run for every number is a run for every moment of the stop.
\<close>

section \<open>Cards\<close>

text \<open>\<open>nextFrames\<close> are the results of \<open>getNextFrame\<close> to come (\<open>None\<close> for \<^verbatim>\<open>NULL\<close>, as at the end).\<close>

record card =
  nextFrames :: "u64 list option list"
  portUp :: u64
  daqTemp :: u64
  portCounts :: "int \<Rightarrow> int \<Rightarrow> u64"
  acquisitionOn :: bool

record daqfs =
  base :: fserver
  cards :: "card list"
  daqCardPortBits :: nat
  lastFrameWasBad :: bool

definition createDAQFrameServer :: "card list \<Rightarrow> nat \<Rightarrow> (nat \<Rightarrow> frame) \<Rightarrow> u32 \<Rightarrow> daqfs" where
  "createDAQFrameServer cs bits mem idle =
     \<lparr>base = fserver_new mem idle, cards = cs, daqCardPortBits = bits, lastFrameWasBad = True\<rparr>"

definition set_acquisition :: "bool \<Rightarrow> card list \<Rightarrow> card list" where
  "set_acquisition on cs = map (\<lambda>c. c\<lparr>acquisitionOn := on\<rparr>) cs"

definition daq_stopAcquisition :: "daqfs \<Rightarrow> daqfs" where
  "daq_stopAcquisition s =
     s\<lparr>base := stopAcquisition (base s), cards := set_acquisition False (cards s)\<rparr>"

definition daq_startAcquisition :: "int \<Rightarrow> daqfs \<Rightarrow> daqfs" where
  "daq_startAcquisition mode s =
     (let s1 = daq_stopAcquisition s;
          s2 = s1\<lparr>cards := set_acquisition True (cards s1), lastFrameWasBad := True\<rparr>
      in s2\<lparr>base := startAcquisition mode (base s2)\<rparr>)"

definition next_frame :: "nat \<Rightarrow> card list \<Rightarrow> u64 list option \<times> card list" where
  "next_frame i cs =
     (case nextFrames (cs ! i) of
        [] \<Rightarrow> (None, cs)
      | f # fs \<Rightarrow> (f, cs[i := (cs ! i)\<lparr>nextFrames := fs\<rparr>]))"

section \<open>The worker\<close>

definition active_cards :: "card list \<Rightarrow> nat list" where
  "active_cards cs = filter (\<lambda>i. portUp (cs ! i) \<noteq> 0) [0..<length cs]"

definition cardsPrefix :: "nat \<Rightarrow> nat \<Rightarrow> u64" where
  "cardsPrefix bits i = push_bit (59 + bits) (of_nat i)"

text \<open>\<^verbatim>\<open>while(!die && (tmp == NULL)) tmp = cards[i]->getNextFrame();\<close>\<close>

fun wait_frame :: "nat \<Rightarrow> u64 list option \<Rightarrow> nat \<Rightarrow> card list \<Rightarrow> nat \<times> u64 list option \<times> card list" where
  "wait_frame 0 tmp i cs = (0, tmp, cs)"
| "wait_frame (Suc k) (Some f) i cs = (k, Some f, cs)"
| "wait_frame (Suc k) None i cs = (let (tmp, cs') = next_frame i cs in wait_frame k tmp i cs')"

lemma wait_frame_le: "fst (wait_frame k tmp i cs) \<le> k"
  by (induction k tmp i cs rule: wait_frame.induct) (auto split: prod.split simp: le_SucI)

lemma wait_frame_less:
  "(k1, r) = wait_frame k t i cs \<Longrightarrow> (k2, r') = wait_frame k1 t' j cs' \<Longrightarrow> 0 < k2 \<Longrightarrow> k2 - 1 < k"
  using wait_frame_le [of k t i cs] wait_frame_le [of k1 t' j cs'] by (cases k2) (auto dest!: sym [of _ "wait_frame _ _ _ _"])

text \<open>The loop that brings both cards to the same frame number; it follows the pointers it holds.\<close>

function match_frames :: "nat \<Rightarrow> u64 list option \<Rightarrow> u64 list option \<Rightarrow> card list \<Rightarrow>
    (nat \<times> u64 \<times> u64 list option \<times> u64 list option \<times> card list) run" where
  "match_frames k tmp0 tmp1 cs =
     (case (tmp0, tmp1) of
        (Some f0, Some f1) \<Rightarrow>
          if f0 = [] \<or> f1 = [] then Fault
          else
            let frameID0 = f0 ! 0 AND 0xFFFFFFFFF; frameID1 = f1 ! 0 AND 0xFFFFFFFFF;
                (t0, cs1) = (if frameID0 < frameID1 then next_frame 0 cs else (tmp0, cs));
                (t1, cs2) = (if frameID1 < frameID0 then next_frame 1 cs1 else (tmp1, cs1));
                (k1, t0', cs3) = wait_frame k t0 0 cs2;
                (k2, t1', cs4) = wait_frame k1 t1 1 cs3
            in if k2 > 0 \<and> frameID0 \<noteq> frameID1 then match_frames (k2 - 1) t0' t1' cs4
               else Return (k2 - 1, frameID0, t0', t1', cs4)
      | _ \<Rightarrow> Fault)"
  by pat_completeness auto
termination
proof (relation "measure fst", goal_cases)
  case 2
  then show ?case by (simp only: in_measure fst_conv) (elim conjE, rule wait_frame_less)
qed simp

declare match_frames.simps [simp del]

text \<open>Writing \<open>xs\<close> at position \<open>p\<close> of a frame.\<close>

definition overlay :: "nat \<Rightarrow> u64 list \<Rightarrow> frame \<Rightarrow> frame option" where
  "overlay p xs f = (if p + length xs \<le> length f then Some (take p f @ xs @ drop (p + length xs) f) else None)"

definition nEvents_of :: "u64 list \<Rightarrow> nat" where
  "nEvents_of f = unat (f ! 1 AND 0xFFFF)"

definition events_of :: "u64 list \<Rightarrow> u64 list" where
  "events_of f = take (nEvents_of f) (drop 2 f)"

definition readable :: "u64 list \<Rightarrow> bool" where
  "readable f \<longleftrightarrow> 2 + nEvents_of f \<le> length f"

text \<open>The frame of one active card, its events tagged with the card.\<close>

definition tag_frame :: "u64 \<Rightarrow> u64 list \<Rightarrow> frame \<Rightarrow> frame option" where
  "tag_frame prefix f dst =
     (if readable f then overlay 0 (f ! 0 # f ! 1 # map (\<lambda>e. e OR prefix) (events_of f)) dst else None)"

definition merge_frames :: "nat \<Rightarrow> nat list \<Rightarrow> u64 \<Rightarrow> u64 list \<Rightarrow> u64 list \<Rightarrow> frame \<Rightarrow> frame option" where
  "merge_frames bits active frameID0 f0 f1 dst =
     (if length f0 < 2 \<or> length f1 < 2 then None
      else
        let frameLost = (f0 ! 1 OR f1 ! 1) AND 0x10000 \<noteq> 0;
            n = nEvents_of f0 + nEvents_of f1;
            frameLost' = (if n + 2 > MaxRawDataFrameSize then True else frameLost)
        in if frameLost' then overlay 0 [push_bit 36 2 OR frameID0, 0x10000] dst
           else if \<not> readable f0 \<or> \<not> readable f1 then None
           else overlay 0 ((push_bit 36 (of_nat (n + 2)) OR frameID0) # of_nat n #
                  map (\<lambda>e. e OR cardsPrefix bits (active ! 0)) (events_of f0) @
                  map (\<lambda>e. e OR cardsPrefix bits (active ! 1)) (events_of f1)) dst)"

text \<open>What the card branches of a turn give: nothing to store, or the frame in the slot.\<close>

datatype got = Again nat "card list" | Got nat "card list" "frame option"

definition one_card :: "nat \<Rightarrow> nat \<Rightarrow> (u64 list \<Rightarrow> frame \<Rightarrow> frame option) \<Rightarrow> frame option \<Rightarrow> card list \<Rightarrow> got run" where
  "one_card k i put dst cs =
     (case next_frame i cs of
        (None, cs') \<Rightarrow> Return (Again k cs')
      | (Some f, cs') \<Rightarrow>
          (case dst of None \<Rightarrow> Return (Again k cs')
           | Some d \<Rightarrow> (case put f d of None \<Rightarrow> Fault | Some d' \<Rightarrow> Return (Got k cs' (Some d')))))"

definition copy_whole :: "u64 list \<Rightarrow> frame \<Rightarrow> frame option" where
  "copy_whole f d = (if f = [] then None else copy_words d f 0 (header_size (f ! 0)))"

definition two_cards :: "nat \<Rightarrow> nat \<Rightarrow> nat list \<Rightarrow> frame option \<Rightarrow> card list \<Rightarrow> got run" where
  "two_cards k bits active dst cs =
     (let (tmp0, cs1) = next_frame (active ! 0) cs; (tmp1, cs2) = next_frame (active ! 1) cs1 in
      if tmp0 = None \<or> tmp1 = None then Return (Again k cs2)
      else case dst of None \<Rightarrow> Return (Again k cs2)
      | Some d \<Rightarrow>
          (case match_frames k tmp0 tmp1 cs2 of
             Return (k', frameID0, Some f0, Some f1, cs3) \<Rightarrow>
               (case merge_frames bits active frameID0 f0 f1 d of
                  None \<Rightarrow> Fault | Some d' \<Rightarrow> Return (Got k' cs3 (Some d')))
           | _ \<Rightarrow> Fault))"

text \<open>One turn of \<^verbatim>\<open>while(!die)\<close>; \<open>active\<close> is found once, when the worker starts.\<close>

definition daq_turn :: "nat list \<Rightarrow> nat \<Rightarrow> daqfs \<Rightarrow> (nat \<times> daqfs) run" where
  "daq_turn active k s =
     (if acquisitionMode (base s) = 0 then Return (k, s)
      else
        let slot = write_slot (base s); dst = map_option (shm (base s)) slot; cs = cards s in
        case (if length cs = 1 then one_card k 0 copy_whole dst cs
              else if length active = 1 then
                one_card k (active ! 0) (tag_frame (cardsPrefix (daqCardPortBits s) (active ! 0))) dst cs
              else if length active = 2 then two_cards k (daqCardPortBits s) active dst cs
              else Return (Got k cs dst)) of
          Return (Again k' cs') \<Rightarrow> Return (k', s\<lparr>cards := cs'\<rparr>)
        | Return (Got k' cs' (Some f)) \<Rightarrow>
            let s1 = s\<lparr>cards := cs', base := fill_slot (the slot) f (base s)\<rparr> in
            if getFrameID f < minimumFrameID (base s) then Return (k', s1)
            else if getFrameLost f \<and> getFrameID f mod 128 \<noteq> 0 then Return (k', s1)
            else Return (k', s1\<lparr>base := advance_write (base s1)\<rparr>)
        | _ \<Rightarrow> Fault)"

lemma match_frames_le: "match_frames k tmp0 tmp1 cs = Return (k', r) \<Longrightarrow> k' \<le> k"
proof (induction k arbitrary: tmp0 tmp1 cs rule: less_induct)
  case (less k)
  from less.prems obtain f0 f1 where some: "tmp0 = Some f0" "tmp1 = Some f1" and ne: "f0 \<noteq> []" "f1 \<noteq> []"
    by (subst (asm) match_frames.simps) (auto split: option.splits if_splits)
  let ?i0 = "f0 ! 0 AND 0xFFFFFFFFF" and ?i1 = "f1 ! 0 AND 0xFFFFFFFFF"
  obtain t0 cs1 where n0: "(t0, cs1) = (if ?i0 < ?i1 then next_frame 0 cs else (tmp0, cs))"
    by (metis surj_pair)
  obtain t1 cs2 where n1: "(t1, cs2) = (if ?i1 < ?i0 then next_frame 1 cs1 else (tmp1, cs1))"
    by (metis surj_pair)
  obtain k1 t0' cs3 where w0: "(k1, t0', cs3) = wait_frame k t0 0 cs2" by (metis surj_pair)
  obtain k2 t1' cs4 where w1: "(k2, t1', cs4) = wait_frame k1 t1 1 cs3" by (metis surj_pair)
  have le: "k2 \<le> k" using wait_frame_le [of k t0 0 cs2] wait_frame_le [of k1 t1 1 cs3] w0 w1
    by (metis fst_conv le_trans)
  have unfold: "match_frames k tmp0 tmp1 cs =
      (if k2 > 0 \<and> ?i0 \<noteq> ?i1 then match_frames (k2 - 1) t0' t1' cs4 else Return (k2 - 1, ?i0, t0', t1', cs4))"
    using ne n0 [symmetric] n1 [symmetric] w0 [symmetric] w1 [symmetric]
    by (subst match_frames.simps) (simp add: some Let_def)
  show ?case
  proof (cases "k2 > 0 \<and> ?i0 \<noteq> ?i1")
    case True
    then have "match_frames (k2 - 1) t0' t1' cs4 = Return (k', r)" using unfold less.prems by simp
    then have "k' \<le> k2 - 1" by (rule less.IH [rotated]) (use True le in linarith)
    then show ?thesis using le by linarith
  next
    case False
    then show ?thesis using unfold less.prems le by auto
  qed
qed

lemma one_card_reads:
  "one_card k i put dst cs = Return (Again k' cs') \<Longrightarrow> k' = k"
  "one_card k i put dst cs = Return (Got k' cs' f) \<Longrightarrow> k' = k"
  by (auto simp: one_card_def split: prod.splits option.splits)

lemma two_cards_le:
  "two_cards k bits active dst cs = Return (Again k' cs') \<Longrightarrow> k' \<le> k"
  "two_cards k bits active dst cs = Return (Got k' cs' f) \<Longrightarrow> k' \<le> k"
  by (auto simp: two_cards_def split: prod.splits option.splits if_splits run.splits dest: match_frames_le)

lemma daq_turn_le:
  assumes "daq_turn active k s = Return (k', s')"
  shows "k' \<le> k"
  using assms
  by (auto simp: daq_turn_def Let_def split: if_splits run.splits got.splits option.splits
      dest: one_card_reads two_cards_le)

text \<open>The loop itself: it reads \<open>die\<close> before every turn.\<close>

function daq_work :: "nat list \<Rightarrow> nat \<Rightarrow> daqfs \<Rightarrow> daqfs run" where
  "daq_work active 0 s = Return s"
| "daq_work active (Suc k) s =
     (case daq_turn active k s of
        Return (k', s') \<Rightarrow> daq_work active k' s'
      | Fault \<Rightarrow> Fault
      | OutOfFuel \<Rightarrow> OutOfFuel)"
  by pat_completeness auto
termination
  by (relation "measure (\<lambda>(_, k, _). k)") (auto dest: daq_turn_le simp: less_Suc_eq_le)

definition doWork :: "nat \<Rightarrow> daqfs \<Rightarrow> daqfs run" where
  "doWork k s = daq_work (active_cards (cards s)) k s"

section \<open>Commands\<close>

definition MAX_PACKET_WORDS :: int where "MAX_PACKET_WORDS = 256"

text \<open>\<^verbatim>\<open>2 + ceil(commandLength / 8.0)\<close>\<close>

definition packet_length :: "int \<Rightarrow> int" where
  "packet_length commandLength = 2 + - ((- commandLength) div 8)"

definition command_header :: "u64 \<Rightarrow> u64 \<Rightarrow> u64" where
  "command_header sendPortID sendSlaveID = push_bit 36 8 + push_bit 59 sendPortID + push_bit 54 sendSlaveID"

text \<open>
  A turn of the wait for the reply: milliseconds since the command went out, the result of
  \<open>recvReply\<close>, and the packet buffer it filled.
\<close>

datatype received = Recv_reply (elapsed: nat) (status: int) (packet: "u64 list")

fun recv_loop :: "nat \<Rightarrow> u64 \<Rightarrow> u64 \<Rightarrow> u64 \<Rightarrow> u16 \<Rightarrow> int \<Rightarrow> u8 list \<Rightarrow> received list \<Rightarrow> (int \<times> u8 list) run" where
  "recv_loop bits cardID sendPortID sendSlaveID sentSN bufferSize buffer [] = OutOfFuel"
| "recv_loop bits cardID sendPortID sendSlaveID sentSN bufferSize buffer (r # rs) =
     (let again = (\<lambda>port buf. recv_loop bits cardID port sendSlaveID sentSN bufferSize buf rs) in
      if elapsed r > CommandTimeout then Return (0, buffer)
      else if status r < 0 then again sendPortID buffer
      else
        let p = packet r;
            recvPortID = drop_bit 59 (p ! 0);
            recvSlaveID = drop_bit 54 (p ! 0) AND 0x1F;
            sendPortID' = push_bit bits cardID OR sendPortID;
            recvPortID' = push_bit bits cardID OR recvPortID
        in if sendPortID' \<noteq> recvPortID' \<or> sendSlaveID \<noteq> recvSlaveID then again sendPortID' buffer
        else
          let replyLength = sint (ucast (p ! 1) :: 32 word) in
          if replyLength < 2 then again sendPortID' buffer
          else if replyLength > 8 * (MAX_PACKET_WORDS - 2) then again sendPortID' buffer
          else if replyLength > bufferSize then again sendPortID' buffer
          else
            case copy_words buffer (bytes_of (drop 2 p)) 0 (nat replyLength) of
              None \<Rightarrow> Fault
            | Some buffer' \<Rightarrow>
                if sentSN \<noteq> sequence_number (buffer' ! 0) (buffer' ! 1) then again sendPortID' buffer'
                else Return (replyLength, buffer'))"

text \<open>
  The packet sent is its two header words, the command and the length in words. \<open>buffer\<close> is all of
  the memory behind the pointer; \<open>bufferSize\<close> is what the caller says it is.
\<close>

definition daq_sendCommand ::
    "daqfs \<Rightarrow> int \<Rightarrow> int \<Rightarrow> u8 list \<Rightarrow> int \<Rightarrow> int \<Rightarrow> received list \<Rightarrow>
     ((u64 \<times> u64 \<times> u64 \<times> u8 list \<times> int) option \<times> int \<times> u8 list) run" where
  "daq_sendCommand s portID slaveID buffer bufferSize commandLength rs =
     (let bits = daqCardPortBits s;
          sendPortID = (word_of_int portID :: u64); sendSlaveID = (word_of_int slaveID :: u64);
          cardID = drop_bit bits sendPortID; sendPortID = take_bit bits sendPortID
      in
      if unat cardID \<ge> length (cards s) then Return (None, -1, buffer)
      else if length buffer < 2 then Fault
      else
        let sentSN = sequence_number (buffer ! 0) (buffer ! 1) in
        if packet_length commandLength > MAX_PACKET_WORDS then Return (None, -1, buffer)
        else if commandLength < 0 \<or> commandLength > int (length buffer) then Fault
        else
          let sent = (cardID, command_header sendPortID sendSlaveID, word_of_int commandLength,
                take (nat commandLength) buffer, packet_length commandLength) in
          case recv_loop bits cardID sendPortID sendSlaveID sentSN bufferSize buffer rs of
            Return (n, buffer') \<Rightarrow> Return (Some sent, n, buffer')
          | Fault \<Rightarrow> Fault
          | OutOfFuel \<Rightarrow> OutOfFuel)"

section \<open>Status of the cards\<close>

text \<open>Shifts are undefined (\<open>None\<close>) from the width of their left operand on.\<close>

definition portsPerCard :: "daqfs \<Rightarrow> nat" where "portsPerCard s = 2 ^ daqCardPortBits s"

definition daq_getPortUp :: "daqfs \<Rightarrow> u64 option" where
  "daq_getPortUp s =
     fold (\<lambda>i r. case r of None \<Rightarrow> None
            | Some retval \<Rightarrow>
                if i * portsPerCard s < 64 then Some (retval OR push_bit (i * portsPerCard s) (portUp (cards s ! i)))
                else None)
       [0..<length (cards s)] (Some 0)"

text \<open>The temperature is 16 bits wide, is shifted as a signed \<^verbatim>\<open>int\<close> and then extended.\<close>

definition daq_getDAQTemp :: "daqfs \<Rightarrow> u64 option" where
  "daq_getDAQTemp s =
     fold (\<lambda>i r. case r of None \<Rightarrow> None
            | Some retval \<Rightarrow>
                let temp = (ucast (daqTemp (cards s ! i)) :: u16) in
                if i * 16 < 32 then Some (retval OR scast (push_bit (i * 16) (ucast temp :: 32 word))) else None)
       [0..<length (cards s)] (Some 0)"

definition daq_getPortCounts :: "daqfs \<Rightarrow> int \<Rightarrow> int \<Rightarrow> u64" where
  "daq_getPortCounts s port whichCount =
     (let cardID = port div 2 ^ daqCardPortBits s; port = port mod 2 ^ daqCardPortBits s in
      if cardID < 0 \<or> cardID \<ge> int (length (cards s)) then -1
      else portCounts (cards s ! nat cardID) port whichCount)"

definition daq_setSorter :: "u32 \<Rightarrow> int" where "daq_setSorter mode = -1"
definition daq_setCoincidenceTrigger :: "u8 list \<Rightarrow> int" where "daq_setCoincidenceTrigger config = -1"
definition daq_setGateEnable :: "u32 \<Rightarrow> int" where "daq_setGateEnable mode = -1"

section \<open>Headers\<close>

lemma and_masks:
  fixes w :: u64
  shows "w AND 0x7FFF = take_bit 15 w" and "w AND 0xFFFF = take_bit 16 w" and "w AND 0xFFFFFFFFF = take_bit 36 w"
  by (simp_all add: take_bit_eq_mask mask_eq_exp_minus_1)

lemma no_high_bit: "take_bit k w = w \<Longrightarrow> k \<le> n \<Longrightarrow> \<not> bit (w :: u64) n"
  using bit_take_bit_iff [of k w n] by simp

lemma header_fields:
  fixes w i :: u64
  assumes "take_bit 15 w = w" and "take_bit 36 i = i"
  shows "take_bit 36 (push_bit 36 w OR i) = i" and "take_bit 15 (drop_bit 36 (push_bit 36 w OR i)) = w"
proof -
  show "take_bit 36 (push_bit 36 w OR i) = i"
  proof (rule bit_word_eqI)
    fix n assume "n < LENGTH(64)"
    show "bit (take_bit 36 (push_bit 36 w OR i)) n = bit i n"
      using no_high_bit [OF assms(2), of n] by (cases "n < 36") (simp_all add: bit_take_bit_iff bit_or_iff bit_push_bit_iff)
  qed
  show "take_bit 15 (drop_bit 36 (push_bit 36 w OR i)) = w"
  proof (rule bit_word_eqI)
    fix n assume "n < LENGTH(64)"
    show "bit (take_bit 15 (drop_bit 36 (push_bit 36 w OR i))) n = bit w n"
      using no_high_bit [OF assms(2), of "36 + n"] no_high_bit [OF assms(1), of n]
      by (cases "n < 15") (simp_all add: bit_take_bit_iff bit_drop_bit_eq bit_or_iff bit_push_bit_iff)
  qed
qed

lemma of_nat_fields:
  fixes w :: u64
  assumes "m < 2 ^ 15" and "w = of_nat m"
  shows "w AND 0x18000 = 0" and "take_bit 16 w = w" and "take_bit 15 w = w" and "unat w = m"
proof -
  show "unat w = m" using assms by (simp add: unsigned_of_nat take_bit_nat_eq_self)
  have "take_bit 15 w = of_nat (take_bit 15 m)" using assms(2) by (simp add: take_bit_of_nat)
  then show w15: "take_bit 15 w = w" using assms by (simp add: take_bit_nat_eq_self)
  have "w AND 0x18000 = (w AND 0x7FFF) AND 0x18000" using w15 and_masks(1) [of w] by simp
  also have "\<dots> = 0" by (simp add: and.assoc)
  finally show "w AND 0x18000 = 0" .
  have "take_bit 16 w = take_bit 16 (take_bit 15 w)" using w15 by simp
  also have "\<dots> = take_bit 15 w" by (simp only: take_bit_take_bit) simp
  finally show "take_bit 16 w = w" using w15 by simp
qed

text \<open>A header made for \<open>m\<close> words and a count word, read back.\<close>

lemma made_frame:
  fixes i :: u64
  assumes "m < 2 ^ 15" and "take_bit 36 i = i" and "m = n + 2" and "f = (push_bit 36 (of_nat m) OR i) # of_nat n # evs @ tail"
    and "length evs = n"
  shows "parseDataFrame f" and "view f = (push_bit 36 (of_nat m) OR i) # of_nat n # evs" and "getFrameID f = i"
    and "\<not> getFrameLost f"
proof -
  let ?h = "push_bit 36 (of_nat m) OR i"
  have n: "n < 2 ^ 15" using assms(1,3) by simp
  note hm = header_fields [OF of_nat_fields(3) [OF assms(1) refl] assms(2)]
  show "parseDataFrame f"
    unfolding parseDataFrame_def Let_def assms(4)
    using hm(2) of_nat_fields(2) [OF n refl] assms(3) by (simp add: and_masks)
  have "header_size ?h = m"
    unfolding header_size_def and_masks hm(2) by (rule of_nat_fields(4) [OF assms(1) refl])
  then show "view f = ?h # of_nat n # evs" using assms(3-5) by (simp add: view_def)
  show "getFrameID f = i" using hm(1) assms(4) by (simp add: getFrameID_def and_masks)
  show "\<not> getFrameLost f" using of_nat_fields(1) [OF n refl] assms(4) by (simp add: getFrameLost_def)
qed

section \<open>Correctness of the worker\<close>

definition frame_number :: "u64 list \<Rightarrow> u64" where
  "frame_number f = f ! 0 AND 0xFFFFFFFFF"

lemma wait_frame_some [simp]: "wait_frame k (Some f) i cs = (k - 1, Some f, cs)"
  by (cases k) simp_all

lemma match_frames_equal:
  assumes "f0 \<noteq> []" and "f1 \<noteq> []" and "frame_number f0 = frame_number f1"
  shows "match_frames k (Some f0) (Some f1) cs = Return (k - 1 - 1 - 1, frame_number f0, Some f0, Some f1, cs)"
  using assms by (subst match_frames.simps) (simp add: frame_number_def)

lemma merge_frames_spec:
  assumes "readable f0" and "readable f1" and "(f0 ! 1 OR f1 ! 1) AND 0x10000 = 0"
    and "nEvents_of f0 + nEvents_of f1 + 2 \<le> MaxRawDataFrameSize" and "take_bit 36 i = i"
    and "length dst = MaxRawDataFrameSize"
  shows "\<exists>F. merge_frames bits active i f0 f1 dst = Some F \<and> length F = MaxRawDataFrameSize \<and> parseDataFrame F \<and>
    getFrameID F = i \<and> \<not> getFrameLost F \<and>
    drop 2 (view F) = map (\<lambda>e. e OR cardsPrefix bits (active ! 0)) (events_of f0) @
      map (\<lambda>e. e OR cardsPrefix bits (active ! 1)) (events_of f1)"
proof -
  let ?n = "nEvents_of f0 + nEvents_of f1"
  let ?evs = "map (\<lambda>e. e OR cardsPrefix bits (active ! 0)) (events_of f0) @
      map (\<lambda>e. e OR cardsPrefix bits (active ! 1)) (events_of f1)"
  let ?F = "(push_bit 36 (of_nat (?n + 2)) OR i) # of_nat ?n # ?evs @ drop (?n + 2) dst"
  have len: "length (events_of f0) = nEvents_of f0" "length (events_of f1) = nEvents_of f1"
    using assms(1,2) by (simp_all add: events_of_def readable_def)
  then have evs: "length ?evs = ?n" by simp
  have "merge_frames bits active i f0 f1 dst = Some ?F"
    using assms len by (simp add: merge_frames_def readable_def overlay_def Let_def del: push_bit_of_nat)
  moreover have "?n + 2 < 2 ^ 15" using assms(4) by (simp add: MaxRawDataFrameSize_def)
  note made_frame [OF this assms(5) refl refl evs, of "drop (?n + 2) dst"]
  moreover have "length ?F = MaxRawDataFrameSize" using evs assms(4,6) by simp
  ultimately show ?thesis by simp
qed

text \<open>
  C12: When the next frames of two active cards have the same number, fit together into one frame
  and are not marked lost, and the ring has room, a turn of the worker publishes exactly one frame
  behind those in the ring: it passes the client's size check, has that number, and holds the
  events of the first card and then those of the second, each tagged with its card.
\<close>

theorem merges_equal_frames:
  assumes "acquisitionMode (base s) \<noteq> 0" and "cards s = [c0, c1]"
    and "nextFrames c0 = Some f0 # r0" and "nextFrames c1 = Some f1 # r1" and "readable f0" and "readable f1"
    and "frame_number f0 = frame_number f1" and "(f0 ! 1 OR f1 ! 1) AND 0x10000 = 0"
    and "nEvents_of f0 + nEvents_of f1 + 2 \<le> MaxRawDataFrameSize" and "minimumFrameID (base s) \<le> frame_number f0"
    and "ring_ok (base s)" and "length (ring_contents (base s)) < QSize"
    and "\<forall>i. length (shm (base s) i) = MaxRawDataFrameSize"
  shows "\<exists>k' s' F. daq_turn [0, 1] k s = Return (k', s') \<and>
    cards s' = [c0\<lparr>nextFrames := r0\<rparr>, c1\<lparr>nextFrames := r1\<rparr>] \<and>
    ring_contents (base s') = ring_contents (base s) @ [F] \<and> parseDataFrame F \<and> getFrameID F = frame_number f0 \<and>
    drop 2 (view F) = map (\<lambda>e. e OR cardsPrefix (daqCardPortBits s) 0) (events_of f0) @
      map (\<lambda>e. e OR cardsPrefix (daqCardPortBits s) 1) (events_of f1)"
proof -
  obtain i where slot: "write_slot (base s) = Some i" using room_slot assms(11,12) by blast
  have "take_bit 36 (frame_number f0) = frame_number f0" by (simp add: frame_number_def and_masks)
  then obtain F where F: "merge_frames (daqCardPortBits s) [0, 1] (frame_number f0) f0 f1 (shm (base s) i) = Some F"
    and good: "parseDataFrame F" "getFrameID F = frame_number f0" "\<not> getFrameLost F"
      "drop 2 (view F) = map (\<lambda>e. e OR cardsPrefix (daqCardPortBits s) 0) (events_of f0) @
        map (\<lambda>e. e OR cardsPrefix (daqCardPortBits s) 1) (events_of f1)"
    using merge_frames_spec [OF assms(5,6,8,9), of "frame_number f0" "shm (base s) i" "daqCardPortBits s" "[0, 1]"]
      assms(13) by auto
  have ne: "f0 \<noteq> []" "f1 \<noteq> []" using assms(5,6) by (auto simp: readable_def)
  let ?cs = "[c0\<lparr>nextFrames := r0\<rparr>, c1\<lparr>nextFrames := r1\<rparr>]"
  have "two_cards k (daqCardPortBits s) [0, 1] (Some (shm (base s) i)) [c0, c1] = Return (Got (k - 1 - 1 - 1) ?cs (Some F))"
    using F match_frames_equal [OF ne assms(7), of k ?cs] assms(3,4)
    by (simp add: two_cards_def next_frame_def)
  then have turn: "daq_turn [0, 1] k s =
      Return (k - 1 - 1 - 1, s\<lparr>cards := ?cs, base := advance_write (fill_slot i F (base s))\<rparr>)"
    using slot good assms(1,2,10) by (simp add: daq_turn_def Let_def)
  have "ring_contents (advance_write (fill_slot i F (base s))) = ring_contents (base s) @ [F]"
    using push_frame_ok [OF assms(11), of F] assms(12) slot by (simp add: push_frame_def)
  with turn good show ?thesis by auto
qed

definition example_card :: "u64 list option list \<Rightarrow> card" where
  "example_card fs = \<lparr>nextFrames = fs, portUp = 1, daqTemp = 0, portCounts = (\<lambda>_ _. 0), acquisitionOn = True\<rparr>"

definition example_daqfs :: "card list \<Rightarrow> daqfs" where
  "example_daqfs cs =
     daq_startAcquisition 1 (createDAQFrameServer cs 2 (\<lambda>i. replicate MaxRawDataFrameSize 0) 0)"

lemma example_daqfs_simps:
  "acquisitionMode (base (example_daqfs cs)) = 1" "minimumFrameID (base (example_daqfs cs)) = 0"
  "daqCardPortBits (example_daqfs cs) = 2" "shm (base (example_daqfs cs)) i = replicate MaxRawDataFrameSize 0"
  "cards (example_daqfs cs) = map (\<lambda>c. c\<lparr>acquisitionOn := True\<rparr>) cs"
  "ring_ok (base (example_daqfs cs))" "ring_contents (base (example_daqfs cs)) = []"
  using ring_ok_start [of 1 "stopAcquisition (fserver_new (\<lambda>i. replicate MaxRawDataFrameSize 0) 0)"]
  by (simp_all add: example_daqfs_def daq_startAcquisition_def daq_stopAcquisition_def createDAQFrameServer_def
      set_acquisition_def Let_def)
    (simp_all add: startAcquisition_def stopAcquisition_def startWorker_def stopWorker_def fserver_new_def Let_def)

lemma example_slot: "write_slot (base (example_daqfs cs)) \<noteq> None"
  using room_slot [of "base (example_daqfs cs)"]
  by (auto simp: example_daqfs_simps MaxRawDataFrameQueueSize_def)

theorem merges_equal_frames_witness:
  "\<exists>k' (s' :: daqfs) F.
     daq_turn [0, 1] 7 (example_daqfs [example_card [Some [0x3000000005, 1, 11]], example_card [Some [0x3000000005, 1, 22]]]) =
       Return (k', s') \<and>
     ring_contents (base s') = [F] \<and> drop 2 (view F) = [11, 22 OR push_bit 61 1]"
proof -
  let ?s = "example_daqfs [example_card [Some [0x3000000005, 1, 11]], example_card [Some [0x3000000005, 1, 22]]]"
  obtain k' s' F where turn: "daq_turn [0, 1] 7 ?s = Return (k', s')"
    and cont: "ring_contents (base s') = ring_contents (base ?s) @ [F]"
    and evs: "drop 2 (view F) = map (\<lambda>e. e OR cardsPrefix (daqCardPortBits ?s) 0) (events_of [0x3000000005, 1, 11]) @
      map (\<lambda>e. e OR cardsPrefix (daqCardPortBits ?s) 1) (events_of [0x3000000005, 1, 22])"
    using merges_equal_frames [of ?s "(example_card [Some [0x3000000005, 1, 11]])\<lparr>acquisitionOn := True\<rparr>"
        "(example_card [Some [0x3000000005, 1, 22]])\<lparr>acquisitionOn := True\<rparr>"
        "[0x3000000005, 1, 11]" "[]" "[0x3000000005, 1, 22]" "[]" 7]
    by (simp add: example_daqfs_simps example_card_def readable_def nEvents_of_def frame_number_def
        MaxRawDataFrameSize_def MaxRawDataFrameQueueSize_def) blast
  have "drop 2 (view F) = [11, 22 OR push_bit 61 1]"
    unfolding evs by (simp add: example_daqfs_simps events_of_def nEvents_of_def cardsPrefix_def)
  with turn cont show ?thesis by (auto simp: example_daqfs_simps)
qed

text \<open>
  Stopping the acquisition while the worker waits for the slower of two cards makes it
  dereference \<^verbatim>\<open>NULL\<close>: if the cards' frames have different numbers and the card that is behind gives
  nothing more, then at whatever read of \<open>die\<close> the stop is seen, the turn ends in the invalid
  access, because the loops stop waiting but the code after them reads the missing frame.
\<close>

theorem stop_while_waiting_faults:
  assumes "acquisitionMode (base s) \<noteq> 0" and "cards s = [c0, c1]"
    and "nextFrames c0 = [Some f0]" and "nextFrames c1 = Some f1 # r1" and "f0 \<noteq> []" and "f1 \<noteq> []"
    and "frame_number f0 < frame_number f1" and "write_slot (base s) \<noteq> None"
  shows "daq_turn [0, 1] k s = Fault"
proof -
  let ?cs = "[c0\<lparr>nextFrames := []\<rparr>, c1\<lparr>nextFrames := r1\<rparr>]"
  have starve: "wait_frame k None 0 ?cs = (0, None, ?cs)" for k
    by (induction k) (simp_all add: next_frame_def)
  have "\<not> frame_number f1 < frame_number f0" using assms(7) by (rule less_not_sym)
  then have "match_frames k (Some f0) (Some f1) ?cs = Return (0, frame_number f0, None, Some f1, ?cs)"
    using assms(5-7) starve by (subst match_frames.simps) (simp add: frame_number_def next_frame_def Let_def)
  then have "two_cards k (daqCardPortBits s) [0, 1] (Some d) [c0, c1] = Fault" for d
    using assms(3,4) by (simp add: two_cards_def next_frame_def)
  then show ?thesis using assms(1,2,8) by (auto simp: daq_turn_def Let_def)
qed

theorem stop_while_waiting_faults_witness:
  "daq_turn [0, 1] 1000 (example_daqfs [example_card [Some [0x2000000004, 0]], example_card [Some [0x2000000005, 0]]]) = Fault"
  by (rule stop_while_waiting_faults [where ?c0.0 = "example_card [Some [0x2000000004, 0]]\<lparr>acquisitionOn := True\<rparr>"
        and ?c1.0 = "example_card [Some [0x2000000005, 0]]\<lparr>acquisitionOn := True\<rparr>" and ?f0.0 = "[0x2000000004, 0]" and ?f1.0 = "[0x2000000005, 0]" and ?r1.0 = "[]"])
    (simp_all only: example_slot, simp_all add: example_daqfs_simps example_card_def frame_number_def)

end
