(* ===== verification/DaqClient.thy ===== *)
theory DaqClient
  imports DAQFrameServer
begin

text \<open>
  \<open>Client\<close> (\<^verbatim>\<open>external/daqd/src/Client.cpp\<close>): one request of a client of the acquisition
  daemon. What the calls of \<^verbatim>\<open>recv\<close> deliver, the results of the calls of \<^verbatim>\<open>send\<close> and what
  the front end answers are inputs. Values are read from the buffer in the byte order of the
  machine, least significant byte first.
\<close>

section \<open>The frame server behind the pointer\<close>

datatype frame_server = UDP udp | DAQ daqfs

definition on_base :: "(fserver \<Rightarrow> fserver) \<Rightarrow> frame_server \<Rightarrow> frame_server" where
  "on_base f srv = (case srv of UDP u \<Rightarrow> UDP (u\<lparr>fsv := f (fsv u)\<rparr>) | DAQ d \<Rightarrow> DAQ (d\<lparr>base := f (base d)\<rparr>))"

definition base_of :: "frame_server \<Rightarrow> fserver" where
  "base_of srv = (case srv of UDP u \<Rightarrow> fsv u | DAQ d \<Rightarrow> base d)"

definition srv_startAcquisition :: "int \<Rightarrow> frame_server \<Rightarrow> frame_server" where
  "srv_startAcquisition mode srv =
     (case srv of UDP u \<Rightarrow> on_base (startAcquisition mode) srv | DAQ d \<Rightarrow> DAQ (daq_startAcquisition mode d))"

definition srv_stopAcquisition :: "frame_server \<Rightarrow> frame_server" where
  "srv_stopAcquisition srv =
     (case srv of UDP u \<Rightarrow> on_base stopAcquisition srv | DAQ d \<Rightarrow> DAQ (daq_stopAcquisition d))"

definition srv_getPortUp :: "frame_server \<Rightarrow> u64 option" where
  "srv_getPortUp srv = (case srv of UDP u \<Rightarrow> Some getPortUp_udp | DAQ d \<Rightarrow> daq_getPortUp d)"

definition srv_getDAQTemp :: "frame_server \<Rightarrow> u64 option" where
  "srv_getDAQTemp srv = (case srv of UDP u \<Rightarrow> Some getDAQTemp_udp | DAQ d \<Rightarrow> daq_getDAQTemp d)"

definition srv_getPortCounts :: "frame_server \<Rightarrow> int \<Rightarrow> int \<Rightarrow> u64" where
  "srv_getPortCounts srv port which =
     (case srv of UDP u \<Rightarrow> getPortCounts_udp port which | DAQ d \<Rightarrow> daq_getPortCounts d port which)"

definition srv_setSorter :: "frame_server \<Rightarrow> u32 \<Rightarrow> int" where
  "srv_setSorter srv mode = (case srv of UDP u \<Rightarrow> setSorter mode | DAQ d \<Rightarrow> daq_setSorter mode)"

definition srv_setCoincidenceTrigger :: "frame_server \<Rightarrow> u8 list \<Rightarrow> int" where
  "srv_setCoincidenceTrigger srv config =
     (case srv of UDP u \<Rightarrow> setCoincidenceTrigger config | DAQ d \<Rightarrow> daq_setCoincidenceTrigger config)"

definition srv_setGateEnable :: "frame_server \<Rightarrow> u32 \<Rightarrow> int" where
  "srv_setGateEnable srv mode = (case srv of UDP u \<Rightarrow> setGateEnable mode | DAQ d \<Rightarrow> daq_setGateEnable mode)"

text \<open>What the front end does during a command, for either kind of server.\<close>

record front_end =
  udpWaits :: "wait_result list"
  daqReceives :: "received list"

definition srv_sendCommand ::
    "frame_server \<Rightarrow> front_end \<Rightarrow> int \<Rightarrow> int \<Rightarrow> u8 list \<Rightarrow> int \<Rightarrow> int \<Rightarrow> (int \<times> u8 list) run" where
  "srv_sendCommand srv fe portID slaveID buffer bufferSize commandLength =
     (case srv of
        UDP u \<Rightarrow> (case udp_sendCommand buffer (udpWaits fe) of
            Return (n, buffer') \<Rightarrow> Return (int n, buffer') | Fault \<Rightarrow> Fault | OutOfFuel \<Rightarrow> OutOfFuel)
      | DAQ d \<Rightarrow> (case daq_sendCommand d portID slaveID buffer bufferSize commandLength (daqReceives fe) of
            Return (sent, n, buffer') \<Rightarrow> Return (n, buffer') | Fault \<Rightarrow> Fault | OutOfFuel \<Rightarrow> OutOfFuel))"

section \<open>Requests and replies\<close>

definition commandAcqOnOff :: u16 where "commandAcqOnOff = 0x01"
definition commandGetDataFrameSharedMemoryName :: u16 where "commandGetDataFrameSharedMemoryName = 0x02"
definition commandGetDataFrameWriteReadPointer :: u16 where "commandGetDataFrameWriteReadPointer = 0x03"
definition commandSetDataFrameReadPointer :: u16 where "commandSetDataFrameReadPointer = 0x04"
definition commandToFrontEnd :: u16 where "commandToFrontEnd = 0x05"
definition commandGetPortUp :: u16 where "commandGetPortUp = 0x06"
definition commandGetPortCounts :: u16 where "commandGetPortCounts = 0x07"
definition commandQuit :: u16 where "commandQuit = 0x08"
definition commandSetSorter :: u16 where "commandSetSorter = 0x09"
definition commandSetTrigger :: u16 where "commandSetTrigger = 0x10"
definition commandSetIdleTimeCalculation :: u16 where "commandSetIdleTimeCalculation = 0x11"
definition commandSetGateEnable :: u16 where "commandSetGateEnable = 0x12"
definition commandSetMinimumFrameID :: u16 where "commandSetMinimumFrameID = 0x13"
definition commandGetDAQTemp :: u16 where "commandGetDAQTemp = 0x14"

lemmas command_values =
  commandAcqOnOff_def commandGetDataFrameSharedMemoryName_def commandGetDataFrameWriteReadPointer_def
  commandSetDataFrameReadPointer_def commandToFrontEnd_def commandGetPortUp_def commandGetPortCounts_def
  commandQuit_def commandSetSorter_def commandSetTrigger_def commandSetIdleTimeCalculation_def
  commandSetGateEnable_def commandSetMinimumFrameID_def commandGetDAQTemp_def

text \<open>The structures sent back, with the sizes the compiler gives them (padding included).\<close>

datatype message =
    AcqReply u16
  | PointersReply u16 u32 u32 u32
  | PointerEcho u32
  | NameHeader u16 u64 u64 u64
  | RawBytes "u8 list"
  | WordReply u16 u64
  | CountsReply u16 u64 u64 u64
  | StatusReply u32

fun msg_size :: "message \<Rightarrow> nat" where
  "msg_size (AcqReply _) = 2"
| "msg_size (PointersReply _ _ _ _) = 16"
| "msg_size (PointerEcho _) = 4"
| "msg_size (NameHeader _ _ _ _) = 32"
| "msg_size (RawBytes bs) = length bs"
| "msg_size (WordReply _ _) = 16"
| "msg_size (CountsReply _ _ _ _) = 32"
| "msg_size (StatusReply _) = 4"

text \<open>The connection: results of the sends to come (all bytes, at the end) and what was sent.\<close>

record conn_out =
  sendStatuses :: "int list"
  outgoing :: "message list"

definition send_msg :: "message \<Rightarrow> conn_out \<Rightarrow> int \<times> conn_out" where
  "send_msg m c =
     (case sendStatuses c of
        [] \<Rightarrow> (int (msg_size m), c\<lparr>outgoing := outgoing c @ [m]\<rparr>)
      | st # sts \<Rightarrow> (st, c\<lparr>sendStatuses := sts, outgoing := outgoing c @ [m]\<rparr>))"

text \<open>\<^verbatim>\<open>status < sizeof(...)\<close> compares as \<^verbatim>\<open>size_t\<close>, so a status of -1 is a very large number.\<close>

definition send_failed :: "int \<Rightarrow> nat \<Rightarrow> bool" where
  "send_failed st n \<longleftrightarrow> (word_of_int st :: u64) < of_nat n"

definition send_reply :: "message \<Rightarrow> conn_out \<Rightarrow> int \<times> conn_out" where
  "send_reply m c = (let (st, c') = send_msg m c in (if send_failed st (msg_size m) then -1 else 0, c'))"

text \<open>The value of \<open>n\<close> bytes behind the header of the request.\<close>

definition arg_word :: "nat \<Rightarrow> u8 list \<Rightarrow> u64" where
  "arg_word n sb = le64 (take n (drop 4 sb))"

section \<open>The operations\<close>

type_synonym action = "(int \<times> frame_server \<times> conn_out) run"

definition replying :: "frame_server \<Rightarrow> int \<times> conn_out \<Rightarrow> action" where
  "replying srv r = Return (fst r, srv, snd r)"

definition doAcqOnOff :: "u8 list \<Rightarrow> frame_server \<Rightarrow> conn_out \<Rightarrow> action" where
  "doAcqOnOff sb srv c =
     (let srv' = (if arg_word 2 sb \<noteq> 0 then srv_startAcquisition 1 srv else srv_stopAcquisition srv)
      in replying srv' (send_reply (AcqReply 0) c))"

definition doGetDataFrameWriteReadPointer :: "frame_server \<Rightarrow> conn_out \<Rightarrow> action" where
  "doGetDataFrameWriteReadPointer srv c =
     replying srv (send_reply (PointersReply 16 (of_nat (getDataFrameWritePointer (base_of srv)))
       (of_nat (getDataFrameReadPointer (base_of srv))) (if amAcquiring (base_of srv) then 1 else 0)) c)"

definition doSetDataFrameReadPointer :: "u8 list \<Rightarrow> frame_server \<Rightarrow> conn_out \<Rightarrow> action" where
  "doSetDataFrameReadPointer sb srv c =
     (let readPointer = (ucast (arg_word 4 sb) :: u32)
      in replying (on_base (setDataFrameReadPointer (unat readPointer)) srv) (send_reply (PointerEcho readPointer) c))"

definition doGetDataFrameSharedMemoryName :: "u8 list \<Rightarrow> frame_server \<Rightarrow> conn_out \<Rightarrow> action" where
  "doGetDataFrameSharedMemoryName name srv c =
     (let header = NameHeader (of_nat (32 + length name)) (of_nat (8 * MaxRawDataFrameSize)) 0 0;
          (st, c1) = send_reply header c
      in if st = -1 then Return (-1, srv, c1) else replying srv (send_reply (RawBytes name) c1))"

definition doGetPortUp :: "frame_server \<Rightarrow> conn_out \<Rightarrow> action" where
  "doGetPortUp srv c =
     (case srv_getPortUp srv of None \<Rightarrow> Fault | Some w \<Rightarrow> replying srv (send_reply (WordReply 16 w) c))"

definition doGetDAQTemp :: "frame_server \<Rightarrow> conn_out \<Rightarrow> action" where
  "doGetDAQTemp srv c =
     (case srv_getDAQTemp srv of None \<Rightarrow> Fault | Some w \<Rightarrow> replying srv (send_reply (WordReply 16 w) c))"

definition doGetPortCounts :: "u8 list \<Rightarrow> frame_server \<Rightarrow> conn_out \<Rightarrow> action" where
  "doGetPortCounts sb srv c =
     (let portID = uint (arg_word 2 sb)
      in replying srv (send_reply (CountsReply 32 (srv_getPortCounts srv portID 0)
           (srv_getPortCounts srv portID 1) (srv_getPortCounts srv portID 2)) c))"

definition doSetSorter :: "u8 list \<Rightarrow> frame_server \<Rightarrow> conn_out \<Rightarrow> action" where
  "doSetSorter sb srv c =
     (let ignored = srv_setSorter srv (ucast (arg_word 4 sb)) in replying srv (send_reply (StatusReply 0) c))"

definition doSetTrigger :: "u8 list \<Rightarrow> frame_server \<Rightarrow> conn_out \<Rightarrow> action" where
  "doSetTrigger sb srv c =
     (let reply = srv_setCoincidenceTrigger srv (take 152 (drop 4 sb))
      in replying srv (send_reply (StatusReply (word_of_int reply)) c))"

definition doSetIdleTimeCalculation :: "u8 list \<Rightarrow> frame_server \<Rightarrow> conn_out \<Rightarrow> action" where
  "doSetIdleTimeCalculation sb srv c =
     replying (on_base (\<lambda>s. snd (setIdleTimeCalculation (ucast (arg_word 4 sb)) s)) srv) (send_reply (StatusReply 0) c)"

definition doSetGateEnable :: "u8 list \<Rightarrow> frame_server \<Rightarrow> conn_out \<Rightarrow> action" where
  "doSetGateEnable sb srv c =
     replying srv (send_reply (StatusReply (word_of_int (srv_setGateEnable srv (ucast (arg_word 4 sb))))) c)"

definition doSetMinimumFrameID :: "u8 list \<Rightarrow> frame_server \<Rightarrow> conn_out \<Rightarrow> action" where
  "doSetMinimumFrameID sb srv c =
     (let (reply, s) = setMinimumFrameID (arg_word 8 sb) (base_of srv)
      in replying (on_base (\<lambda>_. s) srv) (send_reply (StatusReply (word_of_int reply)) c))"

text \<open>
  The command and the reply share a buffer of 2048 bytes on the stack, whose old contents are
  \<open>stack\<close>. A negative reply length is sent as a size no array has.
\<close>

definition doCommandToFrontEnd :: "u8 list \<Rightarrow> u8 list \<Rightarrow> front_end \<Rightarrow> int \<Rightarrow> frame_server \<Rightarrow> conn_out \<Rightarrow> action" where
  "doCommandToFrontEnd stack sb fe commandLength srv c =
     (if commandLength < 0 \<or> commandLength > 2048 then Fault
      else
        let n = nat commandLength; buffer = take n (drop 4 sb) @ drop n stack;
            portID = sint (buffer ! 0); slaveID = sint (buffer ! 1)
        in case srv_sendCommand srv fe portID slaveID (drop 2 buffer) 2048 (commandLength - 2) of
          Return (replyLength, reply) \<Rightarrow>
            let (st, c1) = send_msg (AcqReply (word_of_int replyLength)) c in
            if replyLength < 0 \<or> replyLength > int (length reply) then Fault
            else let (st, c2) = send_msg (RawBytes (take (nat replyLength) reply)) c1 in Return (0, srv, c2)
        | Fault \<Rightarrow> Fault
        | OutOfFuel \<Rightarrow> OutOfFuel)"

section \<open>A request\<close>

text \<open>
  What the request finds: the bytes the two calls of \<^verbatim>\<open>recv\<close> give (none where it fails), the name
  of the shared memory, the front end, the old contents of the stack.
\<close>

record environment =
  recvHeader :: "u8 list"
  recvBody :: "u8 list"
  shmName :: "u8 list"
  frontEnd :: front_end
  stackBytes :: "u8 list"

definition put_bytes :: "nat \<Rightarrow> u8 list \<Rightarrow> u8 list \<Rightarrow> u8 list" where
  "put_bytes p bs sb = take p sb @ bs @ drop (p + length bs) sb"

definition do_action :: "environment \<Rightarrow> u16 \<Rightarrow> int \<Rightarrow> u8 list \<Rightarrow> frame_server \<Rightarrow> conn_out \<Rightarrow> action" where
  "do_action env type nBytesNext sb srv c =
     (if type = commandAcqOnOff then
        (case doAcqOnOff sb srv c of Return (st, srv', c') \<Rightarrow> Return (0, srv', c') | r \<Rightarrow> r)
      else if type = commandGetDataFrameSharedMemoryName then doGetDataFrameSharedMemoryName (shmName env) srv c
      else if type = commandGetDataFrameWriteReadPointer then doGetDataFrameWriteReadPointer srv c
      else if type = commandSetDataFrameReadPointer then doSetDataFrameReadPointer sb srv c
      else if type = commandToFrontEnd then doCommandToFrontEnd (stackBytes env) sb (frontEnd env) nBytesNext srv c
      else if type = commandGetPortUp then doGetPortUp srv c
      else if type = commandGetPortCounts then doGetPortCounts sb srv c
      else if type = commandSetSorter then doSetSorter sb srv c
      else if type = commandSetTrigger then doSetTrigger sb srv c
      else if type = commandSetIdleTimeCalculation then doSetIdleTimeCalculation sb srv c
      else if type = commandSetGateEnable then doSetGateEnable sb srv c
      else if type = commandSetMinimumFrameID then doSetMinimumFrameID sb srv c
      else if type = commandGetDAQTemp then doGetDAQTemp srv c
      else Return (0, srv, c))"

definition handleRequest :: "environment \<Rightarrow> u8 list \<Rightarrow> frame_server \<Rightarrow> conn_out \<Rightarrow> (int \<times> u8 list \<times> frame_server \<times> conn_out) run" where
  "handleRequest env sb srv c =
     (let sb1 = put_bytes 0 (recvHeader env) sb in
      if length (recvHeader env) \<noteq> 4 then Return (-1, sb1, srv, c)
      else
        let type = (ucast (le64 (take 2 sb1)) :: u16); len = uint (le64 (take 2 (drop 2 sb1))) in
        if len > int (length sb1) then Return (-1, sb1, srv, c)
        else
          let nBytesNext = len - 4; sb2 = (if nBytesNext > 0 then put_bytes 4 (recvBody env) sb1 else sb1) in
          if nBytesNext > 0 \<and> int (length (recvBody env)) \<noteq> nBytesNext then Return (-1, sb2, srv, c)
          else case do_action env type nBytesNext sb2 srv c of
            Return (actionStatus, srv', c') \<Rightarrow> Return (if actionStatus = -1 then -1 else 0, sb2, srv', c')
          | Fault \<Rightarrow> Fault
          | OutOfFuel \<Rightarrow> OutOfFuel)"

section \<open>Well-formed requests\<close>

lemma uint_take_bit_of_nat: "n < 2 ^ 16 \<Longrightarrow> uint (take_bit 16 (of_nat n :: u64)) = int n"
  by (simp add: take_bit_of_nat unsigned_of_nat take_bit_nat_eq_self)

text \<open>What the sockets deliver for a request of a type with its arguments.\<close>

definition request_header :: "u16 \<Rightarrow> u8 list \<Rightarrow> u8 list" where
  "request_header type body = take 2 (le_bytes (ucast type)) @ take 2 (le_bytes (of_nat (4 + length body)))"

definition delivers :: "environment \<Rightarrow> u16 \<Rightarrow> u8 list \<Rightarrow> bool" where
  "delivers env type body \<longleftrightarrow> recvHeader env = request_header type body \<and> recvBody env = body"

lemma handleRequest_request:
  assumes "delivers env type body" and "length sb = 16384" and "4 + length body \<le> 16384"
  shows "handleRequest env sb srv c =
    (let sb' = put_bytes 0 (request_header type body @ body) sb in
     case do_action env type (int (length body)) sb' srv c of
       Return (actionStatus, srv', c') \<Rightarrow> Return (if actionStatus = -1 then -1 else 0, sb', srv', c')
     | Fault \<Rightarrow> Fault | OutOfFuel \<Rightarrow> OutOfFuel)"
proof -
  let ?h = "request_header type body"
  let ?sb = "put_bytes 0 ?h sb"
  have len_h: "length ?h = 4" by (simp add: request_header_def)
  have "take 2 ?sb = take 2 (le_bytes (ucast type))" "take 2 (drop 2 ?sb) = take 2 (le_bytes (of_nat (4 + length body)))"
    by (simp_all add: put_bytes_def request_header_def)
  then have fields: "le64 (take 2 ?sb) = take_bit 16 (ucast type)"
    "le64 (take 2 (drop 2 ?sb)) = take_bit 16 (of_nat (4 + length body))"
    by (simp_all add: le64_take_bytes)
  have type: "(ucast (le64 (take 2 ?sb)) :: u16) = type"
    unfolding fields by (rule bit_word_eqI) (simp add: bit_simps)
  have len: "uint (le64 (take 2 (drop 2 ?sb))) = int (4 + length body)"
    unfolding fields by (rule uint_take_bit_of_nat) (use assms(3) in simp)
  have sb: "length ?sb = 16384" using assms(2) len_h by (simp add: put_bytes_def)
  have body: "put_bytes 4 body ?sb = put_bytes 0 (?h @ body) sb"
    using len_h assms(2) by (simp add: put_bytes_def add.commute)
  have none: "body = [] \<Longrightarrow> put_bytes 0 (?h @ body) sb = ?sb" by simp
  have rec: "recvHeader env = ?h" "recvBody env = body" using assms(1) by (simp_all add: delivers_def)
  show ?thesis
    unfolding handleRequest_def rec
    using assms(3) len_h type len sb body none by (cases "body = []") (simp_all add: Let_def split: run.split)
qed

lemma do_action_returns:
  assumes "type \<noteq> commandToFrontEnd" and "srv_getPortUp srv \<noteq> None" and "srv_getDAQTemp srv \<noteq> None"
  obtains st srv' c' where "do_action env type n sb srv c = Return (st, srv', c')"
proof -
  obtain up temp where "srv_getPortUp srv = Some up" "srv_getDAQTemp srv = Some temp" using assms(2,3) by auto
  then have "\<exists>r. do_action env type n sb srv c = Return r"
    using assms(1)
    by (auto simp: do_action_def replying_def doAcqOnOff_def doGetDataFrameWriteReadPointer_def
        doSetDataFrameReadPointer_def doGetDataFrameSharedMemoryName_def doGetPortUp_def doGetDAQTemp_def
        doGetPortCounts_def doSetSorter_def doSetTrigger_def doSetIdleTimeCalculation_def doSetGateEnable_def
        doSetMinimumFrameID_def Let_def split: prod.split)
  then show ?thesis using that by (auto elim: prod_cases3)
qed

section \<open>Correctness of requests\<close>

text \<open>
  Front-end commands are the only requests that can bring the daemon down: every complete request
  of another type, known or not and whatever its arguments and the results of the sends, is
  carried out and returns; a front-end command of more than 2048 bytes, which the length check of
  the request lets through, is copied past the end of the buffer on the stack.
\<close>

theorem request_outcome:
  assumes "delivers env type body" and "length sb = 16384" and "4 + length body \<le> 16384"
    and "srv_getPortUp srv \<noteq> None" and "srv_getDAQTemp srv \<noteq> None"
  shows "(type \<noteq> commandToFrontEnd \<longrightarrow> (\<exists>st sb' srv' c'. handleRequest env sb srv c = Return (st, sb', srv', c'))) \<and>
    (type = commandToFrontEnd \<and> 2048 < length body \<longrightarrow> handleRequest env sb srv c = Fault)"
proof -
  let ?sb = "put_bytes 0 (request_header type body @ body) sb"
  note unfold = handleRequest_request [OF assms(1-3), of srv c]
  have "\<exists>st sb' srv' c'. handleRequest env sb srv c = Return (st, sb', srv', c')" if "type \<noteq> commandToFrontEnd"
    using do_action_returns [OF that assms(4,5), of env "int (length body)" ?sb c] unfold
    by (metis (no_types, lifting) prod.case run.case(1))
  moreover have "handleRequest env sb srv c = Fault" if "type = commandToFrontEnd" "2048 < length body"
    unfolding unfold using that by (simp add: do_action_def command_values doCommandToFrontEnd_def)
  ultimately show ?thesis by blast
qed

definition example_env :: "u16 \<Rightarrow> u8 list \<Rightarrow> environment" where
  "example_env type body = \<lparr>recvHeader = request_header type body, recvBody = body, shmName = [47, 116],
     frontEnd = \<lparr>udpWaits = [], daqReceives = []\<rparr>, stackBytes = replicate 2048 0\<rparr>"

theorem request_outcome_witness:
  "handleRequest (example_env commandToFrontEnd (replicate 3000 0)) (replicate 16384 0)
     (UDP (example_udp [])) \<lparr>sendStatuses = [], outgoing = []\<rparr> = Fault"
proof -
  have "delivers (example_env commandToFrontEnd (replicate 3000 0)) commandToFrontEnd (replicate 3000 0)"
    by (simp only: delivers_def example_env_def environment.simps simp_thms)
  moreover have "length (replicate 16384 (0 :: u8)) = 16384" "4 + length (replicate 3000 (0 :: u8)) \<le> 16384"
    "2048 < length (replicate 3000 (0 :: u8))"
    by (simp_all only: length_replicate)
  moreover have "srv_getPortUp (UDP (example_udp [])) \<noteq> None" "srv_getDAQTemp (UDP (example_udp [])) \<noteq> None"
    by (simp_all add: srv_getPortUp_def srv_getDAQTemp_def)
  ultimately show ?thesis using request_outcome by blast
qed

end
