(* ===== verification/RawWriter.thy ===== *)
theory RawWriter
  imports FrameServer Bytes StdMap
begin

text \<open>
  \<open>write_raw\<close> (\<^verbatim>\<open>external/rawdata/tools/write_raw.cpp\<close>): the process that copies frames from
  the shared ring to the raw data file, block by block, with its accounting of lost frames and its
  index, and the pool that counts calibration events instead.

  Files are what has been written to them. A write that fails ends the program and has no model. The
  step values, floating-point numbers, are passed through as their 32 bits.
\<close>

section \<open>State\<close>

datatype FrameType =
  FRAME_TYPE_UNKNOWN | FRAME_TYPE_SOME_DATA | FRAME_TYPE_ZERO_DATA | FRAME_TYPE_SOME_LOST | FRAME_TYPE_ALL_LOST

record BlockHeader =
  step1 :: u32
  step2 :: u32
  wrPointer :: u32
  rdPointer :: u32
  blockType :: int

text \<open>A line of the index file and the two kinds of entries of the temporary one.\<close>

datatype index_line = IndexLine int int int int u32 u32
datatype temp_entry = StepStart u32 u32 int | StepStop int | EndOfData

record writer =
  dataFile :: "u8 list"
  indexFile :: "index_line list"
  tempFile :: "temp_entry list"
  stepEvents :: int
  stepMaxFrame :: int
  stepAllFrames :: int
  stepLostFramesN :: int
  stepLostFrames0 :: int
  minFrameID :: int
  maxFrameID :: int
  lastFrameID :: int
  stepFirstFrameID :: int
  stepStartOffset :: int
  lastFrameType :: FrameType

text \<open>The header of 64 bytes; \<open>start\<close> is the acquisition time as its 64 bits.\<close>

definition file_header :: "int \<Rightarrow> string \<Rightarrow> u64 \<Rightarrow> int \<Rightarrow> u64 list" where
  "file_header systemFrequency mode start triggerID =
     [ucast (word_of_int systemFrequency :: u32) OR push_bit 32 (if mode = ''qdc'' then 1 else 0), start,
      (if triggerID \<noteq> -1 then word_of_int (0x8000 + triggerID) else 0),
      (if mode = ''mixed'' then 1 else 0), 0, 0, 0, 0]"

definition writer_init :: "u64 list \<Rightarrow> writer" where
  "writer_init header = \<lparr>dataFile = bytes_of header, indexFile = [], tempFile = [], stepEvents = 0, stepMaxFrame = 0,
     stepAllFrames = 0, stepLostFramesN = 0, stepLostFrames0 = 0, minFrameID = 0x7FFFFFFFFFFFFFFF, maxFrameID = 0,
     lastFrameID = -1, stepFirstFrameID = -1, stepStartOffset = int (8 * length header),
     lastFrameType = FRAME_TYPE_UNKNOWN\<rparr>"

section \<open>A frame\<close>

definition append_words :: "u64 list \<Rightarrow> writer \<Rightarrow> writer" where
  "append_words ws s = s\<lparr>dataFile := dataFile s @ bytes_of ws\<rparr>"

definition lost_frame :: "int \<Rightarrow> u64 list" where
  "lost_frame frameID = [push_bit 36 2 OR word_of_int frameID, push_bit 16 1]"

definition account_gap :: "bool \<Rightarrow> int \<Rightarrow> writer \<Rightarrow> writer" where
  "account_gap acqStdMode frameID s =
     (let skippedFrames = frameID - lastFrameID s - 1;
          s1 = s\<lparr>stepAllFrames := stepAllFrames s + skippedFrames, stepLostFrames0 := stepLostFrames0 s + skippedFrames\<rparr>;
          s2 = (if acqStdMode then append_words (lost_frame (lastFrameID s + 1)) s1 else s1)
      in s2\<lparr>lastFrameType := FRAME_TYPE_ALL_LOST\<rparr>)"

definition account_frame :: "int \<Rightarrow> bool \<Rightarrow> writer \<Rightarrow> writer" where
  "account_frame nEvents frameLost s =
     (let s1 = s\<lparr>stepEvents := stepEvents s + nEvents,
            stepMaxFrame := (if stepMaxFrame s > nEvents then stepMaxFrame s else nEvents)\<rparr>;
          s2 = (if frameLost
                then if nEvents = 0 then s1\<lparr>stepLostFrames0 := stepLostFrames0 s1 + 1\<rparr>
                     else s1\<lparr>stepLostFramesN := stepLostFramesN s1 + 1\<rparr>
                else s1)
      in s2\<lparr>stepAllFrames := stepAllFrames s2 + 1\<rparr>)"

definition frame_type :: "bool \<Rightarrow> int \<Rightarrow> FrameType" where
  "frame_type frameLost nEvents =
     (if frameLost then if nEvents = 0 then FRAME_TYPE_ZERO_DATA else FRAME_TYPE_SOME_DATA
      else if nEvents = 0 then FRAME_TYPE_ALL_LOST else FRAME_TYPE_SOME_LOST)"

definition number_frame :: "bool \<Rightarrow> int \<Rightarrow> writer \<Rightarrow> writer" where
  "number_frame acqStdMode frameID s =
     (let s1 = (if stepFirstFrameID s = -1 then s\<lparr>stepFirstFrameID := frameID\<rparr> else s);
          s2 = (if frameID \<le> lastFrameID s1 then s1
                else if lastFrameID s1 \<ge> 0 \<and> frameID \<noteq> lastFrameID s1 + 1 then account_gap acqStdMode frameID s1
                else s1)
      in s2\<lparr>lastFrameID := frameID,
            minFrameID := (if minFrameID s2 < frameID then minFrameID s2 else frameID),
            maxFrameID := (if maxFrameID s2 > frameID then maxFrameID s2 else frameID)\<rparr>)"

text \<open>\<open>None\<close>: the size in the frame is larger than the frame, and the write reads past it.\<close>

definition write_frame :: "bool \<Rightarrow> int \<Rightarrow> frame \<Rightarrow> writer \<Rightarrow> writer option" where
  "write_frame acqStdMode type f s =
     (let s3 = number_frame acqStdMode (uint (getFrameID f)) s;
          nEvents = getNEvents f; frameLost = getFrameLost f;
          s4 = account_frame nEvents frameLost s3;
          frameType = frame_type frameLost nEvents
      in if type = 1 \<and> lastFrameType s4 = FRAME_TYPE_ZERO_DATA \<and> frameType = lastFrameType s4 then Some s4
         else if type = 1 \<and> lastFrameType s4 = FRAME_TYPE_ALL_LOST \<and> frameType = lastFrameType s4 then Some s4
         else
           let s5 = s4\<lparr>lastFrameType := frameType\<rparr> in
           if \<not> acqStdMode then Some s5
           else let frameSize = unat (getFrameSize f) in
             if frameSize > length f then None else Some (append_words (take frameSize f) s5))"

section \<open>Calibration events\<close>

type_synonym pool = "(u64, u32) std_map list"

definition event_hash :: "u64 \<Rightarrow> u32" where
  "event_hash w =
     (let g = getChannelID w in
      (g mod 64) XOR (drop_bit 6 g mod 64) XOR (drop_bit 12 g mod 32) XOR (drop_bit 17 g mod 32))"

definition event_words :: "frame \<Rightarrow> u64 list option" where
  "event_words f = (let n = nat (getNEvents f) in if n + 2 > length f then None else Some (take n (drop 2 f)))"

definition count_event :: "nat \<Rightarrow> nat \<Rightarrow> u64 \<Rightarrow> (u64, u32) std_map \<Rightarrow> (u64, u32) std_map" where
  "count_event n_cpu cpu_index w m =
     (if unat (event_hash w) mod n_cpu \<noteq> cpu_index then m
      else map_put w ((case map_find m w of None \<Rightarrow> 0 | Some c \<Rightarrow> c) + 1) m)"

text \<open>The threads work on maps of their own: their order does not matter.\<close>

definition processBatch :: "frame list \<Rightarrow> pool \<Rightarrow> pool option" where
  "processBatch fs cal =
     map_option (\<lambda>evs. map (\<lambda>i. fold (count_event (length cal) i) (concat evs) (cal ! i)) [0..<length cal])
       (those (map event_words fs))"

definition pool_clear :: "pool \<Rightarrow> pool" where
  "pool_clear cal = map (\<lambda>_. []) cal"

text \<open>A record is the word, its count and the padding of the structure.\<close>

definition pool_writeOut :: "u8 list \<Rightarrow> pool \<Rightarrow> u8 list" where
  "pool_writeOut pad cal = concat (map (\<lambda>(w, n). le_bytes w @ take 4 (le_bytes (ucast n)) @ pad) (concat cal))"

section \<open>A block\<close>

fun write_frames :: "bool \<Rightarrow> int \<Rightarrow> frame list \<Rightarrow> writer \<Rightarrow> writer option" where
  "write_frames acqStdMode type [] s = Some s"
| "write_frames acqStdMode type (f # fs) s =
     (case write_frame acqStdMode type f s of None \<Rightarrow> None | Some s' \<Rightarrow> write_frames acqStdMode type fs s')"

text \<open>
  The loop \<^verbatim>\<open>while(rdPointer != wrPointer)\<close> over the ring: it visits these frames, \<open>bs\<close> being the
  number of slots. \<open>None\<close>: more turns than \<open>fuel\<close>.
\<close>

fun ring_walk :: "nat \<Rightarrow> (nat \<Rightarrow> frame) \<Rightarrow> nat \<Rightarrow> nat \<Rightarrow> frame list option" where
  "ring_walk 0 mem rd wr = (if rd = wr then Some [] else None)"
| "ring_walk (Suc fuel) mem rd wr =
     (if rd = wr then Some []
      else map_option (\<lambda>fs. mem (rd mod QSize) # fs) (ring_walk fuel mem ((rd + 1) mod (2 * QSize)) wr))"

definition begin_step :: "BlockHeader \<Rightarrow> writer \<Rightarrow> writer" where
  "begin_step b s =
     (let offset = int (length (dataFile s)) in
      s\<lparr>stepAllFrames := 0, stepEvents := 0, stepMaxFrame := 0, stepLostFramesN := 0, stepLostFrames0 := 0,
        lastFrameID := -1, stepFirstFrameID := -1, lastFrameType := FRAME_TYPE_UNKNOWN, stepStartOffset := offset,
        tempFile := tempFile s @ [StepStart (step1 b) (step2 b) offset]\<rparr>)"

definition end_step :: "BlockHeader \<Rightarrow> writer \<Rightarrow> writer" where
  "end_step b s =
     (let stop = int (length (dataFile s)) in
      s\<lparr>indexFile := indexFile s @
          [IndexLine (stepStartOffset s) stop (stepFirstFrameID s) (lastFrameID s) (step1 b) (step2 b)],
        tempFile := tempFile s @ [StepStop stop]\<rparr>)"

text \<open>The four values sent back on the standard output.\<close>

type_synonym block_reply = "nat \<times> int \<times> int \<times> int"

definition write_block ::
  "bool \<Rightarrow> u8 list \<Rightarrow> (nat \<Rightarrow> frame) \<Rightarrow> BlockHeader \<Rightarrow> writer \<times> pool \<Rightarrow> (block_reply \<times> writer \<times> pool) option" where
  "write_block acqStdMode pad mem b sc =
     (let (s, cal) = sc;
          s1 = (if blockType b = 0 then begin_step b s else s);
          cal1 = (if blockType b = 0 \<and> \<not> acqStdMode then pool_clear cal else cal);
          rd = unat (rdPointer b) mod (2 * QSize); wr = unat (wrPointer b) mod (2 * QSize)
      in case ring_walk (2 * QSize) mem rd wr of
        None \<Rightarrow> None
      | Some fs \<Rightarrow>
          (case (if acqStdMode then Some cal1 else processBatch fs cal1) of
             None \<Rightarrow> None
           | Some cal2 \<Rightarrow>
               (case write_frames acqStdMode (blockType b) fs s1 of
                  None \<Rightarrow> None
                | Some s2 \<Rightarrow>
                    let stop = blockType b = 2;
                        s3 = (if stop \<and> \<not> acqStdMode then s2\<lparr>dataFile := dataFile s2 @ pool_writeOut pad cal2\<rparr> else s2);
                        cal3 = (if stop \<and> \<not> acqStdMode then pool_clear cal2 else cal2);
                        s4 = (if stop then end_step b s3 else s3)
                    in Some ((wr, stepAllFrames s4, stepLostFrames0 s4, stepEvents s4), s4, cal3))))"

fun write_blocks ::
  "bool \<Rightarrow> u8 list \<Rightarrow> ((nat \<Rightarrow> frame) \<times> BlockHeader) list \<Rightarrow> writer \<times> pool \<Rightarrow> (writer \<times> pool) option" where
  "write_blocks acqStdMode pad [] sc = Some sc"
| "write_blocks acqStdMode pad ((mem, b) # bs) sc =
     (case write_block acqStdMode pad mem b sc of None \<Rightarrow> None | Some (reply, sc') \<Rightarrow> write_blocks acqStdMode pad bs sc')"

definition write_raw ::
  "bool \<Rightarrow> u8 list \<Rightarrow> ((nat \<Rightarrow> frame) \<times> BlockHeader) list \<Rightarrow> writer \<times> pool \<Rightarrow> (writer \<times> pool) option" where
  "write_raw acqStdMode pad bs sc =
     map_option (\<lambda>(s, cal). (s\<lparr>tempFile := tempFile s @ [EndOfData]\<rparr>, cal)) (write_blocks acqStdMode pad bs sc)"

lemma write_blocks_append:
  "write_blocks acq pad (bs @ cs) sc =
     (case write_blocks acq pad bs sc of None \<Rightarrow> None | Some sc' \<Rightarrow> write_blocks acq pad cs sc')"
  by (induction acq pad bs sc rule: write_blocks.induct) (simp_all split: option.split prod.split)

section \<open>The walk over the ring\<close>

text \<open>The frames visited are the contents of the ring between the two pointers.\<close>

lemma ring_walk_exact:
  "rd < 2 * QSize \<Longrightarrow> n \<le> fuel \<Longrightarrow> n < 2 * QSize \<Longrightarrow>
    ring_walk fuel mem rd ((rd + n) mod (2 * QSize)) = Some (map (\<lambda>i. mem ((rd + i) mod QSize)) [0..<n])"
proof (induction n arbitrary: rd fuel)
  case 0
  then show ?case by (cases fuel) simp_all
next
  case (Suc n)
  then obtain k where k: "fuel = Suc k" "n \<le> k" by (cases fuel) auto
  let ?rd = "(rd + 1) mod (2 * QSize)"
  have rd: "?rd < 2 * QSize" using QSize_pos by simp
  have eq: "(rd + Suc n) mod (2 * QSize) = (?rd + n) mod (2 * QSize)"
    using mod_add_left_eq [of "rd + 1" "2 * QSize" n] by simp
  have ne: "rd \<noteq> (rd + Suc n) mod (2 * QSize)"
    using Suc.prems by (auto simp: mod_if split: if_splits)
  have "ring_walk k mem ?rd ((?rd + n) mod (2 * QSize)) = Some (map (\<lambda>i. mem ((?rd + i) mod QSize)) [0..<n])"
    using Suc.IH [OF rd k(2)] Suc.prems(3) by simp
  then have walk: "ring_walk k mem ?rd ((?rd + n) mod (2 * QSize)) =
      Some (map (\<lambda>i. mem ((rd + Suc i) mod QSize)) [0..<n])"
  proof -
    assume w: "ring_walk k mem ?rd ((?rd + n) mod (2 * QSize)) = Some (map (\<lambda>i. mem ((?rd + i) mod QSize)) [0..<n])"
    have "(?rd + i) mod QSize = (rd + Suc i) mod QSize" for i
    proof -
      have "(?rd + i) mod QSize = (?rd mod QSize + i) mod QSize" by (simp add: mod_add_left_eq)
      also have "?rd mod QSize = (rd + 1) mod QSize" by (rule mod_mod_cancel) simp
      finally show ?thesis by (simp add: mod_add_left_eq)
    qed
    with w show ?thesis by simp
  qed
  have "map (\<lambda>i. mem ((rd + i) mod QSize)) [0..<Suc n] =
      mem (rd mod QSize) # map (\<lambda>i. mem ((rd + Suc i) mod QSize)) [0..<n]"
    by (simp only: upt_conv_Cons zero_less_Suc map_Suc_upt [symmetric] list.map map_map o_def add_0_right)
  then show ?case unfolding k(1) ring_walk.simps using ne by (simp only: if_False eq walk option.map)
qed

lemma ring_walk_contents:
  assumes "ring_ok s"
  shows "ring_walk (2 * QSize) (shm s) (dataFrameReadPointer s) (dataFrameWritePointer s) = Some (ring_contents s)"
proof -
  have ptrs: "dataFrameReadPointer s < 2 * QSize" "dataFrameWritePointer s < 2 * QSize" "ring_count s \<le> QSize"
    using assms by (simp_all add: ring_ok_def)
  have "(dataFrameReadPointer s + ring_count s) mod (2 * QSize) = dataFrameWritePointer s"
    using ptrs unfolding ring_count_def by (auto simp: ring_count_cases)
  then show ?thesis
    using ring_walk_exact [of "dataFrameReadPointer s" "ring_count s" "2 * QSize" "shm s"] ptrs QSize_pos
    by (simp add: ring_contents_def)
qed

definition ring_frames :: "(nat \<Rightarrow> frame) \<Rightarrow> nat \<Rightarrow> nat \<Rightarrow> frame list" where
  "ring_frames mem rd wr = map (\<lambda>i. mem ((rd + i) mod QSize)) [0..<(wr + 2 * QSize - rd) mod (2 * QSize)]"

lemma ring_walk_frames:
  assumes "rd < 2 * QSize" and "wr < 2 * QSize"
  shows "ring_walk (2 * QSize) mem rd wr = Some (ring_frames mem rd wr)"
proof -
  let ?n = "(wr + 2 * QSize - rd) mod (2 * QSize)"
  have n: "?n < 2 * QSize" using QSize_pos by simp
  have "(rd + ?n) mod (2 * QSize) = wr" using assms by (auto simp: ring_count_cases)
  then show ?thesis using ring_walk_exact [OF assms(1) _ n, of "2 * QSize" mem] n by (simp add: ring_frames_def)
qed

text \<open>The frames of a block.\<close>

definition block_frames :: "(nat \<Rightarrow> frame) \<times> BlockHeader \<Rightarrow> frame list" where
  "block_frames mb = ring_frames (fst mb) (unat (rdPointer (snd mb)) mod (2 * QSize)) (unat (wrPointer (snd mb)) mod (2 * QSize))"

lemma block_walk:
  "ring_walk (2 * QSize) mem (unat (rdPointer b) mod (2 * QSize)) (unat (wrPointer b) mod (2 * QSize)) =
     Some (block_frames (mem, b))"
  using QSize_pos by (simp add: ring_walk_frames block_frames_def)

end
