(* ===== verification/EventBuffer.thy ===== *)
theory EventBuffer
  imports RawFrame
begin

text \<open>
  Event buffers (\<^verbatim>\<open>external/base/include/EventBuffer.h\<close>), the hit structures of
  \<^verbatim>\<open>external/base/include/Event.h\<close> and the unordered handler that passes buffers on. A buffer's
  used part is the list of its events; the memory behind it holds nothing of interest.
\<close>

section \<open>Buffers\<close>

record 'e ebuffer =
  bufferSeqN :: nat
  bufferTMin :: int
  bufferTMax :: int
  capacity :: nat
  used_events :: "'e list"

definition round_capacity :: "nat \<Rightarrow> nat" where
  "round_capacity initialCapacity = (initialCapacity div 1024 + 1) * 1024"

text \<open>The constructors; the second leaves \<open>bufferTMax\<close> as it finds it, at \<open>old\<close>.\<close>

definition buffer_new :: "nat \<Rightarrow> nat \<Rightarrow> int \<Rightarrow> int \<Rightarrow> 'e ebuffer" where
  "buffer_new initialCapacity seqN tMin old =
     \<lparr>bufferSeqN = seqN, bufferTMin = tMin, bufferTMax = old, capacity = round_capacity initialCapacity, used_events = []\<rparr>"

definition buffer_child :: "nat \<Rightarrow> 'p ebuffer \<Rightarrow> int \<Rightarrow> 'e ebuffer" where
  "buffer_child initialCapacity parent old = buffer_new initialCapacity (bufferSeqN parent) (bufferTMin parent) old"

definition buffer_reserve :: "nat \<Rightarrow> 'e ebuffer \<Rightarrow> 'e ebuffer" where
  "buffer_reserve newCapacity b = (if newCapacity \<le> capacity b then b else b\<lparr>capacity := newCapacity\<rparr>)"

definition getFree :: "'e ebuffer \<Rightarrow> nat" where
  "getFree b = capacity b - length (used_events b)"

definition grow :: "'e ebuffer \<Rightarrow> 'e ebuffer" where
  "grow b =
     (if length (used_events b) \<ge> capacity b then b\<lparr>capacity := capacity b + (capacity b div 10240 + 1) * 1024\<rparr> else b)"

text \<open>\<open>getWriteSlot\<close>, an assignment and \<open>pushWriteSlot\<close>.\<close>

definition buffer_push :: "'e \<Rightarrow> 'e ebuffer \<Rightarrow> 'e ebuffer" where
  "buffer_push e b = (let b' = grow b in b'\<lparr>used_events := used_events b' @ [e]\<rparr>)"

text \<open>Writing through the pointer behind the used part, then \<open>setUsed\<close>; \<open>None\<close> outside the memory.\<close>

definition buffer_fill :: "'e list \<Rightarrow> 'e ebuffer \<Rightarrow> 'e ebuffer option" where
  "buffer_fill es b =
     (if length (used_events b) + length es \<le> capacity b then Some (b\<lparr>used_events := used_events b @ es\<rparr>) else None)"

definition buffer_get :: "'e ebuffer \<Rightarrow> nat \<Rightarrow> 'e option" where
  "buffer_get b i = at (used_events b) i"

definition buffer_ok :: "'e ebuffer \<Rightarrow> bool" where
  "buffer_ok b \<longleftrightarrow> length (used_events b) \<le> capacity b"

lemma round_capacity_less: "n < round_capacity n"
  by (simp add: round_capacity_def algebra_simps)

lemma buffer_ok_new [simp]: "buffer_ok (buffer_new n q t old)"
  by (simp add: buffer_ok_def buffer_new_def)

lemma buffer_new_simps [simp]:
  "bufferSeqN (buffer_new n q t old) = q" "bufferTMin (buffer_new n q t old) = t"
  "used_events (buffer_new n q t old) = []" "capacity (buffer_new n q t old) = round_capacity n"
  by (simp_all add: buffer_new_def)

lemma buffer_ok_push [simp]: "buffer_ok b \<Longrightarrow> buffer_ok (buffer_push e b)"
  by (auto simp: buffer_ok_def buffer_push_def grow_def Let_def)

lemma buffer_ok_fill: "buffer_fill es b = Some b' \<Longrightarrow> buffer_ok b'"
  by (auto simp: buffer_ok_def buffer_fill_def split: if_splits)

lemma buffer_push_simps [simp]:
  "used_events (buffer_push e b) = used_events b @ [e]" "bufferSeqN (buffer_push e b) = bufferSeqN b"
  "bufferTMin (buffer_push e b) = bufferTMin b"
  by (simp_all add: buffer_push_def grow_def Let_def)

lemma buffer_push_fold [simp]: "used_events (fold buffer_push es b) = used_events b @ es"
  by (induction es arbitrary: b) simp_all

section \<open>Hits\<close>

record RawHit =
  valid :: bool
  qdcMode :: bool
  hitTime :: int
  hitTimeEnd :: int
  hitChannelID :: u32
  hitFrameID :: u64
  tcoarse :: u16
  ecoarse :: u16
  tfine :: u16
  efine :: u16
  tacID :: u16

section \<open>Handlers\<close>

text \<open>\<open>UnorderedEventHandler::pushEvents\<close>: handle the buffer, hand the result to the sink.\<close>

definition unordered_push :: "('i \<Rightarrow> 'o) \<Rightarrow> ('o \<Rightarrow> 's \<Rightarrow> 's) \<Rightarrow> 'i \<Rightarrow> 's \<Rightarrow> 's" where
  "unordered_push handleEvents sink_push buffer s = sink_push (handleEvents buffer) s"

end
