(* ===== verification/RawReader.thy ===== *)
theory RawReader
  imports EventBuffer Bytes
begin

text \<open>
  \<open>RawReader\<close> (\<^verbatim>\<open>external/rawdata/src/RawReader.cpp\<close>): the header of a raw data file, the
  steps of its index, the buffered reading of a file that may still grow, the loop that packs the
  events of a step into buffers, and the decoder of those buffers.

  The results of \<^verbatim>\<open>read\<close> and the numbers found in the index are inputs, so that a run covers
  every way in which the file is cut and every progress of the process that writes it. A failed
  assertion is a \<open>Fault\<close>.
\<close>

section \<open>The header\<close>

definition header_frequency :: "u64 list \<Rightarrow> u32" where
  "header_frequency h = ucast (h ! 0 AND 0xFFFFFFFF)"

definition header_triggerID :: "u64 list \<Rightarrow> int" where
  "header_triggerID h = (if h ! 2 AND 0x8000 \<noteq> 0 then uint (h ! 2 AND 0x7FFF) else -1)"

text \<open>A line of the mode file: the five fields, or \<open>None\<close> where they do not scan.\<close>

type_synonym mode_line = "(u32 \<times> u32 \<times> u32 \<times> u32 \<times> string) option"

definition MAX_NUMBER_CHANNELS :: nat where "MAX_NUMBER_CHANNELS = 4194304"

definition global_channel :: "u32 \<Rightarrow> u32 \<Rightarrow> u32 \<Rightarrow> u32 \<Rightarrow> u32" where
  "global_channel portID slaveID chipID channelID =
     channelID OR push_bit 6 chipID OR push_bit 12 slaveID OR push_bit 17 portID"

fun mode_lines :: "mode_line list \<Rightarrow> (nat \<Rightarrow> bool) \<Rightarrow> (nat \<Rightarrow> bool) run" where
  "mode_lines [] qdc = Return qdc"
| "mode_lines (None # ls) qdc = mode_lines ls qdc"
| "mode_lines (Some (portID, slaveID, chipID, channelID, mode) # ls) qdc =
     (let g = unat (global_channel portID slaveID chipID channelID) in
      if g < MAX_NUMBER_CHANNELS then mode_lines ls (qdc(g := (mode = ''qdc''))) else Fault)"

text \<open>\<open>old\<close> is what the constructor leaves in the table of modes; \<open>None\<close>: the file cannot be used.\<close>

definition header_modes :: "u64 list \<Rightarrow> mode_line list option \<Rightarrow> (nat \<Rightarrow> bool) \<Rightarrow> (nat \<Rightarrow> bool) option run" where
  "header_modes h modf old =
     (if h ! 3 \<noteq> 0 then
        (case modf of None \<Rightarrow> Return None
         | Some ls \<Rightarrow> bind_run (mode_lines ls old) (\<lambda>qdc. Return (Some qdc)))
      else Return (Some (\<lambda>g. h ! 0 AND 0x100000000 \<noteq> 0)))"

record opened =
  frequency :: u32
  triggerID :: int
  qdcModes :: "nat \<Rightarrow> bool"
  indexIsTemp :: bool

text \<open>
  \<open>openFile\<close>: which index file exists, whether the data file opens, the result of reading the header.
\<close>

definition openFile ::
  "bool \<Rightarrow> bool \<Rightarrow> bool \<Rightarrow> u8 list \<Rightarrow> mode_line list option \<Rightarrow> (nat \<Rightarrow> bool) \<Rightarrow> opened option run" where
  "openFile tmpf idxf rawf bytes modf old =
     (if \<not> tmpf \<and> \<not> idxf then Return None
      else if \<not> rawf then Return None
      else if length bytes < 64 then Return None
      else let h = words_of 8 bytes in
        bind_run (header_modes h modf old) (\<lambda>qdc.
          Return (map_option (\<lambda>q. \<lparr>frequency = header_frequency h, triggerID = header_triggerID h,
            qdcModes = q, indexIsTemp = tmpf\<rparr>) qdc)))"

text \<open>\<open>None\<close>: a channel number outside the table.\<close>

definition isQDC :: "opened \<Rightarrow> u32 \<Rightarrow> bool option" where
  "isQDC r gChannelID = (if unat gChannelID < MAX_NUMBER_CHANNELS then Some (qdcModes r (unat gChannelID)) else None)"

definition isTOT :: "opened \<Rightarrow> bool" where
  "isTOT r = list_all (\<lambda>g. \<not> qdcModes r g) [0..<MAX_NUMBER_CHANNELS]"

section \<open>Steps and reading\<close>

datatype read_result = ReadBytes "u8 list" | ReadFails

definition ULLONG_MAX :: nat where "ULLONG_MAX = 2 ^ 64 - 1"

text \<open>
  \<open>unread\<close> is the part of the buffer between its two pointers, \<open>reads\<close> and \<open>polled\<close> what the calls
  of \<^verbatim>\<open>read\<close> and of \<^verbatim>\<open>fscanf\<close> on the index will give.
\<close>

record reader =
  unread :: "u8 list"
  reads :: "read_result list"
  polled :: "nat option list"
  stepBegin :: nat
  stepEnd :: nat
  fromTemp :: bool

text \<open>A line of the index: the regular one gives both ends, the temporary one only the first.\<close>

datatype step_entry = Regular nat nat | Temporary nat

definition getNextStep :: "step_entry option \<Rightarrow> reader \<Rightarrow> bool \<times> reader" where
  "getNextStep line r =
     (case line of
        Some (Regular b e) \<Rightarrow> if fromTemp r then (False, r) else (True, r\<lparr>stepBegin := b, stepEnd := e\<rparr>)
      | Some (Temporary b) \<Rightarrow>
          if \<not> fromTemp r then (False, r)
          else (b < ULLONG_MAX, r\<lparr>stepBegin := b, stepEnd := ULLONG_MAX\<rparr>)
      | None \<Rightarrow> (False, r))"

definition getStepEnd :: "reader \<Rightarrow> nat \<times> reader" where
  "getStepEnd r =
     (if stepEnd r < ULLONG_MAX then (stepEnd r, r)
      else if \<not> fromTemp r then (stepEnd r, r)
      else case polled r of
             [] \<Rightarrow> (stepEnd r, r)
           | None # ns \<Rightarrow> (stepEnd r, r\<lparr>polled := ns\<rparr>)
           | Some readValue # ns \<Rightarrow> (readValue, r\<lparr>polled := ns, stepEnd := readValue\<rparr>))"

lemma getStepEnd_reads [simp]: "reads (snd (getStepEnd r)) = reads r" "unread (snd (getStepEnd r)) = unread r"
  by (simp_all add: getStepEnd_def split: list.split option.split)

text \<open>The bytes of the buffer that still fit, copied out.\<close>

definition copy_out :: "nat \<Rightarrow> u8 list \<Rightarrow> reader \<Rightarrow> u8 list \<times> reader" where
  "copy_out count acc r =
     (let n = min (count - length acc) (length (unread r))
      in (acc @ take n (unread r), r\<lparr>unread := drop n (unread r)\<rparr>))"

lemma copy_out_reads [simp]: "reads (snd (copy_out count acc r)) = reads r"
  by (simp add: copy_out_def Let_def)

lemma copy_out_closer:
  "\<not> count \<le> length acc \<Longrightarrow> unread r \<noteq> [] \<Longrightarrow> count - length (fst (copy_out count acc r)) < count - length acc"
  by (cases "unread r") (auto simp: copy_out_def Let_def min_def)

text \<open>
  The result is \<open>None\<close> for the error -1. \<open>acc\<close> is what has been copied so far. At the end of the
  file the code tries once more, for ever while the end of the step is unknown.
\<close>

function readFromDataFile :: "nat \<Rightarrow> u8 list \<Rightarrow> reader \<Rightarrow> (u8 list option \<times> reader) run" where
  "readFromDataFile count acc r =
     (if length acc \<ge> count then Return (Some acc, r)
      else if unread r \<noteq> [] then
        readFromDataFile count (fst (copy_out count acc r)) (snd (copy_out count acc r))
      else case reads r of
          [] \<Rightarrow> OutOfFuel
        | ReadFails # rs \<Rightarrow> Return (None, r\<lparr>reads := rs\<rparr>)
        | ReadBytes bs # rs \<Rightarrow>
            if bs \<noteq> [] then
              let c = copy_out count acc (r\<lparr>reads := rs, unread := bs\<rparr>) in readFromDataFile count (fst c) (snd c)
            else let p = getStepEnd (r\<lparr>reads := rs\<rparr>); r1 = snd p in
              if fst p = ULLONG_MAX then readFromDataFile count acc r1
              else (case reads r1 of
                  [] \<Rightarrow> OutOfFuel
                | ReadFails # rs' \<Rightarrow> Return (None, r1\<lparr>reads := rs'\<rparr>)
                | ReadBytes bs' # rs' \<Rightarrow>
                    if bs' = [] then Return (Some acc, r1\<lparr>reads := rs', unread := bs'\<rparr>)
                    else let c = copy_out count acc (r1\<lparr>reads := rs', unread := bs'\<rparr>)
                      in readFromDataFile count (fst c) (snd c)))"
  by pat_completeness auto
termination
  by (relation "measures [\<lambda>(count, acc, r). length (reads r), \<lambda>(count, acc, r). count - length acc]")
    (auto simp: case_prod_beta intro: copy_out_closer)

declare readFromDataFile.simps [simp del]

section \<open>A step\<close>

text \<open>An event that is not decoded: its frame, relative to the first of its buffer, and its word.\<close>

type_synonym UndecodedHit = "u64 \<times> u64"

record step_run =
  src :: reader
  currentPosition :: nat
  seqN :: nat
  currentBufferFirstFrame :: int
  outBuffer :: "UndecodedHit ebuffer option"
  queuedBuffers :: "UndecodedHit ebuffer list"
  prevFrameID :: int
  lastFrameWasLost0 :: bool
  nFrames :: int
  nFramesLost0 :: int
  nFramesLostN :: int
  nEventsNoLost :: int
  nEventsSomeLost :: int

definition to_int :: "int \<Rightarrow> int" where
  "to_int x = signed_take_bit 31 x"

definition count_gap :: "int \<Rightarrow> step_run \<Rightarrow> step_run" where
  "count_gap frameID s =
     (let lastFrameID = (if prevFrameID s = -1 then frameID - 1 else prevFrameID s) in
      if frameID \<noteq> lastFrameID + 1 then
        let skippedFrames = to_int (frameID - lastFrameID - 1);
            s' = s\<lparr>nFrames := nFrames s + skippedFrames\<rparr>
        in if lastFrameWasLost0 s then s'\<lparr>nFramesLost0 := nFramesLost0 s' + skippedFrames\<rparr> else s'
      else s)"

definition count_frame :: "u64 list \<Rightarrow> step_run \<Rightarrow> step_run" where
  "count_frame f s =
     (let N = getNEvents f; frameID = uint (getFrameID f); frameLost = getFrameLost f; s1 = count_gap frameID s
      in s1\<lparr>nFrames := nFrames s1 + 1,
           nFramesLost0 := (if frameLost \<and> N = 0 then nFramesLost0 s1 + 1 else nFramesLost0 s1),
           nFramesLostN := (if frameLost \<and> N \<noteq> 0 then nFramesLostN s1 + 1 else nFramesLostN s1),
           nEventsSomeLost := (if frameLost then nEventsSomeLost s1 + N else nEventsSomeLost s1),
           nEventsNoLost := (if frameLost then nEventsNoLost s1 else nEventsNoLost s1 + N),
           lastFrameWasLost0 := (frameLost \<and> N = 0), prevFrameID := frameID\<rparr>)"

definition new_buffer :: "nat \<Rightarrow> int \<Rightarrow> step_run \<Rightarrow> step_run" where
  "new_buffer N frameID s =
     s\<lparr>currentBufferFirstFrame := frameID,
       outBuffer := Some (buffer_new (max N 2048) (seqN s mod 2 ^ 32) (frameID * 1024) 0), seqN := seqN s + 1\<rparr>"

definition store_events :: "int \<Rightarrow> u64 list \<Rightarrow> step_run \<Rightarrow> step_run run" where
  "store_events frameID evs s =
     (let N = length evs;
          s1 = (case outBuffer s of
                  None \<Rightarrow> new_buffer N frameID s
                | Some b \<Rightarrow>
                    if getFree b < N \<or> frameID - currentBufferFirstFrame s > 2 ^ 32
                    then new_buffer N frameID (s\<lparr>queuedBuffers := queuedBuffers s @ [b]\<rparr>)
                    else s)
      in case outBuffer s1 of
           None \<Rightarrow> Fault
         | Some b \<Rightarrow>
             (case buffer_fill (map (\<lambda>w. (word_of_int (frameID - currentBufferFirstFrame s1), w)) evs) b of
                None \<Rightarrow> Fault
              | Some b' \<Rightarrow> Return (s1\<lparr>outBuffer := Some (b'\<lparr>bufferTMax := (frameID + 1) * 1024\<rparr>)\<rparr>)))"

text \<open>Reading \<open>n\<close> words, which must all be there.\<close>

definition read_words :: "nat \<Rightarrow> step_run \<Rightarrow> (u64 list \<times> step_run) run" where
  "read_words n s =
     bind_run (readFromDataFile (8 * n) [] (src s)) (\<lambda>(bs, r).
       case bs of
         None \<Rightarrow> Fault
       | Some bs \<Rightarrow> if length bs \<noteq> 8 * n then Fault
           else Return (words_of n bs, s\<lparr>src := r, currentPosition := currentPosition s + 8 * n\<rparr>))"

definition process_turn :: "step_run \<Rightarrow> step_run run" where
  "process_turn s =
     bind_run (read_words 2 s) (\<lambda>(f, s1).
       let N = nat (getNEvents f) in
       if N + 2 > MaxRawDataFrameSize then Fault
       else let s2 = count_frame f s1 in
         if N = 0 then Return s2
         else bind_run (read_words N s2) (\<lambda>(evs, s3). store_events (uint (getFrameID f)) evs s3))"

fun process_loop :: "nat \<Rightarrow> step_run \<Rightarrow> step_run run" where
  "process_loop fuel s =
     (let (stop, r) = getStepEnd (src s); s1 = s\<lparr>src := r\<rparr> in
      if \<not> currentPosition s1 < stop then Return s1
      else case fuel of 0 \<Rightarrow> OutOfFuel | Suc k \<Rightarrow> bind_run (process_turn s1) (process_loop k))"

declare process_loop.simps [simp del]

definition step_start :: "reader \<Rightarrow> step_run" where
  "step_start r = \<lparr>src = r\<lparr>unread := []\<rparr>, currentPosition = stepBegin r, seqN = 0, currentBufferFirstFrame = 0,
     outBuffer = None, queuedBuffers = [], prevFrameID = -1, lastFrameWasLost0 = False, nFrames = 0, nFramesLost0 = 0,
     nFramesLostN = 0, nEventsNoLost = 0, nEventsSomeLost = 0\<rparr>"

text \<open>The buffers given to the pool, in this order; \<open>reads r\<close> starts at the beginning of the step.\<close>

definition processStep :: "nat \<Rightarrow> reader \<Rightarrow> step_run run" where
  "processStep fuel r =
     bind_run (process_loop fuel (step_start r)) (\<lambda>s.
       Return (case outBuffer s of
                 None \<Rightarrow> s
               | Some b \<Rightarrow> s\<lparr>queuedBuffers := queuedBuffers s @ [b], outBuffer := None\<rparr>))"

section \<open>Decoding\<close>

definition decode_hit :: "opened \<Rightarrow> UndecodedHit \<Rightarrow> RawHit option" where
  "decode_hit rd u =
     (let w = snd u; tc = (ucast (getTCoarse w) :: u16); ec = (ucast (getECoarse w) :: u16);
          t = sint (fst u * 1024 + ucast tc); te = sint (fst u * 1024 + ucast ec)
      in map_option (\<lambda>qdc. \<lparr>valid = True, qdcMode = qdc, hitTime = t,
              hitTimeEnd = (if te - t < -256 then te + 1024 else te), hitChannelID = getChannelID w, hitFrameID = fst u,
              tcoarse = tc, ecoarse = ec, tfine = ucast (getTFine w), efine = ucast (getEFine w),
              tacID = ucast (getTacID w)\<rparr>)
           (isQDC rd (getChannelID w)))"

definition decode_buffer :: "opened \<Rightarrow> UndecodedHit ebuffer \<Rightarrow> RawHit ebuffer option" where
  "decode_buffer rd b =
     (case those (map (decode_hit rd) (used_events b)) of
        None \<Rightarrow> None
      | Some hs \<Rightarrow> buffer_fill hs (buffer_child (length (used_events b)) b 0))"

section \<open>Reading is taking from the stream\<close>

text \<open>\<open>r\<close> is about to give the bytes \<open>s\<close>, in whatever pieces, and then \<open>rest\<close>.\<close>

definition gives :: "reader \<Rightarrow> u8 list \<Rightarrow> read_result list \<Rightarrow> bool" where
  "gives r s rest \<longleftrightarrow> (\<exists>cs. [] \<notin> set cs \<and> reads r = map ReadBytes cs @ rest \<and> unread r @ concat cs = s)"

text \<open>Nothing else of the reader changes.\<close>

definition same_step :: "reader \<Rightarrow> reader \<Rightarrow> bool" where
  "same_step r r' \<longleftrightarrow> r' = r\<lparr>unread := unread r', reads := reads r'\<rparr>"

lemma same_step_refl [simp]: "same_step r r"
  by (simp add: same_step_def)

lemma same_step_trans: "same_step r r' \<Longrightarrow> same_step r' r'' \<Longrightarrow> same_step r r''"
  unfolding same_step_def by (metis (no_types, lifting) reader.surjective reader.update_convs(1,2))

lemma same_step_update: "same_step r (r\<lparr>unread := u, reads := rs\<rparr>)" "same_step r (r\<lparr>unread := u\<rparr>)"
  by (simp_all add: same_step_def)

lemma read_stream:
  "gives r (xs @ ys) rest \<Longrightarrow> count = length acc + length xs \<Longrightarrow>
    \<exists>r'. readFromDataFile count acc r = Return (Some (acc @ xs), r') \<and> gives r' ys rest \<and> same_step r r'"
proof (induction "length (reads r) + length xs" arbitrary: r acc xs rule: less_induct)
  case less
  show ?case
  proof (cases "xs = []")
    case True
    then show ?thesis using less.prems by (subst readFromDataFile.simps) auto
  next
    case False
    obtain cs where cs: "[] \<notin> set cs" "reads r = map ReadBytes cs @ rest" "unread r @ concat cs = xs @ ys"
      using less.prems(1) by (auto simp: gives_def)
    have lt: "\<not> count \<le> length acc" using False less.prems(2) by simp
    show ?thesis
    proof (cases "unread r = []")
      case True
      then obtain c cs' where c: "cs = c # cs'" "c \<noteq> []" using cs False by (cases cs) auto
      let ?r = "r\<lparr>reads := map ReadBytes cs' @ rest, unread := c\<rparr>"
      have "gives ?r (xs @ ys) rest" using cs c True by (auto simp: gives_def)
      then obtain r' where r': "readFromDataFile count acc ?r = Return (Some (acc @ xs), r')"
        "gives r' ys rest" "same_step ?r r'"
        using less.hyps [of ?r xs acc] less.prems(2) cs(2) c(1) by auto
      have "readFromDataFile count acc r = readFromDataFile count acc ?r"
        by (subst (1 2) readFromDataFile.simps) (simp add: lt True cs(2) c Let_def)
      moreover have "same_step r r'" by (rule same_step_trans [OF _ r'(3)]) (simp add: same_step_def)
      ultimately show ?thesis using r'(1,2) by (intro exI [of _ r'] conjI) simp_all
    next
      case False
      let ?n = "min (length xs) (length (unread r))"
      let ?c = "copy_out count acc r"
      have n: "count - length acc = length xs" "0 < ?n" using less.prems(2) False \<open>xs \<noteq> []\<close> by auto
      have "take ?n (unread r @ concat cs) = take ?n (xs @ ys)" using cs(3) by simp
      then have tk: "take ?n (unread r) = take ?n xs" by simp
      have "drop ?n (unread r @ concat cs) = drop ?n (xs @ ys)" using cs(3) by simp
      then have dr: "drop ?n (unread r) @ concat cs = drop ?n xs @ ys" by simp
      have c: "?c = (acc @ take ?n xs, r\<lparr>unread := drop ?n (unread r)\<rparr>)"
        unfolding copy_out_def n(1) Let_def tk ..
      have "gives (snd ?c) (drop ?n xs @ ys) rest" using cs dr by (auto simp: c gives_def)
      moreover have "length (reads (snd ?c)) + length (drop ?n xs) < length (reads r) + length xs"
        using n(2) by (simp add: c)
      moreover have "count = length (fst ?c) + length (drop ?n xs)"
        unfolding c fst_conv using less.prems(2) by simp
      ultimately obtain r' where r': "readFromDataFile count (fst ?c) (snd ?c) = Return (Some (fst ?c @ drop ?n xs), r')"
        "gives r' ys rest" "same_step (snd ?c) r'"
        using less.hyps [of "snd ?c" "drop ?n xs" "fst ?c"] by blast
      have "readFromDataFile count acc r = readFromDataFile count (fst ?c) (snd ?c)"
        by (subst readFromDataFile.simps) (simp only: lt False if_False if_True not_False_eq_True simp_thms)
      moreover have "fst ?c @ drop ?n xs = acc @ xs" by (simp add: c)
      moreover have "same_step r r'" by (rule same_step_trans [OF _ r'(3)]) (simp add: c same_step_update)
      ultimately show ?thesis using r'(1,2) by (intro exI [of _ r'] conjI) simp_all
    qed
  qed
qed

section \<open>Events of a step\<close>

text \<open>A frame as it is in the file: its two header words and its events.\<close>

definition raw_frame :: "u64 list \<Rightarrow> bool" where
  "raw_frame f \<longleftrightarrow> length f = nat (getNEvents f) + 2 \<and> length f \<le> MaxRawDataFrameSize"

text \<open>Its events with the number of the frame.\<close>

definition numbered_events :: "u64 list \<Rightarrow> (u64 \<times> u64) list" where
  "numbered_events f = map (\<lambda>w. (getFrameID f, w)) (drop 2 f)"

text \<open>The events of a buffer with the numbers made absolute again.\<close>

definition absolute_events :: "UndecodedHit ebuffer \<Rightarrow> (u64 \<times> u64) list" where
  "absolute_events b = map (\<lambda>u. (word_of_int (bufferTMin b div 1024) + fst u, snd u)) (used_events b)"

definition all_buffers :: "step_run \<Rightarrow> UndecodedHit ebuffer list" where
  "all_buffers s = queuedBuffers s @ (case outBuffer s of None \<Rightarrow> [] | Some b \<Rightarrow> [b])"

definition flatten :: "step_run \<Rightarrow> (u64 \<times> u64) list" where
  "flatten s = concat (map absolute_events (all_buffers s))"

definition step_inv :: "step_run \<Rightarrow> bool" where
  "step_inv s \<longleftrightarrow>
     map bufferSeqN (all_buffers s) = map (\<lambda>i. i mod 2 ^ 32) [0..<seqN s] \<and> list_all buffer_ok (all_buffers s) \<and>
     (\<forall>b. outBuffer s = Some b \<longrightarrow> bufferTMin b = currentBufferFirstFrame s * 1024)"

lemma flatten_simps:
  "flatten (count_gap i s) = flatten s" "step_inv (count_gap i s) = step_inv s"
  "src (count_gap i s) = src s" "currentPosition (count_gap i s) = currentPosition s"
  "flatten (s\<lparr>src := r\<rparr>) = flatten s" "flatten (s\<lparr>currentPosition := p\<rparr>) = flatten s" "flatten (count_frame f s) = flatten s"
  "step_inv (s\<lparr>src := r\<rparr>) = step_inv s" "step_inv (s\<lparr>currentPosition := p\<rparr>) = step_inv s"
  "step_inv (count_frame f s) = step_inv s"
  "src (count_frame f s) = src s" "currentPosition (count_frame f s) = currentPosition s"
  by (simp_all add: flatten_def step_inv_def all_buffers_def count_gap_def count_frame_def Let_def)

text \<open>The statistics; they follow the frame headers only.\<close>

definition counts :: "step_run \<Rightarrow> int \<times> int \<times> int \<times> int \<times> int \<times> int \<times> bool" where
  "counts s = (nFrames s, nFramesLost0 s, nFramesLostN s, nEventsNoLost s, nEventsSomeLost s, prevFrameID s, lastFrameWasLost0 s)"

lemma counts_simps:
  "counts (s\<lparr>src := r\<rparr>) = counts s" "counts (s\<lparr>currentPosition := p\<rparr>) = counts s"
  "counts (s\<lparr>outBuffer := ob\<rparr>) = counts s" "counts (s\<lparr>queuedBuffers := qb\<rparr>) = counts s"
  "counts (new_buffer n i s) = counts s"
  by (simp_all add: counts_def new_buffer_def)

lemma count_gap_fields:
  "prevFrameID (count_gap i s) = prevFrameID s" "lastFrameWasLost0 (count_gap i s) = lastFrameWasLost0 s"
  "nFramesLostN (count_gap i s) = nFramesLostN s" "nEventsNoLost (count_gap i s) = nEventsNoLost s"
  "nEventsSomeLost (count_gap i s) = nEventsSomeLost s"
  "nFrames (count_gap i s) = nFrames s + (if prevFrameID s = -1 \<or> i = prevFrameID s + 1 then 0 else to_int (i - prevFrameID s - 1))"
  "nFramesLost0 (count_gap i s) =
     nFramesLost0 s + (if lastFrameWasLost0 s \<and> nFrames (count_gap i s) \<noteq> nFrames s then nFrames (count_gap i s) - nFrames s else 0)"
  by (simp_all add: count_gap_def Let_def)

lemma count_frame_fields:
  "prevFrameID (count_frame f s) = uint (getFrameID f)"
  "lastFrameWasLost0 (count_frame f s) = (getFrameLost f \<and> getNEvents f = 0)"
  "nFrames (count_frame f s) = nFrames (count_gap (uint (getFrameID f)) s) + 1"
  "nFramesLost0 (count_frame f s) =
     nFramesLost0 (count_gap (uint (getFrameID f)) s) + (if getFrameLost f \<and> getNEvents f = 0 then 1 else 0)"
  "nFramesLostN (count_frame f s) = nFramesLostN s + (if getFrameLost f \<and> getNEvents f \<noteq> 0 then 1 else 0)"
  "nEventsNoLost (count_frame f s) = nEventsNoLost s + (if getFrameLost f then 0 else getNEvents f)"
  "nEventsSomeLost (count_frame f s) = nEventsSomeLost s + (if getFrameLost f then getNEvents f else 0)"
  by (simp_all add: count_frame_def count_gap_fields(1-5) Let_def)

lemma counts_count_frame:
  assumes "counts s = counts t"
  shows "counts (count_frame f s) = counts (count_frame f t)"
proof -
  have eq: "nFrames s = nFrames t" "nFramesLost0 s = nFramesLost0 t" "nFramesLostN s = nFramesLostN t"
    "nEventsNoLost s = nEventsNoLost t" "nEventsSomeLost s = nEventsSomeLost t" "prevFrameID s = prevFrameID t"
    "lastFrameWasLost0 s = lastFrameWasLost0 t" using assms by (simp_all add: counts_def)
  show ?thesis by (simp only: counts_def count_frame_fields count_gap_fields eq)
qed

lemma counts_fold: "counts s = counts t \<Longrightarrow> counts (fold count_frame fs s) = counts (fold count_frame fs t)"
proof (induction fs arbitrary: s t)
  case (Cons f fs)
  show ?case unfolding fold_Cons o_apply by (rule Cons.IH [OF counts_count_frame [OF Cons.prems]])
qed (simp only: fold_Nil id_apply)

lemma new_buffer_inv:
  assumes "map bufferSeqN (queuedBuffers s) = map (\<lambda>i. i mod 2 ^ 32) [0..<seqN s]" and "list_all buffer_ok (queuedBuffers s)"
  shows "step_inv (new_buffer N frameID s)"
  using assms by (simp add: step_inv_def all_buffers_def new_buffer_def)

text \<open>Storing into an open buffer with room.\<close>

lemma store_open:
  fixes frameID :: int
  assumes "step_inv s" and "outBuffer s = Some b" and "length evs \<le> getFree b"
  defines "rel \<equiv> map (\<lambda>w. (word_of_int (frameID - currentBufferFirstFrame s), w)) evs"
  defines "s' \<equiv> s\<lparr>outBuffer := Some (b\<lparr>used_events := used_events b @ rel, bufferTMax := (frameID + 1) * 1024\<rparr>)\<rparr>"
  shows "buffer_fill rel b = Some (b\<lparr>used_events := used_events b @ rel\<rparr>)" and "step_inv s'"
    and "flatten s' = flatten s @ map (\<lambda>w. (word_of_int frameID, w)) evs"
proof -
  have ok: "buffer_ok b" and tmin: "bufferTMin b = currentBufferFirstFrame s * 1024"
    using assms(1,2) by (simp_all add: step_inv_def all_buffers_def)
  then have fits: "length (used_events b) + length evs \<le> capacity b"
    using assms(3) by (simp add: getFree_def buffer_ok_def)
  then show "buffer_fill rel b = Some (b\<lparr>used_events := used_events b @ rel\<rparr>)" by (simp add: buffer_fill_def rel_def)
  show "step_inv s'"
    using assms(1,2) fits by (simp add: step_inv_def all_buffers_def s'_def buffer_ok_def rel_def)
  show "flatten s' = flatten s @ map (\<lambda>w. (word_of_int frameID, w)) evs"
    using assms(2) tmin by (simp add: flatten_def all_buffers_def s'_def absolute_events_def rel_def flip: of_int_add)
qed

lemma store_events_spec:
  assumes "step_inv s"
  shows "\<exists>s'. store_events frameID evs s = Return s' \<and> step_inv s' \<and>
    flatten s' = flatten s @ map (\<lambda>w. (word_of_int frameID, w)) evs \<and> src s' = src s \<and>
    currentPosition s' = currentPosition s \<and> counts s' = counts s"
proof -
  let ?N = "length evs"
  let ?s1 = "case outBuffer s of None \<Rightarrow> new_buffer ?N frameID s
    | Some b \<Rightarrow> if getFree b < ?N \<or> frameID - currentBufferFirstFrame s > 2 ^ 32
        then new_buffer ?N frameID (s\<lparr>queuedBuffers := queuedBuffers s @ [b]\<rparr>) else s"
  have room: "?N \<le> getFree (buffer_new (max ?N 2048) q t 0 :: UndecodedHit ebuffer)" for q :: nat and t
    using round_capacity_less [of "max ?N 2048"] by (simp add: getFree_def)
  have "\<exists>b. outBuffer ?s1 = Some b \<and> ?N \<le> getFree b \<and> step_inv ?s1 \<and> flatten ?s1 = flatten s \<and>
      src ?s1 = src s \<and> currentPosition ?s1 = currentPosition s \<and> counts ?s1 = counts s"
  proof (cases "outBuffer s")
    case None
    then have "step_inv (new_buffer ?N frameID s)"
      using assms by (intro new_buffer_inv) (simp_all add: step_inv_def all_buffers_def)
    with None room show ?thesis
      by (simp add: new_buffer_def flatten_def all_buffers_def absolute_events_def counts_def)
  next
    case (Some b)
    then have "step_inv (new_buffer ?N frameID (s\<lparr>queuedBuffers := queuedBuffers s @ [b]\<rparr>))"
      using assms by (intro new_buffer_inv) (simp_all add: step_inv_def all_buffers_def)
    with Some room assms show ?thesis
      by (simp add: new_buffer_def flatten_def all_buffers_def absolute_events_def counts_def)
  qed
  then obtain b where b: "outBuffer ?s1 = Some b" "?N \<le> getFree b" "step_inv ?s1" "flatten ?s1 = flatten s"
    "src ?s1 = src s" "currentPosition ?s1 = currentPosition s" "counts ?s1 = counts s" by blast
  note store = store_open [OF b(3,1,2), of frameID]
  show ?thesis
    unfolding store_events_def Let_def b(1) option.case store(1) using store(2,3) b by (simp add: counts_simps)
qed

lemma same_step_end: "same_step r r' \<Longrightarrow> stepEnd r' = stepEnd r"
  by (metis (no_types, lifting) same_step_def reader.select_convs(5) reader.surjective reader.update_convs(1,2))

lemma read_words_spec:
  assumes "gives (src s) (bytes_of ws @ ys) rest"
  shows "\<exists>r. read_words (length ws) s =
      Return (ws, s\<lparr>src := r, currentPosition := currentPosition s + 8 * length ws\<rparr>) \<and> gives r ys rest \<and> stepEnd r = stepEnd (src s)"
proof -
  obtain r where r: "readFromDataFile (8 * length ws) [] (src s) = Return (Some (bytes_of ws), r)"
    "gives r ys rest" "same_step (src s) r"
    using read_stream [OF assms, of "8 * length ws" "[]"] by auto
  moreover have "words_of (length ws) (bytes_of ws) = ws" using words_of_bytes [of ws "[]"] by simp
  ultimately show ?thesis using same_step_end by (intro exI [of _ r]) (simp add: read_words_def)
qed

lemma header_getters:
  assumes "2 \<le> length f"
  shows "getNEvents (take 2 f) = getNEvents f" and "getFrameID (take 2 f) = getFrameID f"
    and "getFrameLost (take 2 f) = getFrameLost f"
  using assms by (simp_all add: getNEvents_def getFrameID_def getFrameLost_def)

text \<open>A turn consumes exactly one frame.\<close>

lemma process_turn_frame:
  assumes "raw_frame f" and "gives (src s) (bytes_of f @ ys) rest" and "step_inv s"
  shows "\<exists>s'. process_turn s = Return s' \<and> step_inv s' \<and> flatten s' = flatten s @ numbered_events f \<and>
    gives (src s') ys rest \<and> stepEnd (src s') = stepEnd (src s) \<and> currentPosition s' = currentPosition s + 8 * length f \<and>
    counts s' = counts (count_frame f s)"
proof -
  let ?N = "nat (getNEvents f)"
  have len: "length f = ?N + 2" "?N + 2 \<le> MaxRawDataFrameSize" using assms(1) by (simp_all add: raw_frame_def)
  have split: "bytes_of f @ ys = bytes_of (take 2 f) @ (bytes_of (drop 2 f) @ ys)"
    using bytes_of_simps(3) [of "take 2 f" "drop 2 f"] by simp
  have l2: "length (take 2 f) = 2" using len by simp
  obtain r1 where r1: "read_words 2 s = Return (take 2 f, s\<lparr>src := r1, currentPosition := currentPosition s + 16\<rparr>)"
    "gives r1 (bytes_of (drop 2 f) @ ys) rest" "stepEnd r1 = stepEnd (src s)"
    using read_words_spec [OF assms(2) [unfolded split]] unfolding l2 by auto
  note hd2 = header_getters [of f]
  let ?s1 = "s\<lparr>src := r1, currentPosition := currentPosition s + 16\<rparr>"
  let ?s2 = "count_frame (take 2 f) ?s1"
  have "count_frame (take 2 f) t = count_frame f t" for t using hd2 len by (simp add: count_frame_def)
  then have c2: "counts ?s2 = counts (count_frame f s)"
    using counts_count_frame [of ?s1 s f] by (simp add: counts_simps)
  have inv2: "step_inv ?s2" "flatten ?s2 = flatten s" "src ?s2 = r1" "currentPosition ?s2 = currentPosition s + 16"
    using assms(3) by (simp_all add: flatten_simps)
  show ?thesis
  proof (cases "?N = 0")
    case True
    then have "drop 2 f = []" using len by simp
    then have none: "numbered_events f = []" "gives r1 ys rest" using r1(2) by (simp_all add: numbered_events_def)
    have "process_turn s = Return ?s2" using r1(1) hd2 len True by (simp add: process_turn_def Let_def)
    then show ?thesis using inv2 none r1(3) len True c2 by (intro exI [of _ ?s2]) simp
  next
    case False
    have ld: "length (drop 2 f) = ?N" using len by simp
    obtain r3 where r3: "read_words ?N ?s2 = Return (drop 2 f, ?s2\<lparr>src := r3, currentPosition := currentPosition s + 16 + 8 * ?N\<rparr>)"
      "gives r3 ys rest" "stepEnd r3 = stepEnd r1"
      using read_words_spec [of ?s2 "drop 2 f" ys rest] r1(2) unfolding ld inv2 by auto
    let ?s3 = "?s2\<lparr>src := r3, currentPosition := currentPosition s + 16 + 8 * ?N\<rparr>"
    have "step_inv ?s3" "flatten ?s3 = flatten s" using inv2 by (simp_all add: flatten_simps)
    then obtain s' where s': "store_events (uint (getFrameID f)) (drop 2 f) ?s3 = Return s'" "step_inv s'"
      "flatten s' = flatten s @ map (\<lambda>w. (word_of_int (uint (getFrameID f)), w)) (drop 2 f)" "src s' = r3"
      "currentPosition s' = currentPosition s + 16 + 8 * ?N" "counts s' = counts ?s2"
      using store_events_spec [of ?s3 "uint (getFrameID f)" "drop 2 f"] by (auto simp: counts_simps)
    have "process_turn s = Return s'"
      using r1(1) r3(1) s'(1) hd2 len False by (simp add: process_turn_def Let_def)
    then show ?thesis using s' r1(3) r3(2,3) len c2 by (intro exI [of _ s']) (simp add: numbered_events_def)
  qed
qed

lemma process_loop_frames:
  "\<forall>f \<in> set fs. raw_frame f \<Longrightarrow> gives (src s) (bytes_of (concat fs) @ ys) rest \<Longrightarrow> step_inv s \<Longrightarrow>
    stepEnd (src s) = currentPosition s + 8 * length (concat fs) \<Longrightarrow> stepEnd (src s) < ULLONG_MAX \<Longrightarrow> length fs \<le> fuel \<Longrightarrow>
    \<exists>s'. process_loop fuel s = Return s' \<and> step_inv s' \<and> flatten s' = flatten s @ concat (map numbered_events fs) \<and>
      counts s' = counts (fold count_frame fs s)"
proof (induction fs arbitrary: s fuel)
  case Nil
  then show ?case by (subst process_loop.simps) (simp add: getStepEnd_def)
next
  case (Cons f fs)
  obtain k where k: "fuel = Suc k" "length fs \<le> k" using Cons.prems(6) by (cases fuel) auto
  have stop: "getStepEnd (src s) = (stepEnd (src s), src s)" using Cons.prems(5) by (simp add: getStepEnd_def)
  have rf: "raw_frame f" "0 < length f" using Cons.prems(1) by (auto simp: raw_frame_def)
  obtain s1 where s1: "process_turn s = Return s1" "step_inv s1" "flatten s1 = flatten s @ numbered_events f"
    "gives (src s1) (bytes_of (concat fs) @ ys) rest" "stepEnd (src s1) = stepEnd (src s)"
    "currentPosition s1 = currentPosition s + 8 * length f" "counts s1 = counts (count_frame f s)"
    using process_turn_frame [OF rf(1), of s "bytes_of (concat fs) @ ys" rest] Cons.prems(2,3) by auto
  obtain s' where s': "process_loop k s1 = Return s'" "step_inv s'"
    "flatten s' = flatten s1 @ concat (map numbered_events fs)" "counts s' = counts (fold count_frame fs s1)"
    using Cons.IH [of s1 k] Cons.prems(1,4,5) s1 k(2) by auto
  have "process_loop fuel s = process_loop k s1"
    using Cons.prems(4) rf(2) s1(1) unfolding k(1) by (subst process_loop.simps) (simp add: stop)
  then show ?case using s' s1(3) counts_fold [OF s1(7), of fs] by simp
qed

lemma processStep_frames:
  assumes "\<forall>f \<in> set fs. raw_frame f" and "gives (r\<lparr>unread := []\<rparr>) (bytes_of (concat fs) @ ys) rest"
    and "stepEnd r = stepBegin r + 8 * length (concat fs)" and "stepEnd r < ULLONG_MAX" and "length fs \<le> fuel"
  shows "\<exists>s. processStep fuel r = Return s \<and>
    concat (map absolute_events (queuedBuffers s)) = concat (map numbered_events fs) \<and>
    map bufferSeqN (queuedBuffers s) = map (\<lambda>i. i mod 2 ^ 32) [0..<length (queuedBuffers s)] \<and>
    list_all buffer_ok (queuedBuffers s) \<and> counts s = counts (fold count_frame fs (step_start r))"
proof -
  have "step_inv (step_start r)" "flatten (step_start r) = []"
    by (simp_all add: step_inv_def flatten_def all_buffers_def step_start_def)
  then obtain s where s: "process_loop fuel (step_start r) = Return s" "step_inv s"
    "flatten s = concat (map numbered_events fs)" "counts s = counts (fold count_frame fs (step_start r))"
    using process_loop_frames [of fs "step_start r" ys rest fuel] assms by (auto simp: step_start_def)
  let ?s = "case outBuffer s of None \<Rightarrow> s | Some b \<Rightarrow> s\<lparr>queuedBuffers := queuedBuffers s @ [b], outBuffer := None\<rparr>"
  have "counts ?s = counts s" by (simp add: counts_def split: option.split)
  have all: "queuedBuffers ?s = all_buffers s" by (simp add: all_buffers_def split: option.split)
  have "map bufferSeqN (all_buffers s) = map (\<lambda>i. i mod 2 ^ 32) [0..<seqN s]"
    using s(2) by (simp add: step_inv_def)
  moreover from arg_cong [OF this, of length] have "seqN s = length (all_buffers s)" by simp
  ultimately have "map bufferSeqN (all_buffers s) = map (\<lambda>i. i mod 2 ^ 32) [0..<length (all_buffers s)]" by simp
  then show ?thesis
    using s \<open>counts ?s = counts s\<close> by (intro exI [of _ ?s]) (simp add: processStep_def all flatten_def step_inv_def)
qed

section \<open>Decoded hits\<close>

lemma unat_coarse: "unat (ucast (ucast (x mod 1024 :: u64) :: u32) :: u16) = unat (x mod 1024)"
proof -
  have "unat (x mod 1024) < 1024" by (simp add: unat_mod)
  moreover from this have "unat (ucast (x mod 1024) :: u32) = unat (x mod 1024)"
    by (simp add: unsigned_ucast_eq take_bit_nat_eq_self)
  moreover from calculation have "unat (ucast (ucast (x mod 1024) :: u32) :: u16) = unat (ucast (x mod 1024) :: u32)"
    by (subst unsigned_ucast_eq, subst take_bit_nat_eq_self) simp_all
  ultimately show ?thesis by simp
qed

lemma coarse_less: "unat (ucast (getTCoarse w) :: u16) < 1024" "unat (ucast (getECoarse w) :: u16) < 1024"
  unfolding getTCoarse_def getECoarse_def unat_coarse by (simp_all add: unat_mod)

lemma channel_in_table: "unat (getChannelID w) < MAX_NUMBER_CHANNELS"
proof -
  have "unat (drop_bit 42 w) = drop_bit 42 (unat w)" by (rule unat_drop_bit_eq)
  also have "\<dots> = unat w div 2 ^ 42" by (rule drop_bit_eq_div)
  also have "\<dots> < 2 ^ 22" using unsigned_less [of w] by (simp add: div_less_iff_less_mult)
  finally have "unat (drop_bit 42 w) < 2 ^ 22" .
  then show ?thesis
    by (simp add: getChannelID_def MAX_NUMBER_CHANNELS_def unsigned_ucast_eq take_bit_nat_eq_self)
qed

lemma sint_time:
  assumes "unat (x :: u64) < 2 ^ 36" and "unat (c :: u16) < 1024"
  shows "sint (x * 1024 + ucast c) = int (unat x * 1024 + unat c)"
proof -
  have c: "unat (ucast c :: u64) = unat c" by (simp add: unsigned_ucast_eq take_bit_nat_eq_self less_le_trans [OF unsigned_less])
  have m: "unat (x * 1024) = unat x * 1024"
    using assms(1) by (subst unat_mult_lem [THEN iffD1]) simp_all
  have "unat (x * 1024 + ucast c) = unat x * 1024 + unat c"
    using assms m c by (subst unat_add_lem [THEN iffD1]) simp_all
  then have u: "uint (x * 1024 + ucast c) = int (unat x * 1024 + unat c)" by (simp only: uint_nat)
  have "unat x * 1024 + unat c < 2 ^ 63" using assms by simp
  then have "int (unat x * 1024 + unat c) < int (2 ^ 63)" by (simp only: of_nat_less_iff)
  then have "uint (x * 1024 + ucast c) < 2 ^ 63" unfolding u by simp
  moreover have "- (2 ^ 63) \<le> uint (x * 1024 + ucast c)"
    by (rule order_trans [OF _ unsigned_greater_eq]) simp
  ultimately have "signed_take_bit 63 (uint (x * 1024 + ucast c)) = uint (x * 1024 + ucast c)"
    by (simp only: signed_take_bit_int_eq_self_iff simp_thms)
  then show ?thesis unfolding u [symmetric] by (simp add: sint_uint)
qed

lemma decode_hit_spec:
  assumes "unat (fst u) < 2 ^ 36"
  shows "\<exists>h. decode_hit rd u = Some h \<and> hitFrameID h = fst u \<and> hitTime h div 1024 = uint (fst u) \<and> hitTime h mod 1024 = uint (tcoarse h) \<and>
    -256 \<le> hitTimeEnd h - hitTime h \<and> hitTimeEnd h - hitTime h < 1024"
proof -
  let ?tc = "ucast (getTCoarse (snd u)) :: u16" and ?ec = "ucast (getECoarse (snd u)) :: u16"
  let ?t = "int (unat (fst u) * 1024 + unat ?tc)" and ?te = "int (unat (fst u) * 1024 + unat ?ec)"
  have "sint (fst u * 1024 + ucast ?tc) = ?t" "sint (fst u * 1024 + ucast ?ec) = ?te"
    using sint_time [OF assms] coarse_less by blast+
  moreover have "isQDC rd (getChannelID (snd u)) = Some (qdcModes rd (unat (getChannelID (snd u))))"
    using channel_in_table by (simp add: isQDC_def)
  ultimately have "\<exists>h. decode_hit rd u = Some h \<and> hitTime h = ?t \<and> tcoarse h = ?tc \<and>
      hitFrameID h = fst u \<and> hitTimeEnd h = (if ?te - ?t < -256 then ?te + 1024 else ?te)"
    by (simp add: decode_hit_def Let_def)
  moreover have "?t div 1024 = uint (fst u)" "?t mod 1024 = uint ?tc"
    using coarse_less(1) [of "snd u"] by (simp_all add: uint_nat del: of_nat_unat flip: zdiv_int zmod_int)
  moreover have "-1024 < ?te - ?t" "?te - ?t < 1024" using coarse_less [of "snd u"] by linarith+
  ultimately show ?thesis by fastforce
qed

text \<open>
  Decoding an event of a buffer never looks outside the table of modes, whatever the word; and
  as long as the frame is fewer than \<open>2^36\<close> after the first of its buffer, the time of the hit is the
  frame's 1024 clocks plus the coarse count, and its end is at most 256 clocks before and fewer
  than 1024 after it.
\<close>

theorem decode_hit_times:
  assumes "unat (fst u) < 2 ^ 36"
  shows "\<exists>h. decode_hit rd u = Some h \<and> hitTime h div 1024 = uint (fst u) \<and> hitTime h mod 1024 = uint (tcoarse h) \<and>
    -256 \<le> hitTimeEnd h - hitTime h \<and> hitTimeEnd h - hitTime h < 1024"
  using decode_hit_spec [OF assms, of rd] by blast

theorem decode_hit_times_witness:
  "\<exists>h. decode_hit \<lparr>frequency = 0, triggerID = -1, qdcModes = (\<lambda>_. False), indexIsTemp = False\<rparr> (3, 0x140000000) = Some h \<and>
    hitTime h div 1024 = 3 \<and> -256 \<le> hitTimeEnd h - hitTime h"
  using decode_hit_times [of "(3, 0x140000000)"
      "\<lparr>frequency = 0, triggerID = -1, qdcModes = (\<lambda>_. False), indexIsTemp = False\<rparr>"] by auto

end
