(* ===== verification/RawFiles.thy ===== *)
theory RawFiles
  imports RawWriter RawReader DAQFrameServer
begin

text \<open>
  The raw data file as the contract between \<open>write_raw\<close> and \<open>RawReader\<close>: what the writer puts
  into the file for a step, what the reader makes of it, and the accounting of both.
\<close>

section \<open>Frames of the ring and frames of the file\<close>

text \<open>A frame as the frame servers publish it.\<close>

definition good_frame :: "frame \<Rightarrow> bool" where
  "good_frame f \<longleftrightarrow> parseDataFrame f \<and> unat (getFrameSize f) \<le> length f \<and> length f \<le> MaxRawDataFrameSize"

definition stored :: "frame \<Rightarrow> u64 list" where
  "stored f = take (unat (getFrameSize f)) f"

text \<open>Its events, numbered.\<close>

definition frame_events :: "frame \<Rightarrow> (u64 \<times> u64) list" where
  "frame_events f = map (\<lambda>w. (getFrameID f, w)) (take (nat (getNEvents f)) (drop 2 f))"

lemma frame_size:
  assumes "good_frame f"
  shows "unat (getFrameSize f) = nat (getNEvents f) + 2"
proof -
  let ?h = "drop_bit 36 (f ! 0) AND 0x7FFF" and ?w = "f ! 1"
  have h15: "0x7FFF = (mask 15 :: u64)" and h16: "0xFFFF = (mask 16 :: u64)" by (simp_all add: mask_eq_exp_minus_1)
  have "unat ?h = take_bit 15 (unat (drop_bit 36 (f ! 0)))"
    unfolding h15 by (simp only: take_bit_eq_mask [symmetric] unsigned_take_bit_eq)
  then have "unat ?h < 2 ^ 15" by (simp only: take_bit_nat_less_exp)
  then have h: "unat (getFrameSize f) = unat ?h"
    by (simp add: getFrameSize_def unsigned_ucast_eq take_bit_nat_eq_self)
  have "unat (?w AND 0xFFFF) = take_bit 16 (unat ?w)"
    unfolding h16 by (simp only: take_bit_eq_mask [symmetric] unsigned_take_bit_eq)
  then have w16: "unat (?w AND 0xFFFF) < 2 ^ 16" by (simp only: take_bit_nat_less_exp)
  have "?h = 2 + (?w AND 0xFFFF)" using assms by (simp add: good_frame_def parseDataFrame_def Let_def)
  then have size: "unat ?h = 2 + unat (?w AND 0xFFFF)"
    using w16 by (subst (asm) word_unat_eq_iff, subst (asm) unat_add_lem [THEN iffD1]) simp_all
  then have "unat (?w AND 0xFFFF) < 2 ^ 15"
    using assms h by (simp add: good_frame_def MaxRawDataFrameSize_def)
  then have "take_bit 16 (unat ?w) < 2 ^ 15" unfolding and_masks by (simp add: unsigned_take_bit_eq)
  then have "take_bit 15 (unat ?w) = take_bit 16 (unat ?w)"
    using take_bit_nat_eq_self [of "take_bit 16 (unat ?w)" 15] by simp
  then have "unat (?w AND 0xFFFF) = unat (?w AND 0x7FFF)" unfolding and_masks by (simp add: unsigned_take_bit_eq)
  moreover have "nat (getNEvents f) = unat (?w AND 0x7FFF)" by (simp add: getNEvents_def)
  ultimately show ?thesis using h size by simp
qed

lemma stored_frame:
  assumes "good_frame f"
  shows "raw_frame (stored f)" and "numbered_events (stored f) = frame_events f"
proof -
  let ?n = "unat (getFrameSize f)"
  have n: "?n = nat (getNEvents f) + 2" "?n \<le> length f" "length f \<le> MaxRawDataFrameSize"
    using frame_size [OF assms] assms by (simp_all add: good_frame_def)
  then have same: "getNEvents (stored f) = getNEvents f" "getFrameID (stored f) = getFrameID f"
    by (simp_all add: stored_def getNEvents_def getFrameID_def)
  show "raw_frame (stored f)" using n same by (simp add: raw_frame_def stored_def)
  show "numbered_events (stored f) = frame_events f"
    using n same by (simp add: numbered_events_def frame_events_def stored_def drop_take)
qed

lemma lost_frame_stored: "raw_frame (lost_frame i)" "numbered_events (lost_frame i) = []"
  by (simp_all add: raw_frame_def lost_frame_def numbered_events_def getNEvents_def MaxRawDataFrameSize_def)

section \<open>What a frame adds to the file\<close>

text \<open>From \<open>s\<close> to \<open>s'\<close>, raw frames with exactly these events are appended.\<close>

definition appends :: "writer \<Rightarrow> writer \<Rightarrow> (u64 \<times> u64) list \<Rightarrow> nat \<Rightarrow> bool" where
  "appends s s' evs n \<longleftrightarrow> (\<exists>ws. dataFile s' = dataFile s @ bytes_of (concat ws) \<and> (\<forall>w \<in> set ws. raw_frame w) \<and>
     concat (map numbered_events ws) = evs \<and> length ws \<le> n) \<and> indexFile s' = indexFile s \<and>
     stepStartOffset s' = stepStartOffset s"

lemma appends_trans:
  assumes "appends s s' evs n" and "appends s' s'' evs' n'"
  shows "appends s s'' (evs @ evs') (n + n')"
proof -
  obtain ws where ws: "dataFile s' = dataFile s @ bytes_of (concat ws)" "\<forall>w \<in> set ws. raw_frame w"
    "concat (map numbered_events ws) = evs" "length ws \<le> n" using assms(1) by (auto simp: appends_def)
  obtain vs where vs: "dataFile s'' = dataFile s' @ bytes_of (concat vs)" "\<forall>w \<in> set vs. raw_frame w"
    "concat (map numbered_events vs) = evs'" "length vs \<le> n'" using assms(2) by (auto simp: appends_def)
  have "dataFile s'' = dataFile s @ bytes_of (concat (ws @ vs))" using ws(1) vs(1) by simp
  moreover have "\<forall>w \<in> set (ws @ vs). raw_frame w" using ws(2) vs(2) by auto
  moreover have "concat (map numbered_events (ws @ vs)) = evs @ evs'" "length (ws @ vs) \<le> n + n'" using ws vs by auto
  ultimately show ?thesis using assms unfolding appends_def by metis
qed

lemma appends_refl: "dataFile s' = dataFile s \<Longrightarrow> indexFile s' = indexFile s \<Longrightarrow>
    stepStartOffset s' = stepStartOffset s \<Longrightarrow> appends s s' [] n"
  by (auto simp: appends_def intro: exI [of _ "[]"])

lemma appends_words: "raw_frame w \<Longrightarrow> appends s (append_words w s) (numbered_events w) 1"
  by (auto simp: appends_def append_words_def intro: exI [of _ "[w]"])

lemma appends_cong: "appends s s' evs n \<Longrightarrow> dataFile t = dataFile s \<Longrightarrow> indexFile t = indexFile s \<Longrightarrow>
    stepStartOffset t = stepStartOffset s \<Longrightarrow> dataFile t' = dataFile s' \<Longrightarrow> indexFile t' = indexFile s' \<Longrightarrow>
    stepStartOffset t' = stepStartOffset s' \<Longrightarrow> appends t t' evs n"
  by (simp add: appends_def)

lemma account_gap_appends: "appends s (account_gap acq i s) [] 1"
proof (cases acq)
  case True
  have "appends s (append_words (lost_frame (lastFrameID s + 1)) s) [] 1"
    using appends_words [OF lost_frame_stored(1), of s "lastFrameID s + 1"] by (simp only: lost_frame_stored(2))
  then show ?thesis
    by (rule appends_cong) (use True in \<open>simp_all add: account_gap_def Let_def append_words_def\<close>)
next
  case False
  then show ?thesis by (intro appends_refl) (simp_all add: account_gap_def Let_def)
qed

text \<open>The three fields of the file do not depend on the numbers.\<close>

lemma number_frame_appends: "appends s (number_frame acq i s) [] 1"
proof -
  define s1 where "s1 = (if stepFirstFrameID s = -1 then s\<lparr>stepFirstFrameID := i\<rparr> else s)"
  define s2 where "s2 = (if i \<le> lastFrameID s1 then s1
    else if lastFrameID s1 \<ge> 0 \<and> i \<noteq> lastFrameID s1 + 1 then account_gap acq i s1 else s1)"
  have s1: "dataFile s1 = dataFile s" "indexFile s1 = indexFile s" "stepStartOffset s1 = stepStartOffset s"
    by (simp_all add: s1_def)
  have s2: "appends s1 s2 [] 1" by (simp add: s2_def appends_refl account_gap_appends [simplified])
  have "number_frame acq i s = s2\<lparr>lastFrameID := i, minFrameID := (if minFrameID s2 < i then minFrameID s2 else i),
      maxFrameID := (if maxFrameID s2 > i then maxFrameID s2 else i)\<rparr>"
    by (simp only: number_frame_def Let_def s1_def s2_def)
  then show ?thesis by (intro appends_cong [OF s2]) (simp_all add: s1)
qed

lemma write_frame_appends:
  assumes "good_frame f"
  shows "\<exists>s'. write_frame True type f s = Some s' \<and> appends s s' (frame_events f) 2"
proof -
  let ?s3 = "number_frame True (uint (getFrameID f)) s"
  let ?s4 = "account_frame (getNEvents f) (getFrameLost f) ?s3"
  let ?ty = "frame_type (getFrameLost f) (getNEvents f)"
  have kept: "dataFile ?s4 = dataFile ?s3" "indexFile ?s4 = indexFile ?s3" "stepStartOffset ?s4 = stepStartOffset ?s3"
    by (simp_all add: account_frame_def Let_def)
  have to4: "appends s ?s4 [] 1" by (rule appends_cong [OF number_frame_appends]) (simp_all only: kept)
  show ?thesis
  proof (cases "type = 1 \<and> (lastFrameType ?s4 = FRAME_TYPE_ZERO_DATA \<or> lastFrameType ?s4 = FRAME_TYPE_ALL_LOST) \<and> ?ty = lastFrameType ?s4")
    case True
    then have "getNEvents f = 0" by (auto simp: frame_type_def split: if_splits)
    then have "frame_events f = []" by (simp add: frame_events_def)
    moreover have "write_frame True type f s = Some ?s4" using True by (auto simp: write_frame_def Let_def)
    ultimately show ?thesis using to4 by (auto simp: appends_def)
  next
    case False
    let ?s5 = "?s4\<lparr>lastFrameType := ?ty\<rparr>"
    have "write_frame True type f s = Some (append_words (stored f) ?s5)"
      using False assms by (auto simp: write_frame_def Let_def good_frame_def stored_def)
    moreover have "appends s ?s5 [] 1" using to4 by (auto elim!: appends_cong)
    from appends_trans [OF this appends_words [OF stored_frame(1) [OF assms]]]
    have "appends s (append_words (stored f) ?s5) (frame_events f) 2"
      using stored_frame(2) [OF assms] by (simp add: numeral_2_eq_2)
    ultimately show ?thesis by blast
  qed
qed

lemma write_frames_appends:
  "\<forall>f \<in> set fs. good_frame f \<Longrightarrow>
    \<exists>s'. write_frames True type fs s = Some s' \<and> appends s s' (concat (map frame_events fs)) (2 * length fs)"
proof (induction fs arbitrary: s)
  case Nil
  then show ?case by (simp add: appends_refl)
next
  case (Cons f fs)
  obtain s1 where s1: "write_frame True type f s = Some s1" "appends s s1 (frame_events f) 2"
    using write_frame_appends Cons.prems by force
  obtain s2 where s2: "write_frames True type fs s1 = Some s2" "appends s1 s2 (concat (map frame_events fs)) (2 * length fs)"
    using Cons.IH Cons.prems by force
  show ?case using s1(1) s2(1) appends_trans [OF s1(2) s2(2)] by simp
qed

section \<open>Steps\<close>

type_synonym block = "(nat \<Rightarrow> frame) \<times> BlockHeader"

definition is_step :: "block list \<Rightarrow> bool" where
  "is_step bs \<longleftrightarrow> (\<exists>b0 mid b2. bs = b0 # mid @ [b2] \<and> blockType (snd b0) = 0 \<and> blockType (snd b2) = 2 \<and>
     (\<forall>b \<in> set mid. blockType (snd b) \<noteq> 0 \<and> blockType (snd b) \<noteq> 2))"

definition step_frames :: "block list \<Rightarrow> frame list" where
  "step_frames bs = concat (map block_frames bs)"

definition step_events :: "block list \<Rightarrow> (u64 \<times> u64) list" where
  "step_events bs = concat (map frame_events (step_frames bs))"

text \<open>A line of the index covers the step's frames in the data.\<close>

definition covers :: "u8 list \<Rightarrow> index_line \<Rightarrow> block list \<Rightarrow> bool" where
  "covers d l bs \<longleftrightarrow> (\<exists>pre ws post first last. d = pre @ bytes_of (concat ws) @ post \<and>
     l = IndexLine (int (length pre)) (int (length pre + 8 * length (concat ws))) first last
           (step1 (snd (List.last bs))) (step2 (snd (List.last bs))) \<and>
     (\<forall>w \<in> set ws. raw_frame w) \<and> concat (map numbered_events ws) = step_events bs \<and>
     length ws \<le> 2 * length (step_frames bs))"

lemma covers_mono: "covers d l bs \<Longrightarrow> covers (d @ x) l bs"
  unfolding covers_def by (elim exE conjE, intro exI conjI) (assumption | simp)+

lemma write_block_std:
  "write_block True pad mem b (s, cal) =
     (case write_frames True (blockType b) (block_frames (mem, b)) (if blockType b = 0 then begin_step b s else s) of
        None \<Rightarrow> None
      | Some s2 \<Rightarrow> (let s4 = (if blockType b = 2 then end_step b s2 else s2) in
          Some ((unat (wrPointer b) mod (2 * QSize), stepAllFrames s4, stepLostFrames0 s4, stepEvents s4), s4, cal)))"
  unfolding write_block_def prod.case Let_def block_walk option.case by (simp split: option.split)

lemma begin_step_simps [simp]:
  "dataFile (begin_step b s) = dataFile s" "indexFile (begin_step b s) = indexFile s"
  "stepStartOffset (begin_step b s) = int (length (dataFile s))" "dataFile (end_step b s) = dataFile s"
  by (simp_all add: begin_step_def end_step_def Let_def)

lemma write_block_appends:
  assumes "\<forall>f \<in> set (block_frames mb). good_frame f"
  shows "\<exists>s2. appends (if blockType (snd mb) = 0 then begin_step (snd mb) s else s) s2
      (concat (map frame_events (block_frames mb))) (2 * length (block_frames mb)) \<and>
    write_blocks True pad (mb # bs) (s, cal) =
      write_blocks True pad bs (if blockType (snd mb) = 2 then end_step (snd mb) s2 else s2, cal)"
proof -
  obtain mem b where mb: "mb = (mem, b)" by fastforce
  obtain s2 where s2: "write_frames True (blockType b) (block_frames mb) (if blockType b = 0 then begin_step b s else s) = Some s2"
    "appends (if blockType b = 0 then begin_step b s else s) s2 (concat (map frame_events (block_frames mb)))
       (2 * length (block_frames mb))"
    using write_frames_appends [OF assms] by blast
  show ?thesis
    by (intro exI [of _ s2] conjI) (use s2 in \<open>simp_all only: mb snd_conv, simp add: write_block_std Let_def\<close>)
qed

lemma write_middle:
  assumes "\<forall>b \<in> set mid. blockType (snd b) \<noteq> 0 \<and> blockType (snd b) \<noteq> 2" and "\<forall>f \<in> set (step_frames mid). good_frame f"
  shows "\<exists>s2. appends s s2 (step_events mid) (2 * length (step_frames mid)) \<and>
    write_blocks True pad (mid @ bs) (s, cal) = write_blocks True pad bs (s2, cal)"
  using assms
proof (induction mid arbitrary: s)
  case Nil
  then show ?case by (intro exI [of _ s]) (simp add: step_events_def step_frames_def appends_refl)
next
  case (Cons b mid)
  have "\<forall>f \<in> set (block_frames b). good_frame f" using Cons.prems(2) by (simp add: step_frames_def)
  then obtain s1 where s1: "appends s s1 (concat (map frame_events (block_frames b))) (2 * length (block_frames b))"
    "write_blocks True pad (b # mid @ bs) (s, cal) = write_blocks True pad (mid @ bs) (s1, cal)"
    using write_block_appends [of b s pad "mid @ bs" cal] Cons.prems(1) by auto
  obtain s2 where s2: "appends s1 s2 (step_events mid) (2 * length (step_frames mid))"
    "write_blocks True pad (mid @ bs) (s1, cal) = write_blocks True pad bs (s2, cal)"
    using Cons.IH [of s1] Cons.prems by (auto simp: step_frames_def)
  have "step_events (b # mid) = concat (map frame_events (block_frames b)) @ step_events mid"
    "2 * length (step_frames (b # mid)) = 2 * length (block_frames b) + 2 * length (step_frames mid)"
    by (simp_all add: step_events_def step_frames_def)
  then show ?case
    using appends_trans [OF s1(1) s2(1)] s1(2) s2(2) by (intro exI [of _ s2]) simp
qed

lemma write_step:
  assumes "is_step bs" and "\<forall>f \<in> set (step_frames bs). good_frame f"
  shows "\<exists>s'. write_blocks True pad (bs @ cs) (s, cal) = write_blocks True pad cs (s', cal) \<and>
    (\<exists>x. dataFile s' = dataFile s @ x) \<and> (\<exists>l. indexFile s' = indexFile s @ [l] \<and> covers (dataFile s') l bs)"
proof -
  obtain b0 mid b2 where bs: "bs = b0 # mid @ [b2]" "blockType (snd b0) = 0" "blockType (snd b2) = 2"
    "\<forall>b \<in> set mid. blockType (snd b) \<noteq> 0 \<and> blockType (snd b) \<noteq> 2"
    using assms(1) by (auto simp: is_step_def)
  let ?ev = "\<lambda>b. concat (map frame_events (block_frames b))"
  have good: "\<forall>f \<in> set (block_frames b0). good_frame f" "\<forall>f \<in> set (step_frames mid). good_frame f"
    "\<forall>f \<in> set (block_frames b2). good_frame f"
    using assms(2) by (auto simp: step_frames_def bs(1))
  obtain s0 where s0: "appends (begin_step (snd b0) s) s0 (?ev b0) (2 * length (block_frames b0))"
    "write_blocks True pad (bs @ cs) (s, cal) = write_blocks True pad ((mid @ [b2]) @ cs) (s0, cal)"
    using write_block_appends [OF good(1), of s pad "mid @ [b2] @ cs" cal] bs by auto
  obtain s1 where s1: "appends s0 s1 (step_events mid) (2 * length (step_frames mid))"
    "write_blocks True pad ((mid @ [b2]) @ cs) (s0, cal) = write_blocks True pad (b2 # cs) (s1, cal)"
    using write_middle [OF bs(4) good(2), of s0 pad "b2 # cs" cal] by auto
  obtain s2 where s2: "appends s1 s2 (?ev b2) (2 * length (block_frames b2))"
    "write_blocks True pad (b2 # cs) (s1, cal) = write_blocks True pad cs (end_step (snd b2) s2, cal)"
    using write_block_appends [OF good(3), of s1 pad cs cal] bs(3) by auto
  have "appends (begin_step (snd b0) s) s2 (step_events bs) (2 * length (step_frames bs))"
    using appends_trans [OF appends_trans [OF s0(1) s1(1)] s2(1)]
    by (simp add: bs(1) step_events_def step_frames_def algebra_simps)
  then obtain ws where ws: "dataFile s2 = dataFile s @ bytes_of (concat ws)" "\<forall>w \<in> set ws. raw_frame w"
    "concat (map numbered_events ws) = step_events bs" "length ws \<le> 2 * length (step_frames bs)"
    "indexFile s2 = indexFile s" "stepStartOffset s2 = int (length (dataFile s))"
    by (auto simp: appends_def)
  let ?l = "IndexLine (int (length (dataFile s))) (int (length (dataFile s) + 8 * length (concat ws)))
    (stepFirstFrameID s2) (lastFrameID s2) (step1 (snd b2)) (step2 (snd b2))"
  have "indexFile (end_step (snd b2) s2) = indexFile s @ [?l]"
    using ws(1,5,6) by (simp add: end_step_def Let_def)
  moreover have "covers (dataFile (end_step (snd b2) s2)) ?l bs"
    unfolding covers_def using ws(1-4)
    by (intro exI [of _ "dataFile s"] exI [of _ ws] exI [of _ "[]"] exI [of _ "stepFirstFrameID s2"] exI [of _ "lastFrameID s2"])
      (simp add: bs(1))
  ultimately show ?thesis
    using s0(2) s1(2) s2(2) ws(1) by (intro exI [of _ "end_step (snd b2) s2"]) auto
qed

lemma write_steps:
  assumes "list_all is_step sts" and "\<forall>st \<in> set sts. \<forall>f \<in> set (step_frames st). good_frame f"
  shows "\<exists>s' ls. write_blocks True pad (concat sts) (s, cal) = Some (s', cal) \<and> (\<exists>x. dataFile s' = dataFile s @ x) \<and>
    indexFile s' = indexFile s @ ls \<and> list_all2 (covers (dataFile s')) ls sts"
  using assms
proof (induction sts arbitrary: s)
  case Nil
  then show ?case by simp
next
  case (Cons st sts)
  obtain s1 x l where s1: "write_blocks True pad (st @ concat sts) (s, cal) = write_blocks True pad (concat sts) (s1, cal)"
    "dataFile s1 = dataFile s @ x" "indexFile s1 = indexFile s @ [l]" "covers (dataFile s1) l st"
    using write_step [of st pad "concat sts" s cal] Cons.prems by auto
  obtain s' ls y where s': "write_blocks True pad (concat sts) (s1, cal) = Some (s', cal)" "dataFile s' = dataFile s1 @ y"
    "indexFile s' = indexFile s1 @ ls" "list_all2 (covers (dataFile s')) ls sts"
    using Cons.IH [of s1] Cons.prems by auto
  have "covers (dataFile s') l st" using covers_mono [OF s1(4)] s'(2) by simp
  then show ?case
    using s1 s' by (intro exI [of _ s'] exI [of _ "l # ls"]) simp
qed

lemma write_raw_steps:
  assumes "list_all is_step sts" and "\<forall>st \<in> set sts. \<forall>f \<in> set (step_frames st). good_frame f"
  shows "\<exists>s. write_raw True pad (concat sts) (s0, cal) = Some (s, cal) \<and> (\<exists>x. dataFile s = dataFile s0 @ x) \<and>
    (\<exists>ls. indexFile s = indexFile s0 @ ls \<and> list_all2 (covers (dataFile s)) ls sts)"
  using write_steps [OF assms, of pad s0 cal] by (auto simp: write_raw_def)

lemma total_events:
  "nEventsNoLost (fold count_frame ws s) + nEventsSomeLost (fold count_frame ws s) =
     nEventsNoLost s + nEventsSomeLost s + sum_list (map getNEvents ws)"
  by (induction ws arbitrary: s) (simp_all add: count_frame_fields)

lemma raw_frame_events: "raw_frame w \<Longrightarrow> getNEvents w = int (length (numbered_events w))"
  by (simp add: raw_frame_def numbered_events_def getNEvents_def)

lemma raw_frames_events:
  "\<forall>w \<in> set ws. raw_frame w \<Longrightarrow> sum_list (map getNEvents ws) = int (length (concat (map numbered_events ws)))"
  by (induction ws) (simp_all add: raw_frame_events)

lemma covers_read_back:
  assumes "covers d (IndexLine b e f l x y) st" and "length d < ULLONG_MAX" and "\<not> fromTemp r"
    and "[] \<notin> set cs" and "concat cs = drop (nat b) d" and "reads r = map ReadBytes cs @ rest"
    and "2 * length (step_frames st) \<le> fuel"
  shows "\<exists>r' q. getNextStep (Some (Regular (nat b) (nat e))) r = (True, r') \<and> processStep fuel r' = Return q \<and>
    concat (map absolute_events (queuedBuffers q)) = step_events st \<and> list_all buffer_ok (queuedBuffers q) \<and>
    nEventsNoLost q + nEventsSomeLost q = int (length (step_events st))"
proof -
  obtain pre ws post where c: "d = pre @ bytes_of (concat ws) @ post" "b = int (length pre)"
    "e = int (length pre + 8 * length (concat ws))" "\<forall>w \<in> set ws. raw_frame w"
    "concat (map numbered_events ws) = step_events st" "length ws \<le> 2 * length (step_frames st)"
    using assms(1) by (auto simp: covers_def)
  let ?r = "r\<lparr>stepBegin := nat b, stepEnd := nat e\<rparr>"
  have "gives (?r\<lparr>unread := []\<rparr>) (bytes_of (concat ws) @ post) rest"
    using assms(4-6) c(1,2) by (auto simp: gives_def)
  moreover have "stepEnd ?r = stepBegin ?r + 8 * length (concat ws)" unfolding c(2,3) by (simp only: reader.select_convs reader.update_convs nat_int) simp
  moreover have "stepEnd ?r < ULLONG_MAX" using assms(2) unfolding c(1,3) by simp
  moreover have "length ws \<le> fuel" using c(6) assms(7) by simp
  ultimately obtain q where q: "processStep fuel ?r = Return q"
    "concat (map absolute_events (queuedBuffers q)) = step_events st" "list_all buffer_ok (queuedBuffers q)"
    "counts q = counts (fold count_frame ws (step_start ?r))"
    using processStep_frames [OF c(4)] c(5) by metis
  have "nEventsNoLost q + nEventsSomeLost q = int (length (step_events st))"
    using q(4) total_events [of ws "step_start ?r"] raw_frames_events [OF c(4)] c(5)
    by (simp add: counts_def step_start_def)
  then show ?thesis using assms(3) q by (simp add: getNextStep_def)
qed

text \<open>
  The writer loses no step: for any number of steps whose frames are well formed it returns, it
  appends one line to the index for each of them, in order, and line \<open>i\<close> delimits a part of the data
  that consists of raw frames holding exactly the events of step \<open>i\<close>, each with the number of its
  frame; nothing written before is touched.
\<close>

theorem steps_are_indexed:
  assumes "list_all is_step sts" and "\<forall>st \<in> set sts. \<forall>f \<in> set (step_frames st). good_frame f"
  shows "\<exists>s. write_raw True pad (concat sts) (s0, cal) = Some (s, cal) \<and> (\<exists>x. dataFile s = dataFile s0 @ x) \<and>
    (\<exists>ls. indexFile s = indexFile s0 @ ls \<and> list_all2 (covers (dataFile s)) ls sts)"
  using assms by (rule write_raw_steps)

definition sample_frame :: frame where
  "sample_frame = [push_bit 36 3 OR 7, 1, 0x1234]"

definition sample_step :: "block list" where
  "sample_step =
     [(\<lambda>_. sample_frame, \<lparr>step1 = 5, step2 = 6, wrPointer = 1, rdPointer = 0, blockType = 0\<rparr>),
      (\<lambda>_. sample_frame, \<lparr>step1 = 5, step2 = 6, wrPointer = 2, rdPointer = 1, blockType = 2\<rparr>)]"

lemma sample_step_frames: "step_frames sample_step = [sample_frame, sample_frame]"
  by (simp add: step_frames_def sample_step_def block_frames_def ring_frames_def MaxRawDataFrameQueueSize_def upt_rec)

lemma sample_good: "good_frame sample_frame"
  by (simp add: good_frame_def sample_frame_def parseDataFrame_def getFrameSize_def MaxRawDataFrameSize_def)

lemma sample_is_step: "is_step sample_step"
  by (simp add: is_step_def sample_step_def)

lemma sample_events: "step_events sample_step = [(7, 0x1234), (7, 0x1234)]"
  by (simp add: step_events_def sample_step_frames frame_events_def getNEvents_def getFrameID_def sample_frame_def)

theorem steps_are_indexed_witness:
  "\<exists>s. write_raw True [] sample_step (writer_init [0, 0, 0, 0, 0, 0, 0, 0], []) = Some (s, []) \<and>
    (\<exists>l. indexFile s = [l] \<and> covers (dataFile s) l sample_step)"
proof -
  have "list_all is_step [sample_step]" "\<forall>st \<in> set [sample_step]. \<forall>f \<in> set (step_frames st). good_frame f"
    by (simp_all add: sample_is_step sample_good sample_step_frames)
  from steps_are_indexed [OF this, of "[]" "writer_init [0, 0, 0, 0, 0, 0, 0, 0]" "[]"] show ?thesis
    by (auto simp: list_all2_Cons2 writer_init_def)
qed

text \<open>
  C3: Recording loses and invents nothing: after the writer has written any steps of well-formed
  frames, a reader that seeks to the place which the index gives for step \<open>i\<close> and reads the data in
  whatever pieces \<^verbatim>\<open>read\<close> returns them gets through the step and queues buffers that hold exactly
  the events of the step's frames, in order, each with the number of its frame; and its two event
  totals add up to their number.
\<close>

theorem recorded_events_read_back:
  assumes "list_all is_step sts" and "\<forall>st \<in> set sts. \<forall>f \<in> set (step_frames st). good_frame f"
    and "write_raw True pad (concat sts) (writer_init header, cal) = Some (s, cal')" and "length (dataFile s) < ULLONG_MAX"
    and "i < length sts" and "indexFile s ! i = IndexLine b e f l x y"
    and "\<not> fromTemp r" and "[] \<notin> set cs" and "concat cs = drop (nat b) (dataFile s)" and "reads r = map ReadBytes cs @ rest"
    and "2 * length (step_frames (sts ! i)) \<le> fuel"
  shows "\<exists>r' q. getNextStep (Some (Regular (nat b) (nat e))) r = (True, r') \<and> processStep fuel r' = Return q \<and>
    concat (map absolute_events (queuedBuffers q)) = step_events (sts ! i) \<and>
    nEventsNoLost q + nEventsSomeLost q = int (length (step_events (sts ! i)))"
proof -
  have "list_all2 (covers (dataFile s)) (indexFile s) sts"
    using write_raw_steps [OF assms(1,2), of pad "writer_init header" cal] assms(3) by (auto simp: writer_init_def)
  then have "covers (dataFile s) (IndexLine b e f l x y) (sts ! i)"
    using assms(5,6) by (auto simp: list_all2_conv_all_nth)
  from covers_read_back [OF this assms(4,7-11)] show ?thesis by blast
qed

lemma sample_written:
  "\<exists>s. write_raw True [] sample_step (writer_init [0, 0, 0, 0, 0, 0, 0, 0], []) = Some (s, []) \<and>
    length (dataFile s) = 112 \<and> indexFile s = [IndexLine 64 112 7 7 5 6]"
proof -
  have blocks: "block_frames (\<lambda>_. sample_frame, \<lparr>step1 = 5, step2 = 6, wrPointer = 1, rdPointer = 0, blockType = 0\<rparr>) = [sample_frame]"
    "block_frames (\<lambda>_. sample_frame, \<lparr>step1 = 5, step2 = 6, wrPointer = 2, rdPointer = 1, blockType = 2\<rparr>) = [sample_frame]"
    by (simp_all add: block_frames_def ring_frames_def MaxRawDataFrameQueueSize_def upt_rec)
  have fields: "getNEvents sample_frame = 1" "getFrameID sample_frame = 7" "\<not> getFrameLost sample_frame"
    "getFrameSize sample_frame = 3" "length sample_frame = 3"
    by (simp_all add: sample_frame_def getNEvents_def getFrameID_def getFrameLost_def getFrameSize_def)
  show ?thesis
    by (simp add: write_raw_def sample_step_def write_block_std blocks writer_init_def write_frame_def fields number_frame_def
        account_frame_def frame_type_def append_words_def begin_step_def end_step_def Let_def)
qed

theorem recorded_events_read_back_witness:
  "\<exists>s q. write_raw True [] sample_step (writer_init [0, 0, 0, 0, 0, 0, 0, 0], []) = Some (s, []) \<and>
    processStep 4 \<lparr>unread = [], reads = [ReadBytes (drop 64 (dataFile s))], polled = [], stepBegin = 64, stepEnd = 112,
      fromTemp = False\<rparr> = Return q \<and>
    concat (map absolute_events (queuedBuffers q)) = [(7, 0x1234), (7, 0x1234)]"
proof -
  obtain s where s: "write_raw True [] sample_step (writer_init [0, 0, 0, 0, 0, 0, 0, 0], []) = Some (s, [])"
    "length (dataFile s) = 112" "indexFile s = [IndexLine 64 112 7 7 5 6]" using sample_written by blast
  let ?r = "\<lparr>unread = [], reads = [ReadBytes (drop 64 (dataFile s))], polled = [], stepBegin = 0, stepEnd = 0, fromTemp = False\<rparr>"
  have "drop 64 (dataFile s) \<noteq> []" using s(2) by simp
  then have "\<exists>r' q. getNextStep (Some (Regular (nat 64) (nat 112))) ?r = (True, r') \<and> processStep 4 r' = Return q \<and>
      concat (map absolute_events (queuedBuffers q)) = step_events ([sample_step] ! 0) \<and>
      nEventsNoLost q + nEventsSomeLost q = int (length (step_events ([sample_step] ! 0)))"
    by (intro recorded_events_read_back [where cs = "[drop 64 (dataFile s)]" and rest = "[]" and s = s and pad = "[]"
        and header = "[0, 0, 0, 0, 0, 0, 0, 0]" and cal = "[]" and cal' = "[]" and f = 7 and l = 7 and x = 5 and y = 6])
      (simp_all add: sample_is_step sample_good sample_step_frames s ULLONG_MAX_def)
  then obtain r' q where "r' = snd (getNextStep (Some (Regular (nat 64) (nat 112))) ?r)" "processStep 4 r' = Return q"
    "concat (map absolute_events (queuedBuffers q)) = step_events ([sample_step] ! 0)" by (metis snd_conv)
  then show ?thesis using s(1) by (intro exI [of _ s] exI [of _ q]) (simp add: getNextStep_def sample_events)
qed

section \<open>The header\<close>

lemma and_mask_32: "(w :: u64) AND 0xFFFFFFFF = take_bit 32 w"
  by (simp add: take_bit_eq_mask mask_eq_exp_minus_1)

lemma header_frequency_bits:
  assumes "0 \<le> f" and "f < 2 ^ 32"
  shows "uint (ucast ((ucast (word_of_int f :: u32) OR push_bit 32 b) AND 0xFFFFFFFF :: u64) :: u32) = f"
proof -
  have "(ucast ((ucast (word_of_int f :: u32) OR push_bit 32 b) AND 0xFFFFFFFF :: u64) :: u32) = word_of_int f"
    unfolding and_mask_32 by (rule bit_word_eqI) (simp add: bit_simps)
  moreover have "take_bit 32 f = f" using assms by (simp add: take_bit_int_eq_self)
  ultimately show ?thesis by (simp only: uint_word_of_int_eq) simp
qed

lemma header_qdc_bit:
  "((ucast (w :: u32) OR push_bit 32 (if q then 1 else 0)) AND 0x100000000 \<noteq> (0 :: u64)) = q"
proof -
  have "0x100000000 = (push_bit 32 1 :: u64)" by simp
  then have "(x AND 0x100000000 \<noteq> 0) = bit x 32" for x :: u64
    by (metis and_exp_eq_0_iff_not_bit push_bit_of_1)
  moreover have "\<not> bit w 32" by (auto dest: bit_imp_le_length)
  ultimately show ?thesis by (auto simp: bit_simps)
qed

lemma trigger_bits:
  assumes "0 \<le> t" and "t < 0x8000"
  shows "(word_of_int (0x8000 + t) :: u64) AND 0x8000 \<noteq> 0" and "uint ((word_of_int (0x8000 + t) :: u64) AND 0x7FFF) = t"
proof -
  have "(0x8000 + t) div 2 ^ 15 = 1" using assms by simp
  then have "bit (0x8000 + t) 15" by (simp add: bit_iff_odd)
  then have "bit (word_of_int (0x8000 + t) :: u64) 15" unfolding bit_word_of_int_iff by simp
  moreover have "0x8000 = (push_bit 15 1 :: u64)" by simp
  ultimately show "(word_of_int (0x8000 + t) :: u64) AND 0x8000 \<noteq> 0"
    by (metis and_exp_eq_0_iff_not_bit push_bit_of_1)
  have "(word_of_int (0x8000 + t) :: u64) AND 0x7FFF = take_bit 15 (word_of_int (0x8000 + t))"
    using and_masks(1) by blast
  moreover have "uint (take_bit 15 (word_of_int (0x8000 + t) :: u64)) = take_bit 15 (0x8000 + t)"
    by (simp only: unsigned_take_bit_eq uint_word_of_int_eq take_bit_take_bit) simp
  moreover have "take_bit 15 (0x8000 + t) = t" using assms by (simp add: take_bit_eq_mod)
  ultimately show "uint ((word_of_int (0x8000 + t) :: u64) AND 0x7FFF) = t" by simp
qed

text \<open>
  What the writer puts into the header of the file is what \<open>openFile\<close> finds there, whatever
  follows it: the frequency, the trigger (or that there is none) and, unless the mode is mixed, the
  mode of every channel.
\<close>

theorem header_read_back:
  assumes "0 \<le> f" and "f < 2 ^ 32" and "trig = -1 \<or> 0 \<le> trig \<and> trig < 0x8000" and "mode \<noteq> ''mixed''" and "tmpf \<or> idxf"
  shows "\<exists>rd. openFile tmpf idxf True (bytes_of (file_header f mode start trig) @ data) modf old = Return (Some rd) \<and>
    uint (frequency rd) = f \<and> triggerID rd = trig \<and> qdcModes rd = (\<lambda>g. mode = ''qdc'') \<and> indexIsTemp rd = tmpf"
proof -
  let ?h = "file_header f mode start trig"
  have len: "length ?h = 8" by (simp add: file_header_def)
  then have words: "words_of 8 (bytes_of ?h @ data) = ?h" using words_of_bytes [of ?h data] by simp
  have "header_modes ?h modf old = Return (Some (\<lambda>g. mode = ''qdc''))"
    using assms(4) header_qdc_bit [of "word_of_int f" "mode = ''qdc''"] by (simp add: header_modes_def file_header_def)
  moreover have "uint (header_frequency ?h) = f"
    using header_frequency_bits [OF assms(1,2)] by (simp add: header_frequency_def file_header_def)
  moreover have "header_triggerID ?h = trig"
    using assms(3) trigger_bits [of trig] by (auto simp: header_triggerID_def file_header_def)
  ultimately show ?thesis using assms(5) len by (auto simp: openFile_def words Let_def)
qed

theorem header_read_back_witness:
  "\<exists>rd. openFile False True True (bytes_of (file_header 200000000 ''qdc'' 1 7) @ [1, 2]) None (\<lambda>_. False) = Return (Some rd) \<and>
    uint (frequency rd) = 200000000 \<and> triggerID rd = 7 \<and> qdcModes rd 5"
  using header_read_back [of 200000000 7 "''qdc''" False True 1 "[1, 2]" None "\<lambda>_. False"] by auto

end
