(* ===== verification/RawAccounting.thy ===== *)
theory RawAccounting
  imports RawFiles
begin

text \<open>
  The books of a step: what the writer reports about lost frames and events, and what the reader makes
  of the frames that the writer left out.
\<close>

section \<open>The writer\<close>

lemma account_gap_fields:
  "lastFrameID (account_gap acq i s) = lastFrameID s" "stepFirstFrameID (account_gap acq i s) = stepFirstFrameID s"
  "stepEvents (account_gap acq i s) = stepEvents s" "stepLostFramesN (account_gap acq i s) = stepLostFramesN s"
  "stepAllFrames (account_gap acq i s) = stepAllFrames s + (i - lastFrameID s - 1)"
  "stepLostFrames0 (account_gap acq i s) = stepLostFrames0 s + (i - lastFrameID s - 1)"
  by (simp_all add: account_gap_def append_words_def Let_def)

definition gap :: "int \<Rightarrow> writer \<Rightarrow> int" where
  "gap i s = (if 0 \<le> lastFrameID s \<and> lastFrameID s < i then i - lastFrameID s - 1 else 0)"

lemma number_frame_fields:
  "lastFrameID (number_frame acq i s) = i"
  "stepFirstFrameID (number_frame acq i s) = (if stepFirstFrameID s = -1 then i else stepFirstFrameID s)"
  "stepEvents (number_frame acq i s) = stepEvents s" "stepLostFramesN (number_frame acq i s) = stepLostFramesN s"
  "stepAllFrames (number_frame acq i s) = stepAllFrames s + gap i s"
  "stepLostFrames0 (number_frame acq i s) = stepLostFrames0 s + gap i s"
  by (simp_all add: number_frame_def account_gap_fields gap_def Let_def)

lemma account_frame_fields:
  "lastFrameID (account_frame n lost s) = lastFrameID s" "stepFirstFrameID (account_frame n lost s) = stepFirstFrameID s"
  "stepEvents (account_frame n lost s) = stepEvents s + n" "stepAllFrames (account_frame n lost s) = stepAllFrames s + 1"
  "stepLostFrames0 (account_frame n lost s) = stepLostFrames0 s + (if lost \<and> n = 0 then 1 else 0)"
  "stepLostFramesN (account_frame n lost s) = stepLostFramesN s + (if lost \<and> n \<noteq> 0 then 1 else 0)"
  by (simp_all add: account_frame_def Let_def)

definition books :: "writer \<Rightarrow> int \<times> int \<times> int \<times> int \<times> int \<times> int" where
  "books s = (stepAllFrames s, stepLostFrames0 s, stepLostFramesN s, stepEvents s, stepFirstFrameID s, lastFrameID s)"

lemma write_frame_books:
  assumes "write_frame acq ty f s = Some s'"
  shows "books s' = books (account_frame (getNEvents f) (getFrameLost f) (number_frame acq (uint (getFrameID f)) s))"
  using assms by (auto simp: write_frame_def Let_def books_def append_words_def split: if_splits)

text \<open>The books after the frames \<open>fs\<close> of a step.\<close>

definition frame_no :: "frame \<Rightarrow> int" where
  "frame_no f = uint (getFrameID f)"

definition all_lost :: "frame \<Rightarrow> bool" where
  "all_lost f \<longleftrightarrow> getFrameLost f \<and> getNEvents f = 0"

definition some_lost :: "frame \<Rightarrow> bool" where
  "some_lost f \<longleftrightarrow> getFrameLost f \<and> getNEvents f \<noteq> 0"

definition accounted :: "frame list \<Rightarrow> writer \<Rightarrow> bool" where
  "accounted fs s \<longleftrightarrow>
     stepFirstFrameID s = (if fs = [] then -1 else frame_no (hd fs)) \<and>
     lastFrameID s = (if fs = [] then -1 else frame_no (last fs)) \<and>
     stepAllFrames s = (if fs = [] then 0 else frame_no (last fs) - frame_no (hd fs) + 1) \<and>
     stepLostFrames0 s = stepAllFrames s - int (length fs) + int (length (filter all_lost fs)) \<and>
     stepLostFramesN s = int (length (filter some_lost fs)) \<and>
     stepEvents s = sum_list (map getNEvents fs)"

lemma frame_no_nonneg [simp]: "0 \<le> frame_no f"
  by (simp add: frame_no_def)

lemma accounted_write_frame:
  assumes "accounted fs s" and "write_frame acq ty f s = Some s'" and "fs \<noteq> [] \<Longrightarrow> frame_no (last fs) < frame_no f"
  shows "accounted (fs @ [f]) s'"
proof -
  have fields: "stepAllFrames s' = stepAllFrames s + gap (frame_no f) s + 1"
    "stepLostFrames0 s' = stepLostFrames0 s + gap (frame_no f) s + (if all_lost f then 1 else 0)"
    "stepLostFramesN s' = stepLostFramesN s + (if some_lost f then 1 else 0)" "stepEvents s' = stepEvents s + getNEvents f"
    "stepFirstFrameID s' = (if stepFirstFrameID s = -1 then frame_no f else stepFirstFrameID s)" "lastFrameID s' = frame_no f"
    using write_frame_books [OF assms(2)]
    by (simp_all add: books_def account_frame_fields number_frame_fields all_lost_def some_lost_def flip: frame_no_def)
  have pos: "-1 < frame_no g" for g by (rule less_le_trans [OF _ frame_no_nonneg]) simp
  show ?thesis
  proof (cases "fs = []")
    case True
    then show ?thesis using assms(1) by (simp add: accounted_def fields gap_def)
  next
    case False
    then have "gap (frame_no f) s = frame_no f - frame_no (last fs) - 1" "stepFirstFrameID s \<noteq> -1"
      using assms(1,3) pos [of "hd fs"] by (auto simp: accounted_def gap_def)
    then show ?thesis using False assms(1) by (simp add: accounted_def fields)
  qed
qed

lemma accounted_write_frames:
  "accounted fs s \<Longrightarrow> write_frames acq ty gs s = Some s' \<Longrightarrow> sorted_wrt (<) (map frame_no (fs @ gs)) \<Longrightarrow>
    accounted (fs @ gs) s'"
proof (induction gs arbitrary: fs s)
  case (Cons g gs)
  obtain s1 where s1: "write_frame acq ty g s = Some s1" "write_frames acq ty gs s1 = Some s'"
    using Cons.prems(2) by (auto split: option.splits)
  have "frame_no (last fs) < frame_no g" if "fs \<noteq> []"
    using Cons.prems(3) last_in_set [OF that] by (simp add: sorted_wrt_append)
  from accounted_write_frame [OF Cons.prems(1) s1(1) this] have "accounted (fs @ [g]) s1" by blast
  then show ?case using Cons.IH [of "fs @ [g]" s1] s1(2) Cons.prems(3) by simp
qed simp

lemma accounted_books: "books s = books s' \<Longrightarrow> accounted fs s \<Longrightarrow> accounted fs s'"
  by (simp add: accounted_def books_def)

lemma write_block_frames:
  assumes "write_block acq pad mem b (s, cal) = Some (reply, s', cal')"
  shows "\<exists>s2. write_frames acq (blockType b) (block_frames (mem, b)) (if blockType b = 0 then begin_step b s else s) = Some s2 \<and>
    books s2 = books s' \<and> (blockType b = 2 \<longrightarrow> (\<exists>b0 e. last (indexFile s') =
      IndexLine b0 e (stepFirstFrameID s') (lastFrameID s') (step1 b) (step2 b))) \<and>
    reply = (unat (wrPointer b) mod (2 * QSize), stepAllFrames s', stepLostFrames0 s', stepEvents s')"
  using assms unfolding write_block_def prod.case Let_def block_walk option.case
  by (auto simp: end_step_def books_def Let_def split: option.splits)

lemma accounted_begin: "accounted [] (begin_step b s)"
  by (simp add: accounted_def begin_step_def Let_def)

lemma accounted_blocks:
  "accounted fs s \<Longrightarrow> \<forall>mb \<in> set bs. blockType (snd mb) \<noteq> 0 \<Longrightarrow> write_blocks acq pad bs (s, cal) = Some (s', cal') \<Longrightarrow>
    sorted_wrt (<) (map frame_no (fs @ step_frames bs)) \<Longrightarrow> accounted (fs @ step_frames bs) s'"
proof (induction bs arbitrary: fs s cal)
  case Nil
  then show ?case by (simp add: step_frames_def)
next
  case (Cons mb bs)
  obtain mem b where mb: "mb = (mem, b)" by fastforce
  obtain reply s1 cal1 where s1: "write_block acq pad mem b (s, cal) = Some (reply, s1, cal1)"
    "write_blocks acq pad bs (s1, cal1) = Some (s', cal')"
    using Cons.prems(3) by (auto simp: mb split: option.splits)
  have t: "blockType b \<noteq> 0" using Cons.prems(2) by (simp add: mb)
  obtain s2 where s2: "write_frames acq (blockType b) (block_frames mb) s = Some s2" "books s2 = books s1"
    using write_block_frames [OF s1(1)] t by (auto simp: mb)
  have frames: "fs @ step_frames (mb # bs) = (fs @ block_frames mb) @ step_frames bs" by (simp add: step_frames_def)
  have "sorted_wrt (<) (map frame_no (fs @ block_frames mb))"
    using Cons.prems(4) unfolding frames map_append [of _ "fs @ block_frames mb"] sorted_wrt_append by blast
  from accounted_books [OF s2(2) accounted_write_frames [OF Cons.prems(1) s2(1) this]]
  have "accounted (fs @ block_frames mb) s1" .
  from Cons.IH [OF this _ s1(2)] Cons.prems(2,4) show ?case unfolding frames by simp
qed

lemma blocks_append_Some:
  assumes "write_blocks acq pad (bs @ cs) sc = Some sc'"
  obtains sc1 where "write_blocks acq pad bs sc = Some sc1" and "write_blocks acq pad cs sc1 = Some sc'"
  using assms by (auto simp: write_blocks_append split: option.splits)

text \<open>
  C23: The books of a step close: when the frames of a step come with increasing numbers, in whatever
  blocks, the writer's totals at its end are those of the frames: all frames from the first number
  to the last, the ones never seen or marked as lost without events, the ones with some events lost,
  and the events; and the index line carries the two numbers.
\<close>

theorem step_accounting:
  assumes "is_step st" and "sorted_wrt (<) (map frame_no (step_frames st))"
    and "write_blocks acq pad st (s, cal) = Some (s', cal')"
  shows "accounted (step_frames st) s' \<and>
    (\<exists>b e x y. last (indexFile s') = IndexLine b e (stepFirstFrameID s') (lastFrameID s') x y)"
proof -
  obtain mem b0 mid b2 where st: "st = (mem, b0) # mid @ [b2]" "blockType b0 = 0" "blockType (snd b2) = 2"
    "\<forall>b \<in> set mid. blockType (snd b) \<noteq> 0 \<and> blockType (snd b) \<noteq> 2"
    using assms(1) by (auto simp: is_step_def)
  obtain reply s1 cal1 where s1: "write_block acq pad mem b0 (s, cal) = Some (reply, s1, cal1)"
    "write_blocks acq pad (mid @ [b2]) (s1, cal1) = Some (s', cal')"
    using assms(3) by (auto simp: st(1) split: option.splits)
  obtain s2 where s2: "write_frames acq 0 (block_frames (mem, b0)) (begin_step b0 s) = Some s2" "books s2 = books s1"
    using write_block_frames [OF s1(1)] st(2) by auto
  have frames: "step_frames st = block_frames (mem, b0) @ step_frames (mid @ [b2])" by (simp add: st(1) step_frames_def)
  have sorted: "sorted_wrt (<) (map frame_no ([] @ block_frames (mem, b0)))"
    using assms(2) unfolding frames map_append sorted_wrt_append by simp
  have "accounted (block_frames (mem, b0)) s1"
    using accounted_books [OF s2(2) accounted_write_frames [OF accounted_begin s2(1) sorted]] by simp
  from accounted_blocks [OF this _ s1(2)] have "accounted (step_frames st) s'"
    using st(3,4) assms(2) unfolding frames by auto
  obtain sc where sc: "write_blocks acq pad [b2] sc = Some (s', cal')"
    using blocks_append_Some [OF s1(2)] by blast
  then have "\<exists>b e x y. last (indexFile s') = IndexLine b e (stepFirstFrameID s') (lastFrameID s') x y"
    using st(3) write_block_frames [of acq pad "fst b2" "snd b2" "fst sc" "snd sc"]
    by (cases b2; cases sc) (auto split: option.splits)
  with \<open>accounted (step_frames st) s'\<close> show ?thesis ..
qed

section \<open>A step with a gap\<close>

text \<open>Frames 10 and 14 with an event each, 12 and 13 empty and complete; 11 was lost.\<close>

definition one_event :: "u64 \<Rightarrow> frame" where
  "one_event i = [push_bit 36 3 OR i, 1, 0x1234]"

definition no_event :: "u64 \<Rightarrow> frame" where
  "no_event i = [push_bit 36 2 OR i, 0]"

definition gap_frames :: "frame list" where
  "gap_frames = [one_event 10, no_event 12, no_event 13, one_event 14]"

definition gap_step :: "block list" where
  "gap_step =
     [(\<lambda>i. gap_frames ! i, \<lparr>step1 = 0, step2 = 0, wrPointer = 0, rdPointer = 0, blockType = 0\<rparr>),
      (\<lambda>i. gap_frames ! i, \<lparr>step1 = 0, step2 = 0, wrPointer = 4, rdPointer = 0, blockType = 1\<rparr>),
      (\<lambda>i. gap_frames ! i, \<lparr>step1 = 0, step2 = 0, wrPointer = 4, rdPointer = 4, blockType = 2\<rparr>)]"

definition gap_file :: "u64 list list" where
  "gap_file = [one_event 10, lost_frame 11, one_event 14]"

lemma gap_blocks:
  "block_frames (\<lambda>i. gap_frames ! i, \<lparr>step1 = 0, step2 = 0, wrPointer = 0, rdPointer = 0, blockType = 0\<rparr>) = []"
  "block_frames (\<lambda>i. gap_frames ! i, \<lparr>step1 = 0, step2 = 0, wrPointer = 4, rdPointer = 0, blockType = 1\<rparr>) = gap_frames"
  "block_frames (\<lambda>i. gap_frames ! i, \<lparr>step1 = 0, step2 = 0, wrPointer = 4, rdPointer = 4, blockType = 2\<rparr>) = []"
  by (simp_all add: block_frames_def ring_frames_def MaxRawDataFrameQueueSize_def upt_rec gap_frames_def)

lemma gap_fields:
  "getNEvents (one_event 10) = 1" "getNEvents (no_event 12) = 0"
  "getNEvents (no_event 13) = 0" "getNEvents (one_event 14) = 1"
  "getFrameID (one_event 10) = 10" "getFrameID (no_event 12) = 12"
  "getFrameID (no_event 13) = 13" "getFrameID (one_event 14) = 14"
  "\<not> getFrameLost (one_event 10)" "\<not> getFrameLost (no_event 12)"
  "\<not> getFrameLost (no_event 13)" "\<not> getFrameLost (one_event 14)"
  "getFrameSize (one_event 10) = 3" "getFrameSize (one_event 14) = 3"
  "getNEvents (lost_frame 11) = 0" "getFrameID (lost_frame 11) = 11" "getFrameLost (lost_frame 11)"
  "length (one_event 10) = 3" "length (one_event 14) = 3" "length (lost_frame 11) = 2"
  by (simp_all add: one_event_def no_event_def getNEvents_def getFrameID_def getFrameLost_def getFrameSize_def lost_frame_def)

lemma gap_frame_sequence: "step_frames gap_step = gap_frames"
  by (simp add: step_frames_def gap_step_def gap_blocks)

lemma gap_frames_written:
  "\<exists>s'. write_frames True 1 gap_frames (begin_step b (writer_init h)) = Some s' \<and>
    dataFile s' = bytes_of h @ bytes_of (concat gap_file) \<and> stepLostFrames0 s' = 1"
  by (simp add: gap_frames_def writer_init_def write_frame_def gap_fields number_frame_def account_gap_def account_frame_def
      frame_type_def append_words_def begin_step_def Let_def gap_file_def)

lemma gap_written:
  "\<exists>s. write_blocks True [] gap_step (writer_init h, []) = Some (s, []) \<and>
    dataFile s = bytes_of h @ bytes_of (concat gap_file) \<and> stepLostFrames0 s = 1"
proof -
  let ?b = "\<lparr>step1 = 0, step2 = 0, wrPointer = 0, rdPointer = 0, blockType = 0\<rparr>"
  obtain s' where "write_frames True 1 gap_frames (begin_step ?b (writer_init h)) = Some s'"
    "dataFile s' = bytes_of h @ bytes_of (concat gap_file)" "stepLostFrames0 s' = 1"
    using gap_frames_written by blast
  then show ?thesis by (simp add: gap_step_def write_block_std gap_blocks Let_def end_step_def)
qed

theorem step_accounting_witness:
  "\<exists>s. write_blocks True [] gap_step (writer_init [0], []) = Some (s, []) \<and> stepAllFrames s = 5 \<and> stepLostFrames0 s = 1 \<and>
    stepEvents s = 2"
proof -
  obtain s where s: "write_blocks True [] gap_step (writer_init [0], []) = Some (s, [])" using gap_written by blast
  have "is_step gap_step" by (simp add: is_step_def gap_step_def)
  moreover have "sorted_wrt (<) (map frame_no (step_frames gap_step))"
    by (simp add: gap_frame_sequence gap_frames_def frame_no_def gap_fields)
  ultimately have "accounted (step_frames gap_step) s" using step_accounting s by blast
  then show ?thesis using s by (simp add: accounted_def gap_frame_sequence gap_frames_def frame_no_def gap_fields all_lost_def)
qed

text \<open>
  The reader and the writer disagree about lost frames: of the frames 10, 12, 13 and 14, the two
  in the middle complete but without events, the writer counts one lost, number 11. It leaves 12
  and 13 out, taking them for a continuation of the lost one, so that the reader, to whom the file
  shows 10, a lost 11 and 14, counts three.
\<close>

theorem reader_overcounts_lost:
  "\<exists>s q. write_blocks True [] gap_step (writer_init [0, 0, 0, 0, 0, 0, 0, 0], []) = Some (s, []) \<and> stepLostFrames0 s = 1 \<and>
    processStep 3 \<lparr>unread = [], reads = [ReadBytes (drop 64 (dataFile s))], polled = [], stepBegin = 64, stepEnd = 128,
      fromTemp = False\<rparr> = Return q \<and> nFrames q = 5 \<and> nFramesLost0 q = 3"
proof -
  obtain s where s: "write_blocks True [] gap_step (writer_init [0, 0, 0, 0, 0, 0, 0, 0], []) = Some (s, [])"
    "dataFile s = bytes_of [0, 0, 0, 0, 0, 0, 0, 0] @ bytes_of (concat gap_file)" "stepLostFrames0 s = 1"
    using gap_written by blast
  have step: "drop 64 (dataFile s) = bytes_of (concat gap_file)" unfolding s(2) by (subst drop_append) simp
  let ?r = "\<lparr>unread = [], reads = [ReadBytes (drop 64 (dataFile s))], polled = [], stepBegin = 64, stepEnd = 128, fromTemp = False\<rparr>"
  have raw: "\<forall>f \<in> set gap_file. raw_frame f"
    by (simp add: gap_file_def raw_frame_def gap_fields MaxRawDataFrameSize_def)
  have len: "length (concat gap_file) = 8" by (simp add: gap_file_def gap_fields)
  have "bytes_of (concat gap_file) \<noteq> []" by (simp add: len flip: length_0_conv)
  then have "gives (?r\<lparr>unread := []\<rparr>) (bytes_of (concat gap_file) @ []) []"
    unfolding step by (auto simp: gives_def intro: exI [of _ "[bytes_of (concat gap_file)]"])
  moreover have "stepEnd ?r = stepBegin ?r + 8 * length (concat gap_file)" "stepEnd ?r < ULLONG_MAX" "length gap_file \<le> 3"
    by (simp_all add: len ULLONG_MAX_def) (simp add: gap_file_def)
  ultimately obtain q where q: "processStep 3 ?r = Return q" "counts q = counts (fold count_frame gap_file (step_start ?r))"
    using processStep_frames [OF raw, of ?r "[]" "[]" 3] by blast
  have "nFrames (fold count_frame gap_file (step_start ?r)) = 5 \<and> nFramesLost0 (fold count_frame gap_file (step_start ?r)) = 3"
    by (simp add: gap_file_def count_frame_fields count_gap_fields gap_fields step_start_def to_int_def)
  with q(2) have "nFrames q = 5" "nFramesLost0 q = 3" by (simp_all add: counts_def)
  with q(1) s(1,3) show ?thesis by blast
qed

end
