(* ===== verification/Calibration.thy ===== *)
theory Calibration
  imports RawWriter
begin

text \<open>
  Counting calibration events: the maps of the pool of \<open>write_raw\<close>, one for each processor, between
  them hold the number of times every event word was seen, whatever the number of processors.
\<close>

definition counted :: "pool \<Rightarrow> u64 \<Rightarrow> u32" where
  "counted cal w = (case map_find (cal ! (unat (event_hash w) mod length cal)) w of None \<Rightarrow> 0 | Some c \<Rightarrow> c)"

definition pool_ok :: "pool \<Rightarrow> bool" where
  "pool_ok cal \<longleftrightarrow> cal \<noteq> [] \<and> list_all map_ok cal \<and>
     (\<forall>i < length cal. \<forall>w. map_find (cal ! i) w \<noteq> None \<longrightarrow> unat (event_hash w) mod length cal = i)"

lemma count_event_ok: "map_ok m \<Longrightarrow> map_ok (count_event n i w m)"
  by (simp add: count_event_def map_put_ok)

lemma count_event_find:
  "map_ok m \<Longrightarrow> map_find (count_event n i w m) v =
     (if v = w \<and> unat (event_hash w) mod n = i then Some ((case map_find m w of None \<Rightarrow> 0 | Some c \<Rightarrow> c) + 1) else map_find m v)"
  by (simp add: count_event_def map_put_find)

lemma fold_count_ok: "map_ok m \<Longrightarrow> map_ok (fold (count_event n i) ws m)"
  by (induction ws arbitrary: m) (simp_all add: count_event_ok)

lemma fold_count_find:
  "map_ok m \<Longrightarrow> map_find (fold (count_event n i) ws m) v =
     (if v \<in> set ws \<and> unat (event_hash v) mod n = i
      then Some ((case map_find m v of None \<Rightarrow> 0 | Some c \<Rightarrow> c) + of_nat (count_list ws v)) else map_find m v)"
proof (induction ws arbitrary: m)
  case (Cons w ws)
  have "map_ok (count_event n i w m)" by (rule count_event_ok [OF Cons.prems])
  from Cons.IH [OF this] show ?case
    by (auto simp: count_event_find [OF Cons.prems] count_list_0_iff [THEN iffD2] algebra_simps)
qed simp

lemma processBatch_spec:
  assumes "pool_ok cal" and "those (map event_words fs) = Some evs"
  shows "\<exists>cal'. processBatch fs cal = Some cal' \<and> pool_ok cal' \<and> length cal' = length cal \<and>
    (\<forall>w. counted cal' w = counted cal w + of_nat (count_list (concat evs) w))"
proof -
  let ?n = "length cal"
  let ?cal = "map (\<lambda>i. fold (count_event ?n i) (concat evs) (cal ! i)) [0..<?n]"
  have ok: "map_ok (cal ! i)" if "i < ?n" for i using assms(1) that by (simp add: pool_ok_def list_all_length)
  have pos: "0 < ?n" using assms(1) by (simp add: pool_ok_def)
  have "pool_ok ?cal"
    unfolding pool_ok_def list_all_length using assms(1) pos
    by (auto simp: ok fold_count_ok fold_count_find pool_ok_def split: if_splits)
  moreover have "counted ?cal w = counted cal w + of_nat (count_list (concat evs) w)" for w
  proof -
    let ?i = "unat (event_hash w) mod ?n"
    have "?i < ?n" using pos by simp
    then show ?thesis
      by (simp add: counted_def fold_count_find ok count_list_0_iff [THEN iffD2])
  qed
  ultimately show ?thesis by (intro exI [of _ ?cal]) (simp add: processBatch_def assms(2))
qed

lemma pool_empty: "0 < n \<Longrightarrow> pool_ok (replicate n []) \<and> counted (replicate n []) w = 0"
  by (simp add: pool_ok_def counted_def list_all_length)

text \<open>
  C30: Counting in parallel counts right: after a batch of frames each event word has been counted
  once for each of its occurrences, modulo \<open>2^32\<close>, and in the map of one processor only; the sum over
  several batches is that of their frames, with any number of processors.
\<close>

theorem calibration_counts:
  assumes "pool_ok cal" and "those (map event_words fs) = Some evs" and "those (map event_words gs) = Some evs'"
  shows "\<exists>cal' cal''. processBatch fs cal = Some cal' \<and> processBatch gs cal' = Some cal'' \<and> pool_ok cal'' \<and>
    (\<forall>w. counted cal'' w = counted cal w + of_nat (count_list (concat (evs @ evs')) w))"
proof -
  obtain cal' where c: "processBatch fs cal = Some cal'" "pool_ok cal'"
    "\<forall>w. counted cal' w = counted cal w + of_nat (count_list (concat evs) w)"
    using processBatch_spec [OF assms(1,2)] by blast
  obtain cal'' where "processBatch gs cal' = Some cal''" "pool_ok cal''"
    "\<forall>w. counted cal'' w = counted cal' w + of_nat (count_list (concat evs') w)"
    using processBatch_spec [OF c(2) assms(3)] by blast
  with c show ?thesis by (intro exI [of _ cal'] exI [of _ cal'']) (simp add: algebra_simps)
qed

theorem calibration_counts_witness:
  "\<exists>cal''. pool_ok cal'' \<and> counted cal'' 0x1234 = 3"
proof -
  define cal :: pool where "cal = replicate 3 []"
  have cal: "pool_ok cal" "counted cal 0x1234 = 0" unfolding cal_def by (rule pool_empty [THEN conjunct1], simp) (rule pool_empty [THEN conjunct2], simp)
  have "those (map event_words [[0, 2, 0x1234, 0x1234]]) = Some [[0x1234, 0x1234]]"
    "those (map event_words [[0, 1, 0x1234]]) = Some [[0x1234]]"
    by (simp_all add: event_words_def getNEvents_def Let_def)
  from calibration_counts [OF cal(1) this] obtain cal'' where "pool_ok cal''"
    "\<forall>w. counted cal'' w = counted cal w + of_nat (count_list (concat ([[0x1234, 0x1234]] @ [[0x1234]])) w)" by blast
  then show ?thesis using cal(2) by (intro exI [of _ cal'']) simp
qed

end
