(* ===== verification/ThreadPool.thy ===== *)
theory ThreadPool
  imports Prelude "HOL-Library.Multiset"
begin

text \<open>
  The pool of threads that decodes buffers (\<^verbatim>\<open>external/base/include/ThreadPool.h\<close>,
  \<^verbatim>\<open>external/base/src/ThreadPool.cpp\<close>) with the one thread that uses it: it queues its jobs,
  calls \<open>completeQueue\<close> and deletes the pool.

  A step is what a thread does between taking the mutex and giving it up, or a job's work. A thread
  that waits on a condition is in a state of its own, and a signal wakes one of those waiting.
\<close>

section \<open>State\<close>

datatype 'j worker = Idle | Sleeping | Running 'j | Exited

text \<open>
  The client: queueing its jobs, in \<open>completeQueue\<close> (\<open>True\<close> for the second call, the destructor's),
  joining the workers.
\<close>

datatype client =
  Queueing | WaitsDequeued | Completing bool | WaitsEmpty bool | WaitsScan bool nat | Scanning bool nat
| Completed bool | Joining | Destroyed

record 'j tpool =
  maxQueueSize :: nat
  tqueue :: "'j list"
  workers :: "'j worker list"
  tp_terminate :: bool
  client :: client
  todo :: "'j list"
  started :: "'j list"
  finished :: "'j list"

definition isBusy :: "'j worker \<Rightarrow> bool" where
  "isBusy w = (case w of Running j \<Rightarrow> True | _ \<Rightarrow> False)"

definition pool_new :: "nat \<Rightarrow> 'j list \<Rightarrow> 'j tpool" where
  "pool_new nCPU jobs = \<lparr>maxQueueSize = (if nCPU div 4 < 1 then 1 else nCPU div 4), tqueue = [], workers = replicate nCPU Idle,
     tp_terminate = False, client = Queueing, todo = jobs, started = [], finished = []\<rparr>"

section \<open>Conditions\<close>

definition signal_queued :: "'j worker list \<Rightarrow> 'j worker list \<Rightarrow> bool" where
  "signal_queued ws ws' \<longleftrightarrow>
     (if Sleeping \<in> set ws then \<exists>i < length ws. ws ! i = Sleeping \<and> ws' = ws[i := Idle] else ws' = ws)"

definition wake_all :: "'j worker list \<Rightarrow> 'j worker list" where
  "wake_all ws = map (\<lambda>w. case w of Sleeping \<Rightarrow> Idle | _ \<Rightarrow> w) ws"

definition signal_dequeued :: "client \<Rightarrow> client" where
  "signal_dequeued c = (case c of WaitsDequeued \<Rightarrow> Queueing | WaitsEmpty d \<Rightarrow> Completing d | _ \<Rightarrow> c)"

text \<open>The loop of \<open>completeQueue\<close> goes on with the next worker after one wait.\<close>

definition signal_completed :: "client \<Rightarrow> client" where
  "signal_completed c = (case c of WaitsScan d i \<Rightarrow> Scanning d (i + 1) | _ \<Rightarrow> c)"

function scan :: "bool \<Rightarrow> nat \<Rightarrow> 'j worker list \<Rightarrow> client" where
  "scan d i ws = (if \<not> i < length ws then Completed d else if isBusy (ws ! i) then WaitsScan d i else scan d (i + 1) ws)"
  by pat_completeness auto
termination
  by (relation "measure (\<lambda>(d, i, ws). length ws - i)") auto

declare scan.simps [simp del]

section \<open>Steps\<close>

inductive tp_step :: "'j tpool \<Rightarrow> 'j tpool \<Rightarrow> bool" where
  queueTask: "client s = Queueing \<Longrightarrow> todo s = j # js \<Longrightarrow> length (tqueue s) < maxQueueSize s \<Longrightarrow> signal_queued (workers s) ws \<Longrightarrow>
    tp_step s (s\<lparr>tqueue := tqueue s @ [j], todo := js, workers := ws\<rparr>)"
| queue_full: "client s = Queueing \<Longrightarrow> todo s \<noteq> [] \<Longrightarrow> maxQueueSize s \<le> length (tqueue s) \<Longrightarrow> tp_step s (s\<lparr>client := WaitsDequeued\<rparr>)"
| queued_all: "client s = Queueing \<Longrightarrow> todo s = [] \<Longrightarrow> tp_step s (s\<lparr>client := Completing False\<rparr>)"
| not_empty: "client s = Completing d \<Longrightarrow> tqueue s \<noteq> [] \<Longrightarrow> tp_step s (s\<lparr>client := WaitsEmpty d\<rparr>)"
| empty: "client s = Completing d \<Longrightarrow> tqueue s = [] \<Longrightarrow> tp_step s (s\<lparr>client := scan d 0 (workers s)\<rparr>)"
| rescan: "client s = Scanning d i \<Longrightarrow> tp_step s (s\<lparr>client := scan d i (workers s)\<rparr>)"
| destructor: "client s = Completed False \<Longrightarrow> tp_step s (s\<lparr>client := Completing True\<rparr>)"
| terminates: "client s = Completed True \<Longrightarrow>
    tp_step s (s\<lparr>client := Joining, tp_terminate := True, workers := wake_all (workers s)\<rparr>)"
| joined: "client s = Joining \<Longrightarrow> \<forall>w \<in> set (workers s). w = Exited \<Longrightarrow> tp_step s (s\<lparr>client := Destroyed\<rparr>)"
| sleeps: "i < length (workers s) \<Longrightarrow> workers s ! i = Idle \<Longrightarrow> \<not> tp_terminate s \<Longrightarrow> tqueue s = [] \<Longrightarrow>
    tp_step s (s\<lparr>workers := (workers s)[i := Sleeping]\<rparr>)"
| takes: "i < length (workers s) \<Longrightarrow> workers s ! i = Idle \<Longrightarrow> \<not> tp_terminate s \<Longrightarrow> tqueue s = j # js \<Longrightarrow>
    tp_step s (s\<lparr>tqueue := js, workers := (workers s)[i := Running j], started := started s @ [j],
      client := signal_dequeued (client s)\<rparr>)"
| finishes: "i < length (workers s) \<Longrightarrow> workers s ! i = Running j \<Longrightarrow>
    tp_step s (s\<lparr>workers := (workers s)[i := Idle], finished := finished s @ [j], client := signal_completed (client s)\<rparr>)"
| exits: "i < length (workers s) \<Longrightarrow> workers s ! i = Idle \<Longrightarrow> tp_terminate s \<Longrightarrow>
    tp_step s (s\<lparr>workers := (workers s)[i := Exited]\<rparr>)"

text \<open>A thread may also wake up without a signal.\<close>

inductive tp_spurious :: "'j tpool \<Rightarrow> 'j tpool \<Rightarrow> bool" where
  "i < length (workers s) \<Longrightarrow> workers s ! i = Sleeping \<Longrightarrow> tp_spurious s (s\<lparr>workers := (workers s)[i := Idle]\<rparr>)"
| "tp_spurious s (s\<lparr>client := signal_dequeued (client s)\<rparr>)"
| "tp_spurious s (s\<lparr>client := signal_completed (client s)\<rparr>)"

definition tp_any :: "'j tpool \<Rightarrow> 'j tpool \<Rightarrow> bool" where
  "tp_any s s' \<longleftrightarrow> tp_step s s' \<or> tp_spurious s s'"

section \<open>Jobs\<close>

definition running :: "'j worker list \<Rightarrow> 'j multiset" where
  "running ws = mset (concat (map (\<lambda>w. case w of Running j \<Rightarrow> [j] | _ \<Rightarrow> []) ws))"

lemma running_update:
  "i < length ws \<Longrightarrow> running (ws[i := w]) + (case ws ! i of Running j \<Rightarrow> {#j#} | _ \<Rightarrow> {#}) =
     running ws + (case w of Running j \<Rightarrow> {#j#} | _ \<Rightarrow> {#})"
proof (induction ws arbitrary: i)
  case (Cons v ws)
  show ?case
  proof (cases i)
    case 0
    then show ?thesis by (simp add: running_def ac_simps split: worker.split)
  next
    case (Suc k)
    then show ?thesis using Cons by (simp add: running_def ac_simps)
  qed
qed simp

lemma running_set:
  "i < length ws \<Longrightarrow> ws ! i = Idle \<Longrightarrow> running (ws[i := Running j]) = running ws + {#j#}"
  "i < length ws \<Longrightarrow> ws ! i = Running j \<Longrightarrow> running ws = running (ws[i := Idle]) + {#j#}"
  "i < length ws \<Longrightarrow> ws ! i = Idle \<Longrightarrow> running (ws[i := Sleeping]) = running ws"
  "i < length ws \<Longrightarrow> ws ! i = Idle \<Longrightarrow> running (ws[i := Exited]) = running ws"
  "i < length ws \<Longrightarrow> ws ! i = Sleeping \<Longrightarrow> running (ws[i := Idle]) = running ws"
  using running_update [of i ws "Running j"] running_update [of i ws Idle] running_update [of i ws Sleeping]
    running_update [of i ws Exited] by simp_all

lemma running_wake_all: "running (wake_all ws) = running ws"
  unfolding running_def wake_all_def map_map
  by (rule arg_cong [of _ _ "\<lambda>xs. mset (concat xs)"]) (simp split: worker.split)

lemma running_exited: "set ws \<subseteq> {Exited} \<Longrightarrow> running ws = {#}"
  by (induction ws) (auto simp: running_def)

lemma running_signal: "signal_queued ws ws' \<Longrightarrow> running ws' = running ws \<and> length ws' = length ws"
  by (auto simp: signal_queued_def running_set(5) split: if_splits)

definition past_queueing :: "client \<Rightarrow> bool" where
  "past_queueing c \<longleftrightarrow> c \<noteq> Queueing \<and> c \<noteq> WaitsDequeued"

definition past_empty :: "client \<Rightarrow> bool" where
  "past_empty c \<longleftrightarrow> (case c of WaitsScan d i \<Rightarrow> True | Scanning d i \<Rightarrow> True | Completed d \<Rightarrow> True | Joining \<Rightarrow> True
     | Destroyed \<Rightarrow> True | _ \<Rightarrow> False)"

definition tp_inv :: "'j list \<Rightarrow> 'j tpool \<Rightarrow> bool" where
  "tp_inv jobs s \<longleftrightarrow> started s @ tqueue s @ todo s = jobs \<and> mset (started s) = mset (finished s) + running (workers s) \<and>
     length (tqueue s) \<le> maxQueueSize s \<and> (past_queueing (client s) \<longrightarrow> todo s = []) \<and>
     (past_empty (client s) \<longrightarrow> tqueue s = [] \<and> todo s = []) \<and> (client s = Destroyed \<longrightarrow> set (workers s) \<subseteq> {Exited})"

lemma past_simps [simp]:
  "past_queueing (signal_dequeued c) = past_queueing c" "past_queueing (signal_completed c) = past_queueing c"
  "past_empty (signal_dequeued c) = past_empty c" "past_empty (signal_completed c) = past_empty c"
  "signal_dequeued c = Destroyed \<longleftrightarrow> c = Destroyed" "signal_completed c = Destroyed \<longleftrightarrow> c = Destroyed"
  by (simp_all add: past_queueing_def past_empty_def signal_dequeued_def signal_completed_def split: client.split)

lemma scan_cases: "scan d i ws = Completed d \<or> (\<exists>k < length ws. i \<le> k \<and> isBusy (ws ! k) \<and> scan d i ws = WaitsScan d k)"
proof (induction d i ws rule: scan.induct)
  case (1 d i ws)
  then show ?case by (subst (1 2) scan.simps) (auto intro: Suc_leD)
qed

lemma past_scan [simp]: "past_queueing (scan d i ws)" "past_empty (scan d i ws)" "scan d i ws \<noteq> Destroyed"
  using scan_cases [of d i ws] by (auto simp: past_queueing_def past_empty_def)

lemma tp_inv_new: "tp_inv jobs (pool_new n jobs)"
  by (simp add: tp_inv_def pool_new_def past_queueing_def past_empty_def running_def)

text \<open>A step of the shared part that leaves the client where it is, or moves it as a signal does.\<close>

lemma tp_inv_step: "tp_step s s' \<Longrightarrow> tp_inv jobs s \<Longrightarrow> tp_inv jobs s'"
proof (induction rule: tp_step.induct)
  case (queueTask s j js ws)
  then show ?case using running_signal [OF queueTask(4)] by (auto simp: tp_inv_def past_queueing_def past_empty_def)
next
  case (queue_full s)
  then show ?case by (auto simp: tp_inv_def past_queueing_def past_empty_def)
next
  case (queued_all s)
  then show ?case by (auto simp: tp_inv_def past_queueing_def past_empty_def)
next
  case (not_empty s d)
  then show ?case by (auto simp: tp_inv_def past_queueing_def past_empty_def)
next
  case (empty s d)
  then show ?case by (auto simp: tp_inv_def past_queueing_def)
next
  case (rescan s d i)
  then show ?case by (auto simp: tp_inv_def past_queueing_def past_empty_def)
next
  case (destructor s)
  then show ?case by (auto simp: tp_inv_def past_queueing_def past_empty_def)
next
  case (terminates s)
  then show ?case by (auto simp: tp_inv_def past_queueing_def past_empty_def running_wake_all)
next
  case (joined s)
  then show ?case by (auto simp: tp_inv_def past_queueing_def past_empty_def)
next
  case (sleeps i s)
  then have "Idle \<in> set (workers s)" by (metis nth_mem)
  with sleeps show ?case by (auto simp: tp_inv_def running_set(3))
next
  case (takes i s j js)
  then have "Idle \<in> set (workers s)" by (metis nth_mem)
  with takes show ?case by (auto simp: tp_inv_def running_set(1))
next
  case (finishes i s j)
  then have "Running j \<in> set (workers s)" by (metis nth_mem)
  with finishes show ?case using running_set(2) [OF finishes(1,2)] by (auto simp: tp_inv_def)
next
  case (exits i s)
  then have "set ((workers s)[i := Exited]) \<subseteq> insert Exited (set (workers s))" by (simp add: set_update_subset_insert)
  with exits show ?case by (auto simp: tp_inv_def running_set(4))
qed

lemma tp_inv_spurious: "tp_spurious s s' \<Longrightarrow> tp_inv jobs s \<Longrightarrow> tp_inv jobs s'"
proof (induction rule: tp_spurious.induct)
  case (1 i s)
  then have "Sleeping \<in> set (workers s)" by (metis nth_mem)
  with 1 show ?case by (auto simp: tp_inv_def running_set(5))
qed (simp_all add: tp_inv_def)

lemma tp_inv_reachable: "tp_any\<^sup>*\<^sup>* (pool_new n jobs) s \<Longrightarrow> tp_inv jobs s"
  by (induction rule: rtranclp_induct) (auto simp: tp_inv_new tp_any_def tp_inv_step tp_inv_spurious)

text \<open>
  The pool is a bounded queue: at every moment, whatever wakes up when, the jobs started, those
  in the queue and those not yet queued are, in this order, the client's jobs; every job started is
  running or finished; and the queue never holds more than its limit.
\<close>

theorem pool_is_fifo:
  assumes "tp_any\<^sup>*\<^sup>* (pool_new nCPU jobs) s"
  shows "started s @ tqueue s @ todo s = jobs \<and> mset (started s) = mset (finished s) + running (workers s) \<and>
    length (tqueue s) \<le> maxQueueSize s"
  using tp_inv_reachable [OF assms] by (simp add: tp_inv_def)

text \<open>
  C7: Once the pool is deleted every job has been run exactly once, started in the order in which it
  was queued, even if threads wake up without a signal.
\<close>

theorem deleted_pool_ran_all:
  assumes "tp_any\<^sup>*\<^sup>* (pool_new nCPU jobs) s" and "client s = Destroyed"
  shows "started s = jobs \<and> mset (finished s) = mset jobs"
proof -
  have inv: "tp_inv jobs s" by (rule tp_inv_reachable [OF assms(1)])
  then have "started s = jobs" "set (workers s) \<subseteq> {Exited}" using assms(2) by (auto simp: tp_inv_def past_empty_def)
  moreover from this(2) have "running (workers s) = {#}" by (rule running_exited)
  ultimately show ?thesis using inv by (simp add: tp_inv_def)
qed

section \<open>Every run ends\<close>

text \<open>Without spurious wake-ups each step uses up something.\<close>

fun client_weight :: "nat \<Rightarrow> client \<Rightarrow> nat" where
  "client_weight n Destroyed = 0"
| "client_weight n Joining = 1"
| "client_weight n (Completed d) = (if d then n + 2 else 4 * n + 9)"
| "client_weight n (WaitsScan d i) = (if d then n + 2 else 4 * n + 9) + 2 * (n - i)"
| "client_weight n (Scanning d i) = (if d then n + 2 else 4 * n + 9) + 2 * (n - i) + 1"
| "client_weight n (WaitsEmpty d) = (if d then n + 2 else 4 * n + 9) + 2 * n + 2"
| "client_weight n (Completing d) = (if d then n + 2 else 4 * n + 9) + 2 * n + 3"
| "client_weight n WaitsDequeued = 6 * n + 13"
| "client_weight n Queueing = 6 * n + 14"

fun worker_weight :: "'j worker \<Rightarrow> nat" where
  "worker_weight Idle = 1"
| "worker_weight Sleeping = 0"
| "worker_weight (Running j) = 4"
| "worker_weight Exited = 0"

definition weight :: "'j tpool \<Rightarrow> nat" where
  "weight s = client_weight (length (workers s)) (client s) + sum_list (map worker_weight (workers s)) +
     6 * length (tqueue s) + 8 * length (todo s)"

lemma weight_update:
  "i < length ws \<Longrightarrow> sum_list (map worker_weight (ws[i := w])) + worker_weight (ws ! i) =
     sum_list (map worker_weight ws) + worker_weight w"
proof (induction ws arbitrary: i)
  case (Cons v ws)
  then show ?case by (cases i) simp_all
qed simp

lemma weight_signal:
  "signal_queued ws ws' \<Longrightarrow> sum_list (map worker_weight ws') \<le> sum_list (map worker_weight ws) + 1 \<and> length ws' = length ws"
  using weight_update [of _ ws Idle] by (fastforce simp: signal_queued_def split: if_splits)

lemma weight_wake_all: "sum_list (map worker_weight (wake_all ws)) \<le> sum_list (map worker_weight ws) + length ws"
  by (induction ws) (auto simp: wake_all_def split: worker.split)

lemma scan_weight: "client_weight (length ws) (scan d i ws) < (if d then length ws + 2 else 4 * length ws + 9) + 2 * (length ws - i) + 1"
  using scan_cases [of d i ws] by auto

lemma signal_weight:
  "client_weight n (signal_dequeued c) \<le> client_weight n c + 1"
  "client_weight n (signal_completed c) \<le> client_weight n c + 1"
  by (cases c; simp add: signal_dequeued_def signal_completed_def)+

lemma step_weight: "tp_step s s' \<Longrightarrow> weight s' < weight s"
proof (induction rule: tp_step.induct)
  case (queueTask s j js ws)
  then show ?case using weight_signal [OF queueTask(4)] by (simp add: weight_def)
next
  case (empty s d)
  then show ?case using scan_weight [of "workers s" d 0] by (simp add: weight_def)
next
  case (rescan s d i)
  then show ?case using scan_weight [of "workers s" d i] by (simp add: weight_def)
next
  case (terminates s)
  then show ?case using weight_wake_all [of "workers s"] by (simp add: weight_def wake_all_def)
next
  case (sleeps i s)
  then show ?case using weight_update [of i "workers s" Sleeping] by (simp add: weight_def)
next
  case (takes i s j js)
  then show ?case
    using weight_update [of i "workers s" "Running j"] signal_weight(1) [of "length (workers s)" "client s"]
    by (simp add: weight_def)
next
  case (finishes i s j)
  then show ?case
    using weight_update [of i "workers s" Idle] signal_weight(2) [of "length (workers s)" "client s"]
    by (simp add: weight_def)
next
  case (exits i s)
  then show ?case using weight_update [of i "workers s" Exited] by (simp add: weight_def)
qed (simp_all add: weight_def)

lemma run_weight: "(tp_step ^^ n) s s' \<Longrightarrow> n + weight s' \<le> weight s"
proof (induction n arbitrary: s')
  case (Suc n)
  then obtain t where "(tp_step ^^ n) s t" "tp_step t s'" by auto
  then show ?case using Suc.IH [of t] step_weight [of t s'] by simp
qed simp

section \<open>No thread waits for ever\<close>

definition awake :: "'j worker \<Rightarrow> bool" where
  "awake w \<longleftrightarrow> w = Idle \<or> isBusy w"

text \<open>Nobody waits for what has already happened.\<close>

definition tp_alive :: "'j tpool \<Rightarrow> bool" where
  "tp_alive s \<longleftrightarrow> 0 < maxQueueSize s \<and> (tp_terminate s \<longleftrightarrow> client s = Joining \<or> client s = Destroyed) \<and>
     (tqueue s \<noteq> [] \<longrightarrow> list_ex awake (workers s)) \<and> (client s = WaitsDequeued \<longrightarrow> tqueue s \<noteq> []) \<and>
     (\<forall>d. client s = WaitsEmpty d \<longrightarrow> tqueue s \<noteq> []) \<and>
     (\<forall>d i. client s = WaitsScan d i \<longrightarrow> i < length (workers s) \<and> isBusy (workers s ! i)) \<and>
     (tp_terminate s \<longrightarrow> Sleeping \<notin> set (workers s)) \<and> (\<not> tp_terminate s \<longrightarrow> Exited \<notin> set (workers s)) \<and>
     workers s \<noteq> []"

lemma awake_simps [simp]: "awake Idle" "awake (Running j)" "\<not> awake Sleeping" "\<not> awake Exited"
  by (simp_all add: awake_def isBusy_def)

lemma not_busy [simp]: "\<not> isBusy Idle" "\<not> isBusy Sleeping" "\<not> isBusy Exited" "isBusy (Running j)"
  by (simp_all add: isBusy_def)

lemma list_ex_update: "i < length ws \<Longrightarrow> P w \<Longrightarrow> list_ex P (ws[i := w])"
  unfolding list_ex_iff by (intro bexI [of _ w]) (simp_all add: set_update_memI)

lemma signal_awake:
  assumes "signal_queued ws ws'" and "ws \<noteq> []" and "Exited \<notin> set ws"
  shows "list_ex awake ws'" and "Exited \<notin> set ws'" and "length ws' = length ws"
proof -
  have "list_ex awake ws'"
  proof (cases "Sleeping \<in> set ws")
    case True
    then show ?thesis using assms(1) by (auto simp: signal_queued_def list_ex_update)
  next
    case False
    then have "awake (hd ws)" using assms(2,3) by (cases "hd ws") (auto dest: hd_in_set)
    with False assms(1,2) show ?thesis by (auto simp: signal_queued_def list_ex_iff)
  qed
  then show "list_ex awake ws'" .
  show "Exited \<notin> set ws'" "length ws' = length ws"
    using assms(1,3) by (auto simp: signal_queued_def split: if_splits dest!: set_update_subset_insert [THEN subsetD])
qed

lemma signal_eqs [simp]:
  "signal_dequeued c = WaitsScan d i \<longleftrightarrow> c = WaitsScan d i" "signal_dequeued c \<noteq> WaitsDequeued" "signal_dequeued c \<noteq> WaitsEmpty d"
  "signal_completed c = WaitsDequeued \<longleftrightarrow> c = WaitsDequeued" "signal_completed c = WaitsEmpty d \<longleftrightarrow> c = WaitsEmpty d"
  "signal_completed c \<noteq> WaitsScan d i" "signal_dequeued c = Joining \<longleftrightarrow> c = Joining" "signal_completed c = Joining \<longleftrightarrow> c = Joining"
  by (simp_all add: signal_dequeued_def signal_completed_def split: client.split)

lemma scan_alive:
  "scan d i ws \<noteq> WaitsDequeued" "scan d i ws \<noteq> WaitsEmpty e" "scan d i ws \<noteq> Joining"
  "scan d i ws = WaitsScan e k \<Longrightarrow> k < length ws \<and> isBusy (ws ! k)"
  using scan_cases [of d i ws] by auto

lemma in_update: "x \<in> set (ws[i := w]) \<Longrightarrow> x = w \<or> x \<in> set ws"
  using set_update_subset_insert [of ws i w] by blast

lemma tp_alive_step: "tp_step s s' \<Longrightarrow> tp_inv jobs s \<Longrightarrow> tp_alive s \<Longrightarrow> tp_alive s'"
proof (induction rule: tp_step.induct)
  case (queueTask s j js ws)
  then have "\<not> tp_terminate s" "workers s \<noteq> []" "Exited \<notin> set (workers s)" by (auto simp: tp_alive_def)
  with signal_awake [OF queueTask(4)] queueTask show ?case by (auto simp: tp_alive_def)
next
  case (empty s d)
  then show ?case using scan_alive [of d 0 "workers s"] by (auto simp: tp_alive_def)
next
  case (rescan s d i)
  then show ?case using scan_alive [of d i "workers s"] by (auto simp: tp_alive_def)
next
  case (terminates s)
  then have "tqueue s = []" by (simp add: tp_inv_def past_empty_def)
  moreover have "Sleeping \<notin> set (wake_all (workers s))" "wake_all (workers s) \<noteq> [] \<longleftrightarrow> workers s \<noteq> []"
    by (auto simp: wake_all_def split: worker.splits)
  ultimately show ?case using terminates by (auto simp: tp_alive_def)
next
  case (sleeps i s)
  then show ?case by (auto simp: tp_alive_def nth_list_update dest: in_update)
next
  case (takes i s j js)
  then show ?case by (auto simp: tp_alive_def nth_list_update list_ex_update dest: in_update)
next
  case (finishes i s j)
  then show ?case by (auto simp: tp_alive_def list_ex_update dest: in_update)
next
  case (exits i s)
  then have "tqueue s = []" by (auto simp: tp_inv_def past_empty_def tp_alive_def)
  with exits show ?case by (auto simp: tp_alive_def nth_list_update dest: in_update)
qed (auto simp: tp_alive_def)

lemma alive_reachable: "tp_step\<^sup>*\<^sup>* (pool_new n jobs) s \<Longrightarrow> 0 < n \<Longrightarrow> tp_inv jobs s \<and> tp_alive s"
proof (induction rule: rtranclp_induct)
  case base
  then show ?case by (simp add: tp_inv_new) (simp add: tp_alive_def pool_new_def)
next
  case (step s s')
  then show ?case using tp_inv_step tp_alive_step by blast
qed

lemma progress:
  assumes "tp_inv jobs s" and "tp_alive s" and "client s \<noteq> Destroyed"
  shows "\<exists>s'. tp_step s s'"
proof -
  have worker: "\<exists>s'. tp_step s s'" if w: "list_ex awake (workers s)" and q: "tqueue s \<noteq> []" and t: "\<not> tp_terminate s"
  proof -
    obtain i where i: "i < length (workers s)" "awake (workers s ! i)" using w by (auto simp: list_ex_length)
    obtain j js where "tqueue s = j # js" using q by (cases "tqueue s") auto
    then show ?thesis using i t by (cases "workers s ! i") (auto intro: tp_step.intros)
  qed
  show ?thesis
  proof (cases "client s")
    case Queueing
    show ?thesis
    proof (cases "todo s")
      case (Cons j js)
      have ws: "\<exists>ws. signal_queued (workers s) ws" by (auto simp: signal_queued_def in_set_conv_nth)
      show ?thesis
      proof (cases "length (tqueue s) < maxQueueSize s")
        case True
        then show ?thesis using Queueing Cons ws by (auto intro: tp_step.intros)
      qed (use Queueing Cons tp_step.queue_full [of s] in auto)
    qed (use Queueing in \<open>auto intro: tp_step.intros\<close>)
  next
    case WaitsDequeued
    then show ?thesis using worker assms(2) by (auto simp: tp_alive_def)
  next
    case (Completing d)
    then show ?thesis by (cases "tqueue s = []") (auto intro: tp_step.intros)
  next
    case (WaitsEmpty d)
    then show ?thesis using worker assms(2) by (auto simp: tp_alive_def)
  next
    case (WaitsScan d i)
    then have "i < length (workers s)" "isBusy (workers s ! i)" using assms(2) by (auto simp: tp_alive_def)
    then show ?thesis by (cases "workers s ! i") (auto intro: tp_step.intros)
  next
    case (Completed d)
    then show ?thesis by (cases d) (auto intro: tp_step.intros)
  next
    case Joining
    show ?thesis
    proof (cases "\<forall>w \<in> set (workers s). w = Exited")
      case False
      then obtain i where "i < length (workers s)" "workers s ! i \<noteq> Exited" by (auto simp: in_set_conv_nth)
      moreover from this have "workers s ! i \<noteq> Sleeping" "tp_terminate s"
        using assms(2) Joining by (auto simp: tp_alive_def dest: nth_mem)
      ultimately show ?thesis by (cases "workers s ! i") (auto intro: tp_step.intros)
    qed (use Joining in \<open>auto intro: tp_step.intros\<close>)
  qed (use assms(3) in \<open>auto intro: tp_step.intros\<close>)
qed

lemma rtranclp_relpow: "tp_step\<^sup>*\<^sup>* s s' \<longleftrightarrow> (\<exists>n. (tp_step ^^ n) s s')"
  by (simp add: rtranclp_power)

lemma reaches_end:
  "tp_inv jobs s \<Longrightarrow> tp_alive s \<Longrightarrow> \<exists>s'. tp_step\<^sup>*\<^sup>* s s' \<and> client s' = Destroyed"
proof (induction "weight s" arbitrary: s rule: less_induct)
  case less
  show ?case
  proof (cases "client s = Destroyed")
    case False
    then obtain t where t: "tp_step s t" using progress less.prems by blast
    then have "tp_inv jobs t" "tp_alive t" "weight t < weight s"
      using tp_inv_step tp_alive_step step_weight less.prems by blast+
    with less.hyps obtain s' where "tp_step\<^sup>*\<^sup>* t s'" "client s' = Destroyed" by blast
    with t show ?thesis by (meson converse_rtranclp_into_rtranclp)
  qed blast
qed

text \<open>
  C24: Neither the workers nor the client ever wait for each other in a circle: with at least one
  processor every run of the pool without spurious wake-ups is of bounded length, and where it
  cannot go on the pool is deleted and every job has been run.
\<close>

theorem pool_finishes:
  assumes "0 < nCPU" and "(tp_step ^^ n) (pool_new nCPU jobs) s"
  shows "n \<le> 7 * nCPU + 14 + 8 * length jobs \<and>
    ((\<exists>s'. tp_step s s') \<or> client s = Destroyed \<and> mset (finished s) = mset jobs)"
proof
  have "sum_list (map worker_weight (replicate nCPU (Idle :: 'a worker))) = nCPU"
    by (simp add: map_replicate sum_list_replicate)
  then have "weight (pool_new nCPU jobs) = 7 * nCPU + 14 + 8 * length jobs"
    by (simp add: weight_def pool_new_def)
  with run_weight [OF assms(2)] show "n \<le> 7 * nCPU + 14 + 8 * length jobs" by simp
  have "tp_step\<^sup>*\<^sup>* (pool_new nCPU jobs) s" using assms(2) rtranclp_relpow by blast
  then have inv: "tp_inv jobs s" "tp_alive s" using alive_reachable assms(1) by blast+
  show "(\<exists>s'. tp_step s s') \<or> client s = Destroyed \<and> mset (finished s) = mset jobs"
  proof (cases "client s = Destroyed")
    case True
    then have "running (workers s) = {#}" using inv(1) by (intro running_exited) (simp add: tp_inv_def)
    with True inv(1) show ?thesis by (auto simp: tp_inv_def past_empty_def)
  qed (use progress [OF inv] in blast)
qed

section \<open>A run\<close>

text \<open>Two processors and two jobs, of which the first takes longer.\<close>

definition at_work :: "nat worker list \<Rightarrow> client \<Rightarrow> nat list \<Rightarrow> nat list \<Rightarrow> nat list \<Rightarrow> nat list \<Rightarrow> nat tpool" where
  "at_work ws c q js st fin = \<lparr>maxQueueSize = 1, tqueue = q, workers = ws, tp_terminate = False, client = c, todo = js,
     started = st, finished = fin\<rparr>"

lemma sample_run:
  "(tp_step ^^ 8) (pool_new 2 [7, 8]) (at_work [Running 7, Idle] (Completed False) [] [] [7, 8] [8])"
proof -
  have new: "pool_new 2 [7, 8] = at_work [Idle, Idle] Queueing [] [7, 8] [] []"
    by (simp add: pool_new_def at_work_def numeral_2_eq_2)
  have s1: "tp_step (at_work [Idle, Idle] Queueing [] [7, 8] [] []) (at_work [Idle, Idle] Queueing [7] [8] [] [])"
    using tp_step.queueTask [of "at_work [Idle, Idle] Queueing [] [7, 8] [] []" 7 "[8]" "[Idle, Idle]"]
    by (simp add: at_work_def signal_queued_def)
  have s2: "tp_step (at_work [Idle, Idle] Queueing [7] [8] [] []) (at_work [Running 7, Idle] Queueing [] [8] [7] [])"
    using tp_step.takes [of 0 "at_work [Idle, Idle] Queueing [7] [8] [] []" 7 "[]"] by (simp add: at_work_def signal_dequeued_def)
  have s3: "tp_step (at_work [Running 7, Idle] Queueing [] [8] [7] []) (at_work [Running 7, Idle] Queueing [8] [] [7] [])"
    using tp_step.queueTask [of "at_work [Running 7, Idle] Queueing [] [8] [7] []" 8 "[]" "[Running 7, Idle]"]
    by (simp add: at_work_def signal_queued_def)
  have s4: "tp_step (at_work [Running 7, Idle] Queueing [8] [] [7] []) (at_work [Running 7, Running 8] Queueing [] [] [7, 8] [])"
    using tp_step.takes [of 1 "at_work [Running 7, Idle] Queueing [8] [] [7] []" 8 "[]"] by (simp add: at_work_def signal_dequeued_def)
  have s5: "tp_step (at_work [Running 7, Running 8] Queueing [] [] [7, 8] []) (at_work [Running 7, Running 8] (Completing False) [] [] [7, 8] [])"
    using tp_step.queued_all [of "at_work [Running 7, Running 8] Queueing [] [] [7, 8] []"] by (simp add: at_work_def)
  have s6: "tp_step (at_work [Running 7, Running 8] (Completing False) [] [] [7, 8] [])
      (at_work [Running 7, Running 8] (WaitsScan False 0) [] [] [7, 8] [])"
    using tp_step.empty [of "at_work [Running 7, Running 8] (Completing False) [] [] [7, 8] []" False]
    by (simp add: at_work_def scan.simps)
  have s7: "tp_step (at_work [Running 7, Running 8] (WaitsScan False 0) [] [] [7, 8] [])
      (at_work [Running 7, Idle] (Scanning False 1) [] [] [7, 8] [8])"
    using tp_step.finishes [of 1 "at_work [Running 7, Running 8] (WaitsScan False 0) [] [] [7, 8] []" 8]
    by (simp add: at_work_def signal_completed_def)
  have s8: "tp_step (at_work [Running 7, Idle] (Scanning False 1) [] [] [7, 8] [8])
      (at_work [Running 7, Idle] (Completed False) [] [] [7, 8] [8])"
    using tp_step.rescan [of "at_work [Running 7, Idle] (Scanning False 1) [] [] [7, 8] [8]" False 1]
    by (simp add: at_work_def scan.simps)
  have "(tp_step ^^ Suc (Suc (Suc (Suc (Suc (Suc (Suc (Suc 0)))))))) (pool_new 2 [7, 8])
      (at_work [Running 7, Idle] (Completed False) [] [] [7, 8] [8])"
    unfolding new
    by (rule relpowp_Suc_I, rule relpowp_Suc_I, rule relpowp_Suc_I, rule relpowp_Suc_I, rule relpowp_Suc_I, rule relpowp_Suc_I,
        rule relpowp_Suc_I, rule relpowp_Suc_I, rule relpowp_0_I) (rule s1 s2 s3 s4 s5 s6 s7 s8)+
  moreover have "8 = Suc (Suc (Suc (Suc (Suc (Suc (Suc (Suc 0)))))))" by simp
  ultimately show ?thesis by (simp only:)
qed

theorem deleted_pool_ran_all_witness:
  "\<exists>s :: nat tpool. client s = Destroyed \<and> started s = [7, 8] \<and> mset (finished s) = mset [7, 8]"
proof -
  have "tp_inv [7, 8] (pool_new 2 [7, 8 :: nat]) \<and> tp_alive (pool_new 2 [7, 8 :: nat])"
    by (rule alive_reachable [of 2]) simp_all
  then obtain s where s: "tp_step\<^sup>*\<^sup>* (pool_new 2 [7, 8 :: nat]) s" "client s = Destroyed" using reaches_end by blast
  have "tp_any\<^sup>*\<^sup>* (pool_new 2 [7, 8]) s"
    by (rule mono_rtranclp [rule_format, of tp_step]) (auto simp: tp_any_def s(1))
  from deleted_pool_ran_all [OF this s(2)] s(2) show ?thesis by blast
qed

theorem pool_is_fifo_witness:
  "tqueue (at_work [Running 7, Idle] (Completed False) [] [] [7, 8] [8]) = [] \<and> mset [7, 8] = mset [8] + running [Running (7 :: nat), Idle]"
proof -
  have "tp_any\<^sup>*\<^sup>* (pool_new 2 [7, 8]) (at_work [Running 7, Idle] (Completed False) [] [] [7, 8] [8])"
    by (rule mono_rtranclp [rule_format, of tp_step]) (auto simp: tp_any_def rtranclp_relpow intro: sample_run)
  from pool_is_fifo [OF this] show ?thesis by (simp add: at_work_def)
qed

theorem pool_finishes_witness:
  "8 \<le> (44 :: nat) \<and> (\<exists>s'. tp_step (at_work [Running 7, Idle] (Completed False) [] [] [7, 8] [8]) s')"
  using pool_finishes [OF _ sample_run] by (simp add: at_work_def)

text \<open>
  \<open>completeQueue\<close> may return while a job is running, even without a spurious wake-up: it waits at
  most once for each worker it finds busy, and the wait for the first is ended by the second. Only the
  destructor's join waits for the jobs.
\<close>

theorem completeQueue_returns_early:
  "\<exists>n s. (tp_step ^^ n) (pool_new 2 [7, 8 :: nat]) s \<and> client s = Completed False \<and> 7 \<notin> set (finished s) \<and>
    isBusy (workers s ! 0)"
  using sample_run by (intro exI [of _ 8] exI) (auto simp: at_work_def)

end
