(* ===== verification/OrderedHandler.thy ===== *)
theory OrderedHandler
  imports Prelude
begin

text \<open>
  The ordered handler (\<^verbatim>\<open>external/base/include/OrderedEventHandler.h\<close>) at the end of a chain that
  the workers of a pool push buffers through. Job \<open>i\<close> brings the buffer with number \<open>i\<close>, as its 32 bits;
  the pool starts the jobs in the order of their numbers, at most one for each worker at a time.
\<close>

section \<open>State\<close>

datatype stage = Queued | Entering | Blocked | Woken | Handling | Pushing | Pushed

record ordered =
  expectedSeqN :: nat
  waiting :: "nat \<Rightarrow> nat option"
  stages :: "stage list"
  nWorkers :: nat
  handled :: "nat list"
  sunk :: "nat list"

definition mySeqN :: "nat \<Rightarrow> nat" where
  "mySeqN i = i mod 2 ^ 32"

definition ordered_new :: "nat \<Rightarrow> nat \<Rightarrow> ordered" where
  "ordered_new n jobs = \<lparr>expectedSeqN = 0, waiting = (\<lambda>_. None), stages = replicate jobs Queued, nWorkers = n, handled = [], sunk = []\<rparr>"

definition in_flight :: "ordered \<Rightarrow> nat" where
  "in_flight s = length (filter (\<lambda>st. st \<noteq> Queued \<and> st \<noteq> Pushed) (stages s))"

definition wake :: "nat option \<Rightarrow> stage list \<Rightarrow> stage list" where
  "wake k sts = (case k of None \<Rightarrow> sts | Some i \<Rightarrow> if i < length sts \<and> sts ! i = Blocked then sts[i := Woken] else sts)"

section \<open>Steps\<close>

inductive ord_step :: "ordered \<Rightarrow> ordered \<Rightarrow> bool" where
  starts: "i < length (stages s) \<Longrightarrow> stages s ! i = Queued \<Longrightarrow> \<forall>j < i. stages s ! j \<noteq> Queued \<Longrightarrow> in_flight s < nWorkers s \<Longrightarrow>
    ord_step s (s\<lparr>stages := (stages s)[i := Entering]\<rparr>)"
| enters: "i < length (stages s) \<Longrightarrow> stages s ! i = Entering \<Longrightarrow> mySeqN i = expectedSeqN s \<Longrightarrow>
    ord_step s (s\<lparr>stages := (stages s)[i := Handling], waiting := (waiting s)(mySeqN i := None), handled := handled s @ [i]\<rparr>)"
| blocks: "i < length (stages s) \<Longrightarrow> stages s ! i = Entering \<Longrightarrow> mySeqN i \<noteq> expectedSeqN s \<Longrightarrow>
    ord_step s (s\<lparr>stages := (stages s)[i := Blocked], waiting := (waiting s)(mySeqN i \<mapsto> i)\<rparr>)"
| goes_on: "i < length (stages s) \<Longrightarrow> stages s ! i = Woken \<Longrightarrow> mySeqN i = expectedSeqN s \<Longrightarrow>
    ord_step s (s\<lparr>stages := (stages s)[i := Handling], waiting := (waiting s)(mySeqN i := None), handled := handled s @ [i]\<rparr>)"
| blocks_again: "i < length (stages s) \<Longrightarrow> stages s ! i = Woken \<Longrightarrow> mySeqN i \<noteq> expectedSeqN s \<Longrightarrow>
    ord_step s (s\<lparr>stages := (stages s)[i := Blocked]\<rparr>)"
| hands_over: "i < length (stages s) \<Longrightarrow> stages s ! i = Handling \<Longrightarrow>
    ord_step s (s\<lparr>expectedSeqN := expectedSeqN s + 1,
      stages := wake (waiting s (expectedSeqN s + 1)) ((stages s)[i := Pushing])\<rparr>)"
| pushes: "i < length (stages s) \<Longrightarrow> stages s ! i = Pushing \<Longrightarrow>
    ord_step s (s\<lparr>stages := (stages s)[i := Pushed], sunk := sunk s @ [i]\<rparr>)"

inductive ord_spurious :: "ordered \<Rightarrow> ordered \<Rightarrow> bool" where
  "i < length (stages s) \<Longrightarrow> stages s ! i = Blocked \<Longrightarrow> ord_spurious s (s\<lparr>stages := (stages s)[i := Woken]\<rparr>)"

definition ord_any :: "ordered \<Rightarrow> ordered \<Rightarrow> bool" where
  "ord_any s s' \<longleftrightarrow> ord_step s s' \<or> ord_spurious s s'"

section \<open>Order\<close>

definition past :: "stage \<Rightarrow> bool" where
  "past st \<longleftrightarrow> st = Pushing \<or> st = Pushed"

text \<open>The turn: those before it are past, only the one whose turn it is handles.\<close>

definition in_turn :: "ordered \<Rightarrow> bool" where
  "in_turn s \<longleftrightarrow> length (stages s) \<le> 2 ^ 32 \<and> expectedSeqN s \<le> length (stages s) \<and>
     (\<forall>i < length (stages s). (past (stages s ! i) \<longleftrightarrow> i < expectedSeqN s) \<and> (stages s ! i = Handling \<longrightarrow> i = expectedSeqN s))"

definition registered :: "ordered \<Rightarrow> bool" where
  "registered s \<longleftrightarrow> (\<forall>m i. waiting s m = Some i \<longleftrightarrow>
     m = i \<and> i < length (stages s) \<and> (stages s ! i = Blocked \<or> stages s ! i = Woken))"

definition not_missed :: "ordered \<Rightarrow> bool" where
  "not_missed s \<longleftrightarrow> (expectedSeqN s < length (stages s) \<longrightarrow> stages s ! expectedSeqN s \<noteq> Blocked)"

definition fifo :: "ordered \<Rightarrow> bool" where
  "fifo s \<longleftrightarrow> (\<forall>i < length (stages s). \<forall>j < i. stages s ! j = Queued \<longrightarrow> stages s ! i = Queued)"

definition logs :: "ordered \<Rightarrow> bool" where
  "logs s \<longleftrightarrow> handled s = [0..<expectedSeqN s] @ (if expectedSeqN s < length (stages s) \<and> stages s ! expectedSeqN s = Handling
       then [expectedSeqN s] else [])"

definition pushed_jobs :: "stage list \<Rightarrow> nat set" where
  "pushed_jobs sts = {i. i < length sts \<and> sts ! i = Pushed}"

definition sink_log :: "ordered \<Rightarrow> bool" where
  "sink_log s \<longleftrightarrow> distinct (sunk s) \<and> set (sunk s) = pushed_jobs (stages s)"

definition ord_inv :: "ordered \<Rightarrow> bool" where
  "ord_inv s \<longleftrightarrow> in_turn s \<and> registered s \<and> not_missed s \<and> fifo s \<and> logs s \<and> sink_log s"

lemma past_stage_simps [simp]: "past Pushing" "past Pushed" "\<not> past Queued" "\<not> past Entering" "\<not> past Blocked" "\<not> past Woken" "\<not> past Handling"
  by (simp_all add: past_def)

lemma my_seq: "in_turn s \<Longrightarrow> i < length (stages s) \<Longrightarrow> mySeqN i = i"
  by (simp add: mySeqN_def in_turn_def)

lemma ord_inv_new: "jobs \<le> 2 ^ 32 \<Longrightarrow> ord_inv (ordered_new n jobs)"
  by (cases jobs) (auto simp: ord_inv_def in_turn_def registered_def not_missed_def fifo_def logs_def sink_log_def pushed_jobs_def ordered_new_def
      simp del: replicate_Suc)

lemma length_wake [simp]: "length (wake k sts) = length sts"
  by (simp add: wake_def split: option.split)

lemma nth_wake: "wake k sts ! i = (if k = Some i \<and> i < length sts \<and> sts ! i = Blocked then Woken else sts ! i)"
  by (auto simp: wake_def nth_list_update split: option.split)

lemma wake_eqs [simp]: "past (wake k sts ! i) = past (sts ! i)" "(wake k sts ! i = Handling) = (sts ! i = Handling)"
  "(wake k sts ! i = Queued) = (sts ! i = Queued)" "(wake k sts ! i = Pushed) = (sts ! i = Pushed)"
  "(wake k sts ! i = Blocked \<or> wake k sts ! i = Woken) = (sts ! i = Blocked \<or> sts ! i = Woken)"
  by (simp_all add: nth_wake)

lemma pushed_update:
  "i < length sts \<Longrightarrow> sts ! i \<noteq> Pushed \<Longrightarrow>
    pushed_jobs (sts[i := st]) = (if st = Pushed then insert i (pushed_jobs sts) else pushed_jobs sts)"
  by (auto simp: pushed_jobs_def nth_list_update)

lemma pushed_wake [simp]: "pushed_jobs (wake k sts) = pushed_jobs sts"
  by (simp add: pushed_jobs_def)

lemma in_turnI:
  assumes "expectedSeqN s = e" and "stages s = sts" and "length sts \<le> 2 ^ 32" and "e \<le> length sts"
    and "\<And>j. j < length sts \<Longrightarrow> past (sts ! j) = (j < e) \<and> (sts ! j = Handling \<longrightarrow> j = e)"
  shows "in_turn s"
  using assms by (simp add: in_turn_def)

lemma in_turn_step:
  assumes "ord_step s s'" and "in_turn s"
  shows "in_turn s'"
  using assms
proof (induction rule: ord_step.induct)
  case (hands_over i s)
  then have e: "expectedSeqN s = i" by (auto simp: in_turn_def)
  have len: "length (stages s) \<le> 2 ^ 32" using hands_over.prems by (simp add: in_turn_def)
  have turn: "past ((stages s)[i := Pushing] ! j) = (j < i + 1) \<and> (stages s)[i := Pushing] ! j \<noteq> Handling"
    if j: "j < length (stages s)" for j
  proof (cases "j = i")
    case False
    have "past (stages s ! j) = (j < i)" "stages s ! j = Handling \<Longrightarrow> j = i"
      using hands_over.prems j e by (auto simp: in_turn_def)
    with False show ?thesis by auto
  qed (use j in simp)
  let ?sts = "wake (waiting s (expectedSeqN s + 1)) ((stages s)[i := Pushing])"
  show ?case
  proof (rule in_turnI [of _ "i + 1" ?sts])
    show "past (?sts ! j) = (j < i + 1) \<and> (?sts ! j = Handling \<longrightarrow> j = i + 1)" if "j < length ?sts" for j
      using turn [of j] that unfolding length_wake length_list_update wake_eqs by blast
  qed (use e len hands_over.hyps(1) in simp_all)
next
  case (enters i s)
  then show ?case using my_seq [of s i] by (auto simp: in_turn_def nth_list_update)
next
  case (goes_on i s)
  then show ?case using my_seq [of s i] by (auto simp: in_turn_def nth_list_update)
next
  case (pushes i s)
  then have "i < expectedSeqN s" by (auto simp: in_turn_def)
  with pushes show ?case by (auto simp: in_turn_def nth_list_update)
qed (auto simp: in_turn_def nth_list_update)

lemma registered_step:
  assumes "ord_step s s'" and "in_turn s" and "registered s"
  shows "registered s'"
  using assms
proof (induction rule: ord_step.induct)
  case (enters i s)
  then show ?case using my_seq [of s i] by (auto simp: registered_def nth_list_update)
next
  case (blocks i s)
  then show ?case using my_seq [of s i] by (auto simp: registered_def nth_list_update)
next
  case (goes_on i s)
  then show ?case using my_seq [of s i] by (auto simp: registered_def nth_list_update)
qed (auto simp: registered_def nth_list_update)

lemma not_missed_step:
  assumes "ord_step s s'" and "in_turn s" and "registered s" and "not_missed s"
  shows "not_missed s'"
  using assms
proof (induction rule: ord_step.induct)
  case (blocks i s)
  then show ?case using my_seq [of s i] by (auto simp: not_missed_def nth_list_update)
next
  case (blocks_again i s)
  then show ?case using my_seq [of s i] by (auto simp: not_missed_def nth_list_update)
next
  case (hands_over i s)
  let ?e = "expectedSeqN s + 1"
  have "stages s ! ?e = Blocked \<Longrightarrow> ?e < length (stages s) \<Longrightarrow> waiting s ?e = Some ?e"
    using hands_over.prems(2) by (simp add: registered_def)
  then have "wake (waiting s ?e) ((stages s)[i := Pushing]) ! ?e \<noteq> Blocked" if "?e < length (stages s)"
    using that by (cases "i = ?e") (auto simp: nth_wake)
  then show ?case by (simp add: not_missed_def)
qed (auto simp: not_missed_def nth_list_update)

lemma fifo_step:
  assumes "ord_step s s'" and "fifo s"
  shows "fifo s'"
  using assms
proof (induction rule: ord_step.induct)
  case (starts i s)
  then show ?case unfolding fifo_def by (auto simp: nth_list_update)
qed (auto simp: fifo_def nth_list_update)

lemma logs_step:
  assumes "ord_step s s'" and "in_turn s" and "logs s"
  shows "logs s'"
  using assms
proof (induction rule: ord_step.induct)
  case (enters i s)
  then show ?case using my_seq [of s i] by (auto simp: logs_def nth_list_update)
next
  case (goes_on i s)
  then show ?case using my_seq [of s i] by (auto simp: logs_def nth_list_update)
next
  case (hands_over i s)
  then have "i = expectedSeqN s" by (simp add: in_turn_def)
  moreover have "stages s ! (expectedSeqN s + 1) \<noteq> Handling" if "expectedSeqN s + 1 < length (stages s)"
    using hands_over.prems(1) that by (auto simp: in_turn_def)
  ultimately show ?case using hands_over by (auto simp: logs_def nth_list_update)
next
  case (pushes i s)
  then have "i < expectedSeqN s" by (auto simp: in_turn_def)
  with pushes show ?case by (auto simp: logs_def nth_list_update)
qed (auto simp: logs_def nth_list_update)

lemma sink_log_step:
  assumes "ord_step s s'" and "sink_log s"
  shows "sink_log s'"
  using assms
proof (induction rule: ord_step.induct)
  case (pushes i s)
  then have "i \<notin> set (sunk s)" by (simp add: sink_log_def pushed_jobs_def)
  with pushes show ?case by (simp add: sink_log_def pushed_update)
qed (simp_all add: sink_log_def pushed_update)

lemma ord_inv_step: "ord_step s s' \<Longrightarrow> ord_inv s \<Longrightarrow> ord_inv s'"
  unfolding ord_inv_def
  using in_turn_step registered_step not_missed_step fifo_step logs_step sink_log_step by blast

lemma ord_inv_spurious: "ord_spurious s s' \<Longrightarrow> ord_inv s \<Longrightarrow> ord_inv s'"
proof (induction rule: ord_spurious.induct)
  case (1 i s)
  let ?s = "s\<lparr>stages := (stages s)[i := Woken]\<rparr>"
  have "in_turn ?s" using 1 by (auto simp: ord_inv_def in_turn_def nth_list_update)
  moreover have "registered ?s" using 1 by (auto simp: ord_inv_def registered_def nth_list_update)
  moreover have "not_missed ?s" using 1 by (auto simp: ord_inv_def not_missed_def nth_list_update)
  moreover have "fifo ?s" using 1 by (auto simp: ord_inv_def fifo_def nth_list_update)
  moreover have "logs ?s" using 1 by (auto simp: ord_inv_def logs_def nth_list_update)
  moreover have "sink_log ?s" using 1 by (simp add: ord_inv_def sink_log_def pushed_update)
  ultimately show ?case by (simp only: ord_inv_def simp_thms)
qed

lemma ord_inv_reachable: "ord_any\<^sup>*\<^sup>* (ordered_new n jobs) s \<Longrightarrow> jobs \<le> 2 ^ 32 \<Longrightarrow> ord_inv s"
  by (induction rule: rtranclp_induct) (auto simp: ord_inv_new ord_any_def ord_inv_step ord_inv_spurious)

text \<open>
  C11: Buffers are handled one at a time and in the order of their numbers, whichever thread brings
  which and whatever wakes up when: with up to \<open>2^32\<close> jobs the calls of \<open>handleEvents\<close> are for 0, 1, 2
  and so on, two are never in progress at once, and nothing reaches the sink twice.
\<close>

theorem handled_in_order:
  assumes "ord_any\<^sup>*\<^sup>* (ordered_new n jobs) s" and "jobs \<le> 2 ^ 32"
  shows "handled s = [0..<length (handled s)] \<and> distinct (sunk s) \<and> set (sunk s) \<subseteq> set (handled s) \<and>
    (\<forall>i < length (stages s). \<forall>j < length (stages s). stages s ! i = Handling \<longrightarrow> stages s ! j = Handling \<longrightarrow> i = j)"
proof -
  have inv: "ord_inv s" by (rule ord_inv_reachable [OF assms])
  then have "logs s" by (simp add: ord_inv_def)
  then have log: "handled s = [0..<length (handled s)]" "expectedSeqN s \<le> length (handled s)"
    by (simp_all add: logs_def)
  have turn: "in_turn s" "sink_log s" using inv by (simp_all add: ord_inv_def)
  have "i < expectedSeqN s" if "i \<in> set (sunk s)" for i
  proof -
    have "i < length (stages s)" "stages s ! i = Pushed" using turn(2) that by (auto simp: sink_log_def pushed_jobs_def)
    moreover from this have "past (stages s ! i)" by simp
    ultimately show ?thesis using turn(1) unfolding in_turn_def by blast
  qed
  moreover have "set (handled s) = {0..<length (handled s)}" by (subst log(1)) (rule set_upt)
  ultimately have "set (sunk s) \<subseteq> set (handled s)" using log(2) by fastforce
  moreover have "i = j" if "i < length (stages s)" "j < length (stages s)" "stages s ! i = Handling" "stages s ! j = Handling" for i j
    using turn(1) that unfolding in_turn_def by metis
  moreover have "distinct (sunk s)" using turn(2) by (simp add: sink_log_def)
  ultimately show ?thesis using log(1) by blast
qed

section \<open>Every run ends\<close>

fun stage_weight :: "stage \<Rightarrow> nat" where
  "stage_weight Queued = 8"
| "stage_weight Entering = 7"
| "stage_weight Woken = 6"
| "stage_weight Blocked = 5"
| "stage_weight Handling = 4"
| "stage_weight Pushing = 1"
| "stage_weight Pushed = 0"

definition ord_weight :: "ordered \<Rightarrow> nat" where
  "ord_weight s = sum_list (map stage_weight (stages s))"

lemma stage_update:
  "i < length sts \<Longrightarrow> sum_list (map stage_weight (sts[i := st])) + stage_weight (sts ! i) =
     sum_list (map stage_weight sts) + stage_weight st"
proof (induction sts arbitrary: i)
  case (Cons v sts)
  then show ?case by (cases i) simp_all
qed simp

lemma wake_weight: "sum_list (map stage_weight (wake k sts)) \<le> sum_list (map stage_weight sts) + 1"
  using stage_update [of _ sts Woken] by (fastforce simp: wake_def split: option.split)

lemma ord_step_weight: "ord_step s s' \<Longrightarrow> ord_weight s' < ord_weight s"
proof (induction rule: ord_step.induct)
  case (starts i s)
  then show ?case using stage_update [of i "stages s" Entering] by (simp add: ord_weight_def)
next
  case (enters i s)
  then show ?case using stage_update [of i "stages s" Handling] by (simp add: ord_weight_def)
next
  case (blocks i s)
  then show ?case using stage_update [of i "stages s" Blocked] by (simp add: ord_weight_def)
next
  case (goes_on i s)
  then show ?case using stage_update [of i "stages s" Handling] by (simp add: ord_weight_def)
next
  case (blocks_again i s)
  then show ?case using stage_update [of i "stages s" Blocked] by (simp add: ord_weight_def)
next
  case (hands_over i s)
  then show ?case
    using stage_update [of i "stages s" Pushing]
      wake_weight [of "waiting s (expectedSeqN s + 1)" "(stages s)[i := Pushing]"] by (simp add: ord_weight_def)
next
  case (pushes i s)
  then show ?case using stage_update [of i "stages s" Pushed] by (simp add: ord_weight_def)
qed

lemma ord_run_weight: "(ord_step ^^ k) s s' \<Longrightarrow> k + ord_weight s' \<le> ord_weight s"
proof (induction k arbitrary: s')
  case (Suc k)
  then obtain t where "(ord_step ^^ k) s t" "ord_step t s'" by auto
  then show ?case using Suc.IH [of t] ord_step_weight [of t s'] by simp
qed simp

text \<open>The thread whose turn it is can always go on, or be started.\<close>

lemma ord_progress:
  assumes "ord_inv s" and "0 < nWorkers s" and "\<not> (\<forall>st \<in> set (stages s). st = Pushed)"
  shows "\<exists>s'. ord_step s s'"
proof (cases "Pushing \<in> set (stages s)")
  case True
  then obtain i where "i < length (stages s)" "stages s ! i = Pushing" by (auto simp: in_set_conv_nth)
  then show ?thesis by (blast intro: ord_step.pushes)
next
  case False
  let ?e = "expectedSeqN s"
  have turn: "in_turn s" "fifo s" "not_missed s" using assms(1) by (simp_all add: ord_inv_def)
  have before: "stages s ! j = Pushed" if "j < ?e" "j < length (stages s)" for j
  proof -
    have "past (stages s ! j)" using turn(1) that by (simp add: in_turn_def)
    moreover have "stages s ! j \<noteq> Pushing" using False nth_mem [OF that(2)] by auto
    ultimately show ?thesis by (simp add: past_def)
  qed
  have e: "?e < length (stages s)"
  proof (rule ccontr)
    assume "\<not> ?e < length (stages s)"
    then have "\<forall>st \<in> set (stages s). st = Pushed" using before by (auto simp: in_set_conv_nth)
    with assms(3) show False ..
  qed
  then have seq: "mySeqN ?e = ?e" by (rule my_seq [OF turn(1)])
  have "\<not> past (stages s ! ?e)" using turn(1) e by (simp add: in_turn_def)
  then consider "stages s ! ?e = Queued" | "stages s ! ?e = Entering" | "stages s ! ?e = Woken" | "stages s ! ?e = Handling"
    using turn(3) e by (cases "stages s ! ?e") (auto simp: not_missed_def)
  then show ?thesis
  proof cases
    case 1
    have "st = Queued \<or> st = Pushed" if st: "st \<in> set (stages s)" for st
    proof -
      obtain j where j: "j < length (stages s)" "stages s ! j = st" using st by (auto simp: in_set_conv_nth)
      show ?thesis
      proof (cases "j < ?e")
        case False
        then have "j = ?e \<or> ?e < j" by linarith
        then have "stages s ! j = Queued" using turn(2) 1 j(1) by (auto simp: fifo_def)
        with j show ?thesis by simp
      qed (use before j in auto)
    qed
    then have "in_flight s = 0" by (auto simp: in_flight_def filter_empty_conv)
    moreover have "\<forall>j < ?e. stages s ! j \<noteq> Queued" using before e by auto
    moreover have "in_flight s < nWorkers s" using assms(2) calculation(1) by simp
    ultimately show ?thesis using ord_step.starts [OF e 1] by blast
  qed (use e seq in \<open>blast intro: ord_step.intros\<close>)+
qed

lemma ord_reachable: "ord_step\<^sup>*\<^sup>* (ordered_new n jobs) s \<Longrightarrow> jobs \<le> 2 ^ 32 \<Longrightarrow> ord_inv s \<and> nWorkers s = n \<and> length (stages s) = jobs"
proof (induction rule: rtranclp_induct)
  case base
  then show ?case by (simp add: ord_inv_new) (simp add: ordered_new_def)
next
  case (step s s')
  moreover from step.hyps(2) have "nWorkers s' = nWorkers s \<and> length (stages s') = length (stages s)"
    by (induction rule: ord_step.induct) simp_all
  ultimately show ?case using ord_inv_step by simp
qed

text \<open>
  C25: Handing buffers over in order cannot jam: with at least one worker and at most \<open>2^32\<close> jobs, of
  which the pool starts the earlier ones first, every run without spurious wake-ups is of bounded
  length, and where it cannot go on all buffers have been handled, in order, and reached the sink.
\<close>

theorem ordered_finishes:
  assumes "0 < n" and "jobs \<le> 2 ^ 32" and "(ord_step ^^ k) (ordered_new n jobs) s"
  shows "k \<le> 8 * jobs \<and>
    ((\<exists>s'. ord_step s s') \<or> handled s = [0..<jobs] \<and> distinct (sunk s) \<and> set (sunk s) = {0..<jobs})"
proof
  have "ord_weight (ordered_new n jobs) = 8 * jobs"
    by (simp add: ord_weight_def ordered_new_def map_replicate sum_list_replicate)
  with ord_run_weight [OF assms(3)] show "k \<le> 8 * jobs" by simp
  have "ord_step\<^sup>*\<^sup>* (ordered_new n jobs) s" using assms(3) by (auto simp: rtranclp_power)
  then have inv: "ord_inv s" "nWorkers s = n" "length (stages s) = jobs" using ord_reachable assms(2) by blast+
  show "(\<exists>s'. ord_step s s') \<or> handled s = [0..<jobs] \<and> distinct (sunk s) \<and> set (sunk s) = {0..<jobs}"
  proof (cases "\<forall>st \<in> set (stages s). st = Pushed")
    case True
    then have all: "\<forall>i < jobs. stages s ! i = Pushed" using inv(3) by auto
    have "expectedSeqN s = jobs"
    proof (rule antisym)
      show "expectedSeqN s \<le> jobs" using inv by (simp add: ord_inv_def in_turn_def)
      show "jobs \<le> expectedSeqN s"
        using inv(1,3) all by (auto simp: ord_inv_def in_turn_def not_less [symmetric] dest: spec [of _ "expectedSeqN s"])
    qed
    with inv all show ?thesis by (auto simp: ord_inv_def logs_def sink_log_def pushed_jobs_def)
  next
    case False
    have "0 < nWorkers s" using inv(2) assms(1) by simp
    then show ?thesis using ord_progress [OF inv(1) _ False] by blast
  qed
qed

section \<open>A run\<close>

definition at_stage :: "nat \<Rightarrow> (nat \<Rightarrow> nat option) \<Rightarrow> stage list \<Rightarrow> nat list \<Rightarrow> nat list \<Rightarrow> ordered" where
  "at_stage e w sts h k = \<lparr>expectedSeqN = e, waiting = w, stages = sts, nWorkers = 2, handled = h, sunk = k\<rparr>"

lemma sample_order_run: "(ord_step ^^ 7) (ordered_new 2 2) (at_stage 2 Map.empty [Pushing, Pushed] [0, 1] [1])"
proof -
  have new: "ordered_new 2 2 = at_stage 0 Map.empty [Queued, Queued] [] []"
    by (simp add: ordered_new_def at_stage_def numeral_2_eq_2)
  have s1: "ord_step (at_stage 0 Map.empty [Queued, Queued] [] []) (at_stage 0 Map.empty [Entering, Queued] [] [])"
    using ord_step.starts [of 0 "at_stage 0 Map.empty [Queued, Queued] [] []"] by (simp add: at_stage_def in_flight_def)
  have s2: "ord_step (at_stage 0 Map.empty [Entering, Queued] [] []) (at_stage 0 Map.empty [Entering, Entering] [] [])"
    using ord_step.starts [of 1 "at_stage 0 Map.empty [Entering, Queued] [] []"] by (simp add: at_stage_def in_flight_def)
  have s3: "ord_step (at_stage 0 Map.empty [Entering, Entering] [] []) (at_stage 0 Map.empty [Handling, Entering] [0] [])"
    using ord_step.enters [of 0 "at_stage 0 Map.empty [Entering, Entering] [] []"] by (simp add: at_stage_def mySeqN_def)
  have s4: "ord_step (at_stage 0 Map.empty [Handling, Entering] [0] []) (at_stage 1 Map.empty [Pushing, Entering] [0] [])"
    using ord_step.hands_over [of 0 "at_stage 0 Map.empty [Handling, Entering] [0] []"] by (simp add: at_stage_def wake_def)
  have s5: "ord_step (at_stage 1 Map.empty [Pushing, Entering] [0] []) (at_stage 1 Map.empty [Pushing, Handling] [0, 1] [])"
    using ord_step.enters [of 1 "at_stage 1 Map.empty [Pushing, Entering] [0] []"] by (simp add: at_stage_def mySeqN_def)
  have s6: "ord_step (at_stage 1 Map.empty [Pushing, Handling] [0, 1] []) (at_stage 2 Map.empty [Pushing, Pushing] [0, 1] [])"
    using ord_step.hands_over [of 1 "at_stage 1 Map.empty [Pushing, Handling] [0, 1] []"]
    by (simp add: at_stage_def wake_def numeral_2_eq_2)
  have s7: "ord_step (at_stage 2 Map.empty [Pushing, Pushing] [0, 1] []) (at_stage 2 Map.empty [Pushing, Pushed] [0, 1] [1])"
    using ord_step.pushes [of 1 "at_stage 2 Map.empty [Pushing, Pushing] [0, 1] []"] by (simp add: at_stage_def)
  have "(ord_step ^^ Suc (Suc (Suc (Suc (Suc (Suc (Suc 0))))))) (ordered_new 2 2)
      (at_stage 2 Map.empty [Pushing, Pushed] [0, 1] [1])"
    unfolding new
    by (rule relpowp_Suc_I, rule relpowp_Suc_I, rule relpowp_Suc_I, rule relpowp_Suc_I, rule relpowp_Suc_I,
        rule relpowp_Suc_I, rule relpowp_Suc_I, rule relpowp_0_I) (rule s1 s2 s3 s4 s5 s6 s7)+
  moreover have "7 = Suc (Suc (Suc (Suc (Suc (Suc (Suc 0))))))" by simp
  ultimately show ?thesis by (simp only:)
qed

theorem ordered_finishes_witness:
  "\<exists>s'. ord_step (at_stage 2 Map.empty [Pushing, Pushed] [0, 1] [1]) s'"
proof -
  have "0 \<notin> set (sunk (at_stage 2 Map.empty [Pushing, Pushed] [0, 1] [1]))" by (simp add: at_stage_def)
  then have "set (sunk (at_stage 2 Map.empty [Pushing, Pushed] [0, 1] [1])) \<noteq> {0..<2}" by force
  then show ?thesis using ordered_finishes [OF _ _ sample_order_run] by auto
qed

theorem handled_in_order_witness:
  "\<exists>s. ord_any\<^sup>*\<^sup>* (ordered_new 2 2) s \<and> handled s = [0, 1] \<and> set (sunk s) \<subseteq> set (handled s)"
proof -
  have run: "ord_any\<^sup>*\<^sup>* (ordered_new 2 2) (at_stage 2 Map.empty [Pushing, Pushed] [0, 1] [1])"
    by (rule mono_rtranclp [rule_format, of ord_step])
      (simp add: ord_any_def, rule rtranclp_power [THEN iffD2, OF exI, OF sample_order_run])
  from handled_in_order [OF run] run show ?thesis by (intro exI [of _ "at_stage 2 Map.empty [Pushing, Pushed] [0, 1] [1]"])
      (simp add: at_stage_def)
qed

text \<open>
  The order ends at the handler: the sink behind it may get buffer 1 before buffer 0, for a thread
  lets the next one in before it passes its own buffer on.
\<close>

theorem sink_order_may_differ:
  "\<exists>k s. (ord_step ^^ k) (ordered_new 2 2) s \<and> handled s = [0, 1] \<and> sunk s = [1] \<and> stages s ! 0 = Pushing"
  using sample_order_run by (intro exI [of _ 7] exI) (auto simp: at_stage_def)

end
