(* ===== verification/Arithmetic.thy ===== *)
theory Arithmetic
  imports Prelude
begin

text \<open>
  The floating-point arithmetic that the event processing uses, as a parameter of its definitions:
  \<open>'d\<close> are the \<^verbatim>\<open>double\<close> values, of which the \<^verbatim>\<open>float\<close> values are some, and a record gives the
  operations (\<open>lit n\<close> and \<open>frac n d\<close> are the literals \<open>n\<close> and \<open>n / d\<close>), those in \<^verbatim>\<open>float\<close> with an \<open>f\<close> in front and those in \<^verbatim>\<open>double\<close> with a \<open>d\<close>. What a
  property needs of them, such as that no number is less than one that is less than it, is a premise.
\<close>

record 'd arith =
  lit :: "int \<Rightarrow> 'd"
  frac :: "int \<Rightarrow> int \<Rightarrow> 'd"
  of_integer :: "int \<Rightarrow> 'd"
  to_float :: "'d \<Rightarrow> 'd"
  dadd :: "'d \<Rightarrow> 'd \<Rightarrow> 'd"
  dsub :: "'d \<Rightarrow> 'd \<Rightarrow> 'd"
  dmul :: "'d \<Rightarrow> 'd \<Rightarrow> 'd"
  ddiv :: "'d \<Rightarrow> 'd \<Rightarrow> 'd"
  dabs :: "'d \<Rightarrow> 'd"
  fadd :: "'d \<Rightarrow> 'd \<Rightarrow> 'd"
  fsub :: "'d \<Rightarrow> 'd \<Rightarrow> 'd"
  fmul :: "'d \<Rightarrow> 'd \<Rightarrow> 'd"
  fdiv :: "'d \<Rightarrow> 'd \<Rightarrow> 'd"
  fpow :: "'d \<Rightarrow> 'd \<Rightarrow> 'd"
  fneg :: "'d \<Rightarrow> 'd"
  fsqrt :: "'d \<Rightarrow> 'd"
  less_than :: "'d \<Rightarrow> 'd \<Rightarrow> bool"
  less_or_equal :: "'d \<Rightarrow> 'd \<Rightarrow> bool"
  equals :: "'d \<Rightarrow> 'd \<Rightarrow> bool"

text \<open>Documented of every implementation, numbers or not: no cycle of two.\<close>

definition less_asym :: "'d arith \<Rightarrow> bool" where
  "less_asym A \<longleftrightarrow> (\<forall>x y. less_than A x y \<longrightarrow> \<not> less_than A y x)"

text \<open>Exact arithmetic on the integers, for samples.\<close>

definition int_arith :: "int arith" where
  "int_arith = \<lparr>lit = id, frac = (\<lambda>n d. n div d), of_integer = id, to_float = id, dadd = (+), dsub = (-), dmul = (*), ddiv = (div), dabs = abs,
     fadd = (+), fsub = (-), fmul = (*), fdiv = (div), fpow = (\<lambda>x n. x ^ nat n), fneg = uminus, fsqrt = id,
     less_than = (<), less_or_equal = (\<le>), equals = (=)\<rparr>"

lemma int_arith_simps [simp]:
  "lit int_arith = id" "of_integer int_arith = id" "to_float int_arith = id" "dadd int_arith = (+)" "dsub int_arith = (-)"
  "dmul int_arith = (*)" "ddiv int_arith = (div)" "dabs int_arith = abs" "fadd int_arith = (+)" "fsub int_arith = (-)"
  "fmul int_arith = (*)" "fdiv int_arith = (div)" "fneg int_arith = uminus" "fsqrt int_arith = id" "less_than int_arith = (<)"
  "less_or_equal int_arith = (\<le>)" "equals int_arith = (=)" "frac int_arith = (\<lambda>n d. n div d)"
  by (simp_all add: int_arith_def)

lemma int_less_asym [simp]: "less_asym int_arith"
  by (simp add: less_asym_def)

end
