(* ===== verification/SystemConfig.thy ===== *)
theory SystemConfig
  imports Prelude
begin

text \<open>
  The calibration and mapping tables (\<^verbatim>\<open>external/base/include/SystemConfig.h\<close>,
  \<^verbatim>\<open>external/base/src/SystemConfig.cpp\<close>). The values of type \<open>'d\<close> are the floating-point numbers,
  which this part only stores. What \<^verbatim>\<open>sscanf\<close> makes of each normalised line is an input: the
  fields, or \<open>None\<close> for a line that is empty or does not scan. A \<open>Fault\<close> is an access outside a table,
  an error of the program a value.
\<close>

section \<open>Tables\<close>

record 'd TacConfig =
  tac_t0 :: 'd
  tac_a0 :: 'd
  tac_a1 :: 'd
  tac_a2 :: 'd

record 'd QacConfig =
  qp0 :: 'd
  qp1 :: 'd
  qp2 :: 'd
  qp3 :: 'd
  qp4 :: 'd
  qp5 :: 'd
  qp6 :: 'd
  qp7 :: 'd
  qp8 :: 'd
  qp9 :: 'd

record 'd EnergyConfig =
  ep0 :: 'd
  ep1 :: 'd
  ep2 :: 'd
  ep3 :: 'd

record 'd ChannelConfig =
  ch_x :: 'd
  ch_y :: 'd
  ch_z :: 'd
  ch_xi :: int
  ch_yi :: int
  triggerRegion :: int
  ch_t0 :: 'd
  tac_T :: "'d TacConfig list"
  tac_E :: "'d TacConfig list"
  qac_Q :: "'d QacConfig list"
  eCal :: "'d EnergyConfig list"

record 'd SystemConfig =
  hasTDCCalibration :: bool
  hasQDCCalibration :: bool
  hasEnergyCalibration :: bool
  hasTimeOffsetCalibration :: bool
  hasXYZ :: bool
  channelConfig :: "nat \<Rightarrow> (nat \<Rightarrow> 'd ChannelConfig) option"
  coincidenceTriggerMap :: "int \<Rightarrow> bool"
  multihitTriggerMap :: "int \<Rightarrow> bool"

definition PATH_MAX :: nat where "PATH_MAX = 4096"
definition MAX_TRIGGER_REGIONS :: int where "MAX_TRIGGER_REGIONS = 4096"

definition nullChannelConfig :: "'d \<Rightarrow> 'd ChannelConfig" where
  "nullChannelConfig zero =
     (let tac = \<lparr>tac_t0 = zero, tac_a0 = zero, tac_a1 = zero, tac_a2 = zero\<rparr>;
          qac = \<lparr>qp0 = zero, qp1 = zero, qp2 = zero, qp3 = zero, qp4 = zero, qp5 = zero, qp6 = zero, qp7 = zero, qp8 = zero,
            qp9 = zero\<rparr>;
          cal = \<lparr>ep0 = zero, ep1 = zero, ep2 = zero, ep3 = zero\<rparr>
      in \<lparr>ch_x = zero, ch_y = zero, ch_z = zero, ch_xi = 0, ch_yi = 0, triggerRegion = -1, ch_t0 = zero,
           tac_T = [tac, tac, tac, tac], tac_E = [tac, tac, tac, tac], qac_Q = [qac, qac, qac, qac],
           eCal = [cal, cal, cal, cal]\<rparr>)"

text \<open>The constructor; \<open>old\<close> is what it finds in the two flags that it does not set.\<close>

definition config_new :: "bool \<times> bool \<Rightarrow> 'd SystemConfig" where
  "config_new old = \<lparr>hasTDCCalibration = False, hasQDCCalibration = False, hasEnergyCalibration = fst old,
     hasTimeOffsetCalibration = snd old, hasXYZ = False, channelConfig = (\<lambda>_. None),
     coincidenceTriggerMap = (\<lambda>_. False), multihitTriggerMap = (\<lambda>_. False)\<rparr>"

section \<open>Channels\<close>

definition MAKE_GID :: "u32 \<Rightarrow> u32 \<Rightarrow> u32 \<Rightarrow> u32 \<Rightarrow> u32" where
  "MAKE_GID portID slaveID chipID channelID =
     ucast (ucast channelID OR push_bit 6 (ucast chipID) OR push_bit 12 (ucast slaveID) OR push_bit 17 (ucast portID) :: u64)"

definition getChannelConfig :: "'d \<Rightarrow> 'd SystemConfig \<Rightarrow> u32 \<Rightarrow> 'd ChannelConfig option" where
  "getChannelConfig zero c channelID =
     (let indexH = unat channelID div 4096; indexL = unat channelID mod 4096 in
      if indexH < PATH_MAX then
        Some (case channelConfig c indexH of None \<Rightarrow> nullChannelConfig zero | Some ptr \<Rightarrow> ptr indexL)
      else None)"

definition touchChannelConfig :: "'d \<Rightarrow> u32 \<Rightarrow> 'd SystemConfig \<Rightarrow> 'd SystemConfig option" where
  "touchChannelConfig zero channelID c =
     (let indexH = unat channelID div 4096 in
      if indexH < PATH_MAX then
        Some (case channelConfig c indexH of
                None \<Rightarrow> c\<lparr>channelConfig := (channelConfig c)(indexH \<mapsto> (\<lambda>_. nullChannelConfig zero))\<rparr>
              | Some ptr \<Rightarrow> c)
      else None)"

text \<open>Touching a channel and writing through the reference to its entry.\<close>

definition update_channel ::
  "'d \<Rightarrow> u32 \<Rightarrow> ('d ChannelConfig \<Rightarrow> 'd ChannelConfig option) \<Rightarrow> 'd SystemConfig \<Rightarrow> 'd SystemConfig run" where
  "update_channel zero channelID f c =
     (case touchChannelConfig zero channelID c of
        None \<Rightarrow> Fault
      | Some c' \<Rightarrow>
          let indexH = unat channelID div 4096; indexL = unat channelID mod 4096 in
          (case channelConfig c' indexH of
             None \<Rightarrow> Fault
           | Some ptr \<Rightarrow>
               (case f (ptr indexL) of
                  None \<Rightarrow> Fault
                | Some e \<Rightarrow> Return (c'\<lparr>channelConfig := (channelConfig c')(indexH \<mapsto> ptr(indexL := e))\<rparr>))))"

text \<open>An entry of one of the arrays of four.\<close>

definition set_entry :: "'a list \<Rightarrow> u32 \<Rightarrow> 'a \<Rightarrow> 'a list option" where
  "set_entry xs tacID v = (if unat tacID < length xs then Some (xs[unat tacID := v]) else None)"

section \<open>Loading\<close>

datatype cfg_error = CannotOpen | NotSpecified string | NotThreeEntries nat | BadRegion nat | BadTriggerType nat

type_synonym 'a loaded = "(cfg_error + 'a) run"

fun load_lines :: "('l \<Rightarrow> 'c \<Rightarrow> 'c run) \<Rightarrow> 'l option list \<Rightarrow> 'c \<Rightarrow> 'c run" where
  "load_lines step [] c = Return c"
| "load_lines step (None # ls) c = load_lines step ls c"
| "load_lines step (Some l # ls) c = bind_run (step l c) (load_lines step ls)"

text \<open>\<open>None\<close>: the file does not open.\<close>

definition load_file :: "('l \<Rightarrow> 'c \<Rightarrow> 'c run) \<Rightarrow> 'l option list option \<Rightarrow> 'c \<Rightarrow> 'c loaded" where
  "load_file step f c =
     (case f of None \<Rightarrow> Return (Inl CannotOpen) | Some ls \<Rightarrow> bind_run (load_lines step ls c) (\<lambda>c. Return (Inr c)))"

type_synonym address = "u32 \<times> u32 \<times> u32 \<times> u32"

fun gid :: "address \<Rightarrow> u32" where
  "gid (portID, slaveID, chipID, channelID) = MAKE_GID portID slaveID chipID channelID"

definition tdc_line :: "'d \<Rightarrow> address \<times> u32 \<times> char \<times> 'd TacConfig \<Rightarrow> 'd SystemConfig \<Rightarrow> 'd SystemConfig run" where
  "tdc_line zero l c =
     (let (a, tacID, bStr, t) = l in
      update_channel zero (gid a) (\<lambda>e.
        if bStr = CHR ''T'' then map_option (\<lambda>ts. e\<lparr>tac_T := ts\<rparr>) (set_entry (tac_T e) tacID t)
        else map_option (\<lambda>ts. e\<lparr>tac_E := ts\<rparr>) (set_entry (tac_E e) tacID t)) c)"

definition qdc_line :: "'d \<Rightarrow> address \<times> u32 \<times> 'd QacConfig \<Rightarrow> 'd SystemConfig \<Rightarrow> 'd SystemConfig run" where
  "qdc_line zero l c =
     (let (a, tacID, q) = l in
      update_channel zero (gid a) (\<lambda>e. map_option (\<lambda>qs. e\<lparr>qac_Q := qs\<rparr>) (set_entry (qac_Q e) tacID q)) c)"

definition energy_line :: "'d \<Rightarrow> address \<times> u32 \<times> 'd EnergyConfig \<Rightarrow> 'd SystemConfig \<Rightarrow> 'd SystemConfig run" where
  "energy_line zero l c =
     (let (a, tacID, v) = l in
      update_channel zero (gid a) (\<lambda>e. map_option (\<lambda>vs. e\<lparr>eCal := vs\<rparr>) (set_entry (eCal e) tacID v)) c)"

text \<open>The channel is scanned with \<^verbatim>\<open>%d\<close> here and widened with its sign.\<close>

definition time_offset_line :: "'d \<Rightarrow> u32 \<times> u32 \<times> u32 \<times> i32 \<times> 'd \<Rightarrow> 'd SystemConfig \<Rightarrow> 'd SystemConfig run" where
  "time_offset_line zero l c =
     (let (portID, slaveID, chipID, channelID, t0) = l;
          g = (ucast (scast channelID OR push_bit 6 (ucast chipID) OR push_bit 12 (ucast slaveID) OR
            push_bit 17 (ucast portID) :: u64) :: u32)
      in update_channel zero g (\<lambda>e. Some (e\<lparr>ch_t0 := t0\<rparr>)) c)"

definition channel_line ::
  "'d \<Rightarrow> address \<times> int \<times> int \<times> int \<times> 'd \<times> 'd \<times> 'd \<Rightarrow> 'd SystemConfig \<Rightarrow> 'd SystemConfig run" where
  "channel_line zero l c =
     (let (a, region, xi, yi, x, y, z) = l in
      update_channel zero (gid a)
        (\<lambda>e. Some (e\<lparr>triggerRegion := region, ch_xi := xi, ch_yi := yi, ch_x := x, ch_y := y, ch_z := z\<rparr>)) c)"

text \<open>
  A line of the trigger map: empty, with fewer than three fields, or the two regions and the letter;
  \<open>n\<close> is the number of the line.
\<close>

datatype trigger_line = EmptyLine | ShortLine | TriggerLine int int char

definition toupper :: "char \<Rightarrow> char" where
  "toupper c = (let n = of_char c :: nat in if 97 \<le> n \<and> n \<le> 122 then char_of (n - 32) else c)"

definition set_pair :: "int \<Rightarrow> int \<Rightarrow> bool \<Rightarrow> (int \<Rightarrow> bool) \<Rightarrow> int \<Rightarrow> bool" where
  "set_pair r1 r2 v m = m(r1 * MAX_TRIGGER_REGIONS + r2 := v, r2 * MAX_TRIGGER_REGIONS + r1 := v)"

fun trigger_lines :: "nat \<Rightarrow> trigger_line list \<Rightarrow> 'd SystemConfig \<Rightarrow> cfg_error + 'd SystemConfig" where
  "trigger_lines n [] c = Inr c"
| "trigger_lines n (EmptyLine # ls) c = trigger_lines (n + 1) ls c"
| "trigger_lines n (ShortLine # ls) c = Inl (NotThreeEntries (n + 1))"
| "trigger_lines n (TriggerLine r1 r2 ch # ls) c =
     (if r1 < 0 \<or> r1 \<ge> MAX_TRIGGER_REGIONS \<or> r2 < 0 \<or> r2 \<ge> MAX_TRIGGER_REGIONS then Inl (BadRegion (n + 1))
      else let u = toupper ch in
        if u \<noteq> CHR ''M'' \<and> u \<noteq> CHR ''C'' then Inl (BadTriggerType (n + 1))
        else trigger_lines (n + 1) ls
          (c\<lparr>coincidenceTriggerMap := set_pair r1 r2 (u = CHR ''C'') (coincidenceTriggerMap c),
             multihitTriggerMap := set_pair r1 r2 (u = CHR ''M'') (multihitTriggerMap c)\<rparr>))"

text \<open>The index is unsigned. \<open>None\<close>: a read outside the map.\<close>

definition region_pair :: "(int \<Rightarrow> bool) \<Rightarrow> int \<Rightarrow> int \<Rightarrow> bool option" where
  "region_pair m r1 r2 =
     (if r1 < 0 \<or> r2 < 0 then Some False
      else let i = (r1 * MAX_TRIGGER_REGIONS + r2) mod 2 ^ 32 in
        if i < MAX_TRIGGER_REGIONS * MAX_TRIGGER_REGIONS then Some (m i) else None)"

definition isCoincidenceAllowed :: "'d SystemConfig \<Rightarrow> int \<Rightarrow> int \<Rightarrow> bool option" where
  "isCoincidenceAllowed c r1 r2 = region_pair (coincidenceTriggerMap c) r1 r2"

definition isMultiHitAllowed :: "'d SystemConfig \<Rightarrow> int \<Rightarrow> int \<Rightarrow> bool option" where
  "isMultiHitAllowed c r1 r2 = region_pair (multihitTriggerMap c) r1 r2"

section \<open>A configuration file\<close>

definition LOAD_TDC_CALIBRATION :: u64 where "LOAD_TDC_CALIBRATION = 0x2"
definition LOAD_QDC_CALIBRATION :: u64 where "LOAD_QDC_CALIBRATION = 0x4"
definition LOAD_MAPPING :: u64 where "LOAD_MAPPING = 0x10"
definition LOAD_TIMEALIGN_CALIBRATION :: u64 where "LOAD_TIMEALIGN_CALIBRATION = 0x20"
definition LOAD_ALL :: u64 where "LOAD_ALL = 0xFFFFFFFFFFFFFFFF"

text \<open>
  What the entries of the file lead to: \<open>None\<close> where the entry is missing, otherwise the file it names.
\<close>

record 'd config_files =
  tdc_file :: "(address \<times> u32 \<times> char \<times> 'd TacConfig) option list option option"
  qdc_file :: "(address \<times> u32 \<times> 'd QacConfig) option list option option"
  energy_file :: "(address \<times> u32 \<times> 'd EnergyConfig) option list option option"
  channel_file :: "(address \<times> int \<times> int \<times> int \<times> 'd \<times> 'd \<times> 'd) option list option option"
  trigger_file :: "trigger_line list option option"
  offset_file :: "(u32 \<times> u32 \<times> u32 \<times> i32 \<times> 'd) option list option option"

definition bind_loaded :: "'a loaded \<Rightarrow> ('a \<Rightarrow> 'b loaded) \<Rightarrow> 'b loaded" where
  "bind_loaded m f = bind_run m (\<lambda>r. case r of Inl e \<Rightarrow> Return (Inl e) | Inr x \<Rightarrow> f x)"

definition load_tdc_part :: "'d \<Rightarrow> u64 \<Rightarrow> 'd config_files \<Rightarrow> 'd SystemConfig \<Rightarrow> 'd SystemConfig loaded" where
  "load_tdc_part zero loadMask fs c =
     (let c0 = c\<lparr>hasTDCCalibration := False\<rparr> in
      if loadMask AND LOAD_TDC_CALIBRATION = 0 then Return (Inr c0)
      else case tdc_file fs of
        None \<Rightarrow> Return (Inl (NotSpecified ''qdc_calibration_table''))
      | Some f \<Rightarrow> bind_loaded (load_file (tdc_line zero) f c0) (\<lambda>c. Return (Inr (c\<lparr>hasTDCCalibration := True\<rparr>))))"

definition load_qdc_part :: "'d \<Rightarrow> u64 \<Rightarrow> 'd config_files \<Rightarrow> 'd SystemConfig \<Rightarrow> 'd SystemConfig loaded" where
  "load_qdc_part zero loadMask fs c =
     (let c0 = c\<lparr>hasQDCCalibration := False, hasEnergyCalibration := False\<rparr> in
      if loadMask AND LOAD_QDC_CALIBRATION = 0 then Return (Inr c0)
      else case qdc_file fs of
        None \<Rightarrow> Return (Inl (NotSpecified ''qdc_calibration_table''))
      | Some f \<Rightarrow> bind_loaded (load_file (qdc_line zero) f c0) (\<lambda>c.
          let c1 = c\<lparr>hasQDCCalibration := True\<rparr> in
          case energy_file fs of
            None \<Rightarrow> Return (Inr c1)
          | Some g \<Rightarrow> bind_loaded (load_file (energy_line zero) g c1)
              (\<lambda>c. Return (Inr (c\<lparr>hasEnergyCalibration := True\<rparr>)))))"

definition load_map_part :: "'d \<Rightarrow> u64 \<Rightarrow> 'd config_files \<Rightarrow> 'd SystemConfig \<Rightarrow> 'd SystemConfig loaded" where
  "load_map_part zero loadMask fs c =
     (let c0 = c\<lparr>hasXYZ := False\<rparr> in
      if loadMask AND LOAD_MAPPING = 0 then Return (Inr c0)
      else case channel_file fs of
        None \<Rightarrow> Return (Inl (NotSpecified ''channel_map''))
      | Some f \<Rightarrow> bind_loaded (load_file (channel_line zero) f c0) (\<lambda>c.
          let c1 = c\<lparr>hasXYZ := True\<rparr> in
          case trigger_file fs of
            None \<Rightarrow> Return (Inl (NotSpecified ''trigger_map''))
          | Some None \<Rightarrow> Return (Inl CannotOpen)
          | Some (Some ls) \<Rightarrow> Return (trigger_lines 0 ls c1)))"

definition load_offset_part :: "'d \<Rightarrow> u64 \<Rightarrow> 'd config_files \<Rightarrow> 'd SystemConfig \<Rightarrow> 'd SystemConfig loaded" where
  "load_offset_part zero loadMask fs c =
     (let c0 = c\<lparr>hasTimeOffsetCalibration := False\<rparr> in
      if loadMask AND LOAD_TIMEALIGN_CALIBRATION = 0 then Return (Inr c0)
      else case offset_file fs of
        None \<Rightarrow> Return (Inr c0)
      | Some f \<Rightarrow> bind_loaded (load_file (time_offset_line zero) f c0)
          (\<lambda>c. Return (Inr (c\<lparr>hasTimeOffsetCalibration := True\<rparr>))))"

definition fromFile :: "'d \<Rightarrow> bool \<times> bool \<Rightarrow> u64 \<Rightarrow> 'd config_files \<Rightarrow> 'd SystemConfig loaded" where
  "fromFile zero old loadMask fs =
     bind_loaded (load_tdc_part zero loadMask fs (config_new old)) (\<lambda>c.
     bind_loaded (load_qdc_part zero loadMask fs c) (\<lambda>c.
     bind_loaded (load_map_part zero loadMask fs c) (load_offset_part zero loadMask fs)))"

section \<open>Tables of the right shape\<close>

definition channel_ok :: "'d ChannelConfig \<Rightarrow> bool" where
  "channel_ok e \<longleftrightarrow> length (tac_T e) = 4 \<and> length (tac_E e) = 4 \<and> length (qac_Q e) = 4 \<and> length (eCal e) = 4"

definition maps_ok :: "'d SystemConfig \<Rightarrow> bool" where
  "maps_ok c \<longleftrightarrow> (\<forall>r1 r2. 0 \<le> r1 \<longrightarrow> r1 < MAX_TRIGGER_REGIONS \<longrightarrow> 0 \<le> r2 \<longrightarrow> r2 < MAX_TRIGGER_REGIONS \<longrightarrow>
     (let i = r1 * MAX_TRIGGER_REGIONS + r2; j = r2 * MAX_TRIGGER_REGIONS + r1 in
      coincidenceTriggerMap c i = coincidenceTriggerMap c j \<and> multihitTriggerMap c i = multihitTriggerMap c j \<and>
      \<not> (coincidenceTriggerMap c i \<and> multihitTriggerMap c i)))"

definition channels_ok :: "'d SystemConfig \<Rightarrow> bool" where
  "channels_ok c \<longleftrightarrow> (\<forall>h ptr l. channelConfig c h = Some ptr \<longrightarrow> channel_ok (ptr l))"

lemma null_ok [simp]: "channel_ok (nullChannelConfig zero)"
  by (simp add: channel_ok_def nullChannelConfig_def Let_def)

text \<open>What an update of one entry does to every other.\<close>

lemma touch_spec:
  "touchChannelConfig zero g c = Some c' \<Longrightarrow> channelConfig c' (unat g div 4096) \<noteq> None \<and>
    (\<forall>g'. getChannelConfig zero c' g' = getChannelConfig zero c g') \<and> unat g div 4096 < PATH_MAX \<and>
    coincidenceTriggerMap c' = coincidenceTriggerMap c \<and> multihitTriggerMap c' = multihitTriggerMap c"
  by (auto simp: touchChannelConfig_def getChannelConfig_def Let_def split: if_splits option.splits)

lemma same_channel: "unat g' div 4096 = unat g div 4096 \<Longrightarrow> unat g' mod 4096 = unat g mod 4096 \<Longrightarrow> g' = (g :: u32)"
  by (metis div_mult_mod_eq word_unat_eq_iff)

lemma get_update:
  assumes "channelConfig c (unat g div 4096) = Some ptr"
  shows "getChannelConfig zero (c\<lparr>channelConfig := (channelConfig c)(unat g div 4096 \<mapsto> ptr(unat g mod 4096 := e))\<rparr>) g' =
    (if g' = g \<and> unat g div 4096 < PATH_MAX then Some e else getChannelConfig zero c g')"
  using assms same_channel [of g' g] by (simp add: getChannelConfig_def Let_def)

lemma update_channel_spec:
  assumes "update_channel zero g f c = Return c'"
  shows "\<exists>e e'. getChannelConfig zero c g = Some e \<and> f e = Some e' \<and>
    (\<forall>g'. getChannelConfig zero c' g' = (if g' = g then Some e' else getChannelConfig zero c g')) \<and>
    coincidenceTriggerMap c' = coincidenceTriggerMap c \<and> multihitTriggerMap c' = multihitTriggerMap c"
proof -
  obtain c1 ptr e' where c1: "touchChannelConfig zero g c = Some c1" "channelConfig c1 (unat g div 4096) = Some ptr"
    "f (ptr (unat g mod 4096)) = Some e'"
    "c' = c1\<lparr>channelConfig := (channelConfig c1)(unat g div 4096 \<mapsto> ptr(unat g mod 4096 := e'))\<rparr>"
    using assms by (auto simp: update_channel_def Let_def split: option.splits)
  have "getChannelConfig zero c1 g = Some (ptr (unat g mod 4096))"
    using c1(2) touch_spec [OF c1(1)] by (simp add: getChannelConfig_def Let_def)
  then show ?thesis
    using c1(3) touch_spec [OF c1(1)] get_update [OF c1(2)] unfolding c1(4) by simp
qed

lemma update_channel_runs:
  assumes "unat g div 4096 < PATH_MAX" and "\<And>e. channel_ok e \<Longrightarrow> \<exists>e'. f e = Some e' \<and> channel_ok e'" and "channels_ok c"
  shows "\<exists>c'. update_channel zero g f c = Return c' \<and> channels_ok c'"
proof -
  obtain c1 where c1: "touchChannelConfig zero g c = Some c1" "channels_ok c1"
    using assms(1,3) by (auto simp: touchChannelConfig_def channels_ok_def Let_def split: option.split)
  obtain ptr where ptr: "channelConfig c1 (unat g div 4096) = Some ptr" using touch_spec [OF c1(1)] by blast
  obtain e' where e': "f (ptr (unat g mod 4096)) = Some e'" "channel_ok e'"
    using assms(2) c1(2) ptr by (meson channels_ok_def)
  let ?c = "c1\<lparr>channelConfig := (channelConfig c1)(unat g div 4096 \<mapsto> ptr(unat g mod 4096 := e'))\<rparr>"
  have "channels_ok ?c" using c1(2) ptr e'(2) by (auto simp: channels_ok_def)
  then show ?thesis using c1(1) ptr e'(1) by (simp add: update_channel_def Let_def)
qed

lemma set_entry_ok: "unat tacID < length xs \<Longrightarrow> set_entry xs tacID v = Some (xs[unat tacID := v])"
  by (simp add: set_entry_def)

section \<open>The trigger maps\<close>

lemma pair_index:
  assumes "0 \<le> r2" "r2 < MAX_TRIGGER_REGIONS" "0 \<le> s2" "s2 < MAX_TRIGGER_REGIONS"
  shows "r1 * MAX_TRIGGER_REGIONS + r2 = s1 * MAX_TRIGGER_REGIONS + s2 \<longleftrightarrow> r1 = s1 \<and> r2 = s2"
proof
  assume eq: "r1 * MAX_TRIGGER_REGIONS + r2 = s1 * MAX_TRIGGER_REGIONS + s2"
  have "(r1 * MAX_TRIGGER_REGIONS + r2) div MAX_TRIGGER_REGIONS = r1" "(s1 * MAX_TRIGGER_REGIONS + s2) div MAX_TRIGGER_REGIONS = s1"
    using assms by (simp_all add: MAX_TRIGGER_REGIONS_def)
  then have "r1 = s1" unfolding eq by simp
  with eq show "r1 = s1 \<and> r2 = s2" by simp
qed simp

lemma set_pair_apply:
  assumes "0 \<le> r1" "r1 < MAX_TRIGGER_REGIONS" "0 \<le> r2" "r2 < MAX_TRIGGER_REGIONS" "0 \<le> s2" "s2 < MAX_TRIGGER_REGIONS"
  shows "set_pair r1 r2 v m (s1 * MAX_TRIGGER_REGIONS + s2) =
    (if s1 = r1 \<and> s2 = r2 \<or> s1 = r2 \<and> s2 = r1 then v else m (s1 * MAX_TRIGGER_REGIONS + s2))"
proof -
  have "s1 * MAX_TRIGGER_REGIONS + s2 = r2 * MAX_TRIGGER_REGIONS + r1 \<longleftrightarrow> s1 = r2 \<and> s2 = r1"
    "s1 * MAX_TRIGGER_REGIONS + s2 = r1 * MAX_TRIGGER_REGIONS + r2 \<longleftrightarrow> s1 = r1 \<and> s2 = r2"
    by (rule pair_index; fact assms)+
  then show ?thesis unfolding set_pair_def fun_upd_apply by presburger
qed

lemma trigger_lines_ok: "maps_ok c \<Longrightarrow> trigger_lines n ls c = Inr c' \<Longrightarrow> maps_ok c'"
proof (induction n ls c rule: trigger_lines.induct)
  case (4 n r1 r2 ch ls c)
  let ?u = "toupper ch"
  let ?c = "c\<lparr>coincidenceTriggerMap := set_pair r1 r2 (?u = CHR ''C'') (coincidenceTriggerMap c),
    multihitTriggerMap := set_pair r1 r2 (?u = CHR ''M'') (multihitTriggerMap c)\<rparr>"
  have r: "0 \<le> r1" "r1 < MAX_TRIGGER_REGIONS" "0 \<le> r2" "r2 < MAX_TRIGGER_REGIONS" "?u = CHR ''M'' \<or> ?u = CHR ''C''"
    using 4(3) by (auto simp: Let_def split: if_splits)
  have "maps_ok ?c"
    unfolding maps_ok_def Let_def
  proof (intro allI impI)
    fix s1 s2 assume s: "0 \<le> s1" "s1 < MAX_TRIGGER_REGIONS" "0 \<le> s2" "s2 < MAX_TRIGGER_REGIONS"
    note old = 4(2) [unfolded maps_ok_def Let_def, rule_format, OF s]
    show "coincidenceTriggerMap ?c (s1 * MAX_TRIGGER_REGIONS + s2) = coincidenceTriggerMap ?c (s2 * MAX_TRIGGER_REGIONS + s1) \<and>
        multihitTriggerMap ?c (s1 * MAX_TRIGGER_REGIONS + s2) = multihitTriggerMap ?c (s2 * MAX_TRIGGER_REGIONS + s1) \<and>
        \<not> (coincidenceTriggerMap ?c (s1 * MAX_TRIGGER_REGIONS + s2) \<and> multihitTriggerMap ?c (s1 * MAX_TRIGGER_REGIONS + s2))"
      using old by (auto simp: set_pair_apply [OF r(1-4) s(3,4)] set_pair_apply [OF r(1-4) s(1,2)])
  qed
  with 4 r show ?case by (auto simp: Let_def)
qed auto

lemma load_lines_inv:
  "(\<And>l c c'. step l c = Return c' \<Longrightarrow> Q c' = Q c) \<Longrightarrow> load_lines step ls c = Return c' \<Longrightarrow> Q c' = Q c"
proof (induction step ls c rule: load_lines.induct)
  case (3 step l ls c)
  then obtain c1 where "step l c = Return c1" "load_lines step ls c1 = Return c'" by (cases "step l c") auto
  with 3 show ?case by auto
qed auto

lemma load_file_inv:
  "(\<And>l c c'. step l c = Return c' \<Longrightarrow> Q c' = Q c) \<Longrightarrow> load_file step f c = Return (Inr c') \<Longrightarrow> Q c' = Q c"
proof (cases f)
  case (Some ls)
  assume step: "\<And>l c c'. step l c = Return c' \<Longrightarrow> Q c' = Q c" and "load_file step f c = Return (Inr c')"
  then have "load_lines step ls c = Return c'" using Some by (cases "load_lines step ls c") (auto simp: load_file_def)
  then show ?thesis by (rule load_lines_inv [rotated]) (rule step)
qed (simp add: load_file_def)

lemma lines_keep_maps:
  "tdc_line zero l1 c = Return c' \<Longrightarrow> maps_ok c' = maps_ok c" "qdc_line zero l2 c = Return c' \<Longrightarrow> maps_ok c' = maps_ok c"
  "energy_line zero l3 c = Return c' \<Longrightarrow> maps_ok c' = maps_ok c" "channel_line zero l4 c = Return c' \<Longrightarrow> maps_ok c' = maps_ok c"
  "time_offset_line zero l5 c = Return c' \<Longrightarrow> maps_ok c' = maps_ok c"
  by (auto simp: tdc_line_def qdc_line_def energy_line_def channel_line_def time_offset_line_def maps_ok_def Let_def
      dest!: update_channel_spec split: prod.splits)

lemma bind_loaded_Return:
  "bind_loaded m f = Return (Inr y) \<longleftrightarrow> (\<exists>x. m = Return (Inr x) \<and> f x = Return (Inr y))"
  by (cases m) (auto simp: bind_loaded_def split: sum.split)

lemma maps_flags [simp]:
  "maps_ok (c\<lparr>hasTDCCalibration := b\<rparr>) = maps_ok c" "maps_ok (c\<lparr>hasQDCCalibration := b\<rparr>) = maps_ok c"
  "maps_ok (c\<lparr>hasEnergyCalibration := b\<rparr>) = maps_ok c" "maps_ok (c\<lparr>hasTimeOffsetCalibration := b\<rparr>) = maps_ok c"
  "maps_ok (c\<lparr>hasXYZ := b\<rparr>) = maps_ok c"
  by (simp_all add: maps_ok_def)

lemma files_keep_maps:
  "load_file (tdc_line zero) f1 c = Return (Inr c') \<Longrightarrow> maps_ok c' = maps_ok c"
  "load_file (qdc_line zero) f2 c = Return (Inr c') \<Longrightarrow> maps_ok c' = maps_ok c"
  "load_file (energy_line zero) f3 c = Return (Inr c') \<Longrightarrow> maps_ok c' = maps_ok c"
  "load_file (channel_line zero) f4 c = Return (Inr c') \<Longrightarrow> maps_ok c' = maps_ok c"
  "load_file (time_offset_line zero) f5 c = Return (Inr c') \<Longrightarrow> maps_ok c' = maps_ok c"
  by (erule load_file_inv [rotated, where Q = maps_ok], erule lines_keep_maps)+

lemma parts_keep_maps:
  "load_tdc_part zero m fs c = Return (Inr c') \<Longrightarrow> maps_ok c \<Longrightarrow> maps_ok c'"
  "load_qdc_part zero m fs c = Return (Inr c') \<Longrightarrow> maps_ok c \<Longrightarrow> maps_ok c'"
  "load_offset_part zero m fs c = Return (Inr c') \<Longrightarrow> maps_ok c \<Longrightarrow> maps_ok c'"
  by (auto simp: load_tdc_part_def load_qdc_part_def load_offset_part_def bind_loaded_Return Let_def
      split: if_splits option.splits dest!: files_keep_maps)

lemma map_part_keeps_maps:
  assumes "load_map_part zero m fs c = Return (Inr c')" and "maps_ok c"
  shows "maps_ok c'"
proof (cases "m AND LOAD_MAPPING = 0")
  case False
  then obtain f c1 where c1: "load_file (channel_line zero) f (c\<lparr>hasXYZ := False\<rparr>) = Return (Inr c1)"
    "(case trigger_file fs of None \<Rightarrow> Return (Inl (NotSpecified ''trigger_map'')) | Some None \<Rightarrow> Return (Inl CannotOpen)
      | Some (Some ls) \<Rightarrow> Return (trigger_lines 0 ls (c1\<lparr>hasXYZ := True\<rparr>))) = Return (Inr c')"
    using assms(1) by (cases "channel_file fs") (auto simp: load_map_part_def bind_loaded_Return Let_def)
  from c1(2) obtain ls where ls: "trigger_lines 0 ls (c1\<lparr>hasXYZ := True\<rparr>) = Inr c'" by (auto split: option.splits)
  have "maps_ok (c1\<lparr>hasXYZ := True\<rparr>)" using files_keep_maps(4) [OF c1(1)] assms(2) by simp
  then show ?thesis using ls by (rule trigger_lines_ok)
qed (use assms in \<open>auto simp: load_map_part_def\<close>)

text \<open>
  C29: Whatever is in the files, once \<open>fromFile\<close> has accepted them the two trigger maps are symmetric
  in the two regions, and no pair of regions is allowed both as a coincidence and as a multiple hit.
\<close>

theorem trigger_maps_exclusive:
  assumes "fromFile zero old m fs = Return (Inr c)"
    and "0 \<le> r1" and "r1 < MAX_TRIGGER_REGIONS" and "0 \<le> r2" and "r2 < MAX_TRIGGER_REGIONS"
  shows "isCoincidenceAllowed c r1 r2 = isCoincidenceAllowed c r2 r1 \<and> isMultiHitAllowed c r1 r2 = isMultiHitAllowed c r2 r1 \<and>
    \<not> (isCoincidenceAllowed c r1 r2 = Some True \<and> isMultiHitAllowed c r1 r2 = Some True)"
proof -
  have "maps_ok (config_new old)" by (simp add: maps_ok_def config_new_def)
  then have ok: "maps_ok c" using assms(1) unfolding fromFile_def bind_loaded_Return by (blast intro: parts_keep_maps map_part_keeps_maps)
  have "r1 * MAX_TRIGGER_REGIONS + r2 < MAX_TRIGGER_REGIONS * MAX_TRIGGER_REGIONS"
    "r2 * MAX_TRIGGER_REGIONS + r1 < MAX_TRIGGER_REGIONS * MAX_TRIGGER_REGIONS"
    using assms(2-5) by (simp_all add: MAX_TRIGGER_REGIONS_def)
  moreover from this have "(r1 * MAX_TRIGGER_REGIONS + r2) mod 2 ^ 32 = r1 * MAX_TRIGGER_REGIONS + r2"
    "(r2 * MAX_TRIGGER_REGIONS + r1) mod 2 ^ 32 = r2 * MAX_TRIGGER_REGIONS + r1"
    using assms(2-5) by (simp_all add: MAX_TRIGGER_REGIONS_def)
  ultimately show ?thesis
    using ok [unfolded maps_ok_def Let_def, rule_format, OF assms(2-5)] assms(2,4)
    by (auto simp: isCoincidenceAllowed_def isMultiHitAllowed_def region_pair_def Let_def)
qed

section \<open>The calibration of a channel\<close>

text \<open>The last line for entry \<open>k\<close> of the table \<open>T\<close> (if \<open>b\<close>) or \<open>E\<close> of channel \<open>g\<close>.\<close>

fun last_tdc :: "bool \<Rightarrow> u32 \<Rightarrow> nat \<Rightarrow> (address \<times> u32 \<times> char \<times> 'd TacConfig) option list \<Rightarrow> 'd TacConfig \<Rightarrow> 'd TacConfig" where
  "last_tdc b g k [] old = old"
| "last_tdc b g k (None # ls) old = last_tdc b g k ls old"
| "last_tdc b g k (Some (a, tacID, bStr, t) # ls) old =
     last_tdc b g k ls (if gid a = g \<and> unat tacID = k \<and> (bStr = CHR ''T'') = b then t else old)"

lemma tdc_line_spec:
  assumes "tdc_line zero (a, tacID, bStr, t) c = Return c'" and "getChannelConfig zero c g = Some e"
  shows "\<exists>e'. getChannelConfig zero c' g = Some e' \<and>
    e' = e\<lparr>tac_T := (if gid a = g \<and> bStr = CHR ''T'' then (tac_T e)[unat tacID := t] else tac_T e),
           tac_E := (if gid a = g \<and> bStr \<noteq> CHR ''T'' then (tac_E e)[unat tacID := t] else tac_E e)\<rparr>"
  using assms by (auto simp: tdc_line_def set_entry_def dest!: update_channel_spec split: if_splits)

text \<open>
  Loading a TDC calibration gives every channel its own last line: entry \<open>k\<close> of its table for
  the start (or the end) of a hit is the last one given for that channel, that TAC and that letter,
  or what it was before if there is none; nothing else of any channel changes.
\<close>

theorem tdc_calibration_lookup:
  assumes "load_lines (tdc_line zero) ls c = Return c'" and "getChannelConfig zero c g = Some e" and "channel_ok e"
  shows "\<exists>e'. getChannelConfig zero c' g = Some e' \<and>
    e' = e\<lparr>tac_T := map (\<lambda>k. last_tdc True g k ls (tac_T e ! k)) [0..<4],
           tac_E := map (\<lambda>k. last_tdc False g k ls (tac_E e ! k)) [0..<4]\<rparr>"
  using assms
proof (induction "tdc_line zero :: _ \<Rightarrow> 'a SystemConfig \<Rightarrow> _" ls c arbitrary: e rule: load_lines.induct)
  case (1 c)
  have "map (\<lambda>k. xs ! k) [0..<4] = xs" if "length xs = 4" for xs :: "'a TacConfig list"
    using that map_nth [of xs] by simp
  with 1 show ?case by (simp add: channel_ok_def)
next
  case (2 ls c)
  then show ?case by simp
next
  case (3 l ls c)
  obtain a tacID bStr t where l: "l = (a, tacID, bStr, t)" by (cases l)
  obtain c1 where c1: "tdc_line zero l c = Return c1" "load_lines (tdc_line zero) ls c1 = Return c'"
    using 3(2) by (cases "tdc_line zero l c") auto
  obtain e1 where e1: "getChannelConfig zero c1 g = Some e1"
    "e1 = e\<lparr>tac_T := (if gid a = g \<and> bStr = CHR ''T'' then (tac_T e)[unat tacID := t] else tac_T e),
            tac_E := (if gid a = g \<and> bStr \<noteq> CHR ''T'' then (tac_E e)[unat tacID := t] else tac_E e)\<rparr>"
    using tdc_line_spec [OF c1(1) [unfolded l] 3(3)] by blast
  have ok: "channel_ok e1" and four: "length (tac_T e) = 4" "length (tac_E e) = 4"
    using 3(4) unfolding e1(2) by (simp_all add: channel_ok_def)
  have T: "tac_T e1 ! k = (if gid a = g \<and> unat tacID = k \<and> bStr = CHR ''T'' then t else tac_T e ! k)" if "k < 4" for k
    using that four unfolding e1(2) by (simp add: nth_list_update)
  have E: "tac_E e1 ! k = (if gid a = g \<and> unat tacID = k \<and> bStr \<noteq> CHR ''T'' then t else tac_E e ! k)" if "k < 4" for k
    using that four unfolding e1(2) by (simp add: nth_list_update)
  have "map (\<lambda>k. last_tdc True g k ls (tac_T e1 ! k)) [0..<4] = map (\<lambda>k. last_tdc True g k (Some l # ls) (tac_T e ! k)) [0..<4]"
    by (rule map_cong [OF refl]) (simp add: l T)
  moreover have "map (\<lambda>k. last_tdc False g k ls (tac_E e1 ! k)) [0..<4] = map (\<lambda>k. last_tdc False g k (Some l # ls) (tac_E e ! k)) [0..<4]"
    by (rule map_cong [OF refl]) (simp add: l E)
  ultimately show ?case
    using 3(1) [OF c1(2) e1(1) ok] unfolding e1(2) by simp
qed

section \<open>No access outside a table\<close>

definition address_ok :: "address \<Rightarrow> bool" where
  "address_ok a \<longleftrightarrow> unat (gid a) div 4096 < PATH_MAX"

definition offset_gid :: "u32 \<times> u32 \<times> u32 \<times> i32 \<Rightarrow> u32" where
  "offset_gid a = (case a of (portID, slaveID, chipID, channelID) \<Rightarrow>
     ucast (scast channelID OR push_bit 6 (ucast chipID) OR push_bit 12 (ucast slaveID) OR push_bit 17 (ucast portID) :: u64))"

definition lines_ok :: "('l \<Rightarrow> bool) \<Rightarrow> 'l option list option option \<Rightarrow> bool" where
  "lines_ok ok f \<longleftrightarrow> (\<forall>ls l. f = Some (Some ls) \<longrightarrow> Some l \<in> set ls \<longrightarrow> ok l)"

definition files_ok :: "'d config_files \<Rightarrow> bool" where
  "files_ok fs \<longleftrightarrow> lines_ok (\<lambda>(a, tacID, b, t). address_ok a \<and> unat tacID < 4) (tdc_file fs) \<and>
     lines_ok (\<lambda>(a, tacID, q). address_ok a \<and> unat tacID < 4) (qdc_file fs) \<and>
     lines_ok (\<lambda>(a, tacID, v). address_ok a \<and> unat tacID < 4) (energy_file fs) \<and>
     lines_ok (\<lambda>(a, l). address_ok a) (channel_file fs) \<and>
     lines_ok (\<lambda>(p, sl, ch, cn, t0). unat (offset_gid (p, sl, ch, cn)) div 4096 < PATH_MAX) (offset_file fs)"

text \<open>A step that keeps the tables in shape on lines that are in range.\<close>

definition runs_on :: "('l \<Rightarrow> bool) \<Rightarrow> ('l \<Rightarrow> 'd SystemConfig \<Rightarrow> 'd SystemConfig run) \<Rightarrow> bool" where
  "runs_on ok step \<longleftrightarrow> (\<forall>l c. ok l \<longrightarrow> channels_ok c \<longrightarrow> (\<exists>c'. step l c = Return c' \<and> channels_ok c'))"

lemma load_lines_runs:
  "runs_on ok step \<Longrightarrow> (\<forall>l. Some l \<in> set ls \<longrightarrow> ok l) \<Longrightarrow> channels_ok c \<Longrightarrow> \<exists>c'. load_lines step ls c = Return c' \<and> channels_ok c'"
proof (induction step ls c rule: load_lines.induct)
  case (3 step l ls c)
  then obtain c1 where c1: "step l c = Return c1" "channels_ok c1" unfolding runs_on_def by (meson list.set_intros(1))
  have "\<exists>c'. load_lines step ls c1 = Return c' \<and> channels_ok c'"
    using 3(1) [of c1] 3(2,3) c1(2) by simp
  then show ?case using c1(1) by simp
qed auto

text \<open>A result that is an error or a configuration in shape.\<close>

definition good_result :: "'d SystemConfig loaded \<Rightarrow> bool" where
  "good_result m \<longleftrightarrow> (\<exists>r. m = Return r \<and> (\<forall>c. r = Inr c \<longrightarrow> channels_ok c))"

lemma good_Return [simp]: "good_result (Return (Inl e))" "good_result (Return (Inr c)) = channels_ok c"
  by (simp_all add: good_result_def)

lemma good_bind: "good_result m \<Longrightarrow> (\<And>c. channels_ok c \<Longrightarrow> good_result (f c)) \<Longrightarrow> good_result (bind_loaded m f)"
  unfolding good_result_def bind_loaded_def by (auto split: sum.split)

lemma good_load:
  assumes "runs_on ok step" and "lines_ok ok (Some f)" and "channels_ok c"
  shows "good_result (load_file step f c)"
proof (cases f)
  case (Some ls)
  then obtain c' where "load_lines step ls c = Return c'" "channels_ok c'"
    using load_lines_runs [OF assms(1) _ assms(3), of ls] assms(2) by (auto simp: lines_ok_def)
  with Some show ?thesis by (simp add: load_file_def)
qed (simp add: load_file_def)

lemma lines_run:
  "runs_on (\<lambda>(a, tacID, b, t). address_ok a \<and> unat tacID < 4) (tdc_line zero)"
  "runs_on (\<lambda>(a, tacID, q). address_ok a \<and> unat tacID < 4) (qdc_line zero)"
  "runs_on (\<lambda>(a, tacID, v). address_ok a \<and> unat tacID < 4) (energy_line zero)"
  "runs_on (\<lambda>(a, l). address_ok a) (channel_line zero)"
  "runs_on (\<lambda>(p, sl, ch, cn, t0). unat (offset_gid (p, sl, ch, cn)) div 4096 < PATH_MAX) (time_offset_line zero)"
  unfolding runs_on_def tdc_line_def qdc_line_def energy_line_def channel_line_def time_offset_line_def Let_def
  by (auto simp: address_ok_def offset_gid_def set_entry_ok channel_ok_def intro!: update_channel_runs)

lemma channels_flags [simp]:
  "channels_ok (c\<lparr>hasTDCCalibration := b\<rparr>) = channels_ok c" "channels_ok (c\<lparr>hasQDCCalibration := b\<rparr>) = channels_ok c"
  "channels_ok (c\<lparr>hasEnergyCalibration := b\<rparr>) = channels_ok c" "channels_ok (c\<lparr>hasTimeOffsetCalibration := b\<rparr>) = channels_ok c"
  "channels_ok (c\<lparr>hasXYZ := b\<rparr>) = channels_ok c" "channels_ok (c\<lparr>coincidenceTriggerMap := m, multihitTriggerMap := m'\<rparr>) = channels_ok c"
  by (simp_all add: channels_ok_def)

lemma trigger_lines_channels: "channels_ok c \<Longrightarrow> good_result (Return (trigger_lines n ls c))"
  by (induction n ls c rule: trigger_lines.induct) (simp_all add: Let_def)

lemma parts_good:
  assumes "files_ok fs" and "channels_ok c"
  shows "good_result (load_tdc_part zero m fs c)" and "good_result (load_qdc_part zero m fs c)"
    and "good_result (load_map_part zero m fs c)" and "good_result (load_offset_part zero m fs c)"
proof -
  note ok = assms(1) [unfolded files_ok_def]
  show "good_result (load_tdc_part zero m fs c)"
    using ok assms(2) by (auto simp: load_tdc_part_def Let_def split: option.split intro!: good_bind good_load [OF lines_run(1)])
  show "good_result (load_qdc_part zero m fs c)"
    using ok assms(2) by (auto simp: load_qdc_part_def Let_def split: option.split
        intro!: good_bind good_load [OF lines_run(2)] good_load [OF lines_run(3)])
  show "good_result (load_map_part zero m fs c)"
    using ok assms(2) by (auto simp: load_map_part_def Let_def split: option.split
        intro!: good_bind good_load [OF lines_run(4)] trigger_lines_channels)
  show "good_result (load_offset_part zero m fs c)"
    using ok assms(2) by (auto simp: load_offset_part_def Let_def split: option.split intro!: good_bind good_load [OF lines_run(5)])
qed

lemma fromFile_good: "files_ok fs \<Longrightarrow> good_result (fromFile zero old m fs)"
  unfolding fromFile_def by (intro good_bind parts_good) (simp_all add: channels_ok_def config_new_def)


section \<open>Addresses\<close>

lemma bit_small: "unat (w :: 'a::len word) < 2 ^ k \<Longrightarrow> bit w n \<Longrightarrow> n < k"
proof (rule ccontr)
  assume w: "unat w < 2 ^ k" "bit w n" "\<not> n < k"
  then have "take_bit k w = w" by (simp add: word_unat_eq_iff unsigned_take_bit_eq take_bit_nat_eq_self)
  with w(2,3) show False by (metis bit_take_bit_iff)
qed

text \<open>
  The number of a channel holds its address: the four fields of \<open>MAKE_GID\<close> come back out of it as
  long as they are in range (64 channels, 64 chips, 32 slaves), so no two channels share a number.
\<close>

theorem channel_address_fields:
  assumes "unat portID < 2 ^ 15" and "unat slaveID < 2 ^ 5" and "unat chipID < 2 ^ 6" and "unat channelID < 2 ^ 6"
  defines "g \<equiv> MAKE_GID portID slaveID chipID channelID"
  shows "take_bit 6 g = channelID \<and> take_bit 6 (drop_bit 6 g) = chipID \<and> take_bit 5 (drop_bit 12 g) = slaveID \<and>
    drop_bit 17 g = portID"
proof -
  note small = bit_small [OF assms(1)] bit_small [OF assms(2)] bit_small [OF assms(3)] bit_small [OF assms(4)]
  have bits: "bit g n \<longleftrightarrow> n < 32 \<and> (bit channelID n \<or> 6 \<le> n \<and> bit chipID (n - 6) \<or> 12 \<le> n \<and> bit slaveID (n - 12) \<or>
      17 \<le> n \<and> bit portID (n - 17))" for n
    unfolding g_def MAKE_GID_def by (auto simp: bit_simps)
  show ?thesis
  proof (intro conjI)
    show "take_bit 6 g = channelID"
      by (rule bit_word_eqI) (auto simp: bit_take_bit_iff bits dest: small)
    show "take_bit 6 (drop_bit 6 g) = chipID"
      by (rule bit_word_eqI) (auto simp: bit_take_bit_iff bit_drop_bit_eq bits dest: small)
    show "take_bit 5 (drop_bit 12 g) = slaveID"
      by (rule bit_word_eqI) (auto simp: bit_take_bit_iff bit_drop_bit_eq bits dest: small)
    show "drop_bit 17 g = portID"
      by (rule bit_word_eqI) (auto simp: bit_drop_bit_eq bits dest: small)
  qed
qed

theorem channel_address_fields_witness:
  "take_bit 6 (MAKE_GID 3 1 63 5) = 5 \<and> drop_bit 17 (MAKE_GID 3 1 63 5) = 3"
  using channel_address_fields [of 3 1 63 5] by simp

section \<open>A configuration\<close>

definition sample_tac :: "int TacConfig" where
  "sample_tac = \<lparr>tac_t0 = 1, tac_a0 = 2, tac_a1 = 3, tac_a2 = 4\<rparr>"

definition sample_files :: "int config_files" where
  "sample_files = \<lparr>tdc_file = Some (Some [None, Some ((0, 0, 1, 5), 2, CHR ''T'', sample_tac)]), qdc_file = None, energy_file = None,
     channel_file = Some (Some [Some ((0, 0, 1, 5), 7, 1, 1, 10, 20, 30)]),
     trigger_file = Some (Some [EmptyLine, TriggerLine 7 8 (CHR ''c'')]), offset_file = None\<rparr>"

lemma sample_gid: "MAKE_GID 0 0 1 5 = 69"
  by (simp add: MAKE_GID_def)

lemma sample_load: "\<exists>c. fromFile 0 (False, False) 0x12 sample_files = Return (Inr c)"
proof -
  have "toupper (CHR ''c'') = CHR ''C''" by code_simp
  moreover have "(\<forall>c. ((0x12 :: u64) AND 0x20 = 0)) \<and> (0x12 :: u64) AND 0x4 = 0 \<and> (0x12 :: u64) AND 0x2 \<noteq> 0 \<and> (0x12 :: u64) AND 0x10 \<noteq> 0"
    by simp
  ultimately show ?thesis
    by (simp add: fromFile_def load_tdc_part_def load_qdc_part_def load_map_part_def load_offset_part_def LOAD_TDC_CALIBRATION_def
        LOAD_QDC_CALIBRATION_def LOAD_MAPPING_def LOAD_TIMEALIGN_CALIBRATION_def sample_files_def load_file_def bind_loaded_def
        tdc_line_def channel_line_def sample_gid update_channel_def touchChannelConfig_def PATH_MAX_def config_new_def
        set_entry_def nullChannelConfig_def MAX_TRIGGER_REGIONS_def Let_def)
qed

theorem trigger_maps_exclusive_witness:
  "\<exists>c. fromFile 0 (False, False) 0x12 sample_files = Return (Inr c) \<and> isCoincidenceAllowed c 7 8 = isCoincidenceAllowed c 8 7"
proof -
  obtain c where c: "fromFile 0 (False, False) 0x12 sample_files = Return (Inr c)" using sample_load by blast
  from trigger_maps_exclusive [OF this, of 7 8] c show ?thesis by (auto simp: MAX_TRIGGER_REGIONS_def)
qed


theorem tdc_calibration_lookup_witness:
  "\<exists>c e. load_lines (tdc_line 0) [Some ((0, 0, 1, 5), 2, CHR ''T'', sample_tac)] (config_new (False, False)) = Return c \<and>
    getChannelConfig 0 c 69 = Some e \<and> tac_T e ! 2 = sample_tac \<and> tac_a1 (tac_E e ! 2) = 0"
proof -
  let ?ls = "[Some ((0, 0, 1, 5), 2, CHR ''T'', sample_tac)]"
  obtain c where c: "load_lines (tdc_line 0) ?ls (config_new (False, False)) = Return c"
    by (simp add: tdc_line_def sample_gid update_channel_def touchChannelConfig_def PATH_MAX_def config_new_def set_entry_def
        nullChannelConfig_def Let_def)
  have "getChannelConfig 0 (config_new (False, False)) 69 = Some (nullChannelConfig (0 :: int))"
    by (simp add: getChannelConfig_def PATH_MAX_def config_new_def)
  from tdc_calibration_lookup [OF c this null_ok] obtain e where e: "getChannelConfig 0 c 69 = Some e"
    "e = nullChannelConfig 0\<lparr>tac_T := map (\<lambda>k. last_tdc True 69 k ?ls (tac_T (nullChannelConfig 0) ! k)) [0..<4],
      tac_E := map (\<lambda>k. last_tdc False 69 k ?ls (tac_E (nullChannelConfig 0) ! k)) [0..<4]\<rparr>" by blast
  have "[0..<4] = [0, 1, 2, 3 :: nat]" by (simp add: upt_rec)
  then have "tac_T e ! 2 = sample_tac" "tac_a1 (tac_E e ! 2) = 0"
    unfolding e(2) by (simp_all add: sample_gid nullChannelConfig_def Let_def)
  with c e(1) show ?thesis by blast
qed

text \<open>
  Neither the TAC number of a line nor the region of a channel is checked: a TDC line with TAC 4
  writes behind its table, and a region of 4096 makes the test for coincidences read behind the map.
\<close>

theorem configuration_unchecked:
  "tdc_line 0 ((0, 0, 1, 5), 4, CHR ''T'', sample_tac) (config_new (False, False)) = Fault \<and>
    channel_line 0 ((0, 0, 1, 5), 4096, 1, 1, 10, 20, 30) (config_new (False, False)) \<noteq> (Fault :: int SystemConfig run) \<and>
    isCoincidenceAllowed (config_new (False, False) :: int SystemConfig) 4096 0 = None"
  by (simp add: tdc_line_def channel_line_def sample_gid update_channel_def touchChannelConfig_def PATH_MAX_def config_new_def
      set_entry_def nullChannelConfig_def isCoincidenceAllowed_def region_pair_def MAX_TRIGGER_REGIONS_def Let_def)

end
