(* ===== verification/Grouping.thy ===== *)
theory Grouping
  imports EventBuffer Arithmetic SystemConfig "HOL-Library.Multiset"
begin

text \<open>
  From hits to photons (\<^verbatim>\<open>external/base/src/SimpleGrouper.cpp\<close>) and from photons to coincidences
  (\<^verbatim>\<open>external/base/src/CoincidenceGrouper.cpp\<close>). Pointers to the events of a buffer are their
  indices. The counters are those of one call; \<open>atomicAdd\<close> adds them to the totals.
\<close>

section \<open>Data\<close>

record 'd Hit =
  hit_valid :: bool
  hit_raw :: nat
  hit_time :: 'd
  hit_timeEnd :: 'd
  hit_energy :: 'd
  hit_region :: int
  hit_xi :: int
  hit_yi :: int
  hit_x :: 'd
  hit_y :: 'd
  hit_z :: 'd

record 'd GammaPhoton =
  photon_valid :: bool
  photon_time :: 'd
  photon_energy :: 'd
  photon_region :: int
  photon_x :: 'd
  photon_y :: 'd
  photon_z :: 'd
  photon_hits :: "nat list"

definition maxHits_of_photon :: nat where "maxHits_of_photon = 256"
definition MAX_UNORDER :: int where "MAX_UNORDER = 20"

record 'd sw_trigger =
  group_max_hits :: int
  group_min_hits :: int
  group_min_energy :: 'd
  group_max_energy :: 'd
  group_max_distance :: 'd
  group_time_window :: 'd
  coincidence_time_window :: 'd

text \<open>The addition to a total; \<open>atomicIncrement\<close> adds one.\<close>

definition atomicAdd :: "u64 \<Rightarrow> u64 \<Rightarrow> u64" where
  "atomicAdd val increment = val + increment"

section \<open>Sorting by energy\<close>

text \<open>One turn of the loop, and whether it left everything in place.\<close>

fun bubble_pass :: "('a \<Rightarrow> 'a \<Rightarrow> bool) \<Rightarrow> 'a list \<Rightarrow> bool \<times> 'a list" where
  "bubble_pass lt (a # b # xs) =
     (if lt a b then (False, b # snd (bubble_pass lt (a # xs)))
      else let r = bubble_pass lt (b # xs) in (fst r, a # snd r))"
| "bubble_pass lt xs = (True, xs)"

fun bubble_sort :: "nat \<Rightarrow> ('a \<Rightarrow> 'a \<Rightarrow> bool) \<Rightarrow> 'a list \<Rightarrow> 'a list run" where
  "bubble_sort 0 lt xs = OutOfFuel"
| "bubble_sort (Suc fuel) lt xs = (let r = bubble_pass lt xs in if fst r then Return (snd r) else bubble_sort fuel lt (snd r))"

section \<open>Collecting the hits of a photon\<close>

text \<open>The tests on a second hit: too late to go on, and belonging to the photon.\<close>

definition too_late :: "'d arith \<Rightarrow> 'd \<Rightarrow> 'd Hit \<Rightarrow> 'd Hit \<Rightarrow> bool" where
  "too_late A timeWindow1 hit hit2 =
     less_than A (dadd A timeWindow1 (lit A MAX_UNORDER)) (dsub A (hit_time hit2) (hit_time hit))"

definition is_near :: "'d arith \<Rightarrow> 'd \<Rightarrow> 'd \<Rightarrow> 'd Hit \<Rightarrow> 'd Hit \<Rightarrow> bool" where
  "is_near A timeWindow1 radius2 hit hit2 =
     (let u = fsub A (hit_x hit) (hit_x hit2); v = fsub A (hit_y hit) (hit_y hit2); w = fsub A (hit_z hit) (hit_z hit2);
          d2 = fadd A (fadd A (fmul A u u) (fmul A v v)) (fmul A w w)
      in \<not> less_than A timeWindow1 (dabs A (dsub A (hit_time hit) (hit_time hit2))) \<and> \<not> less_than A radius2 d2)"

record collected =
  taken :: "bool list"
  group_hits :: "nat list"
  nHits :: nat

fun collect ::
  "'d arith \<Rightarrow> 'd SystemConfig \<Rightarrow> 'd \<Rightarrow> 'd \<Rightarrow> nat \<Rightarrow> 'd Hit list \<Rightarrow> 'd Hit \<Rightarrow> nat list \<Rightarrow> collected \<Rightarrow> collected run" where
  "collect A c timeWindow1 radius2 maxHits hs hit [] s = Return s"
| "collect A c timeWindow1 radius2 maxHits hs hit (j # js) s =
     (let hit2 = hs ! j; go_on = collect A c timeWindow1 radius2 maxHits hs hit js in
      if \<not> hit_valid hit2 then go_on s
      else if taken s ! j then go_on s
      else if too_late A timeWindow1 hit hit2 then Return s
      else case isMultiHitAllowed c (hit_region hit2) (hit_region hit) of
        None \<Rightarrow> Fault
      | Some allowed \<Rightarrow>
          if \<not> allowed \<or> \<not> is_near A timeWindow1 radius2 hit hit2 then go_on s
          else go_on (s\<lparr>taken := (taken s)[j := True],
            group_hits := (if nHits s \<ge> maxHits then group_hits s else group_hits s @ [j]), nHits := nHits s + 1\<rparr>))"

section \<open>Photons\<close>

record counters =
  lHitsReceived :: nat
  lHitsReceivedValid :: nat
  lPhotonsFound :: nat
  lPhotonsHits :: "nat list"
  lPhotonsHitsOverflow :: nat
  lPhotonsHitsUnderflow :: nat
  lPhotonsLowEnergy :: nat
  lPhotonsHighEnergy :: nat
  lPhotonsPassed :: nat

definition assemble :: "'d Hit list \<Rightarrow> nat list \<Rightarrow> 'd GammaPhoton option" where
  "assemble hs is =
     (if length is > maxHits_of_photon then None
      else let h = hs ! hd is in
        Some \<lparr>photon_valid = True, photon_time = hit_time h, photon_energy = hit_energy h, photon_region = hit_region h,
          photon_x = hit_x h, photon_y = hit_y h, photon_z = hit_z h, photon_hits = is\<rparr>)"

definition event_flags :: "'d arith \<Rightarrow> 'd sw_trigger \<Rightarrow> nat \<Rightarrow> 'd GammaPhoton \<Rightarrow> u8" where
  "event_flags A sw n p =
     (if int n > group_max_hits sw then 0x1 else if int n < group_min_hits sw then 0x8 else 0) OR
     (if less_than A (photon_energy p) (group_min_energy sw) then 0x2 else 0) OR
     (if less_than A (group_max_energy sw) (photon_energy p) then 0x4 else 0)"

definition count_photon :: "u8 \<Rightarrow> nat \<Rightarrow> counters \<Rightarrow> counters" where
  "count_photon eventFlags n c =
     c\<lparr>lPhotonsFound := lPhotonsFound c + 1,
       lPhotonsHits := (if eventFlags AND 0x1 = 0 then (lPhotonsHits c)[n - 1 := lPhotonsHits c ! (n - 1) + 1] else lPhotonsHits c),
       lPhotonsHitsOverflow := lPhotonsHitsOverflow c + (if eventFlags AND 0x1 = 0 then 0 else 1),
       lPhotonsHitsUnderflow := lPhotonsHitsUnderflow c + (if eventFlags AND 0x8 \<noteq> 0 then 1 else 0),
       lPhotonsLowEnergy := lPhotonsLowEnergy c + (if eventFlags AND 0x2 \<noteq> 0 then 1 else 0),
       lPhotonsHighEnergy := lPhotonsHighEnergy c + (if eventFlags AND 0x4 \<noteq> 0 then 1 else 0),
       lPhotonsPassed := lPhotonsPassed c + (if eventFlags = 0 then 1 else 0)\<rparr>"

record 'd grouping =
  g_taken :: "bool list"
  g_out :: "'d GammaPhoton ebuffer"
  g_counters :: counters

definition group_hit ::
  "'d arith \<Rightarrow> 'd SystemConfig \<Rightarrow> 'd sw_trigger \<Rightarrow> nat \<Rightarrow> 'd Hit list \<Rightarrow> nat \<Rightarrow> 'd grouping \<Rightarrow> 'd grouping run" where
  "group_hit A c sw fuel hs i s =
     (let hit = hs ! i; maxHits = nat (group_max_hits sw);
          c1 = (g_counters s)\<lparr>lHitsReceived := lHitsReceived (g_counters s) + 1\<rparr>;
          c2 = c1\<lparr>lHitsReceivedValid := lHitsReceivedValid c1 + 1\<rparr>
      in if \<not> hit_valid hit then Return (s\<lparr>g_counters := c1\<rparr>)
         else if g_taken s ! i then Return (s\<lparr>g_counters := c2\<rparr>)
         else
           bind_run (collect A c (group_time_window sw) (fmul A (group_max_distance sw) (group_max_distance sw)) maxHits hs hit
             [i + 1..<length hs] \<lparr>taken = (g_taken s)[i := True], group_hits = [i], nHits = 1\<rparr>) (\<lambda>g.
           bind_run (bubble_sort fuel (\<lambda>a b. less_than A (hit_energy (hs ! a)) (hit_energy (hs ! b))) (group_hits g)) (\<lambda>sorted.
             case assemble hs sorted of
               None \<Rightarrow> Fault
             | Some p \<Rightarrow>
                 let eventFlags = event_flags A sw (nHits g) p in
                 Return \<lparr>g_taken = taken g,
                   g_out = (if eventFlags = 0 then buffer_push p (g_out s) else g_out s),
                   g_counters = count_photon eventFlags (length sorted) c2\<rparr>)))"

fun group_loop ::
  "'d arith \<Rightarrow> 'd SystemConfig \<Rightarrow> 'd sw_trigger \<Rightarrow> nat \<Rightarrow> 'd Hit list \<Rightarrow> nat list \<Rightarrow> 'd grouping \<Rightarrow> 'd grouping run" where
  "group_loop A c sw fuel hs [] s = Return s"
| "group_loop A c sw fuel hs (i # is) s = bind_run (group_hit A c sw fuel hs i s) (group_loop A c sw fuel hs is)"

text \<open>The arrays on the stack have the configured number of entries, which must be positive.\<close>

definition group_start :: "'d sw_trigger \<Rightarrow> 'd Hit ebuffer \<Rightarrow> 'd grouping" where
  "group_start sw inBuffer =
     \<lparr>g_taken = replicate (length (used_events inBuffer)) False,
       g_out = buffer_child (length (used_events inBuffer)) inBuffer 0,
       g_counters = \<lparr>lHitsReceived = 0, lHitsReceivedValid = 0, lPhotonsFound = 0,
         lPhotonsHits = replicate (nat (group_max_hits sw)) 0, lPhotonsHitsOverflow = 0, lPhotonsHitsUnderflow = 0,
         lPhotonsLowEnergy = 0, lPhotonsHighEnergy = 0, lPhotonsPassed = 0\<rparr>\<rparr>"

definition group_events ::
  "'d arith \<Rightarrow> 'd SystemConfig \<Rightarrow> 'd sw_trigger \<Rightarrow> nat \<Rightarrow> 'd Hit ebuffer \<Rightarrow> 'd grouping run" where
  "group_events A c sw fuel inBuffer =
     (if group_max_hits sw < 1 then Fault
      else group_loop A c sw fuel (used_events inBuffer) [0..<length (used_events inBuffer)] (group_start sw inBuffer))"

section \<open>Coincidences\<close>

text \<open>The time of a coincidence is not set.\<close>

record Coincidence =
  c_valid :: bool
  c_photons :: "nat \<times> nat"

fun coincidences ::
  "'d arith \<Rightarrow> 'd SystemConfig \<Rightarrow> 'd \<Rightarrow> 'd GammaPhoton list \<Rightarrow> nat \<Rightarrow> nat list \<Rightarrow> Coincidence ebuffer \<times> nat \<Rightarrow> (Coincidence ebuffer \<times> nat) run" where
  "coincidences A c cWindow ps i [] s = Return s"
| "coincidences A c cWindow ps i (j # js) (out, lPrompts) =
     (let photon1 = ps ! i; photon2 = ps ! j; go_on = coincidences A c cWindow ps i js in
      if less_than A (dadd A cWindow (lit A MAX_UNORDER)) (dsub A (photon_time photon2) (photon_time photon1)) then Return (out, lPrompts)
      else case isCoincidenceAllowed c (photon_region photon1) (photon_region photon2) of
        None \<Rightarrow> Fault
      | Some allowed \<Rightarrow>
          if \<not> allowed then go_on (out, lPrompts)
          else if less_or_equal A (dabs A (dsub A (photon_time photon1) (photon_time photon2))) cWindow then
            let first1 = photon_region photon1 > photon_region photon2 in
            go_on (buffer_push \<lparr>c_valid = True, c_photons = (if first1 then (i, j) else (j, i))\<rparr> out, lPrompts + 1)
          else go_on (out, lPrompts))"

fun coincidence_loop ::
  "'d arith \<Rightarrow> 'd SystemConfig \<Rightarrow> 'd \<Rightarrow> 'd GammaPhoton list \<Rightarrow> nat list \<Rightarrow> Coincidence ebuffer \<times> nat \<Rightarrow> (Coincidence ebuffer \<times> nat) run" where
  "coincidence_loop A c cWindow ps [] s = Return s"
| "coincidence_loop A c cWindow ps (i # is) s =
     bind_run (coincidences A c cWindow ps i [i + 1..<length ps] s) (coincidence_loop A c cWindow ps is)"

definition find_coincidences ::
  "'d arith \<Rightarrow> 'd SystemConfig \<Rightarrow> 'd sw_trigger \<Rightarrow> 'd GammaPhoton ebuffer \<Rightarrow> (Coincidence ebuffer \<times> nat) run" where
  "find_coincidences A c sw inBuffer =
     (let ps = used_events inBuffer in
      coincidence_loop A c (coincidence_time_window sw) ps [0..<length ps] (buffer_child (length ps) inBuffer 0, 0))"

section \<open>The sort ends\<close>

fun inversions :: "('a \<Rightarrow> 'a \<Rightarrow> bool) \<Rightarrow> 'a list \<Rightarrow> nat" where
  "inversions lt [] = 0"
| "inversions lt (x # xs) = length (filter (lt x) xs) + inversions lt xs"

lemma inversions_bound: "inversions lt xs \<le> length xs * length xs"
proof (induction xs)
  case (Cons x xs)
  then show ?case using length_filter_le [of "lt x" xs] by (simp del: length_filter_le)
qed simp

lemma filter_length_mset: "mset xs = mset ys \<Longrightarrow> length (filter P xs) = length (filter P ys)"
  by (metis mset_filter size_mset)

lemma bubble_pass_mset: "mset (snd (bubble_pass lt xs)) = mset xs"
  by (induction lt xs rule: bubble_pass.induct) (simp_all add: Let_def)

lemma bubble_pass_inversions:
  "(\<And>x y. lt x y \<Longrightarrow> \<not> lt y x) \<Longrightarrow> inversions lt (snd (bubble_pass lt xs)) + (if fst (bubble_pass lt xs) then 0 else 1) \<le> inversions lt xs"
proof (induction lt xs rule: bubble_pass.induct)
  case (1 lt a b xs)
  show ?case
  proof (cases "lt a b")
    case True
    then have "length (filter (lt b) (snd (bubble_pass lt (a # xs)))) = length (filter (lt b) xs)"
      using filter_length_mset [OF bubble_pass_mset, of "lt b" lt "a # xs"] 1(3) by simp
    then show ?thesis using True 1(1) [OF True 1(3)] by simp
  next
    case False
    have "length (filter (lt a) (snd (bubble_pass lt (b # xs)))) = length (filter (lt a) (b # xs))"
      by (rule filter_length_mset [OF bubble_pass_mset])
    then show ?thesis using False 1(2) [OF False 1(3)] by (simp add: Let_def)
  qed
qed simp_all

lemma bubble_pass_done: "fst (bubble_pass lt xs) \<Longrightarrow> snd (bubble_pass lt xs) = xs \<and> successively (\<lambda>a b. \<not> lt a b) xs"
  by (induction lt xs rule: bubble_pass.induct) (auto simp: Let_def split: if_splits)

lemma bubble_sort_spec:
  "(\<And>x y. lt x y \<Longrightarrow> \<not> lt y x) \<Longrightarrow> inversions lt xs < fuel \<Longrightarrow>
    \<exists>ys. bubble_sort fuel lt xs = Return ys \<and> mset ys = mset xs \<and> successively (\<lambda>a b. \<not> lt a b) ys"
proof (induction fuel arbitrary: xs)
  case (Suc fuel)
  show ?case
  proof (cases "fst (bubble_pass lt xs)")
    case True
    then show ?thesis using bubble_pass_done [OF True] by (simp add: Let_def)
  next
    case False
    have "inversions lt (snd (bubble_pass lt xs)) < fuel"
      using bubble_pass_inversions [of lt xs] Suc.prems False by simp
    from Suc.IH [OF Suc.prems(1) this] False show ?thesis by (simp add: Let_def bubble_pass_mset)
  qed
qed simp

lemma bubble_sort_result:
  "bubble_sort fuel lt xs = Return ys \<Longrightarrow> mset ys = mset xs \<and> successively (\<lambda>a b. \<not> lt a b) ys"
proof (induction fuel arbitrary: xs)
  case (Suc fuel)
  then show ?case
    using bubble_pass_done [of lt xs] bubble_pass_mset [of lt xs] by (auto simp: Let_def split: if_splits)
qed simp

text \<open>
  The bubble sort of a photon's hits ends, whatever the energies, not-a-numbers included, as long
  as no two energies are each less than the other: within one turn more than the square of the
  number of hits. It keeps the hits, and no hit has less energy than the one behind it.
\<close>

theorem bubble_sort_ends:
  assumes "\<And>x y. lt x y \<Longrightarrow> \<not> lt y x" and "length xs * length xs < fuel"
  shows "\<exists>ys. bubble_sort fuel lt xs = Return ys \<and> mset ys = mset xs \<and> successively (\<lambda>a b. \<not> lt a b) ys"
  using bubble_sort_spec [of lt xs fuel] assms inversions_bound [of lt xs] by simp

theorem bubble_sort_ends_witness:
  "\<exists>ys. bubble_sort 10 (<) [3, 7, 5 :: nat] = Return ys \<and> mset ys = mset [3, 7, 5] \<and> successively (\<lambda>a b. \<not> a < b) ys"
  by (rule bubble_sort_ends) simp_all

section \<open>What is collected\<close>

text \<open>The hits taken for a photon and its hits, after some of the candidates.\<close>

definition joins :: "'d arith \<Rightarrow> 'd SystemConfig \<Rightarrow> 'd \<Rightarrow> 'd \<Rightarrow> 'd Hit \<Rightarrow> 'd Hit \<Rightarrow> bool" where
  "joins A c w r hit hit2 \<longleftrightarrow> hit_valid hit2 \<and> isMultiHitAllowed c (hit_region hit2) (hit_region hit) = Some True \<and> is_near A w r hit hit2"

lemma collect_cases:
  assumes "collect A c w r m hs hit (j # js) s = Return s'"
  shows "collect A c w r m hs hit js s = Return s' \<or> s' = s \<or>
    \<not> taken s ! j \<and> joins A c w r hit (hs ! j) \<and>
      collect A c w r m hs hit js (s\<lparr>taken := (taken s)[j := True],
        group_hits := (if nHits s \<ge> m then group_hits s else group_hits s @ [j]), nHits := nHits s + 1\<rparr>) = Return s'"
proof (cases "hit_valid (hs ! j) \<and> \<not> taken s ! j")
  case True
  show ?thesis
  proof (cases "too_late A w hit (hs ! j)")
    case False
    obtain b where b: "isMultiHitAllowed c (hit_region (hs ! j)) (hit_region hit) = Some b"
      using assms True False by (cases "isMultiHitAllowed c (hit_region (hs ! j)) (hit_region hit)") simp_all
    show ?thesis
      by (cases "b \<and> is_near A w r hit (hs ! j)") (use assms True False b in \<open>auto simp: joins_def\<close>)
  qed (use assms True in simp)
next
  case False
  then have "collect A c w r m hs hit js s = Return s'" using assms by (cases "hit_valid (hs ! j)") simp_all
  then show ?thesis ..
qed

lemma collect_spec:
  "collect A c w r m hs hit js s = Return s' \<Longrightarrow> distinct js \<Longrightarrow> \<forall>j \<in> set js. j < length (taken s) \<Longrightarrow>
    \<exists>new. set new \<subseteq> set js \<and> distinct new \<and> (\<forall>j \<in> set new. \<not> taken s ! j \<and> joins A c w r hit (hs ! j)) \<and>
      length (taken s') = length (taken s) \<and> (\<forall>j < length (taken s). taken s' ! j \<longleftrightarrow> taken s ! j \<or> j \<in> set new) \<and>
      nHits s' = nHits s + length new \<and> group_hits s' = group_hits s @ take (m - nHits s) new"
proof (induction js arbitrary: s)
  case Nil
  then show ?case by (intro exI [of _ "[]"]) simp
next
  case (Cons j js)
  let ?hit2 = "hs ! j"
  have skip: ?case if run: "collect A c w r m hs hit js s = Return s'"
  proof -
    obtain new where "set new \<subseteq> set js" "distinct new" "\<forall>j \<in> set new. \<not> taken s ! j \<and> joins A c w r hit (hs ! j)"
      "length (taken s') = length (taken s)" "\<forall>j < length (taken s). taken s' ! j \<longleftrightarrow> taken s ! j \<or> j \<in> set new"
      "nHits s' = nHits s + length new" "group_hits s' = group_hits s @ take (m - nHits s) new"
      using Cons.IH [OF run] Cons.prems(2,3) by auto
    then show ?thesis by (intro exI [of _ new]) auto
  qed
  consider (go_on) "collect A c w r m hs hit js s = Return s'" | (stop) "s' = s"
    | (take) "\<not> taken s ! j" "joins A c w r hit ?hit2"
      "collect A c w r m hs hit js (s\<lparr>taken := (taken s)[j := True],
         group_hits := (if nHits s \<ge> m then group_hits s else group_hits s @ [j]), nHits := nHits s + 1\<rparr>) = Return s'"
    using collect_cases [OF Cons.prems(1)] by blast
  then show ?case
  proof cases
    case go_on
    then show ?thesis by (rule skip)
  next
    case stop
    then show ?thesis by (intro exI [of _ "[]"]) simp
  next
    case take
    let ?s = "s\<lparr>taken := (taken s)[j := True], group_hits := (if nHits s \<ge> m then group_hits s else group_hits s @ [j]),
      nHits := nHits s + 1\<rparr>"
    obtain new where new: "set new \<subseteq> set js" "distinct new" "\<forall>k \<in> set new. \<not> taken ?s ! k \<and> joins A c w r hit (hs ! k)"
      "length (taken s') = length (taken ?s)" "\<forall>k < length (taken ?s). taken s' ! k \<longleftrightarrow> taken ?s ! k \<or> k \<in> set new"
      "nHits s' = nHits ?s + length new" "group_hits s' = group_hits ?s @ List.take (m - nHits ?s) new"
      using Cons.IH [OF take(3)] Cons.prems(2,3) by auto
    have j: "j < length (taken s)" "j \<notin> set new" using Cons.prems(2,3) new(1) by auto
    have "\<forall>k \<in> set (j # new). \<not> taken s ! k \<and> joins A c w r hit (hs ! k)"
      using new(3) take(1,2) j by (auto simp: nth_list_update split: if_splits)
    moreover have "\<forall>k < length (taken s). taken s' ! k \<longleftrightarrow> taken s ! k \<or> k \<in> set (j # new)"
      using new(5) j by (auto simp: nth_list_update)
    moreover have "group_hits s' = group_hits s @ List.take (m - nHits s) (j # new)"
      using new(7) by (cases "nHits s \<ge> m") (simp_all add: take_Cons' Suc_diff_Suc)
    ultimately show ?thesis
      using new(1,2,4,6) j(2) by (intro exI [of _ "j # new"]) auto
  qed
qed

section \<open>Photons are groups\<close>

definition radius2 :: "'d arith \<Rightarrow> 'd sw_trigger \<Rightarrow> 'd" where
  "radius2 A sw = fmul A (group_max_distance sw) (group_max_distance sw)"

definition photon_ok :: "'d arith \<Rightarrow> 'd SystemConfig \<Rightarrow> 'd sw_trigger \<Rightarrow> 'd Hit list \<Rightarrow> 'd GammaPhoton \<Rightarrow> bool" where
  "photon_ok A c sw hs p \<longleftrightarrow> photon_valid p \<and> photon_hits p \<noteq> [] \<and>
     group_min_hits sw \<le> int (length (photon_hits p)) \<and> int (length (photon_hits p)) \<le> group_max_hits sw \<and>
     (\<forall>h \<in> set (photon_hits p). h < length hs \<and> hit_valid (hs ! h)) \<and>
     (\<exists>seed \<in> set (photon_hits p). \<forall>h \<in> set (photon_hits p).
        h = seed \<or> joins A c (group_time_window sw) (radius2 A sw) (hs ! seed) (hs ! h)) \<and>
     photon_energy p = hit_energy (hs ! hd (photon_hits p)) \<and>
     successively (\<lambda>a b. \<not> less_than A (hit_energy (hs ! a)) (hit_energy (hs ! b))) (photon_hits p) \<and>
     \<not> less_than A (photon_energy p) (group_min_energy sw) \<and> \<not> less_than A (group_max_energy sw) (photon_energy p)"

definition used_hits :: "'d grouping \<Rightarrow> nat list" where
  "used_hits s = concat (map photon_hits (used_events (g_out s)))"

definition group_inv :: "'d arith \<Rightarrow> 'd SystemConfig \<Rightarrow> 'd sw_trigger \<Rightarrow> 'd Hit list \<Rightarrow> 'd grouping \<Rightarrow> bool" where
  "group_inv A c sw hs s \<longleftrightarrow> length (g_taken s) = length hs \<and> distinct (used_hits s) \<and>
     (\<forall>h \<in> set (used_hits s). g_taken s ! h) \<and> (\<forall>p \<in> set (used_events (g_out s)). photon_ok A c sw hs p) \<and>
     buffer_ok (g_out s) \<and> length (lPhotonsHits (g_counters s)) = nat (group_max_hits sw) \<and>
     lPhotonsPassed (g_counters s) = length (used_events (g_out s))"

lemma flags_zero:
  assumes "event_flags A sw n p = 0"
  shows "int n \<le> group_max_hits sw" and "group_min_hits sw \<le> int n"
    and "\<not> less_than A (photon_energy p) (group_min_energy sw)" and "\<not> less_than A (group_max_energy sw) (photon_energy p)"
proof -
  have low: "less_than A (photon_energy p) (group_min_energy sw) \<Longrightarrow> bit (event_flags A sw n p) 1"
    and high: "less_than A (group_max_energy sw) (photon_energy p) \<Longrightarrow> bit (event_flags A sw n p) 2"
    and over: "int n > group_max_hits sw \<Longrightarrow> bit (event_flags A sw n p) 0"
    and under: "\<not> int n > group_max_hits sw \<Longrightarrow> int n < group_min_hits sw \<Longrightarrow> bit (event_flags A sw n p) 3"
    by (simp_all add: event_flags_def bit_or_iff bit_numeral_rec)
  have "\<not> bit (event_flags A sw n p) k" for k using assms by simp
  then show "int n \<le> group_max_hits sw" "group_min_hits sw \<le> int n"
    "\<not> less_than A (photon_energy p) (group_min_energy sw)" "\<not> less_than A (group_max_energy sw) (photon_energy p)"
    using low high over under by (meson not_less)+
qed

text \<open>A group: what is taken for it, its hits, its number of hits.\<close>

lemma group_collected:
  assumes "collect A c (group_time_window sw) (radius2 A sw) (nat (group_max_hits sw)) hs (hs ! i) [i + 1..<length hs]
      \<lparr>taken = tk[i := True], group_hits = [i], nHits = 1\<rparr> = Return g"
    and "length tk = length hs" and "i < length hs" and "hit_valid (hs ! i)" and "\<not> tk ! i" and "1 \<le> group_max_hits sw"
  shows "length (taken g) = length hs" and "distinct (group_hits g)" and "i \<in> set (group_hits g)"
    and "\<forall>h \<in> set (group_hits g). h < length hs \<and> hit_valid (hs ! h) \<and> taken g ! h \<and> \<not> tk ! h \<and>
      (h = i \<or> joins A c (group_time_window sw) (radius2 A sw) (hs ! i) (hs ! h))"
    and "\<forall>h < length hs. tk ! h \<longrightarrow> taken g ! h" and "length (group_hits g) = min (nHits g) (nat (group_max_hits sw))"
    and "taken g ! i"
proof -
  let ?s = "\<lparr>taken = tk[i := True], group_hits = [i], nHits = 1\<rparr>" and ?m = "nat (group_max_hits sw)"
  obtain new where new: "set new \<subseteq> {i + 1..<length hs}" "distinct new"
    "\<forall>j \<in> set new. \<not> tk[i := True] ! j \<and> joins A c (group_time_window sw) (radius2 A sw) (hs ! i) (hs ! j)"
    "length (taken g) = length hs" "\<forall>j < length hs. taken g ! j \<longleftrightarrow> tk[i := True] ! j \<or> j \<in> set new"
    "nHits g = 1 + length new" "group_hits g = i # take (?m - 1) new"
    using collect_spec [OF assms(1)] assms(2) by auto
  have sub: "set (take (?m - 1) new) \<subseteq> set new" by (rule set_take_subset)
  show "length (taken g) = length hs" "i \<in> set (group_hits g)" using new(4,7) by simp_all
  show "distinct (group_hits g)" using new(1,2,7) sub by auto
  show "\<forall>h < length hs. tk ! h \<longrightarrow> taken g ! h" "taken g ! i"
    using new(5) assms(2,3) by (auto simp: nth_list_update)
  show "length (group_hits g) = min (nHits g) ?m" using new(6,7) assms(6) by (auto simp: min_def)
  show "\<forall>h \<in> set (group_hits g). h < length hs \<and> hit_valid (hs ! h) \<and> taken g ! h \<and> \<not> tk ! h \<and>
      (h = i \<or> joins A c (group_time_window sw) (radius2 A sw) (hs ! i) (hs ! h))"
  proof
    fix h assume "h \<in> set (group_hits g)"
    then consider "h = i" | "h \<in> set new" using new(7) sub by auto
    then show "h < length hs \<and> hit_valid (hs ! h) \<and> taken g ! h \<and> \<not> tk ! h \<and>
        (h = i \<or> joins A c (group_time_window sw) (radius2 A sw) (hs ! i) (hs ! h))"
    proof cases
      case 1
      then show ?thesis using assms(2-5) new(5) by simp
    next
      case 2
      then have "h \<noteq> i" "h < length hs" using new(1) by auto
      with 2 show ?thesis using new(3,5) by (auto simp: joins_def)
    qed
  qed
qed

lemma group_hit_cases:
  assumes "group_hit A c sw fuel hs i s = Return s'"
  shows "g_taken s' = g_taken s \<and> g_out s' = g_out s \<and> lPhotonsHits (g_counters s') = lPhotonsHits (g_counters s) \<and>
      lPhotonsPassed (g_counters s') = lPhotonsPassed (g_counters s) \<and> (hit_valid (hs ! i) \<longrightarrow> g_taken s ! i) \<or>
    hit_valid (hs ! i) \<and> \<not> g_taken s ! i \<and> (\<exists>g ks p. collect A c (group_time_window sw) (radius2 A sw) (nat (group_max_hits sw)) hs (hs ! i)
        [i + 1..<length hs] \<lparr>taken = (g_taken s)[i := True], group_hits = [i], nHits = 1\<rparr> = Return g \<and>
      bubble_sort fuel (\<lambda>a b. less_than A (hit_energy (hs ! a)) (hit_energy (hs ! b))) (group_hits g) = Return ks \<and>
      assemble hs ks = Some p \<and> g_taken s' = taken g \<and>
      g_out s' = (if event_flags A sw (nHits g) p = 0 then buffer_push p (g_out s) else g_out s) \<and>
      length (lPhotonsHits (g_counters s')) = length (lPhotonsHits (g_counters s)) \<and>
      lPhotonsPassed (g_counters s') = lPhotonsPassed (g_counters s) + (if event_flags A sw (nHits g) p = 0 then 1 else 0))"
proof (cases "hit_valid (hs ! i) \<and> \<not> g_taken s ! i")
  case False
  then show ?thesis using assms by (cases "hit_valid (hs ! i)") (auto simp: group_hit_def)
next
  case True
  let ?coll = "collect A c (group_time_window sw) (radius2 A sw) (nat (group_max_hits sw)) hs (hs ! i)
        [i + 1..<length hs] \<lparr>taken = (g_taken s)[i := True], group_hits = [i], nHits = 1\<rparr>"
  obtain g where g: "?coll = Return g" using assms True by (cases ?coll) (simp_all add: group_hit_def radius2_def)
  let ?sort = "bubble_sort fuel (\<lambda>a b. less_than A (hit_energy (hs ! a)) (hit_energy (hs ! b))) (group_hits g)"
  obtain ks where srt: "?sort = Return ks" using assms True g by (cases ?sort) (simp_all add: group_hit_def radius2_def)
  obtain p where "assemble hs ks = Some p" using assms True g srt by (cases "assemble hs ks") (simp_all add: group_hit_def radius2_def)
  with assms True g srt show ?thesis by (auto simp: group_hit_def radius2_def count_photon_def Let_def)
qed

lemma group_hit_counts:
  assumes "group_hit A c sw fuel hs i s = Return s'"
  shows "lHitsReceived (g_counters s') = lHitsReceived (g_counters s) + 1 \<and>
    lHitsReceivedValid (g_counters s') = lHitsReceivedValid (g_counters s) + (if hit_valid (hs ! i) then 1 else 0)"
  using assms unfolding group_hit_def Let_def
  by (auto simp: count_photon_def elim!: bind_run_ReturnE split: if_splits option.splits)

lemma assemble_spec:
  "assemble hs ks = Some p \<Longrightarrow> photon_valid p \<and> photon_hits p = ks \<and> photon_energy p = hit_energy (hs ! hd ks)"
  by (auto simp: assemble_def Let_def split: if_splits)

text \<open>One more hit keeps the groups apart, and is taken itself.\<close>

lemma group_hit_inv:
  assumes "group_hit A c sw fuel hs i s = Return s'" and "group_inv A c sw hs s" and "i < length hs" and "1 \<le> group_max_hits sw"
    and "less_asym A"
  shows "group_inv A c sw hs s' \<and> (hit_valid (hs ! i) \<longrightarrow> g_taken s' ! i) \<and> (\<forall>h < length hs. g_taken s ! h \<longrightarrow> g_taken s' ! h)"
  using group_hit_cases [OF assms(1)]
proof (elim disjE)
  assume new: "hit_valid (hs ! i) \<and> \<not> g_taken s ! i \<and> (\<exists>g ks p. collect A c (group_time_window sw) (radius2 A sw)
      (nat (group_max_hits sw)) hs (hs ! i) [i + 1..<length hs] \<lparr>taken = (g_taken s)[i := True], group_hits = [i], nHits = 1\<rparr> = Return g \<and>
      bubble_sort fuel (\<lambda>a b. less_than A (hit_energy (hs ! a)) (hit_energy (hs ! b))) (group_hits g) = Return ks \<and>
      assemble hs ks = Some p \<and> g_taken s' = taken g \<and>
      g_out s' = (if event_flags A sw (nHits g) p = 0 then buffer_push p (g_out s) else g_out s) \<and>
      length (lPhotonsHits (g_counters s')) = length (lPhotonsHits (g_counters s)) \<and>
      lPhotonsPassed (g_counters s') = lPhotonsPassed (g_counters s) + (if event_flags A sw (nHits g) p = 0 then 1 else 0))"
  then obtain g ks p where g: "collect A c (group_time_window sw) (radius2 A sw)
      (nat (group_max_hits sw)) hs (hs ! i) [i + 1..<length hs] \<lparr>taken = (g_taken s)[i := True], group_hits = [i], nHits = 1\<rparr> = Return g"
    and srt: "bubble_sort fuel (\<lambda>a b. less_than A (hit_energy (hs ! a)) (hit_energy (hs ! b))) (group_hits g) = Return ks"
    and p: "assemble hs ks = Some p" and s': "g_taken s' = taken g"
      "g_out s' = (if event_flags A sw (nHits g) p = 0 then buffer_push p (g_out s) else g_out s)"
      "length (lPhotonsHits (g_counters s')) = length (lPhotonsHits (g_counters s))"
      "lPhotonsPassed (g_counters s') = lPhotonsPassed (g_counters s) + (if event_flags A sw (nHits g) p = 0 then 1 else 0)"
    by blast
  have inv: "length (g_taken s) = length hs" "distinct (used_hits s)" "\<forall>h \<in> set (used_hits s). g_taken s ! h"
    "\<forall>p \<in> set (used_events (g_out s)). photon_ok A c sw hs p" "buffer_ok (g_out s)"
    using assms(2) by (simp_all add: group_inv_def)
  note coll = group_collected [OF g inv(1) assms(3) _ _ assms(4)]
  have sorted: "mset ks = mset (group_hits g)" "successively (\<lambda>a b. \<not> less_than A (hit_energy (hs ! a)) (hit_energy (hs ! b))) ks"
    using bubble_sort_result [OF srt] by simp_all
  have set_ks: "set ks = set (group_hits g)" using sorted(1) mset_eq_setD by blast
  have p': "photon_hits p = ks" "photon_valid p" "photon_energy p = hit_energy (hs ! hd ks)" using assemble_spec [OF p] by simp_all
  have "group_inv A c sw hs s'"
  proof (cases "event_flags A sw (nHits g) p = 0")
    case True
    note fl = flags_zero [OF True]
    have "photon_ok A c sw hs p"
      unfolding photon_ok_def p'
    proof (intro conjI)
      show "ks \<noteq> []" using set_ks coll(3) new by auto
      have "length ks = nHits g" using mset_eq_length [OF sorted(1)] coll(6) new fl(1) by (simp add: min_def nat_le_iff) 
      then show "group_min_hits sw \<le> int (length ks)" "int (length ks) \<le> group_max_hits sw" using fl by simp_all
      show "\<forall>h \<in> set ks. h < length hs \<and> hit_valid (hs ! h)" using coll(4) new set_ks by blast
      show "\<exists>seed \<in> set ks. \<forall>h \<in> set ks. h = seed \<or> joins A c (group_time_window sw) (radius2 A sw) (hs ! seed) (hs ! h)"
        using coll(3,4) new set_ks by blast
    qed (use sorted(2) fl(3,4) p' in simp_all)
    moreover have "distinct (used_hits s @ ks)"
    proof -
      have "distinct ks" using coll(2) new sorted(1) by (metis mset_eq_imp_distinct_iff)
      moreover have "h \<notin> set (used_hits s)" if "h \<in> set ks" for h using coll(4) new set_ks that inv(3) by blast
      ultimately show ?thesis using inv(2) by auto
    qed
    moreover have "\<forall>h \<in> set (used_hits s @ ks). taken g ! h"
    proof
      fix h assume "h \<in> set (used_hits s @ ks)"
      moreover have "h < length hs" if "h \<in> set (used_hits s)"
        using that inv(4) by (auto simp: used_hits_def photon_ok_def)
      ultimately show "taken g ! h" using coll(4,5) new set_ks inv(3) by auto
    qed
    ultimately show ?thesis
      using True inv coll(1) new s' assms(2) by (simp add: group_inv_def used_hits_def p'(1))
  next
    case False
    have "\<forall>h \<in> set (used_hits s). taken g ! h"
    proof
      fix h assume h: "h \<in> set (used_hits s)"
      then have "h < length hs" using inv(4) by (auto simp: used_hits_def photon_ok_def)
      then show "taken g ! h" using coll(5) new inv(3) h by blast
    qed
    then show ?thesis using False inv coll(1) new s' assms(2) by (simp add: group_inv_def used_hits_def)
  qed
  then show ?thesis using coll(5,7) new s'(1) by simp
qed (use assms(2) in \<open>simp add: group_inv_def used_hits_def\<close>)

lemma group_loop_inv:
  "group_loop A c sw fuel hs js s = Return s' \<Longrightarrow> group_inv A c sw hs s \<Longrightarrow> \<forall>i \<in> set js. i < length hs \<Longrightarrow>
    1 \<le> group_max_hits sw \<Longrightarrow> less_asym A \<Longrightarrow>
    group_inv A c sw hs s' \<and> (\<forall>h < length hs. g_taken s ! h \<longrightarrow> g_taken s' ! h) \<and>
    (\<forall>i \<in> set js. hit_valid (hs ! i) \<longrightarrow> g_taken s' ! i) \<and>
    lHitsReceived (g_counters s') = lHitsReceived (g_counters s) + length js \<and>
    lHitsReceivedValid (g_counters s') = lHitsReceivedValid (g_counters s) + length (filter (\<lambda>i. hit_valid (hs ! i)) js)"
proof (induction js arbitrary: s)
  case (Cons i js)
  obtain s1 where s1: "group_hit A c sw fuel hs i s = Return s1" "group_loop A c sw fuel hs js s1 = Return s'"
    using Cons.prems(1) by (cases "group_hit A c sw fuel hs i s") auto
  have i: "i < length hs" and js: "\<forall>i \<in> set js. i < length hs" using Cons.prems(3) by simp_all
  have step: "group_inv A c sw hs s1" "hit_valid (hs ! i) \<longrightarrow> g_taken s1 ! i"
    "\<forall>h < length hs. g_taken s ! h \<longrightarrow> g_taken s1 ! h"
    using group_hit_inv [OF s1(1) Cons.prems(2) i Cons.prems(4,5)] by blast+
  have rest: "group_inv A c sw hs s'" "\<forall>h < length hs. g_taken s1 ! h \<longrightarrow> g_taken s' ! h"
    "\<forall>i \<in> set js. hit_valid (hs ! i) \<longrightarrow> g_taken s' ! i"
    "lHitsReceived (g_counters s') = lHitsReceived (g_counters s1) + length js"
    "lHitsReceivedValid (g_counters s') = lHitsReceivedValid (g_counters s1) + length (filter (\<lambda>i. hit_valid (hs ! i)) js)"
    using Cons.IH [OF s1(2) step(1) js Cons.prems(4,5)] by blast+
  have "\<forall>k \<in> set (i # js). hit_valid (hs ! k) \<longrightarrow> g_taken s' ! k" using step(2) rest(2,3) i by simp
  moreover have "\<forall>h < length hs. g_taken s ! h \<longrightarrow> g_taken s' ! h" using step(3) rest(2) by blast
  ultimately show ?case using rest(1,4,5) group_hit_counts [OF s1(1)] by simp
qed simp

lemma group_start_inv: "group_inv A c sw (used_events b) (group_start sw b)"
  by (simp add: group_inv_def group_start_def used_hits_def buffer_child_def)

lemma length_valid: "length (filter (\<lambda>i. P (xs ! i)) [0..<length xs]) = length (filter P xs)"
proof -
  have "length (filter P (map ((!) xs) [0..<length xs])) = length (filter (\<lambda>i. P (xs ! i)) [0..<length xs])"
    by (simp only: filter_map length_map o_def)
  then show ?thesis by (simp only: map_nth)
qed

text \<open>
  C8: The photons of a buffer are groups of its hits: all of a photon's hits are valid and within the
  time window and the distance of one of them, in regions allowed to fire together; their number is
  within the limits, none has less energy than the next, and the first one's energy, within its limits
  too, is the photon's. No hit is in two photons or twice in one, every valid hit has been looked at,
  and the counters say how many hits came and how many photons went out.
\<close>

theorem photons_are_groups:
  assumes "group_events A c sw fuel b = Return s" and "less_asym A"
  shows "(\<forall>p \<in> set (used_events (g_out s)). photon_ok A c sw (used_events b) p) \<and> distinct (used_hits s) \<and>
    (\<forall>i < length (used_events b). hit_valid (used_events b ! i) \<longrightarrow> g_taken s ! i) \<and>
    lHitsReceived (g_counters s) = length (used_events b) \<and>
    lHitsReceivedValid (g_counters s) = length (filter hit_valid (used_events b)) \<and>
    lPhotonsPassed (g_counters s) = length (used_events (g_out s))"
proof -
  let ?hs = "used_events b"
  have run: "1 \<le> group_max_hits sw" "group_loop A c sw fuel ?hs [0..<length ?hs] (group_start sw b) = Return s"
    using assms(1) by (auto simp: group_events_def split: if_splits)
  from group_loop_inv [OF run(2) group_start_inv _ run(1) assms(2)] have "group_inv A c sw ?hs s"
    "\<forall>i \<in> set [0..<length ?hs]. hit_valid (?hs ! i) \<longrightarrow> g_taken s ! i"
    "lHitsReceived (g_counters s) = length ?hs" "lHitsReceivedValid (g_counters s) = length (filter hit_valid ?hs)"
    by (simp_all add: length_valid) (simp_all add: group_start_def)
  then show ?thesis by (auto simp: group_inv_def)
qed

section \<open>Grouping ends\<close>

definition regions_ok :: "'d SystemConfig \<Rightarrow> 'd Hit list \<Rightarrow> bool" where
  "regions_ok c hs \<longleftrightarrow> (\<forall>h \<in> set hs. hit_region h < MAX_TRIGGER_REGIONS)"

lemma region_allowed:
  assumes "r1 < MAX_TRIGGER_REGIONS" and "r2 < MAX_TRIGGER_REGIONS"
  shows "\<exists>b. isMultiHitAllowed c r1 r2 = Some b" and "\<exists>b. isCoincidenceAllowed c r1 r2 = Some b"
proof -
  have "(r1 * MAX_TRIGGER_REGIONS + r2) mod 2 ^ 32 < MAX_TRIGGER_REGIONS * MAX_TRIGGER_REGIONS" if "0 \<le> r1" "0 \<le> r2"
    using assms that by (simp add: MAX_TRIGGER_REGIONS_def)
  then show "\<exists>b. isMultiHitAllowed c r1 r2 = Some b" "\<exists>b. isCoincidenceAllowed c r1 r2 = Some b"
    by (auto simp: isMultiHitAllowed_def isCoincidenceAllowed_def region_pair_def Let_def)
qed

lemma collect_returns:
  "regions_ok c hs \<Longrightarrow> hit \<in> set hs \<Longrightarrow> \<forall>j \<in> set js. j < length hs \<Longrightarrow> \<exists>s'. collect A c w r m hs hit js s = Return s'"
proof (induction js arbitrary: s)
  case (Cons j js)
  have "\<exists>b. isMultiHitAllowed c (hit_region (hs ! j)) (hit_region hit) = Some b"
    using Cons.prems by (intro region_allowed) (auto simp: regions_ok_def)
  then obtain b where b: "isMultiHitAllowed c (hit_region (hs ! j)) (hit_region hit) = Some b" ..
  have go_on: "\<exists>s'. collect A c w r m hs hit js t = Return s'" for t using Cons by simp
  show ?case by (simp add: b Let_def go_on)
qed simp

lemma group_hit_returns:
  assumes "regions_ok c hs" and "group_inv A c sw hs s" and "i < length hs" and "1 \<le> group_max_hits sw" and "group_max_hits sw \<le> 256"
    and "less_asym A" and "nat (group_max_hits sw) * nat (group_max_hits sw) < fuel"
  shows "\<exists>s'. group_hit A c sw fuel hs i s = Return s'"
proof (cases "hit_valid (hs ! i) \<and> \<not> g_taken s ! i")
  case True
  let ?m = "nat (group_max_hits sw)"
  have "\<forall>j \<in> set [i + 1..<length hs]. j < length hs" by simp
  then obtain g where g: "collect A c (group_time_window sw) (radius2 A sw) ?m hs (hs ! i) [i + 1..<length hs]
      \<lparr>taken = (g_taken s)[i := True], group_hits = [i], nHits = 1\<rparr> = Return g"
    using collect_returns [OF assms(1) nth_mem [OF assms(3)]] by blast
  have "length (group_hits g) \<le> ?m"
    using group_collected(6) [OF g _ assms(3) _ _ assms(4)] True assms(2) by (simp add: group_inv_def)
  then have m: "length (group_hits g) * length (group_hits g) < fuel" "length (group_hits g) \<le> 256"
    using assms(5,7) mult_le_mono [of "length (group_hits g)" ?m "length (group_hits g)" ?m] by linarith+
  let ?lt = "\<lambda>a b. less_than A (hit_energy (hs ! a)) (hit_energy (hs ! b))"
  have "inversions ?lt (group_hits g) < fuel" using m(1) inversions_bound [of ?lt "group_hits g"] by simp
  with bubble_sort_spec [of ?lt] obtain ks where ks: "bubble_sort fuel ?lt (group_hits g) = Return ks" "mset ks = mset (group_hits g)"
    using assms(6) unfolding less_asym_def by blast
  have "length ks \<le> 256" using m(2) mset_eq_length [OF ks(2)] by simp
  then obtain p where "assemble hs ks = Some p" by (simp add: assemble_def maxHits_of_photon_def Let_def)
  then show ?thesis using True g ks(1) by (simp add: group_hit_def radius2_def Let_def)
next
  case False
  then show ?thesis by (cases "hit_valid (hs ! i)") (simp_all add: group_hit_def)
qed

lemma group_loop_returns:
  assumes "1 \<le> group_max_hits sw" and "group_max_hits sw \<le> 256" and "regions_ok c hs" and "less_asym A"
    and "nat (group_max_hits sw) * nat (group_max_hits sw) < fuel"
  shows "\<forall>i \<in> set js. i < length hs \<Longrightarrow> group_inv A c sw hs s \<Longrightarrow> \<exists>s'. group_loop A c sw fuel hs js s = Return s'"
proof (induction js arbitrary: s)
  case (Cons i js)
  obtain s1 where s1: "group_hit A c sw fuel hs i s = Return s1"
    using group_hit_returns [OF assms(3) Cons.prems(2) _ assms(1,2,4,5)] Cons.prems(1) by auto
  then have "group_inv A c sw hs s1" using group_hit_inv [OF s1 Cons.prems(2) _ assms(1,4)] Cons.prems(1) by simp
  with Cons s1 show ?case by simp
qed simp

lemma group_events_returns:
  assumes "1 \<le> group_max_hits sw" and "group_max_hits sw \<le> 256" and "regions_ok c (used_events b)" and "less_asym A"
    and "nat (group_max_hits sw) * nat (group_max_hits sw) < fuel"
  shows "\<exists>s. group_events A c sw fuel b = Return s"
  using group_loop_returns [OF assms(1-5), of "[0..<length (used_events b)]" "group_start sw b", OF _ group_start_inv] assms(1)
  by (simp add: group_events_def)

text \<open>
  Grouping always ends, and never leaves a table or an array: with a limit of 1 to 256 hits and
  regions below 4096 it returns, with as many turns for each sort as the square of the limit, plus one.
\<close>

theorem grouping_ends:
  assumes "1 \<le> group_max_hits sw" and "group_max_hits sw \<le> 256" and "regions_ok c (used_events b)" and "less_asym A"
    and "nat (group_max_hits sw) * nat (group_max_hits sw) < fuel"
  shows "\<exists>s. group_events A c sw fuel b = Return s"
  using assms by (rule group_events_returns)

section \<open>A buffer of hits\<close>

definition sample_hit :: "bool \<Rightarrow> int \<Rightarrow> int \<Rightarrow> int \<Rightarrow> int Hit" where
  "sample_hit v t e x = \<lparr>hit_valid = v, hit_raw = 0, hit_time = t, hit_timeEnd = t, hit_energy = e, hit_region = 1,
     hit_xi = 0, hit_yi = 0, hit_x = x, hit_y = 0, hit_z = 0\<rparr>"

definition sample_hits :: "int Hit ebuffer" where
  "sample_hits = \<lparr>bufferSeqN = 0, bufferTMin = 0, bufferTMax = 0, capacity = 1024, used_events =
     [sample_hit True 100 5 0, sample_hit False 101 9 0, sample_hit True 103 8 2, sample_hit True 200 7 0]\<rparr>"

definition sample_sw :: "int sw_trigger" where
  "sample_sw = \<lparr>group_max_hits = 4, group_min_hits = 1, group_min_energy = 0, group_max_energy = 100, group_max_distance = 10,
     group_time_window = 20, coincidence_time_window = 2\<rparr>"

definition sample_config :: "int SystemConfig" where
  "sample_config = (config_new (False, False))\<lparr>multihitTriggerMap := (\<lambda>_. True)\<rparr>"

lemma sample_regions: "regions_ok sample_config (used_events sample_hits)"
  by (simp add: regions_ok_def sample_hits_def sample_hit_def MAX_TRIGGER_REGIONS_def)

theorem grouping_ends_witness:
  "\<exists>s. group_events int_arith sample_config sample_sw 17 sample_hits = Return s"
  by (rule grouping_ends) (simp_all add: sample_sw_def sample_regions [simplified])

theorem photons_are_groups_witness:
  "\<exists>s. group_events int_arith sample_config sample_sw 17 sample_hits = Return s \<and> lHitsReceived (g_counters s) = 4 \<and>
    lHitsReceivedValid (g_counters s) = 3 \<and> g_taken s ! 3 \<and> \<not> (\<exists>p \<in> set (used_events (g_out s)). 1 \<in> set (photon_hits p))"
proof -
  have ends: "1 \<le> group_max_hits sample_sw" "group_max_hits sample_sw \<le> 256"
    "nat (group_max_hits sample_sw) * nat (group_max_hits sample_sw) < 17" by (simp_all add: sample_sw_def)
  from group_events_returns [OF ends(1,2) sample_regions int_less_asym ends(3)]
  obtain s where s: "group_events int_arith sample_config sample_sw 17 sample_hits = Return s" by blast
  have "\<not> hit_valid (used_events sample_hits ! 1)" "hit_valid (used_events sample_hits ! 3)" "length (used_events sample_hits) = 4"
    "length (filter hit_valid (used_events sample_hits)) = 3" by (simp_all add: sample_hits_def sample_hit_def)
  with photons_are_groups [OF s int_less_asym] s show ?thesis unfolding photon_ok_def by auto
qed

section \<open>Coincidences are found\<close>

definition late :: "'d arith \<Rightarrow> 'd \<Rightarrow> 'd GammaPhoton list \<Rightarrow> nat \<Rightarrow> nat \<Rightarrow> bool" where
  "late A w ps i j = less_than A (dadd A w (lit A MAX_UNORDER)) (dsub A (photon_time (ps ! j)) (photon_time (ps ! i)))"

definition coincident :: "'d arith \<Rightarrow> 'd SystemConfig \<Rightarrow> 'd \<Rightarrow> 'd GammaPhoton list \<Rightarrow> nat \<Rightarrow> nat \<Rightarrow> bool" where
  "coincident A c w ps i j \<longleftrightarrow> isCoincidenceAllowed c (photon_region (ps ! i)) (photon_region (ps ! j)) = Some True \<and>
     less_or_equal A (dabs A (dsub A (photon_time (ps ! i)) (photon_time (ps ! j)))) w"

definition the_pair :: "'d GammaPhoton list \<Rightarrow> nat \<Rightarrow> nat \<Rightarrow> Coincidence" where
  "the_pair ps i j = \<lparr>c_valid = True, c_photons = (if photon_region (ps ! i) > photon_region (ps ! j) then (i, j) else (j, i))\<rparr>"

definition partners :: "'d arith \<Rightarrow> 'd SystemConfig \<Rightarrow> 'd \<Rightarrow> 'd GammaPhoton list \<Rightarrow> nat \<Rightarrow> nat list \<Rightarrow> nat list" where
  "partners A c w ps i js = filter (coincident A c w ps i) (takeWhile (\<lambda>j. \<not> late A w ps i j) js)"

definition photon_regions_ok :: "'d GammaPhoton list \<Rightarrow> bool" where
  "photon_regions_ok ps \<longleftrightarrow> (\<forall>p \<in> set ps. photon_region p < MAX_TRIGGER_REGIONS)"

lemma coincidences_spec:
  "photon_regions_ok ps \<Longrightarrow> i < length ps \<Longrightarrow> \<forall>j \<in> set js. j < length ps \<Longrightarrow>
    coincidences A c w ps i js (out, n) =
      Return (fold buffer_push (map (the_pair ps i) (partners A c w ps i js)) out, n + length (partners A c w ps i js))"
proof (induction js arbitrary: out n)
  case (Cons j js)
  have "\<exists>b. isCoincidenceAllowed c (photon_region (ps ! i)) (photon_region (ps ! j)) = Some b"
    using Cons.prems by (intro region_allowed) (auto simp: photon_regions_ok_def)
  then obtain b where b: "isCoincidenceAllowed c (photon_region (ps ! i)) (photon_region (ps ! j)) = Some b" ..
  have go_on: "coincidences A c w ps i js (out, n) =
      Return (fold buffer_push (map (the_pair ps i) (partners A c w ps i js)) out, n + length (partners A c w ps i js))" for out n
    using Cons by simp
  show ?case
    using b by (cases "coincident A c w ps i j")
      (simp_all add: go_on Let_def partners_def coincident_def [of A c w ps i j] late_def [symmetric] the_pair_def [of ps i j, symmetric])
qed (simp add: partners_def)

definition all_pairs :: "'d arith \<Rightarrow> 'd SystemConfig \<Rightarrow> 'd \<Rightarrow> 'd GammaPhoton list \<Rightarrow> nat list \<Rightarrow> (nat \<times> nat) list" where
  "all_pairs A c w ps is = concat (map (\<lambda>i. map (Pair i) (partners A c w ps i [i + 1..<length ps])) is)"

lemma coincidence_loop_spec:
  "photon_regions_ok ps \<Longrightarrow> \<forall>i \<in> set is. i < length ps \<Longrightarrow>
    coincidence_loop A c w ps is (out, n) =
      Return (fold buffer_push (map (\<lambda>(i, j). the_pair ps i j) (all_pairs A c w ps is)) out, n + length (all_pairs A c w ps is))"
proof (induction "is" arbitrary: out n)
  case (Cons i ks)
  then show ?case
    by (simp add: coincidences_spec all_pairs_def o_def)
qed (simp add: all_pairs_def)

lemma partners_complete:
  assumes "\<forall>j k. i < j \<longrightarrow> j < k \<longrightarrow> k < length ps \<longrightarrow> late A w ps i j \<longrightarrow> \<not> coincident A c w ps i k"
    and "\<forall>j. i < j \<longrightarrow> j < length ps \<longrightarrow> late A w ps i j \<longrightarrow> \<not> coincident A c w ps i j" and "i < k"
  shows "partners A c w ps i [k..<length ps] = filter (coincident A c w ps i) [k..<length ps]"
  using assms(3)
proof (induction "length ps - k" arbitrary: k)
  case (Suc n)
  then have up: "[k..<length ps] = k # [k + 1..<length ps]" by (simp add: upt_conv_Cons)
  show ?case
  proof (cases "late A w ps i k")
    case True
    then have "\<not> coincident A c w ps i m" if "m \<in> set [k..<length ps]" for m
      using assms(1,2) Suc.prems that by (cases "m = k") auto
    then show ?thesis by (simp add: partners_def up True filter_empty_conv)
  next
    case False
    have "partners A c w ps i [k + 1..<length ps] = filter (coincident A c w ps i) [k + 1..<length ps]"
      using Suc by (intro Suc.hyps(1)) simp_all
    then show ?thesis by (simp add: partners_def up False)
  qed
qed (simp add: partners_def)

text \<open>
  C28: Every coincidence is found once: provided no photon behind one that comes too late is within
  the window again, \<open>handleEvents\<close> returns with exactly the pairs of photons in regions that are
  allowed together and no farther apart in time than the window, in the order of the earlier one,
  the photon of the higher region first.
\<close>

theorem coincidences_are_found:
  assumes "photon_regions_ok (used_events b)"
    and "\<forall>i j k. i < j \<longrightarrow> j \<le> k \<longrightarrow> k < length (used_events b) \<longrightarrow> late A (coincidence_time_window sw) (used_events b) i j \<longrightarrow>
      \<not> coincident A c (coincidence_time_window sw) (used_events b) i k"
  defines "pairs \<equiv> concat (map (\<lambda>i. map (Pair i) (filter (coincident A c (coincidence_time_window sw) (used_events b) i)
      [i + 1..<length (used_events b)])) [0..<length (used_events b)])"
  shows "\<exists>out. find_coincidences A c sw b = Return (out, length pairs) \<and>
    used_events out = map (\<lambda>(i, j). the_pair (used_events b) i j) pairs"
proof -
  let ?ps = "used_events b" and ?w = "coincidence_time_window sw"
  have "partners A c ?w ?ps i [i + 1..<length ?ps] = filter (coincident A c ?w ?ps i) [i + 1..<length ?ps]" for i
    using assms(2) by (intro partners_complete) auto
  then have "all_pairs A c ?w ?ps [0..<length ?ps] = pairs" by (simp add: all_pairs_def pairs_def)
  then show ?thesis
    using coincidence_loop_spec [OF assms(1), of "[0..<length ?ps]" A c ?w "buffer_child (length ?ps) b 0" 0]
    by (simp add: find_coincidences_def Let_def buffer_child_def)
qed

definition sample_photon :: "int \<Rightarrow> int \<Rightarrow> int GammaPhoton" where
  "sample_photon t r = \<lparr>photon_valid = True, photon_time = t, photon_energy = 5, photon_region = r, photon_x = 0, photon_y = 0,
     photon_z = 0, photon_hits = [0]\<rparr>"

definition sample_photons :: "int GammaPhoton ebuffer" where
  "sample_photons = \<lparr>bufferSeqN = 0, bufferTMin = 0, bufferTMax = 0, capacity = 1024, used_events =
     [sample_photon 100 1, sample_photon 101 2, sample_photon 200 1]\<rparr>"

theorem coincidences_are_found_witness:
  "\<exists>out. find_coincidences int_arith (sample_config\<lparr>coincidenceTriggerMap := (\<lambda>_. True)\<rparr>) sample_sw sample_photons = Return (out, 1) \<and>
    map c_photons (used_events out) = [(1, 0)]"
proof -
  let ?c = "sample_config\<lparr>coincidenceTriggerMap := (\<lambda>_. True)\<rparr>" and ?ps = "used_events sample_photons"
  have ps: "?ps = [sample_photon 100 1, sample_photon 101 2, sample_photon 200 1]" by (simp add: sample_photons_def)
  have ok: "photon_regions_ok ?ps" by (simp add: photon_regions_ok_def ps sample_photon_def MAX_TRIGGER_REGIONS_def)
  have co: "coincident int_arith ?c 2 ?ps i j \<longleftrightarrow> i = 0 \<and> j = 1" if "i < j" "j < 3" for i j
  proof -
    have "i = 0 \<and> j = 1 \<or> i = 0 \<and> j = 2 \<or> i = 1 \<and> j = 2" using that by auto
    then show ?thesis
      by (auto simp: coincident_def ps sample_photon_def isCoincidenceAllowed_def region_pair_def MAX_TRIGGER_REGIONS_def)
  qed
  have w: "coincidence_time_window sample_sw = 2" by (simp add: sample_sw_def)
  have late: "\<not> late int_arith 2 ?ps 0 1" by (simp add: late_def ps sample_photon_def MAX_UNORDER_def)
  have "\<forall>i j k. i < j \<longrightarrow> j \<le> k \<longrightarrow> k < length ?ps \<longrightarrow> late int_arith (coincidence_time_window sample_sw) ?ps i j \<longrightarrow>
      \<not> coincident int_arith ?c (coincidence_time_window sample_sw) ?ps i k"
    using co late by (auto simp: w ps le_Suc_eq)
  from coincidences_are_found [OF ok this] co obtain out where out:
    "find_coincidences int_arith ?c sample_sw sample_photons = Return (out, 1)" "used_events out = [the_pair ?ps 0 1]"
    by (auto simp: w ps upt_rec)
  then show ?thesis by (intro exI [of _ out]) (simp add: the_pair_def ps sample_photon_def)
qed

section \<open>The limit on the hits\<close>

lemma collect_all:
  "\<forall>j \<in> set js. j < length (taken s) \<and> \<not> taken s ! j \<and> joins A c w r hit (hs ! j) \<and> \<not> too_late A w hit (hs ! j) \<Longrightarrow>
    distinct js \<Longrightarrow> nHits s + length js \<le> m \<Longrightarrow>
    \<exists>g. collect A c w r m hs hit js s = Return g \<and> group_hits g = group_hits s @ js"
proof (induction js arbitrary: s)
  case (Cons j js)
  let ?s = "s\<lparr>taken := (taken s)[j := True], group_hits := group_hits s @ [j], nHits := nHits s + 1\<rparr>"
  have "\<exists>g. collect A c w r m hs hit js ?s = Return g \<and> group_hits g = group_hits ?s @ js"
    using Cons.prems by (intro Cons.IH) (auto simp: nth_list_update)
  moreover have "collect A c w r m hs hit (j # js) s = collect A c w r m hs hit js ?s"
    using Cons.prems by (simp add: joins_def)
  ultimately show ?case by simp
qed simp

text \<open>
  The number of hits of a photon is not held down to the 256 that it has room for, although the
  code means to: with a configured limit of 300, a buffer of 257 hits that belong together makes the
  grouper write behind the array.
\<close>

theorem group_limit_not_enforced:
  assumes "used_events b = replicate n (sample_hit True 100 5 0)" and "256 < n" and "n \<le> 300" and "0 < fuel"
  shows "group_events int_arith sample_config (sample_sw\<lparr>group_max_hits := 300\<rparr>) fuel b = Fault"
proof -
  let ?hs = "used_events b" and ?sw = "sample_sw\<lparr>group_max_hits := 300\<rparr>" and ?h = "sample_hit True 100 5 0"
  let ?lt = "\<lambda>i j. hit_energy (?hs ! i) < hit_energy (?hs ! j)"
  have h: "?hs ! i = ?h" if "i < n" for i using assms(1) that by simp
  have joins: "joins int_arith sample_config 20 100 ?h ?h" "\<not> too_late int_arith 20 ?h ?h"
    by (simp_all add: joins_def too_late_def is_near_def sample_hit_def sample_config_def isMultiHitAllowed_def region_pair_def
        MAX_TRIGGER_REGIONS_def MAX_UNORDER_def)
  let ?s = "\<lparr>taken = (replicate n False)[0 := True], group_hits = [0], nHits = 1\<rparr>"
  have "\<exists>g. collect int_arith sample_config 20 100 300 ?hs ?h [1..<n] ?s = Return g \<and> group_hits g = group_hits ?s @ [1..<n]"
  proof (rule collect_all)
    show "\<forall>j \<in> set [1..<n]. j < length (taken ?s) \<and> \<not> taken ?s ! j \<and> joins int_arith sample_config 20 100 ?h (?hs ! j) \<and>
        \<not> too_late int_arith 20 ?h (?hs ! j)"
    proof
      fix j assume "j \<in> set [1..<n]"
      then have j: "0 \<noteq> j" "j < n" by auto
      then have "j < length (taken ?s) \<and> \<not> taken ?s ! j" by simp
      then show "j < length (taken ?s) \<and> \<not> taken ?s ! j \<and> joins int_arith sample_config 20 100 ?h (?hs ! j) \<and>
          \<not> too_late int_arith 20 ?h (?hs ! j)" unfolding h [OF j(2)] using joins by blast
    qed
    show "nHits ?s + length [1..<n] \<le> 300" using assms(2,3) by simp
  qed (rule distinct_upt)
  then obtain g where g: "collect int_arith sample_config 20 100 300 ?hs ?h [1..<n] ?s = Return g" "group_hits g = 0 # [1..<n]"
    by auto
  have all: "[0..<n] = 0 # [1..<n]" using upt_conv_Cons [of 0 n] assms(2) by (simp only: One_nat_def)
  have "bubble_sort fuel (\<lambda>i j. less_than int_arith (hit_energy (?hs ! i)) (hit_energy (?hs ! j))) (0 # [1..<n]) = Return (0 # [1..<n])"
  proof -
    have "bubble_pass lt xs = (True, xs)" if "\<forall>x \<in> set xs. \<forall>y \<in> set xs. \<not> lt x y" for lt and xs :: "nat list"
      using that by (induction lt xs rule: bubble_pass.induct) simp_all
    then have "bubble_pass (\<lambda>i j. less_than int_arith (hit_energy (?hs ! i)) (hit_energy (?hs ! j))) [0..<n] = (True, [0..<n])"
      using h by simp
    then show ?thesis using assms(4) unfolding all [symmetric] by (cases fuel) simp_all
  qed
  moreover have "assemble ?hs (0 # [1..<n]) = None" using assms(2) by (simp add: assemble_def maxHits_of_photon_def)
  ultimately have "group_hit int_arith sample_config ?sw fuel ?hs 0 (group_start ?sw b) = Fault"
  proof -
    assume sorted: "bubble_sort fuel (\<lambda>i j. less_than int_arith (hit_energy (?hs ! i)) (hit_energy (?hs ! j))) (0 # [1..<n]) =
        Return (0 # [1..<n])" and none: "assemble ?hs (0 # [1..<n]) = None"
    have h0: "?hs ! 0 = ?h" "hit_valid ?h" "length ?hs = n" using h [of 0] assms(1,2) by (simp_all add: sample_hit_def)
    have start: "g_taken (group_start ?sw b) = replicate n False" by (simp add: group_start_def assms(1))
    have sw: "group_time_window ?sw = 20" "nat (group_max_hits ?sw) = 300"
      "fmul int_arith (group_max_distance ?sw) (group_max_distance ?sw) = 100" by (simp_all add: sample_sw_def)
    have "\<not> replicate n False ! 0" using assms(2) by simp
    then show ?thesis
      unfolding group_hit_def Let_def h0(1,3) start sw add_0 g(1) bind_run.simps g(2) sorted none option.case
      by (simp only: h0(2) not_True_eq_False if_False)
  qed
  moreover have "[0..<length ?hs] = 0 # [1..<n]" "1 \<le> group_max_hits ?sw" using all assms(1) by simp_all
  ultimately show ?thesis by (simp only: group_events_def group_loop.simps bind_run.simps linorder_not_le [symmetric] if_False simp_thms)
qed

end
