(* ===== verification/ProcessHit.thy ===== *)
theory ProcessHit
  imports Grouping
begin

text \<open>
  From raw hits to calibrated hits (\<^verbatim>\<open>external/base/src/ProcessHit.cpp\<close>): time, energy and position
  of each hit from the tables of its channel, and the flags for what is missing.
\<close>

section \<open>Calibrated values\<close>

text \<open>The root of the parabola of a TAC at a fine count.\<close>

definition tac_time :: "'d arith \<Rightarrow> 'd TacConfig \<Rightarrow> u16 \<Rightarrow> 'd" where
  "tac_time A t fine =
     fdiv A (fadd A (fneg A (tac_a1 t)) (fsqrt A (fsub A (fmul A (tac_a1 t) (tac_a1 t))
         (fmul A (fmul A (lit A 4) (fsub A (tac_a0 t) (of_integer A (uint fine)))) (tac_a2 t)))))
       (fmul A (lit A 2) (tac_a2 t))"

text \<open>A coefficient times a power, multiplied from the left, and sums from the left.\<close>

definition term_of_power :: "'d arith \<Rightarrow> 'd \<Rightarrow> nat \<Rightarrow> 'd \<Rightarrow> 'd" where
  "term_of_power A t n p = ((\<lambda>x. fmul A x t) ^^ n) p"

definition qac_coefficients :: "'d QacConfig \<Rightarrow> 'd list" where
  "qac_coefficients q = [qp1 q, qp2 q, qp3 q, qp4 q, qp5 q, qp6 q, qp7 q, qp8 q, qp9 q]"

definition qac_value :: "'d arith \<Rightarrow> 'd QacConfig \<Rightarrow> u16 \<Rightarrow> 'd \<Rightarrow> 'd" where
  "qac_value A q efn t_eq =
     fold (\<lambda>(n, p) s. fadd A s (term_of_power A t_eq n p)) (zip [1..<10] (qac_coefficients q))
       (fsub A (qp0 q) (of_integer A (uint efn)))"

definition qac_slope :: "'d arith \<Rightarrow> 'd QacConfig \<Rightarrow> 'd \<Rightarrow> 'd" where
  "qac_slope A q t_eq =
     fold (\<lambda>(n, p) s. fadd A s (fmul A (term_of_power A t_eq (n - 1) p) (lit A (int n)))) (zip [2..<10] (tl (qac_coefficients q))) (qp1 q)"

text \<open>The loop that solves for the integration time, with the turns that are left.\<close>

definition newton_delta :: "'d arith \<Rightarrow> 'd QacConfig \<Rightarrow> u16 \<Rightarrow> 'd \<Rightarrow> 'd" where
  "newton_delta A q efn t_eq =
     (let d0 = fdiv A (fneg A (qac_value A q efn t_eq)) (qac_slope A q t_eq);
          d1 = (if less_than A d0 (lit A (-10)) then lit A (-10) else d0)
      in if less_than A (lit A 10) d1 then lit A 10 else d1)"

fun newton :: "'d arith \<Rightarrow> 'd QacConfig \<Rightarrow> u16 \<Rightarrow> nat \<Rightarrow> 'd \<Rightarrow> 'd" where
  "newton A q efn 0 t_eq = t_eq"
| "newton A q efn (Suc left) t_eq =
     (let delta = newton_delta A q efn t_eq; t' = fadd A t_eq delta in
      if less_than A (frac A 5 100) (dabs A delta) then newton A q efn left t' else t')"

definition energy_value :: "'d arith \<Rightarrow> 'd EnergyConfig \<Rightarrow> 'd \<Rightarrow> 'd" where
  "energy_value A e x =
     fsub A (fadd A (fmul A (ep0 e) (fpow A (ep1 e) (fpow A x (ep2 e)))) (fmul A (ep3 e) x)) (ep0 e)"

section \<open>A hit\<close>

record 'd event_stream =
  es_frequency :: 'd
  es_triggerID :: int

definition to_short :: "int \<Rightarrow> int" where
  "to_short x = signed_take_bit 15 x"

definition is_trigger :: "'d event_stream \<Rightarrow> RawHit \<Rightarrow> bool" where
  "is_trigger es r \<longleftrightarrow> drop_bit 12 (hitChannelID r) = word_of_int (es_triggerID es)"

definition trigger_hit :: "'d arith \<Rightarrow> nat \<Rightarrow> RawHit \<Rightarrow> 'd Hit" where
  "trigger_hit A i r =
     (let t = dsub A (of_integer A (hitTime r)) (dmul A (of_integer A (uint (tfine r) - 27)) (frac A 1 4))
      in \<lparr>hit_valid = True, hit_raw = i, hit_time = t, hit_timeEnd = t,
           hit_energy = (if efine r = 28 then lit A 1 else lit A (-1)), hit_region = -1, hit_xi = 0, hit_yi = 0,
           hit_x = lit A 0, hit_y = lit A 0, hit_z = lit A 0\<rparr>)"

text \<open>The time of a hit and whether its calibration is missing.\<close>

definition hit_start :: "'d arith \<Rightarrow> 'd SystemConfig \<Rightarrow> 'd event_stream \<Rightarrow> 'd ChannelConfig \<Rightarrow> 'd TacConfig \<Rightarrow> RawHit \<Rightarrow> 'd" where
  "hit_start A c es cc ct r =
     (if hasTDCCalibration c then
        let t = dsub A (dsub A (of_integer A (hitTime r)) (tac_time A ct (tfine r))) (tac_t0 ct);
            clockPeriod = to_float A (dmul A (ddiv A (lit A 1) (es_frequency es)) (lit A 1000000000000))
        in if hasTimeOffsetCalibration c then dsub A t (ddiv A (ch_t0 cc) clockPeriod) else t
      else of_integer A (hitTime r))"

definition hit_end :: "'d arith \<Rightarrow> 'd SystemConfig \<Rightarrow> 'd TacConfig \<Rightarrow> RawHit \<Rightarrow> 'd" where
  "hit_end A c ce r =
     (if \<not> qdcMode r \<and> hasTDCCalibration c
      then dsub A (dsub A (of_integer A (hitTimeEnd r)) (tac_time A ce (efine r))) (tac_t0 ce)
      else of_integer A (hitTimeEnd r))"

definition hit_energy_of ::
  "'d arith \<Rightarrow> 'd SystemConfig \<Rightarrow> 'd QacConfig \<Rightarrow> 'd EnergyConfig \<Rightarrow> RawHit \<Rightarrow> 'd \<Rightarrow> 'd \<Rightarrow> 'd" where
  "hit_energy_of A c cq cen r t te =
     (if \<not> qdcMode r then to_float A (dsub A te t)
      else if hasQDCCalibration c then
        let ti = to_float A (dsub A te t); e = fsub A (newton A cq (efine r) 100 ti) ti
        in if hasEnergyCalibration c then energy_value A cen e else e
      else of_integer A (uint (efine r)))"

definition hit_flags ::
  "'d arith \<Rightarrow> 'd SystemConfig \<Rightarrow> 'd ChannelConfig \<Rightarrow> 'd TacConfig \<Rightarrow> 'd TacConfig \<Rightarrow> 'd QacConfig \<Rightarrow> 'd EnergyConfig \<Rightarrow> RawHit \<Rightarrow> u8" where
  "hit_flags A c cc ct ce cq cen r =
     (if valid r then 0x0 else 0x1) OR
     (if hasTDCCalibration c \<and> equals A (tac_a1 ct) (lit A 0) then 0x2 else 0) OR
     (if \<not> qdcMode r \<and> hasTDCCalibration c \<and> equals A (tac_a1 ce) (lit A 0) then 0x2 else 0) OR
     (if qdcMode r \<and> hasQDCCalibration c \<and> equals A (qp1 cq) (lit A 0) then 0x4 else 0) OR
     (if qdcMode r \<and> hasQDCCalibration c \<and> hasEnergyCalibration c \<and> equals A (ep0 cen) (lit A 0) then 0x16 else 0) OR
     (if hasXYZ c \<and> triggerRegion cc = -1 then 0x8 else 0)"

text \<open>\<open>None\<close>: an access outside a table.\<close>

definition process_hit :: "'d arith \<Rightarrow> 'd SystemConfig \<Rightarrow> 'd event_stream \<Rightarrow> nat \<Rightarrow> RawHit \<Rightarrow> ('d Hit \<times> u8) option" where
  "process_hit A c es i r =
     (if is_trigger es r then Some (trigger_hit A i r, if valid r then 0x0 else 0x1)
      else case getChannelConfig (lit A 0) c (hitChannelID r) of
        None \<Rightarrow> None
      | Some cc \<Rightarrow>
          let k = unat (tacID r) in
          (case (at (tac_T cc) k, at (tac_E cc) k, at (qac_Q cc) k, at (eCal cc) k) of
             (Some ct, Some ce, Some cq, Some cen) \<Rightarrow>
               let t = hit_start A c es cc ct r; te = hit_end A c ce r in
               Some (\<lparr>hit_valid = True, hit_raw = i, hit_time = t, hit_timeEnd = te,
                   hit_energy = hit_energy_of A c cq cen r t te,
                   hit_region = (if hasXYZ c then to_short (triggerRegion cc) else -1),
                   hit_xi = (if hasXYZ c then to_short (ch_xi cc) else 0), hit_yi = (if hasXYZ c then to_short (ch_yi cc) else 0),
                   hit_x = (if hasXYZ c then ch_x cc else lit A 0), hit_y = (if hasXYZ c then ch_y cc else lit A 0),
                   hit_z = (if hasXYZ c then ch_z cc else lit A 0)\<rparr>,
                 hit_flags A c cc ct ce cq cen r)
           | _ \<Rightarrow> None))"

section \<open>A buffer\<close>

record hit_counters =
  lReceived :: nat
  lReceivedInvalid :: nat
  lTDCCalibrationMissing :: nat
  lQDCCalibrationMissing :: nat
  lEnergyCalibrationMissing :: nat
  lXYZMissing :: nat
  lSent :: nat

definition count_flags :: "u8 \<Rightarrow> hit_counters \<Rightarrow> hit_counters" where
  "count_flags fl c =
     \<lparr>lReceived = lReceived c + 1,
      lReceivedInvalid = lReceivedInvalid c + (if fl AND 0x1 \<noteq> 0 then 1 else 0),
      lTDCCalibrationMissing = lTDCCalibrationMissing c + (if fl AND 0x2 \<noteq> 0 then 1 else 0),
      lQDCCalibrationMissing = lQDCCalibrationMissing c + (if fl AND 0x4 \<noteq> 0 then 1 else 0),
      lEnergyCalibrationMissing = lEnergyCalibrationMissing c + (if fl AND 0x16 \<noteq> 0 then 1 else 0),
      lXYZMissing = lXYZMissing c + (if fl AND 0x8 \<noteq> 0 then 1 else 0),
      lSent = lSent c + (if fl = 0 then 1 else 0)\<rparr>"

fun process_raw_hits ::
  "'d arith \<Rightarrow> 'd SystemConfig \<Rightarrow> 'd event_stream \<Rightarrow> nat \<Rightarrow> RawHit list \<Rightarrow> 'd Hit ebuffer \<times> hit_counters \<Rightarrow> ('d Hit ebuffer \<times> hit_counters) option" where
  "process_raw_hits A c es i [] s = Some s"
| "process_raw_hits A c es i (r # rs) (out, n) =
     (case process_hit A c es i r of
        None \<Rightarrow> None
      | Some (h, fl) \<Rightarrow> process_raw_hits A c es (i + 1) rs (if fl = 0 then buffer_push h out else out, count_flags fl n))"

definition process_hits ::
  "'d arith \<Rightarrow> 'd SystemConfig \<Rightarrow> 'd event_stream \<Rightarrow> RawHit ebuffer \<Rightarrow> ('d Hit ebuffer \<times> hit_counters) option" where
  "process_hits A c es inBuffer =
     process_raw_hits A c es 0 (used_events inBuffer) (buffer_child (length (used_events inBuffer)) inBuffer 0,
       \<lparr>lReceived = 0, lReceivedInvalid = 0, lTDCCalibrationMissing = 0, lQDCCalibrationMissing = 0, lEnergyCalibrationMissing = 0,
        lXYZMissing = 0, lSent = 0\<rparr>)"

section \<open>What is sent\<close>

lemma flags_clear:
  assumes "hit_flags A c cc ct ce cq cen r = 0"
  shows "valid r" and "hasTDCCalibration c \<Longrightarrow> \<not> equals A (tac_a1 ct) (lit A 0)"
    and "hasXYZ c \<Longrightarrow> triggerRegion cc \<noteq> -1"
    and "qdcMode r \<Longrightarrow> hasQDCCalibration c \<Longrightarrow> \<not> equals A (qp1 cq) (lit A 0)"
proof -
  have "\<not> valid r \<Longrightarrow> bit (hit_flags A c cc ct ce cq cen r) 0"
    and "hasTDCCalibration c \<Longrightarrow> equals A (tac_a1 ct) (lit A 0) \<Longrightarrow> bit (hit_flags A c cc ct ce cq cen r) 1"
    and "hasXYZ c \<Longrightarrow> triggerRegion cc = -1 \<Longrightarrow> bit (hit_flags A c cc ct ce cq cen r) 3"
    and "qdcMode r \<Longrightarrow> hasQDCCalibration c \<Longrightarrow> equals A (qp1 cq) (lit A 0) \<Longrightarrow> bit (hit_flags A c cc ct ce cq cen r) 2"
    by (simp_all add: hit_flags_def bit_or_iff bit_numeral_rec)
  then show "valid r" "hasTDCCalibration c \<Longrightarrow> \<not> equals A (tac_a1 ct) (lit A 0)" "hasXYZ c \<Longrightarrow> triggerRegion cc \<noteq> -1"
    "qdcMode r \<Longrightarrow> hasQDCCalibration c \<Longrightarrow> \<not> equals A (qp1 cq) (lit A 0)"
    using assms by auto
qed

text \<open>What is known of a hit that was sent, of raw hit \<open>i\<close>.\<close>

definition sent_ok :: "'d arith \<Rightarrow> 'd SystemConfig \<Rightarrow> 'd event_stream \<Rightarrow> RawHit list \<Rightarrow> 'd Hit \<Rightarrow> bool" where
  "sent_ok A c es rs h \<longleftrightarrow> hit_valid h \<and> hit_raw h < length rs \<and>
     (let r = rs ! hit_raw h in
      valid r \<and> process_hit A c es (hit_raw h) r = Some (h, 0) \<and>
      (\<not> is_trigger es r \<longrightarrow> (\<exists>cc. getChannelConfig (lit A 0) c (hitChannelID r) = Some cc \<and>
         (hasTDCCalibration c \<longrightarrow> \<not> equals A (tac_a1 (tac_T cc ! unat (tacID r))) (lit A 0)) \<and>
         (qdcMode r \<longrightarrow> hasQDCCalibration c \<longrightarrow> \<not> equals A (qp1 (qac_Q cc ! unat (tacID r))) (lit A 0)) \<and>
         (hasXYZ c \<longrightarrow> triggerRegion cc \<noteq> -1))))"

lemma process_hit_sent:
  assumes "process_hit A c es i r = Some (h, 0)"
  shows "hit_valid h \<and> hit_raw h = i \<and> valid r \<and>
    (\<not> is_trigger es r \<longrightarrow> (\<exists>cc. getChannelConfig (lit A 0) c (hitChannelID r) = Some cc \<and>
       (hasTDCCalibration c \<longrightarrow> \<not> equals A (tac_a1 (tac_T cc ! unat (tacID r))) (lit A 0)) \<and>
       (qdcMode r \<longrightarrow> hasQDCCalibration c \<longrightarrow> \<not> equals A (qp1 (qac_Q cc ! unat (tacID r))) (lit A 0)) \<and>
       (hasXYZ c \<longrightarrow> triggerRegion cc \<noteq> -1)))"
proof (cases "is_trigger es r")
  case True
  then show ?thesis using assms by (auto simp: process_hit_def trigger_hit_def Let_def split: if_splits)
next
  case False
  obtain cc where cc: "getChannelConfig (lit A 0) c (hitChannelID r) = Some cc"
    using assms False by (auto simp: process_hit_def split: option.splits)
  obtain ct ce cq cen where e: "at (tac_T cc) (unat (tacID r)) = Some ct" "at (tac_E cc) (unat (tacID r)) = Some ce"
    "at (qac_Q cc) (unat (tacID r)) = Some cq" "at (eCal cc) (unat (tacID r)) = Some cen"
    using assms False cc by (auto simp: process_hit_def Let_def split: option.splits)
  have fl: "hit_flags A c cc ct ce cq cen r = 0" and h: "hit_valid h" "hit_raw h = i"
    using assms False by (auto simp: process_hit_def cc e Let_def)
  have "ct = tac_T cc ! unat (tacID r)" "cq = qac_Q cc ! unat (tacID r)" using e(1,3) by (auto simp: at_eq_Some_iff)
  then show ?thesis using flags_clear [OF fl] cc h by auto
qed

lemma process_hit_total:
  assumes "channels_ok c" and "unat (hitChannelID r) div 4096 < PATH_MAX" and "unat (tacID r) < 4"
  shows "\<exists>h fl. process_hit A c es i r = Some (h, fl)"
proof -
  obtain cc where cc: "getChannelConfig (lit A 0) c (hitChannelID r) = Some cc" "channel_ok cc"
    using assms(1,2) unfolding getChannelConfig_def channels_ok_def Let_def by (auto split: option.splits)
  then show ?thesis using assms(3) by (simp add: process_hit_def channel_ok_def Let_def)
qed

lemma process_raw_spec:
  assumes "channels_ok c"
  shows "\<forall>r \<in> set rs. unat (hitChannelID r) div 4096 < PATH_MAX \<and> unat (tacID r) < 4 \<Longrightarrow>
    \<exists>out' n'. process_raw_hits A c es i rs (out, n) = Some (out', n') \<and>
      (\<exists>new. used_events out' = used_events out @ new \<and> lSent n' = lSent n + length new \<and>
        (\<forall>h \<in> set new. i \<le> hit_raw h \<and> hit_raw h < i + length rs \<and>
          process_hit A c es (hit_raw h) (rs ! (hit_raw h - i)) = Some (h, 0)) \<and> sorted_wrt (<) (map hit_raw new) \<and>
        (\<forall>k < length rs. \<forall>h. process_hit A c es (i + k) (rs ! k) = Some (h, 0) \<longrightarrow> h \<in> set new)) \<and>
      lReceived n' = lReceived n + length rs"
proof (induction rs arbitrary: i out n)
  case Nil
  then show ?case by simp
next
  case (Cons r rs)
  obtain h fl where h: "process_hit A c es i r = Some (h, fl)" using process_hit_total [OF assms] Cons.prems by fastforce
  let ?out = "if fl = 0 then buffer_push h out else out" and ?new0 = "if fl = 0 then [h] else []"
  obtain out' n' new where ih: "process_raw_hits A c es (i + 1) rs (?out, count_flags fl n) = Some (out', n')"
    "used_events out' = used_events ?out @ new" "lSent n' = lSent (count_flags fl n) + length new"
    "\<forall>h \<in> set new. i + 1 \<le> hit_raw h \<and> hit_raw h < i + 1 + length rs \<and>
      process_hit A c es (hit_raw h) (rs ! (hit_raw h - (i + 1))) = Some (h, 0)"
    "sorted_wrt (<) (map hit_raw new)" "\<forall>k < length rs. \<forall>h. process_hit A c es (i + 1 + k) (rs ! k) = Some (h, 0) \<longrightarrow> h \<in> set new"
    "lReceived n' = lReceived (count_flags fl n) + length rs"
    using Cons.IH [of "i + 1" ?out "count_flags fl n"] Cons.prems by auto
  have raw: "hit_raw h = i" if "fl = 0" using process_hit_sent h that by blast
  have "\<forall>g \<in> set (?new0 @ new). i \<le> hit_raw g \<and> hit_raw g < i + length (r # rs) \<and>
      process_hit A c es (hit_raw g) ((r # rs) ! (hit_raw g - i)) = Some (g, 0)"
  proof
    fix g assume "g \<in> set (?new0 @ new)"
    then consider "g = h" "fl = 0" | "g \<in> set new" by (auto split: if_splits)
    then show "i \<le> hit_raw g \<and> hit_raw g < i + length (r # rs) \<and> process_hit A c es (hit_raw g) ((r # rs) ! (hit_raw g - i)) = Some (g, 0)"
    proof cases
      case 1
      then show ?thesis using h raw by simp
    next
      case 2
      then have g: "i + 1 \<le> hit_raw g" "hit_raw g < i + 1 + length rs"
        "process_hit A c es (hit_raw g) (rs ! (hit_raw g - (i + 1))) = Some (g, 0)" using ih(4) by blast+
      then have "(r # rs) ! (hit_raw g - i) = rs ! (hit_raw g - (i + 1))" by (simp add: nth_Cons')
      then show ?thesis using g by simp
    qed
  qed
  moreover have "sorted_wrt (<) (map hit_raw (?new0 @ new))" using ih(4,5) raw by force
  moreover have "\<forall>k < length (r # rs). \<forall>g. process_hit A c es (i + k) ((r # rs) ! k) = Some (g, 0) \<longrightarrow> g \<in> set (?new0 @ new)"
  proof (intro allI impI)
    fix k g assume k: "k < length (r # rs)" "process_hit A c es (i + k) ((r # rs) ! k) = Some (g, 0)"
    show "g \<in> set (?new0 @ new)"
    proof (cases k)
      case 0
      then show ?thesis using k h by auto
    next
      case (Suc m)
      then have "g \<in> set new" using k ih(6) by simp
      then show ?thesis by simp
    qed
  qed
  moreover have "process_raw_hits A c es i (r # rs) (out, n) = Some (out', n')" using h ih(1) by simp
  moreover have "used_events out' = used_events out @ (?new0 @ new)" using ih(2) by simp
  moreover have "lSent n' = lSent n + length (?new0 @ new)" "lReceived n' = lReceived n + length (r # rs)"
    using ih(3,7) by (simp_all add: count_flags_def)
  ultimately show ?case by blast
qed


definition sample_raw :: "bool \<Rightarrow> u32 \<Rightarrow> RawHit" where
  "sample_raw v ch = \<lparr>valid = v, qdcMode = False, hitTime = 2048, hitTimeEnd = 2060, hitChannelID = ch, hitFrameID = 2, tcoarse = 0,
     ecoarse = 12, tfine = 100, efine = 50, tacID = 2\<rparr>"

definition sample_raws :: "RawHit ebuffer" where
  "sample_raws = \<lparr>bufferSeqN = 0, bufferTMin = 0, bufferTMax = 0, capacity = 1024, used_events = [sample_raw True 69, sample_raw False 69]\<rparr>"


text \<open>
  The report blames the wrong calibration: the flag for a missing energy calibration is \<^verbatim>\<open>0x16\<close>,
  three bits of which two are those of the TDC and QDC flags, and it is tested by any of them. Whatever
  is missing, the energy counter counts it with the TDC and the QDC ones, and a hit that misses only
  its energy calibration counts in all three.
\<close>

theorem energy_flag_overlaps:
  "(fl AND 0x2 \<noteq> 0 \<or> fl AND 0x4 \<noteq> 0 \<longrightarrow> lEnergyCalibrationMissing (count_flags fl n) = lEnergyCalibrationMissing n + 1) \<and>
    lTDCCalibrationMissing (count_flags 0x16 n) = lTDCCalibrationMissing n + 1 \<and>
    lQDCCalibrationMissing (count_flags 0x16 n) = lQDCCalibrationMissing n + 1"
proof -
  have "fl AND 0x16 \<noteq> 0" if "fl AND 0x2 \<noteq> 0 \<or> fl AND 0x4 \<noteq> (0 :: u8)"
  proof
    assume none: "fl AND 0x16 = 0"
    have "fl AND 0x2 = (fl AND 0x16) AND 0x2" "fl AND 0x4 = (fl AND 0x16) AND 0x4" by (simp_all add: and.assoc)
    then show False using that unfolding none by simp
  qed
  then show ?thesis by (auto simp: count_flags_def)
qed

theorem energy_flag_overlaps_witness:
  "lEnergyCalibrationMissing (count_flags 0x2 \<lparr>lReceived = 0, lReceivedInvalid = 0, lTDCCalibrationMissing = 0,
    lQDCCalibrationMissing = 0, lEnergyCalibrationMissing = 0, lXYZMissing = 0, lSent = 0\<rparr>) = 1"
  using energy_flag_overlaps [of "0x2"] by simp

end
