(* ===== verification/Convert.thy ===== *)
theory Convert
  imports RawFiles
begin

text \<open>
  Conversion of a raw data file to a table of events
  (\<^verbatim>\<open>external/scripts_c/src/convert_raw_to_raw_impl.cpp\<close>). The table and its index are the rows
  filled into the trees, the text file its lines as their fields. The buffers of a step come in the
  order of their numbers, which is that of the ordered handler.
\<close>

datatype FILE_TYPE = FILE_TEXT | FILE_ROOT

record row =
  brStep1 :: u32
  brStep2 :: u32
  brFrameID :: int
  brChannelID :: u32
  brTacID :: u16
  brTCoarse :: u16
  brECoarse :: u16
  brTFine :: u16
  brEFine :: u16

type_synonym text_line = "u64 \<times> u32 \<times> u16 \<times> u16 \<times> u16 \<times> u16 \<times> u16"

record DataFileWriter =
  fileType :: FILE_TYPE
  eventFractionToWrite :: int
  eventCounter :: int
  hData :: "row list"
  hIndex :: "(u32 \<times> u32 \<times> int \<times> int) list"
  textFile :: "text_line list"
  indexBegin :: int

definition data_writer :: "FILE_TYPE \<Rightarrow> int \<Rightarrow> DataFileWriter" where
  "data_writer ty fraction = \<lparr>fileType = ty, eventFractionToWrite = fraction, eventCounter = 0, hData = [], hIndex = [],
     textFile = [], indexBegin = 0\<rparr>"

definition closeStep :: "u32 \<Rightarrow> u32 \<Rightarrow> DataFileWriter \<Rightarrow> DataFileWriter" where
  "closeStep sv1 sv2 w =
     (if fileType w = FILE_ROOT then
        w\<lparr>hIndex := hIndex w @ [(sv1, sv2, indexBegin w, int (length (hData w)))], indexBegin := int (length (hData w))\<rparr>
      else w)"

definition addEvent :: "u32 \<Rightarrow> u32 \<Rightarrow> int \<Rightarrow> RawHit \<Rightarrow> DataFileWriter \<Rightarrow> DataFileWriter" where
  "addEvent sv1 sv2 bufferMinFrameID hit w =
     (let tmpCounter = eventCounter w; w' = w\<lparr>eventCounter := tmpCounter + 1\<rparr> in
      if tmpCounter mod 1024 \<ge> eventFractionToWrite w then w'
      else if fileType w = FILE_ROOT then
        w'\<lparr>hData := hData w' @ [\<lparr>brStep1 = sv1, brStep2 = sv2, brFrameID = sint (hitFrameID hit + word_of_int bufferMinFrameID),
          brChannelID = hitChannelID hit, brTacID = tacID hit, brTCoarse = tcoarse hit, brECoarse = ecoarse hit,
          brTFine = tfine hit, brEFine = efine hit\<rparr>]\<rparr>
      else
        w'\<lparr>textFile := textFile w' @ [(hitFrameID hit, hitChannelID hit, tacID hit, tcoarse hit, ecoarse hit, tfine hit, efine hit)]\<rparr>)"

definition addEvents :: "u32 \<Rightarrow> u32 \<Rightarrow> RawHit ebuffer \<Rightarrow> DataFileWriter \<Rightarrow> DataFileWriter" where
  "addEvents sv1 sv2 buffer w = fold (addEvent sv1 sv2 (bufferTMin buffer div 1024)) (used_events buffer) w"

text \<open>The arguments are checked first; then every step in turn, until \<open>getNextStep\<close> finds no more.\<close>

definition arguments_ok :: "string \<Rightarrow> string \<Rightarrow> string \<Rightarrow> bool" where
  "arguments_ok configFileName inputFilePrefix outputFileName \<longleftrightarrow>
     configFileName \<noteq> [] \<and> inputFilePrefix \<noteq> [] \<and> outputFileName \<noteq> []"

type_synonym step_input = "step_entry option \<times> reader \<times> u32 \<times> u32"

fun convert_steps :: "opened \<Rightarrow> nat \<Rightarrow> step_input list \<Rightarrow> DataFileWriter \<Rightarrow> DataFileWriter run" where
  "convert_steps rd fuel [] w = Return w"
| "convert_steps rd fuel ((line, r, sv1, sv2) # ls) w =
     (let next = getNextStep line r in
      if \<not> fst next then Return w
      else bind_run (processStep fuel (snd next)) (\<lambda>q.
        case those (map (decode_buffer rd) (queuedBuffers q)) of
          None \<Rightarrow> Fault
        | Some bs \<Rightarrow> convert_steps rd fuel ls (closeStep sv1 sv2 (fold (addEvents sv1 sv2) bs w))))"

section \<open>Rows\<close>

definition row_of :: "u32 \<Rightarrow> u32 \<Rightarrow> u64 \<times> u64 \<Rightarrow> row" where
  "row_of sv1 sv2 e = \<lparr>brStep1 = sv1, brStep2 = sv2, brFrameID = sint (fst e), brChannelID = getChannelID (snd e),
     brTacID = ucast (getTacID (snd e)), brTCoarse = ucast (getTCoarse (snd e)), brECoarse = ucast (getECoarse (snd e)),
     brTFine = ucast (getTFine (snd e)), brEFine = ucast (getEFine (snd e))\<rparr>"

text \<open>The events that the fraction lets through, the first one being number \<open>n\<close>.\<close>

fun chosen :: "int \<Rightarrow> int \<Rightarrow> 'a list \<Rightarrow> 'a list" where
  "chosen fraction n [] = []"
| "chosen fraction n (x # xs) = (if n mod 1024 \<ge> fraction then [] else [x]) @ chosen fraction (n + 1) xs"

lemma chosen_append: "chosen f n (xs @ ys) = chosen f n xs @ chosen f (n + int (length xs)) ys"
  by (induction xs arbitrary: n) (simp_all add: algebra_simps)

lemma chosen_all: "1024 \<le> f \<Longrightarrow> chosen f n xs = xs"
proof (induction xs arbitrary: n)
  case (Cons x xs)
  have "n mod 1024 < f" using Cons.prems pos_mod_bound [of 1024 n] by linarith
  with Cons show ?case by simp
qed simp

lemma decode_hit_total:
  "\<exists>h. decode_hit rd u = Some h \<and> hitFrameID h = fst u \<and> hitChannelID h = getChannelID (snd u) \<and>
    tacID h = ucast (getTacID (snd u)) \<and> tcoarse h = ucast (getTCoarse (snd u)) \<and> ecoarse h = ucast (getECoarse (snd u)) \<and>
    tfine h = ucast (getTFine (snd u)) \<and> efine h = ucast (getEFine (snd u))"
  using channel_in_table by (simp add: decode_hit_def isQDC_def Let_def)

definition rooted :: "DataFileWriter \<Rightarrow> DataFileWriter \<Rightarrow> row list \<Rightarrow> int \<Rightarrow> bool" where
  "rooted w w' rs n \<longleftrightarrow> fileType w' = FILE_ROOT \<and> eventFractionToWrite w' = eventFractionToWrite w \<and>
     eventCounter w' = eventCounter w + n \<and> hData w' = hData w @ rs"

lemma add_decoded:
  assumes "fileType w = FILE_ROOT" and "those (map (decode_hit rd) us) = Some hs"
  shows "rooted w (fold (addEvent s1 s2 m) hs w)
    (chosen (eventFractionToWrite w) (eventCounter w) (map (\<lambda>u. row_of s1 s2 (word_of_int m + fst u, snd u)) us)) (int (length us))"
  using assms
proof (induction us arbitrary: w hs)
  case (Cons u us)
  obtain h where h: "decode_hit rd u = Some h" "hitFrameID h = fst u" "hitChannelID h = getChannelID (snd u)"
    "tacID h = ucast (getTacID (snd u))" "tcoarse h = ucast (getTCoarse (snd u))" "ecoarse h = ucast (getECoarse (snd u))"
    "tfine h = ucast (getTFine (snd u))" "efine h = ucast (getEFine (snd u))" using decode_hit_total by blast
  obtain hs' where hs': "hs = h # hs'" "those (map (decode_hit rd) us) = Some hs'"
    using Cons.prems(2) h(1) by (auto simp: map_option_case split: option.splits)
  let ?w = "addEvent s1 s2 m h w"
  have w: "fileType ?w = FILE_ROOT" "eventFractionToWrite ?w = eventFractionToWrite w" "eventCounter ?w = eventCounter w + 1"
    using Cons.prems(1) by (simp_all add: addEvent_def Let_def)
  have data: "hData ?w = hData w @ (if eventCounter w mod 1024 \<ge> eventFractionToWrite w then []
      else [row_of s1 s2 (word_of_int m + fst u, snd u)])"
    using Cons.prems(1) h(2-8) by (simp add: addEvent_def row_of_def Let_def add.commute)
  show ?case using Cons.IH [OF w(1) hs'(2)] unfolding hs'(1) rooted_def w(2,3) by (simp add: data)
qed (simp add: rooted_def)

lemma decode_all: "\<exists>hs. those (map (decode_hit rd) us) = Some hs \<and> length hs = length us"
proof (induction us)
  case (Cons u us)
  obtain h where "decode_hit rd u = Some h" using decode_hit_total by blast
  with Cons show ?case by auto
qed simp

lemma decode_buffer_total:
  "\<exists>hb hs. decode_buffer rd b = Some hb \<and> those (map (decode_hit rd) (used_events b)) = Some hs \<and> used_events hb = hs \<and>
    bufferTMin hb = bufferTMin b \<and> bufferSeqN hb = bufferSeqN b"
proof -
  obtain hs where hs: "those (map (decode_hit rd) (used_events b)) = Some hs" "length hs = length (used_events b)"
    using decode_all by blast
  have "length hs \<le> round_capacity (length (used_events b))" using hs(2) round_capacity_less [of "length (used_events b)"] by simp
  then show ?thesis using hs by (simp add: decode_buffer_def buffer_fill_def buffer_child_def)
qed

lemma add_buffers:
  assumes "fileType w = FILE_ROOT"
  shows "\<exists>hbs. those (map (decode_buffer rd) bs) = Some hbs \<and>
    rooted w (fold (addEvents s1 s2) hbs w)
      (chosen (eventFractionToWrite w) (eventCounter w) (map (row_of s1 s2) (concat (map absolute_events bs))))
      (int (length (concat (map absolute_events bs))))"
  using assms
proof (induction bs arbitrary: w)
  case (Cons b bs)
  obtain hb hs where hb: "decode_buffer rd b = Some hb" "those (map (decode_hit rd) (used_events b)) = Some hs"
    "used_events hb = hs" "bufferTMin hb = bufferTMin b" using decode_buffer_total by blast
  let ?w = "addEvents s1 s2 hb w"
  have evs: "map (\<lambda>u. row_of s1 s2 (word_of_int (bufferTMin b div 1024) + fst u, snd u)) (used_events b) =
      map (row_of s1 s2) (absolute_events b)" "length (used_events b) = length (absolute_events b)"
    by (simp_all add: absolute_events_def o_def)
  have w: "rooted w ?w (chosen (eventFractionToWrite w) (eventCounter w) (map (row_of s1 s2) (absolute_events b)))
      (int (length (absolute_events b)))"
    using add_decoded [OF Cons.prems hb(2), of s1 s2 "bufferTMin b div 1024"] unfolding evs
    by (simp add: addEvents_def hb(3,4))
  then have "fileType ?w = FILE_ROOT" by (simp add: rooted_def)
  from Cons.IH [OF this] obtain hbs where hbs: "those (map (decode_buffer rd) bs) = Some hbs"
    "rooted ?w (fold (addEvents s1 s2) hbs ?w)
      (chosen (eventFractionToWrite ?w) (eventCounter ?w) (map (row_of s1 s2) (concat (map absolute_events bs))))
      (int (length (concat (map absolute_events bs))))" by blast
  have "rooted w (fold (addEvents s1 s2) (hb # hbs) w)
      (chosen (eventFractionToWrite w) (eventCounter w) (map (row_of s1 s2) (concat (map absolute_events (b # bs)))))
      (int (length (concat (map absolute_events (b # bs)))))"
    using w hbs(2) by (simp add: rooted_def chosen_append)
  with hb(1) hbs(1) show ?case by simp
qed (simp add: rooted_def)

section \<open>A file\<close>

text \<open>An input that reads the step of a line of the index from the data.\<close>

definition presents :: "u8 list \<Rightarrow> index_line \<Rightarrow> step_input \<Rightarrow> bool" where
  "presents d l inp \<longleftrightarrow> (\<exists>b e f n x y r cs rest. l = IndexLine b e f n x y \<and> inp = (Some (Regular (nat b) (nat e)), r, x, y) \<and>
     \<not> fromTemp r \<and> [] \<notin> set cs \<and> concat cs = drop (nat b) d \<and> reads r = map ReadBytes cs @ rest)"

definition step_values :: "block list \<Rightarrow> u32 \<times> u32" where
  "step_values st = (step1 (snd (last st)), step2 (snd (last st)))"

definition step_rows :: "block list \<Rightarrow> row list" where
  "step_rows st = map (row_of (fst (step_values st)) (snd (step_values st))) (step_events st)"

lemma convert_covered:
  assumes "covers d l st" and "presents d l inp" and "length d < ULLONG_MAX" and "2 * length (step_frames st) \<le> fuel"
    and "fileType w = FILE_ROOT" and "1024 \<le> eventFractionToWrite w"
  shows "\<exists>w'. convert_steps rd fuel (inp # inps) w = convert_steps rd fuel inps w' \<and> fileType w' = FILE_ROOT \<and>
    eventFractionToWrite w' = eventFractionToWrite w \<and> hData w' = hData w @ step_rows st \<and>
    hIndex w' = hIndex w @ [(fst (step_values st), snd (step_values st), indexBegin w, int (length (hData w')))] \<and>
    indexBegin w' = int (length (hData w'))"
proof -
  obtain b e f n x y r cs rest where l: "l = IndexLine b e f n x y" "inp = (Some (Regular (nat b) (nat e)), r, x, y)"
    "\<not> fromTemp r" "[] \<notin> set cs" "concat cs = drop (nat b) d" "reads r = map ReadBytes cs @ rest"
    using assms(2) by (auto simp: presents_def)
  have vals: "x = fst (step_values st)" "y = snd (step_values st)"
    using assms(1) unfolding covers_def l(1) step_values_def by auto
  obtain r' q where q: "getNextStep (Some (Regular (nat b) (nat e))) r = (True, r')" "processStep fuel r' = Return q"
    "concat (map absolute_events (queuedBuffers q)) = step_events st"
    using covers_read_back [OF assms(1) [unfolded l(1)] assms(3) l(3-6) assms(4)] by blast
  obtain hbs where hbs: "those (map (decode_buffer rd) (queuedBuffers q)) = Some hbs"
    "rooted w (fold (addEvents x y) hbs w) (map (row_of x y) (step_events st)) (int (length (step_events st)))"
    using add_buffers [OF assms(5), of rd "queuedBuffers q" x y] unfolding q(3) chosen_all [OF assms(6)] by blast
  let ?w = "fold (addEvents x y) hbs w"
  have same: "hIndex ?w = hIndex w \<and> indexBegin ?w = indexBegin w"
  proof -
    have ev: "hIndex (addEvent x y m h v) = hIndex v \<and> indexBegin (addEvent x y m h v) = indexBegin v" for m h v
      by (simp add: addEvent_def Let_def)
    have "hIndex (fold (addEvent x y m) hs v) = hIndex v \<and> indexBegin (fold (addEvent x y m) hs v) = indexBegin v" for m hs v
      by (induction hs arbitrary: v) (simp_all add: ev)
    then have "hIndex (addEvents x y hb v) = hIndex v \<and> indexBegin (addEvents x y hb v) = indexBegin v" for hb v
      by (simp add: addEvents_def)
    then have "hIndex (fold (addEvents x y) hbs v) = hIndex v \<and> indexBegin (fold (addEvents x y) hbs v) = indexBegin v" for v
      by (induction hbs arbitrary: v) simp_all
    then show ?thesis .
  qed
  have "convert_steps rd fuel (inp # inps) w = convert_steps rd fuel inps (closeStep x y ?w)"
    unfolding l(2) by (simp add: q(1,2) hbs(1))
  then show ?thesis
    using hbs(2) same vals by (intro exI [of _ "closeStep x y ?w"]) (simp add: closeStep_def rooted_def step_rows_def)
qed

lemma convert_covered_steps:
  assumes "list_all2 (covers d) ls sts" and "list_all2 (presents d) ls inps" and "length d < ULLONG_MAX"
    and "\<forall>st \<in> set sts. 2 * length (step_frames st) \<le> fuel" and "fileType w = FILE_ROOT" and "1024 \<le> eventFractionToWrite w"
  shows "\<exists>w'. convert_steps rd fuel inps w = Return w' \<and> hData w' = hData w @ concat (map step_rows sts) \<and>
    length (hIndex w') = length (hIndex w) + length sts"
  using assms
proof (induction sts arbitrary: ls inps w rule: list.induct)
  case (Cons st sts)
  obtain l ls' where ls: "ls = l # ls'" "covers d l st" "list_all2 (covers d) ls' sts"
    using Cons.prems(1) by (auto simp: list_all2_Cons2)
  obtain inp inps' where inps: "inps = inp # inps'" "presents d l inp" "list_all2 (presents d) ls' inps'"
    using Cons.prems(2) by (auto simp: ls(1) list_all2_Cons1)
  obtain w1 where w1: "convert_steps rd fuel (inp # inps') w = convert_steps rd fuel inps' w1" "fileType w1 = FILE_ROOT"
    "eventFractionToWrite w1 = eventFractionToWrite w" "hData w1 = hData w @ step_rows st" "length (hIndex w1) = length (hIndex w) + 1"
    using convert_covered [OF ls(2) inps(2) Cons.prems(3) _ Cons.prems(5,6), of fuel rd inps'] Cons.prems(4) by auto
  obtain w' where "convert_steps rd fuel inps' w1 = Return w'" "hData w' = hData w1 @ concat (map step_rows sts)"
    "length (hIndex w') = length (hIndex w1) + length sts"
    using Cons.IH [OF ls(3) inps(3) Cons.prems(3) _ w1(2)] Cons.prems(4,6) w1(3) by auto
  then show ?case unfolding inps(1) w1(1) using w1(4,5) by (intro exI [of _ w']) simp
qed simp



text \<open>
  The text format gives another frame number than the table: the one relative to the buffer, so
  that events of different buffers look alike. The same hit of a buffer that starts with frame 7 has
  frame 7 in the table and 0 in the text.
\<close>

theorem text_frames_are_relative:
  assumes "used_events b = [h]" and "hitFrameID h = 0" and "bufferTMin b = 7 * 1024"
  shows "map brFrameID (hData (addEvents v w b (data_writer FILE_ROOT 1024))) = [7] \<and>
    map fst (textFile (addEvents v w b (data_writer FILE_TEXT 1024))) = [0]"
  using assms by (simp add: addEvents_def addEvent_def data_writer_def Let_def)

theorem text_frames_are_relative_witness:
  "\<exists>b h. used_events b = [h] \<and> map fst (textFile (addEvents 0 0 b (data_writer FILE_TEXT 1024))) = [0]"
proof -
  let ?h = "\<lparr>valid = True, qdcMode = False, hitTime = 0, hitTimeEnd = 0, hitChannelID = 0, hitFrameID = 0, tcoarse = 0, ecoarse = 0,
    tfine = 0, efine = 0, tacID = 0\<rparr>"
  let ?b = "\<lparr>bufferSeqN = 0, bufferTMin = 7 * 1024, bufferTMax = 0, capacity = 1024, used_events = [?h]\<rparr>"
  have "map fst (textFile (addEvents 0 0 ?b (data_writer FILE_TEXT 1024))) = [0]"
    using text_frames_are_relative [of ?b ?h 0 0] by simp
  then show ?thesis by (intro exI [of _ ?b] exI [of _ ?h]) simp
qed

end
