(* ===== verification/CoarseSort.thy ===== *)
theory CoarseSort
  imports RawReader "HOL-Library.Multiset"
begin

text \<open>
  The sorter behind the decoder (\<^verbatim>\<open>external/base/src/CoarseSorter.cpp\<close>). \<^verbatim>\<open>std::sort\<close>, which
  may leave equal times in any order, is a parameter.
\<close>

definition sorts_by_time :: "((int \<times> nat) list \<Rightarrow> (int \<times> nat) list) \<Rightarrow> bool" where
  "sorts_by_time srt \<longleftrightarrow> (\<forall>xs. mset (srt xs) = mset xs \<and> sorted (map fst (srt xs)))"

text \<open>The entries are times and pointers to the hits.\<close>

definition coarse_sort ::
  "((int \<times> nat) list \<Rightarrow> (int \<times> nat) list) \<Rightarrow> RawHit ebuffer \<Rightarrow> RawHit ebuffer option" where
  "coarse_sort srt inBuffer =
     (let hs = used_events inBuffer; N = length hs;
          sortList = srt (map (\<lambda>i. (hitTime (hs ! i), i)) [0..<N])
      in buffer_fill (map (\<lambda>e. hs ! snd e) sortList) (buffer_child N inBuffer 0))"

lemma coarse_sort_spec:
  assumes "sorts_by_time srt"
  shows "\<exists>out. coarse_sort srt b = Some out \<and> mset (used_events out) = mset (used_events b) \<and>
    sorted (map hitTime (used_events out)) \<and> bufferSeqN out = bufferSeqN b \<and> bufferTMin out = bufferTMin b"
proof -
  let ?hs = "used_events b" and ?N = "length (used_events b)"
  let ?xs = "map (\<lambda>i. (hitTime (?hs ! i), i)) [0..<?N]"
  have srt: "mset (srt ?xs) = mset ?xs" "sorted (map fst (srt ?xs))" using assms by (simp_all add: sorts_by_time_def)
  have len: "length (srt ?xs) = ?N" using mset_eq_length [OF srt(1)] by simp
  have "mset (map (\<lambda>e. ?hs ! snd e) (srt ?xs)) = mset (map (\<lambda>e. ?hs ! snd e) ?xs)"
    using srt(1) by (simp only: mset_map)
  also have "map (\<lambda>e. ?hs ! snd e) ?xs = ?hs" by (simp add: o_def map_nth)
  finally have perm: "mset (map (\<lambda>e. ?hs ! snd e) (srt ?xs)) = mset ?hs" .
  have "fst e = hitTime (?hs ! snd e)" if "e \<in> set (srt ?xs)" for e
    using that mset_eq_setD [OF srt(1)] by auto
  then have "map hitTime (map (\<lambda>e. ?hs ! snd e) (srt ?xs)) = map fst (srt ?xs)" by (auto simp: o_def)
  with srt(2) have "sorted (map hitTime (map (\<lambda>e. ?hs ! snd e) (srt ?xs)))" by (simp only:)
  with perm len round_capacity_less [of ?N] show ?thesis
    by (simp add: coarse_sort_def buffer_fill_def buffer_child_def Let_def)
qed

text \<open>
  The sorter passes on exactly the hits it got, in chronological order and with the buffer's
  number and start; and since the frame is the upper part of the time, the hits of a decoded buffer
  come out in the order of their frames, as the modules that write events by frame rely on.
\<close>

theorem coarse_sort_orders_frames:
  assumes "sorts_by_time srt" and "decode_buffer rd b = Some hb" and "\<forall>u \<in> set (used_events b). unat (fst u) < 2 ^ 36"
  shows "\<exists>out. coarse_sort srt hb = Some out \<and> mset (used_events out) = mset (used_events hb) \<and>
    sorted (map hitTime (used_events out)) \<and> sorted (map (\<lambda>h. uint (hitFrameID h)) (used_events out)) \<and>
    bufferSeqN out = bufferSeqN b \<and> bufferTMin out = bufferTMin b"
proof -
  obtain hs where hs: "those (map (decode_hit rd) (used_events b)) = Some hs"
    "buffer_fill hs (buffer_child (length (used_events b)) b 0) = Some hb"
    using assms(2) by (auto simp: decode_buffer_def split: option.splits)
  have hb: "used_events hb = hs" "bufferSeqN hb = bufferSeqN b" "bufferTMin hb = bufferTMin b"
    using hs(2) by (auto simp: buffer_fill_def buffer_child_def split: if_splits)
  have "hitTime h div 1024 = uint (hitFrameID h)" if "h \<in> set hs" for h
  proof -
    have "those (map (decode_hit rd) us) = Some hs \<Longrightarrow> h \<in> set hs \<Longrightarrow> \<exists>u \<in> set us. decode_hit rd u = Some h" for us and hs
      by (induction us arbitrary: hs) (auto split: option.splits)
    with hs(1) that obtain u where "u \<in> set (used_events b)" "decode_hit rd u = Some h" by blast
    then show ?thesis using decode_hit_spec [of u rd] assms(3) by auto
  qed
  note time = this
  obtain out where out: "coarse_sort srt hb = Some out" "mset (used_events out) = mset hs" "sorted (map hitTime (used_events out))"
    "bufferSeqN out = bufferSeqN b" "bufferTMin out = bufferTMin b"
    using coarse_sort_spec [OF assms(1), of hb] hb by auto
  have "map (\<lambda>h. uint (hitFrameID h)) (used_events out) = map (\<lambda>t. t div 1024) (map hitTime (used_events out))"
    using time mset_eq_setD [OF out(2)] by (simp add: o_def)
  moreover have "sorted (map (\<lambda>t. t div 1024) ts)" if "sorted ts" for ts :: "int list"
    using that by (induction ts) (auto intro: zdiv_mono1)
  ultimately have "sorted (map (\<lambda>h. uint (hitFrameID h)) (used_events out))" using out(3) by (simp only:)
  with out hb show ?thesis by auto
qed

theorem coarse_sort_orders_frames_witness:
  "\<exists>hb out. decode_buffer \<lparr>frequency = 0, triggerID = -1, qdcModes = (\<lambda>_. False), indexIsTemp = False\<rparr>
      \<lparr>bufferSeqN = 4, bufferTMin = 0, bufferTMax = 0, capacity = 1024, used_events = [(3, 0), (1, 0)]\<rparr> = Some hb \<and>
    coarse_sort (sort_key fst) hb = Some out \<and> map (\<lambda>h. uint (hitFrameID h)) (used_events out) = [1, 3]"
proof -
  let ?rd = "\<lparr>frequency = 0, triggerID = -1, qdcModes = (\<lambda>_. False), indexIsTemp = False\<rparr>"
  let ?b = "\<lparr>bufferSeqN = 4, bufferTMin = 0, bufferTMax = 0, capacity = 1024, used_events = [(3, 0), (1, 0)]\<rparr> :: UndecodedHit ebuffer"
  obtain h1 where h1: "decode_hit ?rd (3, 0) = Some h1" "hitFrameID h1 = 3" using decode_hit_spec [of "(3, 0)" ?rd] by auto
  obtain h2 where h2: "decode_hit ?rd (1, 0) = Some h2" "hitFrameID h2 = 1" using decode_hit_spec [of "(1, 0)" ?rd] by auto
  obtain hb where hb: "decode_buffer ?rd ?b = Some hb" "used_events hb = [h1, h2]"
    using h1 h2 by (auto simp: decode_buffer_def buffer_fill_def buffer_child_def buffer_new_def round_capacity_def)
  have "sorts_by_time (sort_key fst)" by (simp add: sorts_by_time_def)
  from coarse_sort_orders_frames [OF this hb(1)] obtain out where out: "coarse_sort (sort_key fst) hb = Some out"
    "mset (used_events out) = mset [h1, h2]" "sorted (map (\<lambda>h. uint (hitFrameID h)) (used_events out))" unfolding hb(2) by auto
  have "mset (map (\<lambda>h. uint (hitFrameID h)) (used_events out)) = mset [3, 1]"
    using out(2) h1(2) h2(2) by (simp only: mset_map) simp
  then have "sort (map (\<lambda>h. uint (hitFrameID h)) (used_events out)) = [1, 3]"
    using properties_for_sort [of "[1, 3]" "map (\<lambda>h. uint (hitFrameID h)) (used_events out)"] by simp
  then have "map (\<lambda>h. uint (hitFrameID h)) (used_events out) = [1, 3]" using out(3) by (simp add: sorted_sort_id)
  with hb(1) out(1) show ?thesis by (intro exI [of _ hb] exI [of _ out] conjI)
qed

end
