(* ===== verification/CardBuffers.thy ===== *)
theory CardBuffers
  imports RawFrame
begin

text \<open>
  The buffers between an acquisition card and the worker of the card frame server
  (\<^verbatim>\<open>external/daqd/src/PFP_KX7.cpp\<close>): a thread fills one of two buffers with each read of the device,
  \<open>getNextFrame\<close> takes the frames out of the other. A step is a section under the mutex, a signal, or
  what a thread does on a buffer of its own.

  What \<^verbatim>\<open>read\<close> gives is an input, in whole words; a read that fails ends the program. \<open>blocks\<close>,
  \<open>released\<close> and \<open>results\<close> record what has been read into which memory, how many buffers have been given
  back, and what the calls of \<open>getNextFrame\<close> returned.
\<close>

section \<open>Frames in a buffer\<close>

definition N_BUFFER :: nat where "N_BUFFER = 2"
definition BUFFER_SIZE :: nat where "BUFFER_SIZE = 32768"

text \<open>The header at a place of the memory: \<open>None\<close> outside it, otherwise the size of a good frame.\<close>

definition card_header :: "u64 list \<Rightarrow> nat \<Rightarrow> nat option option" where
  "card_header m c =
     (case (at m c, at m (c + 1)) of
        (Some w0, Some w1) \<Rightarrow>
          let frameSource = drop_bit 54 w0 AND 0x400; frameType = drop_bit 51 w0 AND 0x7;
              frameSize = drop_bit 36 w0 AND 0x7FFF; nEvents = w1 AND 0xFFFF
          in Some (if frameType \<noteq> 0x1 \<or> frameSource \<noteq> 0 then None
                   else if unat frameSize > MaxRawDataFrameSize then None
                   else if frameSize \<noteq> nEvents + 2 then None
                   else Some (unat frameSize))
      | _ \<Rightarrow> None)"

lemma card_header_size: "card_header m c = Some (Some n) \<Longrightarrow> 2 \<le> n"
proof -
  assume "card_header m c = Some (Some n)"
  then obtain w1 :: u64 where "n = unat ((w1 AND 0xFFFF) + 2)"
    by (auto simp: card_header_def Let_def split: option.splits if_splits)
  moreover have "unat (w1 AND 0xFFFF) \<le> 0xFFFF"
    using word_and_le1 [of w1 "0xFFFF"] by (simp add: word_le_nat_alt)
  ultimately show ?thesis by (simp add: unat_word_ariths)
qed

section \<open>State\<close>

datatype call_result = FrameAt "u64 list" | NoFrame

datatype filler = Checks | WaitsConsumed | ReadsInto nat | Publishes | SignalsFilled | FillerExited

text \<open>\<open>Releases\<close> carries \<open>bufferWasEmpty\<close>; \<open>Crashed\<close> is a read outside the memory.\<close>

datatype taker = Outside | Inside | WaitsFilled | Releases bool | Crashed

datatype switch = Acquiring | Stopping | JoiningFiller | Stopped

record dma =
  buf_data :: "nat \<Rightarrow> u64 list"
  buf_filled :: "nat \<Rightarrow> nat"
  buf_consumed :: "nat \<Rightarrow> nat"
  bufferSetWrPtr :: nat
  bufferSetRdPtr :: nat
  bufferSetThreadValid :: bool
  bufferSetThreadStop :: bool
  currentBuffer :: "nat option"
  filler :: filler
  taker :: taker
  switch :: switch
  next_reads :: "u64 list list"
  blocks :: "(nat \<times> u64 list) list"
  released :: nat
  results :: "call_result list"

text \<open>\<open>setAcquistionOnOff(true)\<close>: the worker's thread is started.\<close>

definition dma_start :: "(nat \<Rightarrow> u64 list) \<Rightarrow> u64 list list \<Rightarrow> dma" where
  "dma_start mem rs = \<lparr>buf_data = mem, buf_filled = (\<lambda>_. 0), buf_consumed = (\<lambda>_. 0), bufferSetWrPtr = 0, bufferSetRdPtr = 0,
     bufferSetThreadValid = True, bufferSetThreadStop = False, currentBuffer = None, filler = Checks, taker = Outside,
     switch = Acquiring, next_reads = rs, blocks = [], released = 0, results = []\<rparr>"

definition dma_full :: "dma \<Rightarrow> bool" where
  "dma_full s \<longleftrightarrow> bufferSetWrPtr s mod N_BUFFER = bufferSetRdPtr s mod N_BUFFER \<and> bufferSetWrPtr s \<noteq> bufferSetRdPtr s"

definition next_ptr :: "nat \<Rightarrow> nat" where
  "next_ptr p = (p + 1) mod (2 * N_BUFFER)"

definition signal_filled :: "taker \<Rightarrow> taker" where
  "signal_filled t = (if t = WaitsFilled then Inside else t)"

definition signal_consumed :: "filler \<Rightarrow> filler" where
  "signal_consumed f = (if f = WaitsConsumed then Checks else f)"

text \<open>\<^verbatim>\<open>read\<close> writes the words it has over the beginning of the buffer.\<close>

definition read_into :: "nat \<Rightarrow> u64 list \<Rightarrow> dma \<Rightarrow> dma" where
  "read_into k b s =
     (let m = b @ drop (length b) (buf_data s k) in
      s\<lparr>buf_data := (buf_data s)(k := m), buf_filled := (buf_filled s)(k := length b), buf_consumed := (buf_consumed s)(k := 0),
        blocks := blocks s @ [(length b, m)]\<rparr>)"

section \<open>Steps\<close>

inductive dma_step :: "dma \<Rightarrow> dma \<Rightarrow> bool" where
  quits: "filler s = Checks \<Longrightarrow> bufferSetThreadStop s \<Longrightarrow> dma_step s (s\<lparr>filler := FillerExited\<rparr>)"
| full: "filler s = Checks \<Longrightarrow> \<not> bufferSetThreadStop s \<Longrightarrow> dma_full s \<Longrightarrow> dma_step s (s\<lparr>filler := WaitsConsumed\<rparr>)"
| selects: "filler s = Checks \<Longrightarrow> \<not> bufferSetThreadStop s \<Longrightarrow> \<not> dma_full s \<Longrightarrow>
    dma_step s (s\<lparr>filler := ReadsInto (bufferSetWrPtr s mod N_BUFFER)\<rparr>)"
| reads: "filler s = ReadsInto k \<Longrightarrow> next_reads s = b # bs \<Longrightarrow> length b \<le> BUFFER_SIZE \<Longrightarrow>
    dma_step s ((read_into k b s)\<lparr>filler := Publishes, next_reads := bs\<rparr>)"
| publishes: "filler s = Publishes \<Longrightarrow>
    dma_step s (s\<lparr>filler := SignalsFilled, bufferSetWrPtr := next_ptr (bufferSetWrPtr s)\<rparr>)"
| signals_filled: "filler s = SignalsFilled \<Longrightarrow> dma_step s (s\<lparr>filler := Checks, taker := signal_filled (taker s)\<rparr>)"
| calls: "taker s = Outside \<Longrightarrow> bufferSetThreadValid s \<Longrightarrow> dma_step s (s\<lparr>taker := Inside\<rparr>)"
| empty: "taker s = Inside \<Longrightarrow> currentBuffer s = None \<Longrightarrow> bufferSetWrPtr s = bufferSetRdPtr s \<Longrightarrow>
    dma_step s (s\<lparr>taker := WaitsFilled\<rparr>)"
| takes: "taker s = Inside \<Longrightarrow> currentBuffer s = None \<Longrightarrow> bufferSetWrPtr s \<noteq> bufferSetRdPtr s \<Longrightarrow>
    dma_step s (s\<lparr>currentBuffer := Some (bufferSetRdPtr s mod N_BUFFER)\<rparr>)"
| returns: "taker s = Inside \<Longrightarrow> currentBuffer s = Some k \<Longrightarrow> buf_consumed s k < buf_filled s k \<Longrightarrow>
    card_header (buf_data s k) (buf_consumed s k) = Some (Some n) \<Longrightarrow>
    dma_step s (s\<lparr>taker := Outside, buf_consumed := (buf_consumed s)(k := buf_consumed s k + n),
      results := results s @ [FrameAt (take n (drop (buf_consumed s k) (buf_data s k)))]\<rparr>)"
| bad: "taker s = Inside \<Longrightarrow> currentBuffer s = Some k \<Longrightarrow> buf_consumed s k < buf_filled s k \<Longrightarrow>
    card_header (buf_data s k) (buf_consumed s k) = Some None \<Longrightarrow>
    dma_step s (s\<lparr>buf_consumed := (buf_consumed s)(k := buf_filled s k)\<rparr>)"
| crashes: "taker s = Inside \<Longrightarrow> currentBuffer s = Some k \<Longrightarrow> buf_consumed s k < buf_filled s k \<Longrightarrow>
    card_header (buf_data s k) (buf_consumed s k) = None \<Longrightarrow> dma_step s (s\<lparr>taker := Crashed\<rparr>)"
| releases: "taker s = Inside \<Longrightarrow> currentBuffer s = Some k \<Longrightarrow> buf_filled s k \<le> buf_consumed s k \<Longrightarrow>
    dma_step s (s\<lparr>currentBuffer := None, bufferSetRdPtr := next_ptr (bufferSetRdPtr s), released := released s + 1,
      taker := Releases (buf_filled s k = 0)\<rparr>)"
| signals_consumed: "taker s = Releases wasEmpty \<Longrightarrow>
    dma_step s (s\<lparr>filler := signal_consumed (filler s), taker := (if wasEmpty then Outside else Inside),
      results := results s @ (if wasEmpty then [NoFrame] else [])\<rparr>)"

text \<open>\<open>setAcquistionOnOff(false)\<close>: the flag, the signal and the end of the thread.\<close>

inductive stop_step :: "dma \<Rightarrow> dma \<Rightarrow> bool" where
  "switch s = Acquiring \<Longrightarrow> stop_step s (s\<lparr>switch := Stopping, bufferSetThreadStop := True\<rparr>)"
| "switch s = Stopping \<Longrightarrow> stop_step s (s\<lparr>switch := JoiningFiller, filler := signal_consumed (filler s)\<rparr>)"
| "switch s = JoiningFiller \<Longrightarrow> filler s = FillerExited \<Longrightarrow> stop_step s (s\<lparr>switch := Stopped, bufferSetThreadValid := False\<rparr>)"

text \<open>A thread that waits may wake up without a signal.\<close>

inductive dma_spurious :: "dma \<Rightarrow> dma \<Rightarrow> bool" where
  "dma_spurious s (s\<lparr>taker := signal_filled (taker s)\<rparr>)"
| "dma_spurious s (s\<lparr>filler := signal_consumed (filler s)\<rparr>)"

definition dma_any :: "dma \<Rightarrow> dma \<Rightarrow> bool" where
  "dma_any s s' \<longleftrightarrow> dma_step s s' \<or> stop_step s s' \<or> dma_spurious s s'"

section \<open>What a block holds\<close>

function frames_in_block :: "u64 list \<Rightarrow> nat \<Rightarrow> nat \<Rightarrow> u64 list list" where
  "frames_in_block m n c =
     (if n \<le> c then []
      else case card_header m c of
        Some (Some k) \<Rightarrow> take k (drop c m) # frames_in_block m n (c + k)
      | _ \<Rightarrow> [])"
  by pat_completeness auto
termination
  by (relation "measure (\<lambda>(m, n, c). n - c)") (use card_header_size in fastforce)+

declare frames_in_block.simps [simp del]

definition block_results :: "nat \<times> u64 list \<Rightarrow> call_result list" where
  "block_results b = (if fst b = 0 then [NoFrame] else map FrameAt (frames_in_block (snd b) (fst b) 0))"

text \<open>What the buffer in hand still gives.\<close>

definition in_hand :: "dma \<Rightarrow> call_result list" where
  "in_hand s =
     (case currentBuffer s of
        Some k \<Rightarrow> if buf_filled s k = 0 then [NoFrame]
                   else map FrameAt (frames_in_block (buf_data s k) (buf_filled s k) (buf_consumed s k))
      | None \<Rightarrow> if taker s = Releases True then [NoFrame] else [])"

definition taken_blocks :: "dma \<Rightarrow> nat" where
  "taken_blocks s = released s + (if currentBuffer s = None then 0 else 1)"

text \<open>How many blocks have been published.\<close>

definition published :: "dma \<Rightarrow> nat" where
  "published s = length (blocks s) - (if filler s = Publishes then 1 else 0)"

definition slots_ok :: "dma \<Rightarrow> bool" where
  "slots_ok s \<longleftrightarrow> (\<forall>i. released s \<le> i \<longrightarrow> i < length (blocks s) \<longrightarrow>
     (buf_filled s (i mod 2), buf_data s (i mod 2)) = blocks s ! i \<and>
     (taken_blocks s \<le> i \<longrightarrow> buf_consumed s (i mod 2) = 0))"

definition pointers_ok :: "dma \<Rightarrow> bool" where
  "pointers_ok s \<longleftrightarrow> bufferSetWrPtr s = published s mod 4 \<and> bufferSetRdPtr s = released s mod 4 \<and>
     released s \<le> published s \<and> length (blocks s) \<le> released s + 2 \<and> (filler s = Publishes \<longrightarrow> blocks s \<noteq> []) \<and>
     (currentBuffer s \<noteq> None \<longrightarrow> released s < published s \<and> currentBuffer s = Some (released s mod 2)) \<and>
     (\<forall>k. filler s = ReadsInto k \<longrightarrow> k = length (blocks s) mod 2 \<and> length (blocks s) < released s + 2)"

definition results_ok :: "dma \<Rightarrow> bool" where
  "results_ok s \<longleftrightarrow> results s @ in_hand s = concat (map block_results (take (taken_blocks s) (blocks s)))"

definition taker_ok :: "dma \<Rightarrow> bool" where
  "taker_ok s \<longleftrightarrow> (\<forall>e. taker s = Releases e \<longrightarrow> currentBuffer s = None) \<and> (taker s = WaitsFilled \<longrightarrow> currentBuffer s = None) \<and>
     (taker s = Crashed \<longrightarrow> currentBuffer s \<noteq> None)"

definition dma_inv :: "dma \<Rightarrow> bool" where
  "dma_inv s \<longleftrightarrow> pointers_ok s \<and> slots_ok s \<and> results_ok s \<and> taker_ok s"

lemma dma_inv_start: "dma_inv (dma_start mem rs)"
  by (simp add: dma_inv_def pointers_ok_def slots_ok_def results_ok_def taker_ok_def dma_start_def published_def in_hand_def
      taken_blocks_def)

lemma next_ptr_mod: "next_ptr (n mod 4) = (n + 1) mod 4"
  by (simp add: next_ptr_def N_BUFFER_def mod_Suc_eq)

lemmas dma_defs = pointers_ok_def slots_ok_def results_ok_def taker_ok_def published_def in_hand_def taken_blocks_def

lemma ring_of_two:
  fixes r d :: nat
  assumes "d \<le> 2"
  shows "(r + d) mod 4 = r mod 4 \<longleftrightarrow> d = 0" and "(r + d) mod 4 mod 2 = r mod 4 mod 2 \<longleftrightarrow> d \<noteq> 1"
proof -
  have d: "d = 0 \<or> d = 1 \<or> d = 2" using assms by linarith
  have sum: "(r + d) mod 4 = (r mod 4 + d) mod 4" by (simp add: mod_add_left_eq)
  have "r mod 4 < 4" by simp
  then have "r mod 4 = 0 \<or> r mod 4 = 1 \<or> r mod 4 = 2 \<or> r mod 4 = 3" by linarith
  then show "(r + d) mod 4 = r mod 4 \<longleftrightarrow> d = 0" "(r + d) mod 4 mod 2 = r mod 4 mod 2 \<longleftrightarrow> d \<noteq> 1"
    unfolding sum using d by (elim disjE; simp)+
qed

lemma published_ahead:
  assumes "pointers_ok s"
  obtains d where "published s = released s + d" and "d \<le> 2"
proof
  have "released s \<le> published s" "published s \<le> released s + 2"
    using assms by (auto simp: pointers_ok_def published_def)
  then show "published s = released s + (published s - released s)" "published s - released s \<le> 2" by simp_all
qed

lemma published_full:
  assumes "pointers_ok s"
  shows "dma_full s \<longleftrightarrow> published s = released s + 2"
proof -
  obtain d where d: "published s = released s + d" "d \<le> 2" by (rule published_ahead [OF assms])
  have "bufferSetWrPtr s = (released s + d) mod 4" "bufferSetRdPtr s = released s mod 4"
    using assms d(1) by (simp_all add: pointers_ok_def)
  then have "dma_full s \<longleftrightarrow> d \<noteq> 1 \<and> d \<noteq> 0" unfolding dma_full_def N_BUFFER_def by (simp only: ring_of_two [OF d(2)] not_False_eq_True)
  then show ?thesis using d by auto
qed

lemma pointers_equal:
  assumes "pointers_ok s"
  shows "bufferSetWrPtr s = bufferSetRdPtr s \<longleftrightarrow> published s = released s"
proof -
  obtain d where d: "published s = released s + d" "d \<le> 2" by (rule published_ahead [OF assms])
  then show ?thesis using assms ring_of_two(1) [OF d(2), of "released s"] by (simp add: pointers_ok_def)
qed

lemma pointers_ok_step: "dma_step s s' \<Longrightarrow> dma_inv s \<Longrightarrow> pointers_ok s'"
proof (induction rule: dma_step.induct)
  case (selects s)
  then have p: "pointers_ok s" "published s < released s + 2"
    using published_full [of s] by (auto simp: dma_inv_def pointers_ok_def published_def)
  then have "bufferSetWrPtr s mod N_BUFFER = length (blocks s) mod 2" "length (blocks s) < released s + 2"
    using selects(1) by (simp_all add: pointers_ok_def published_def N_BUFFER_def mod_mod_cancel)
  with p selects(1) show ?case by (simp add: pointers_ok_def published_def)
next
  case (takes s)
  then have "released s < published s" using pointers_equal [of s] by (auto simp: dma_inv_def pointers_ok_def)
  with takes show ?case by (auto simp: dma_inv_def pointers_ok_def published_def N_BUFFER_def mod_mod_cancel)
next
  case (publishes s)
  then have "published (s\<lparr>filler := SignalsFilled, bufferSetWrPtr := next_ptr (bufferSetWrPtr s)\<rparr>) = published s + 1"
    by (cases "blocks s") (simp_all add: dma_inv_def pointers_ok_def published_def)
  with publishes show ?case by (auto simp: dma_inv_def pointers_ok_def next_ptr_mod)
next
  case (releases s k)
  then show ?case by (auto simp: dma_inv_def pointers_ok_def published_def next_ptr_mod)
qed (auto simp: dma_inv_def pointers_ok_def published_def read_into_def Let_def signal_consumed_def)

lemma slot_of_current:
  assumes "dma_inv s" and "currentBuffer s = Some k"
  shows "k = released s mod 2" and "released s < length (blocks s)" and "(buf_filled s k, buf_data s k) = blocks s ! released s"
  using assms by (auto simp: dma_inv_def pointers_ok_def slots_ok_def published_def)

text \<open>Two blocks that are both in the buffers are in different ones.\<close>

lemma slots_apart: "r \<le> i \<Longrightarrow> i < r + 2 \<Longrightarrow> r \<le> j \<Longrightarrow> j < r + (2 :: nat) \<Longrightarrow> i mod 2 = j mod 2 \<Longrightarrow> i = j"
proof -
  assume a: "r \<le> i" "i < r + 2" "r \<le> j" "j < r + 2" "i mod 2 = j mod 2"
  then have "i = r \<or> i = r + 1" "j = r \<or> j = r + 1" by linarith+
  with a(5) show ?thesis by (auto simp: mod_Suc split: if_splits)
qed

lemma slots_ok_step: "dma_step s s' \<Longrightarrow> dma_inv s \<Longrightarrow> slots_ok s'"
proof (induction rule: dma_step.induct)
  case (reads s k b bs)
  let ?m = "b @ drop (length b) (buf_data s k)" and ?n = "length (blocks s)"
  have k: "k = ?n mod 2" "?n < released s + 2" and old: "slots_ok s"
    using reads by (simp_all add: dma_inv_def pointers_ok_def)
  have "i mod 2 \<noteq> k" if "released s \<le> i" "i < ?n" for i
    using that k slots_apart [of "released s" i ?n] by auto
  with old show ?case by (auto simp: slots_ok_def read_into_def Let_def taken_blocks_def nth_append k(1) less_Suc_eq)
next
  case (returns s k n)
  have k: "k = released s mod 2" "taken_blocks s = released s + 1" "length (blocks s) \<le> released s + 2"
    using slot_of_current(1) [of s k] returns by (auto simp: taken_blocks_def dma_inv_def pointers_ok_def)
  have "i mod 2 \<noteq> k" if "released s + 1 \<le> i" "i < length (blocks s)" for i
    using that k slots_apart [of "released s" i "released s"] by auto
  with returns k(2) show ?case by (auto simp: dma_inv_def slots_ok_def taken_blocks_def)
next
  case (bad s k)
  have k: "k = released s mod 2" "taken_blocks s = released s + 1" "length (blocks s) \<le> released s + 2"
    using slot_of_current(1) [of s k] bad by (auto simp: taken_blocks_def dma_inv_def pointers_ok_def)
  have "i mod 2 \<noteq> k" if "released s + 1 \<le> i" "i < length (blocks s)" for i
    using that k slots_apart [of "released s" i "released s"] by auto
  with bad k(2) show ?case by (auto simp: dma_inv_def slots_ok_def taken_blocks_def)
qed (auto simp: dma_inv_def slots_ok_def taken_blocks_def)

lemma taker_ok_step: "dma_step s s' \<Longrightarrow> dma_inv s \<Longrightarrow> taker_ok s'"
  by (induction rule: dma_step.induct) (auto simp: dma_inv_def taker_ok_def read_into_def Let_def signal_filled_def)

lemma in_hand_cong:
  assumes "currentBuffer s' = currentBuffer s" and "taker s' = Releases True \<longleftrightarrow> taker s = Releases True"
    and "\<And>k. currentBuffer s = Some k \<Longrightarrow> buf_filled s' k = buf_filled s k \<and> buf_data s' k = buf_data s k \<and> buf_consumed s' k = buf_consumed s k"
  shows "in_hand s' = in_hand s"
  using assms by (auto simp: in_hand_def split: option.split)

lemma results_ok_keep:
  assumes "results_ok s" and "in_hand s' = in_hand s" and "results s' = results s" and "released s' = released s"
    and "currentBuffer s' = currentBuffer s" and "take (taken_blocks s) (blocks s') = take (taken_blocks s) (blocks s)"
  shows "results_ok s'"
  using assms by (simp add: results_ok_def taken_blocks_def)

lemma taken_published: "dma_inv s \<Longrightarrow> taken_blocks s \<le> length (blocks s)"
  by (auto simp: dma_inv_def pointers_ok_def taken_blocks_def published_def)

lemma results_ok_step: "dma_step s s' \<Longrightarrow> dma_inv s \<Longrightarrow> results_ok s'"
proof (induction rule: dma_step.induct)
  case (reads s k b bs)
  let ?s = "(read_into k b s)\<lparr>filler := Publishes, next_reads := bs\<rparr>"
  have k: "k = length (blocks s) mod 2" "length (blocks s) < released s + 2"
    using reads by (simp_all add: dma_inv_def pointers_ok_def)
  have "j \<noteq> k" if "currentBuffer s = Some j" for j
    using slot_of_current(1,2) [OF reads(4) that] k slots_apart [of "released s" "released s" "length (blocks s)"] by auto
  then have "in_hand ?s = in_hand s" by (intro in_hand_cong) (auto simp: read_into_def Let_def)
  moreover have "results_ok s" using reads(4) by (simp add: dma_inv_def)
  moreover have "results ?s = results s" "released ?s = released s" "currentBuffer ?s = currentBuffer s"
    "blocks ?s = blocks s @ [(length b, b @ drop (length b) (buf_data s k))]"
    by (simp_all add: read_into_def Let_def)
  ultimately show ?case using taken_published [OF reads(4)] results_ok_keep [of s ?s] by (simp only: take_append) simp
next
  case (takes s)
  then have r: "released s < length (blocks s)" "bufferSetRdPtr s mod N_BUFFER = released s mod 2"
    using pointers_equal [of s] by (auto simp: dma_inv_def pointers_ok_def published_def N_BUFFER_def mod_mod_cancel)
  then have "blocks s ! released s = (buf_filled s (released s mod 2), buf_data s (released s mod 2))"
    "buf_consumed s (released s mod 2) = 0"
    using takes by (auto simp: dma_inv_def slots_ok_def taken_blocks_def)
  then have "block_results (blocks s ! released s) = in_hand (s\<lparr>currentBuffer := Some (bufferSetRdPtr s mod N_BUFFER)\<rparr>)"
    by (simp add: block_results_def in_hand_def r(2))
  with takes r(1) show ?case by (simp add: dma_inv_def results_ok_def taken_blocks_def take_Suc_conv_app_nth) (simp add: in_hand_def)
next
  case (returns s k n)
  have "frames_in_block (buf_data s k) (buf_filled s k) (buf_consumed s k) =
      take n (drop (buf_consumed s k) (buf_data s k)) # frames_in_block (buf_data s k) (buf_filled s k) (buf_consumed s k + n)"
    using returns by (subst frames_in_block.simps) simp
  with returns show ?case by (simp add: dma_inv_def results_ok_def in_hand_def taken_blocks_def)
next
  case (bad s k)
  have "frames_in_block (buf_data s k) (buf_filled s k) (buf_consumed s k) = []"
    "frames_in_block (buf_data s k) (buf_filled s k) (buf_filled s k) = []"
    using bad by (subst frames_in_block.simps, simp)+
  with bad show ?case by (simp add: dma_inv_def results_ok_def in_hand_def taken_blocks_def)
next
  case (releases s k)
  have "frames_in_block (buf_data s k) (buf_filled s k) (buf_consumed s k) = []"
    using releases by (subst frames_in_block.simps) simp
  with releases show ?case by (auto simp: dma_inv_def results_ok_def in_hand_def taken_blocks_def split: if_splits)
next
  case (signals_consumed s e)
  then show ?case by (cases e) (auto simp: dma_inv_def taker_ok_def results_ok_def in_hand_def taken_blocks_def)
qed (auto simp: dma_inv_def results_ok_def in_hand_def taken_blocks_def signal_filled_def split: option.splits)

lemma dma_inv_step: "dma_step s s' \<Longrightarrow> dma_inv s \<Longrightarrow> dma_inv s'"
  unfolding dma_inv_def [of s'] using pointers_ok_step slots_ok_step results_ok_step taker_ok_step by blast

text \<open>What the switch and spurious wake-ups change, the invariant does not look at.\<close>

lemma dma_inv_other:
  assumes "dma_inv s" and "bufferSetWrPtr s' = bufferSetWrPtr s" and "bufferSetRdPtr s' = bufferSetRdPtr s" and "buf_data s' = buf_data s"
    and "buf_filled s' = buf_filled s" and "buf_consumed s' = buf_consumed s" and "currentBuffer s' = currentBuffer s"
    and "filler s' = signal_consumed (filler s) \<or> filler s' = filler s" and "taker s' = signal_filled (taker s) \<or> taker s' = taker s"
    and "blocks s' = blocks s" and "released s' = released s" and "results s' = results s"
  shows "dma_inv s'"
proof -
  have f: "filler s' = Publishes \<longleftrightarrow> filler s = Publishes" "filler s' = ReadsInto k \<longleftrightarrow> filler s = ReadsInto k" for k
    using assms(8) by (auto simp: signal_consumed_def split: if_splits)
  have t: "taker s' = Releases e \<longleftrightarrow> taker s = Releases e" "taker s' = Crashed \<longleftrightarrow> taker s = Crashed" "taker s' = WaitsFilled \<Longrightarrow> taker s = WaitsFilled" for e
    using assms(9) by (auto simp: signal_filled_def split: if_splits)
  have eqs: "published s' = published s" "taken_blocks s' = taken_blocks s" "in_hand s' = in_hand s"
    by (simp_all add: published_def taken_blocks_def f assms(7,10,11)) (rule in_hand_cong, simp_all add: assms(4-7) t)
  have "pointers_ok s'" "slots_ok s'" "results_ok s'"
    using assms(1) by (simp_all add: dma_inv_def pointers_ok_def slots_ok_def results_ok_def eqs f assms(2-7,10-12))
  moreover have "taker_ok s'" using assms(1) t by (auto simp: dma_inv_def taker_ok_def assms(7))
  ultimately show ?thesis by (simp add: dma_inv_def)
qed

lemma dma_inv_any: "dma_any s s' \<Longrightarrow> dma_inv s \<Longrightarrow> dma_inv s'"
  unfolding dma_any_def
  by (auto intro: dma_inv_step elim!: stop_step.cases dma_spurious.cases elim: dma_inv_other)

lemma dma_inv_reachable: "dma_any\<^sup>*\<^sup>* (dma_start mem rs) s \<Longrightarrow> dma_inv s"
  by (induction rule: rtranclp_induct) (auto intro: dma_inv_start dma_inv_any)


section \<open>Nothing is left behind\<close>

text \<open>Each step without a spurious wake-up uses something up.\<close>

fun filler_weight :: "filler \<Rightarrow> nat" where
  "filler_weight Publishes = 5"
| "filler_weight SignalsFilled = 4"
| "filler_weight Checks = 2"
| "filler_weight WaitsConsumed = 1"
| "filler_weight (ReadsInto k) = 1"
| "filler_weight FillerExited = 0"

fun taker_weight :: "taker \<Rightarrow> nat" where
  "taker_weight (Releases e) = 4"
| "taker_weight Outside = 2"
| "taker_weight Inside = 1"
| "taker_weight WaitsFilled = 0"
| "taker_weight Crashed = 0"

fun switch_weight :: "switch \<Rightarrow> nat" where
  "switch_weight Acquiring = 4"
| "switch_weight Stopping = 3"
| "switch_weight JoiningFiller = 1"
| "switch_weight Stopped = 0"

definition block_weight :: "nat \<Rightarrow> nat" where
  "block_weight n = 10 + 3 * n"

definition current_weight :: "dma \<Rightarrow> nat" where
  "current_weight s = (case currentBuffer s of None \<Rightarrow> 0 | Some k \<Rightarrow> 5 + 3 * (buf_filled s k - buf_consumed s k))"

definition dma_weight :: "dma \<Rightarrow> nat" where
  "dma_weight s = filler_weight (filler s) + taker_weight (taker s) + switch_weight (switch s) + current_weight s +
     sum_list (map (\<lambda>b. block_weight (fst b)) (drop (taken_blocks s) (blocks s))) +
     sum_list (map (\<lambda>b. 5 + block_weight (length b)) (next_reads s))"

lemma signal_weights:
  "filler_weight (signal_consumed f) \<le> filler_weight f + 1" "taker_weight (signal_filled t) \<le> taker_weight t + 1"
  by (simp_all add: signal_consumed_def signal_filled_def)

lemma dma_step_weight: "dma_step s s' \<Longrightarrow> dma_inv s \<Longrightarrow> dma_weight s' < dma_weight s"
proof (induction rule: dma_step.induct)
  case (reads s k b bs)
  let ?s = "(read_into k b s)\<lparr>filler := Publishes, next_reads := bs\<rparr>"
  have k: "k = length (blocks s) mod 2" "length (blocks s) < released s + 2"
    using reads by (simp_all add: dma_inv_def pointers_ok_def)
  have "j \<noteq> k" if "currentBuffer s = Some j" for j
    using slot_of_current(1,2) [OF reads(4) that] k slots_apart [of "released s" "released s" "length (blocks s)"] by auto
  then have "current_weight ?s = current_weight s" by (simp add: current_weight_def read_into_def Let_def split: option.split)
  moreover have "taken_blocks ?s = taken_blocks s" "taker ?s = taker s" "switch ?s = switch s" "filler ?s = Publishes" "next_reads ?s = bs"
    "blocks ?s = blocks s @ [(length b, b @ drop (length b) (buf_data s k))]"
    by (simp_all add: read_into_def Let_def taken_blocks_def)
  ultimately show ?case
    unfolding dma_weight_def using taken_published [OF reads(4)] reads(1,2) by (simp add: block_weight_def)
next
  case (takes s)
  then have r: "released s < length (blocks s)" "bufferSetRdPtr s mod N_BUFFER = released s mod 2"
    using pointers_equal [of s] by (auto simp: dma_inv_def pointers_ok_def published_def N_BUFFER_def mod_mod_cancel)
  then have b: "fst (blocks s ! released s) = buf_filled s (released s mod 2)"
    using takes by (auto simp: dma_inv_def slots_ok_def dest!: sym [of _ "blocks s ! released s"])
  have "drop (released s) (blocks s) = blocks s ! released s # drop (released s + 1) (blocks s)"
    using r(1) by (simp add: Cons_nth_drop_Suc)
  then show ?case using takes(2) b r(2) by (simp add: dma_weight_def current_weight_def taken_blocks_def block_weight_def)
next
  case (signals_filled s)
  then show ?case using signal_weights(2) [of "taker s"] by (simp add: dma_weight_def current_weight_def taken_blocks_def cong: option.case_cong)
next
  case (signals_consumed s e)
  then show ?case using signal_weights(1) [of "filler s"] by (simp add: dma_weight_def current_weight_def taken_blocks_def cong: option.case_cong)
next
  case (returns s k n)
  then show ?case using card_header_size [of "buf_data s k" "buf_consumed s k" n]
    by (simp add: dma_weight_def current_weight_def taken_blocks_def)
qed (simp_all add: dma_weight_def current_weight_def taken_blocks_def cong: option.case_cong)

text \<open>No wake-up is lost: who waits has nothing to do, or a signal is on its way.\<close>

definition dma_alive :: "dma \<Rightarrow> bool" where
  "dma_alive s \<longleftrightarrow> bufferSetThreadValid s \<and> \<not> bufferSetThreadStop s \<and> switch s = Acquiring \<and> filler s \<noteq> FillerExited \<and>
     (taker s = WaitsFilled \<longrightarrow> published s = released s \<or> filler s = SignalsFilled) \<and>
     (filler s = WaitsConsumed \<longrightarrow> published s = released s + 2 \<or> (\<exists>e. taker s = Releases e))"

lemma dma_alive_step: "dma_step s s' \<Longrightarrow> dma_inv s \<Longrightarrow> dma_alive s \<Longrightarrow> dma_alive s'"
proof (induction rule: dma_step.induct)
  case (full s)
  then show ?case using published_full [of s] by (auto simp: dma_alive_def dma_inv_def published_def)
next
  case (empty s)
  then show ?case using pointers_equal [of s] by (auto simp: dma_alive_def dma_inv_def published_def)
qed (auto simp: dma_alive_def published_def read_into_def Let_def signal_filled_def signal_consumed_def dma_inv_def taker_ok_def)

text \<open>Blocks of whole frames, and the memory they are read into.\<close>

definition card_frame :: "u64 list \<Rightarrow> bool" where
  "card_frame f \<longleftrightarrow> card_header f 0 = Some (Some (length f))"

definition whole :: "nat \<times> u64 list \<Rightarrow> u64 list list \<Rightarrow> bool" where
  "whole b fs \<longleftrightarrow> (\<exists>tail. snd b = concat fs @ tail) \<and> fst b = length (concat fs)"

lemma card_header_at:
  assumes "card_frame f"
  shows "card_header (pre @ f @ post) (length pre) = Some (Some (length f))"
proof -
  have h: "card_header f 0 = Some (Some (length f))" using assms by (simp add: card_frame_def)
  then have "2 \<le> length f" by (rule card_header_size)
  then obtain w0 w1 ws where f: "f = w0 # w1 # ws" by (cases f rule: list.exhaust, simp, rename_tac a as, case_tac as) auto
  have "at (pre @ f @ post) (length pre) = at f 0" "at (pre @ f @ post) (Suc (length pre)) = at f (Suc 0)"
    using at_append_right [of pre "f @ post" 0] at_append_right [of pre "f @ post" 1] by (simp_all add: f at_def)
  then show ?thesis using h by (simp add: card_header_def)
qed

lemma block_frames_whole:
  "\<forall>f \<in> set fs. card_frame f \<Longrightarrow> frames_in_block (pre @ concat fs @ tail) (length pre + length (concat fs)) (length pre) = fs"
proof (induction fs arbitrary: pre)
  case (Cons f fs)
  let ?m = "pre @ concat (f # fs) @ tail" and ?n = "length pre + length (concat (f # fs))"
  have h: "card_header ?m (length pre) = Some (Some (length f))"
    using card_header_at [of f pre "concat fs @ tail"] Cons.prems by simp
  have "0 < length f" using Cons.prems card_header_size [of f 0 "length f"] by (fastforce simp: card_frame_def)
  then have more: "\<not> ?n \<le> length pre" by simp
  have "take (length f) (drop (length pre) ?m) = f" by simp
  with more h have "frames_in_block ?m ?n (length pre) = f # frames_in_block ?m ?n (length pre + length f)"
    by (simp only: frames_in_block.simps [of ?m ?n "length pre"] if_False option.case)
  also have "\<dots> = f # frames_in_block ((pre @ f) @ concat fs @ tail) (length (pre @ f) + length (concat fs)) (length (pre @ f))"
    by (simp add: add.assoc)
  also have "\<dots> = f # fs" using Cons.IH [of "pre @ f"] Cons.prems by simp
  finally show ?case .
qed (simp add: frames_in_block.simps)

definition read_results :: "u64 list list \<Rightarrow> call_result list" where
  "read_results fs = (if fs = [] then [NoFrame] else map FrameAt fs)"

lemma block_results_whole:
  assumes "whole b fs" and "\<forall>f \<in> set fs. card_frame f"
  shows "block_results b = read_results fs"
proof -
  obtain tail where t: "snd b = concat fs @ tail" using assms(1) by (auto simp: whole_def)
  have "f \<noteq> []" if "f \<in> set fs" for f
    using that assms(2) card_header_size [of f 0 "length f"] by (auto simp: card_frame_def)
  then have none: "length (concat fs) = 0 \<longleftrightarrow> fs = []" by (cases fs) auto
  have n: "fst b = length (concat fs)" using assms(1) by (simp add: whole_def)
  have "frames_in_block (snd b) (fst b) 0 = fs" using block_frames_whole [OF assms(2), of "[]" tail] by (simp add: t n)
  then show ?thesis unfolding block_results_def read_results_def n none by simp
qed

definition aligned :: "u64 list \<Rightarrow> nat \<Rightarrow> nat \<Rightarrow> bool" where
  "aligned m n c \<longleftrightarrow> (\<exists>fs tail. drop c m = concat fs @ tail \<and> n = c + length (concat fs) \<and> (\<forall>f \<in> set fs. card_frame f))"

lemma aligned_header:
  assumes "aligned m n c" and "c < n"
  obtains k where "card_header m c = Some (Some k)" and "aligned m n (c + k)"
proof -
  obtain fs tail where fs: "drop c m = concat fs @ tail" "n = c + length (concat fs)" "\<forall>f \<in> set fs. card_frame f"
    using assms(1) by (auto simp: aligned_def)
  with assms(2) obtain f gs where f: "fs = f # gs" by (cases fs) auto
  have "0 < length (drop c m)" using fs(1,2) assms(2) by simp
  then have c: "c \<le> length m" by simp
  have m: "m = take c m @ f @ (concat gs @ tail)" using fs(1) append_take_drop_id [of c m] by (simp add: f)
  have "card_header m c = Some (Some (length f))"
    using card_header_at [of f "take c m" "concat gs @ tail"] fs(3) c by (simp add: f m [symmetric] min_absorb2)
  moreover have "drop (c + length f) m = drop (length f) (drop c m)" by (simp add: add.commute)
  then have "drop (c + length f) m = concat gs @ tail" unfolding fs(1) by (simp add: f)
  then have "aligned m n (c + length f)" using fs(2,3) unfolding aligned_def by (intro exI [of _ gs] exI [of _ tail]) (simp add: f)
  ultimately show thesis by (rule that)
qed

definition fed :: "u64 list list list \<Rightarrow> (nat \<times> u64 list) list \<Rightarrow> u64 list list \<Rightarrow> bool" where
  "fed fss bs rs \<longleftrightarrow> (\<exists>done todo. fss = done @ todo \<and> list_all2 whole bs done \<and> rs = map concat todo)"

definition feeds :: "u64 list list list \<Rightarrow> dma \<Rightarrow> bool" where
  "feeds fss s \<longleftrightarrow> fed fss (blocks s) (next_reads s) \<and>
     (\<forall>k. currentBuffer s = Some k \<longrightarrow> aligned (buf_data s k) (buf_filled s k) (buf_consumed s k)) \<and> taker s \<noteq> Crashed"

lemma feeds_step: "dma_step s s' \<Longrightarrow> dma_inv s \<Longrightarrow> \<forall>fs \<in> set fss. \<forall>f \<in> set fs. card_frame f \<Longrightarrow> feeds fss s \<Longrightarrow> feeds fss s'"
proof (induction rule: dma_step.induct)
  case (reads s k b bs)
  let ?s = "(read_into k b s)\<lparr>filler := Publishes, next_reads := bs\<rparr>"
  have k: "k = length (blocks s) mod 2" "length (blocks s) < released s + 2"
    using reads by (simp_all add: dma_inv_def pointers_ok_def)
  have other: "j \<noteq> k" if "currentBuffer s = Some j" for j
    using slot_of_current(1,2) [OF reads(4) that] k slots_apart [of "released s" "released s" "length (blocks s)"] by auto
  obtain "done" todo where t: "fss = done @ todo" "list_all2 whole (blocks s) done" "b # bs = map concat todo"
    using reads(2,6) by (auto simp: feeds_def fed_def)
  from t(3) obtain fs rest where f: "todo = fs # rest" "b = concat fs" "bs = map concat rest" by (cases todo) auto
  have "whole (length b, b @ drop (length b) (buf_data s k)) fs" by (auto simp: whole_def f(2))
  with t(2) have "list_all2 whole (blocks ?s) (done @ [fs])"
    by (simp add: read_into_def Let_def list_all2_appendI)
  moreover have "fss = (done @ [fs]) @ rest" "next_reads ?s = map concat rest" using t(1) f by simp_all
  moreover have "\<forall>j. currentBuffer ?s = Some j \<longrightarrow> aligned (buf_data ?s j) (buf_filled ?s j) (buf_consumed ?s j)" "taker ?s \<noteq> Crashed"
    using reads(6) other by (auto simp: feeds_def read_into_def Let_def)
  ultimately show ?case unfolding feeds_def fed_def by blast
next
  case (takes s)
  let ?k = "released s mod 2"
  have r: "released s < length (blocks s)" "bufferSetRdPtr s mod N_BUFFER = ?k"
    using takes pointers_equal [of s] by (auto simp: dma_inv_def pointers_ok_def published_def N_BUFFER_def mod_mod_cancel)
  then have b: "(buf_filled s ?k, buf_data s ?k) = blocks s ! released s" "buf_consumed s ?k = 0"
    using takes by (simp_all add: dma_inv_def slots_ok_def taken_blocks_def)
  obtain "done" todo where t: "fss = done @ todo" "list_all2 whole (blocks s) done" using takes(6) by (auto simp: feeds_def fed_def)
  then have "whole (blocks s ! released s) (done ! released s)" "done ! released s \<in> set fss"
    using r(1) by (auto simp: list_all2_conv_all_nth)
  then have "aligned (buf_data s ?k) (buf_filled s ?k) (buf_consumed s ?k)"
    using takes(5) unfolding b(1) [symmetric] b(2) aligned_def by (intro exI [of _ "done ! released s"]) (auto simp: whole_def)
  then show ?case using takes(6) by (auto simp: feeds_def r(2))
next
  case (returns s k n)
  then have "aligned (buf_data s k) (buf_filled s k) (buf_consumed s k)" by (simp add: feeds_def)
  then have "aligned (buf_data s k) (buf_filled s k) (buf_consumed s k + n)"
    using returns(3,4) by - (erule (1) aligned_header, simp)
  moreover have "fed fss (blocks s) (next_reads s)" using returns by (simp only: feeds_def)
  ultimately show ?case using returns(2) unfolding feeds_def by (simp (no_asm_simp))
next
  case (bad s k)
  then have "aligned (buf_data s k) (buf_filled s k) (buf_consumed s k)" by (simp add: feeds_def)
  then show ?case using bad(3,4) by - (erule (1) aligned_header, simp)
next
  case (crashes s k)
  then have "aligned (buf_data s k) (buf_filled s k) (buf_consumed s k)" by (simp add: feeds_def)
  then show ?case using crashes(3,4) by - (erule (1) aligned_header, simp)
qed (auto simp: feeds_def signal_filled_def)

lemma dma_progress:
  assumes "dma_inv s" and "dma_alive s" and "feeds fss s" and "\<forall>r \<in> set (next_reads s). length r \<le> BUFFER_SIZE"
    and "\<not> (\<exists>s'. dma_step s s')"
  shows "next_reads s = [] \<and> taken_blocks s = length (blocks s) \<and> in_hand s = []"
proof -
  note stuck = assms(5)
  have inv: "pointers_ok s" "taker_ok s" using assms(1) by (simp_all add: dma_inv_def)
  have inside: "taker s \<noteq> Inside"
  proof
    assume t: "taker s = Inside"
    show False
    proof (cases "currentBuffer s")
      case None
      then show False using stuck t empty takes by blast
    next
      case (Some k)
      then have "aligned (buf_data s k) (buf_filled s k) (buf_consumed s k)" using assms(3) by (simp add: feeds_def)
      then show False using stuck t Some returns releases by (metis aligned_header not_le)
    qed
  qed
  have "taker s \<noteq> Outside" using stuck calls assms(2) by (auto simp: dma_alive_def)
  moreover have "taker s \<noteq> Releases e" for e using stuck signals_consumed by blast
  moreover have "taker s \<noteq> Crashed" using assms(3) by (simp add: feeds_def)
  ultimately have t: "taker s = WaitsFilled" using inside by (cases "taker s") auto
  have filler: "filler s \<noteq> Checks" "filler s \<noteq> Publishes" "filler s \<noteq> SignalsFilled" "filler s \<noteq> FillerExited"
    using stuck quits full selects publishes signals_filled assms(2) unfolding dma_alive_def by blast+
  then have equal: "published s = released s" using assms(2) t by (simp add: dma_alive_def)
  then have "filler s \<noteq> WaitsConsumed" using assms(2) t by (auto simp: dma_alive_def)
  with filler obtain k where "filler s = ReadsInto k" by (cases "filler s") auto
  then have "next_reads s = []" using stuck reads assms(4) by (metis list.set_intros(1) neq_Nil_conv)
  moreover have "currentBuffer s = None" using inv(2) t by (simp add: taker_ok_def)
  ultimately show ?thesis using t equal filler by (simp add: taken_blocks_def in_hand_def published_def)
qed

lemma dma_run:
  "(dma_step ^^ n) (dma_start mem rs) s \<Longrightarrow> dma_inv s \<and> dma_alive s \<and> n + dma_weight s \<le> dma_weight (dma_start mem rs)"
proof (induction n arbitrary: s)
  case 0
  then have s: "s = dma_start mem rs" by simp
  have "dma_alive (dma_start mem rs)" by (simp add: dma_alive_def dma_start_def published_def)
  then show ?case unfolding s by (simp add: dma_inv_start)
next
  case (Suc n)
  then obtain t where t: "(dma_step ^^ n) (dma_start mem rs) t" "dma_step t s" by auto
  from Suc.IH [OF t(1)] have "dma_inv t" "dma_alive t" "n + dma_weight t \<le> dma_weight (dma_start mem rs)" by simp_all
  with t(2) dma_inv_step [OF t(2)] dma_alive_step [OF t(2)] dma_step_weight [OF t(2)] show ?case by simp
qed

lemma dma_run_feeds:
  "(dma_step ^^ n) (dma_start mem (map concat fss)) s \<Longrightarrow> \<forall>fs \<in> set fss. \<forall>f \<in> set fs. card_frame f \<Longrightarrow> feeds fss s"
proof (induction n arbitrary: s)
  case 0
  then have s: "s = dma_start mem (map concat fss)" by simp
  have "fed fss [] (map concat fss)" unfolding fed_def by (rule exI [of _ "[]"]) simp
  then show ?case unfolding s by (simp add: feeds_def dma_start_def)
next
  case (Suc n)
  then obtain t where t: "(dma_step ^^ n) (dma_start mem (map concat fss)) t" "dma_step t s" by auto
  with dma_run [OF t(1)] Suc feeds_step [OF t(2)] show ?case by blast
qed

lemma start_weight: "dma_weight (dma_start mem rs) = 8 + sum_list (map (\<lambda>b. 15 + 3 * length b) rs)"
  by (simp add: dma_weight_def dma_start_def current_weight_def taken_blocks_def block_weight_def add.assoc)

text \<open>
  C15: Neither the thread that reads the card nor the worker waits for ever while there is something to
  do: when the card delivers blocks of whole frames, each within a buffer, then every run without spurious
  wake-ups ends, and where it cannot go on the worker has received every frame of every block, in
  order, and \<^verbatim>\<open>NULL\<close> for every empty block.
\<close>

theorem card_delivers_all:
  assumes "(dma_step ^^ n) (dma_start mem (map concat fss)) s"
    and "\<forall>fs \<in> set fss. length (concat fs) \<le> BUFFER_SIZE \<and> (\<forall>f \<in> set fs. card_frame f)"
  shows "n \<le> 8 + sum_list (map (\<lambda>fs. 15 + 3 * length (concat fs)) fss) \<and>
    ((\<exists>s'. dma_step s s') \<or> results s = concat (map read_results fss))"
proof
  note run = dma_run [OF assms(1)]
  show "n \<le> 8 + sum_list (map (\<lambda>fs. 15 + 3 * length (concat fs)) fss)"
    using run start_weight [of mem "map concat fss"] by (simp add: o_def)
  have good: "\<forall>fs \<in> set fss. \<forall>f \<in> set fs. card_frame f" using assms(2) by blast
  have f: "feeds fss s" by (rule dma_run_feeds [OF assms(1) good])
  then obtain "done" todo where t: "fss = done @ todo" "list_all2 whole (blocks s) done" "next_reads s = map concat todo"
    by (auto simp: feeds_def fed_def)
  have small: "\<forall>r \<in> set (next_reads s). length r \<le> BUFFER_SIZE" using assms(2) unfolding t(1,3) by auto
  have results: "map block_results bs = map read_results gs"
    if "list_all2 whole bs gs" "\<forall>fs \<in> set gs. \<forall>f \<in> set fs. card_frame f" for bs gs
    using that by (induction rule: list_all2_induct) (auto simp: block_results_whole)
  show "(\<exists>s'. dma_step s s') \<or> results s = concat (map read_results fss)"
  proof (cases "\<exists>s'. dma_step s s'")
    case False
    from dma_progress [OF _ _ f small False] run
    have "next_reads s = []" "taken_blocks s = length (blocks s)" "in_hand s = []" by simp_all
    moreover from this(1) t(1,3) have "done = fss" by simp
    ultimately show ?thesis using run results [OF t(2)] good by (simp add: dma_inv_def results_ok_def)
  qed simp
qed

section \<open>Stopping\<close>

definition stopping_ok :: "dma \<Rightarrow> bool" where
  "stopping_ok s \<longleftrightarrow> (bufferSetThreadStop s \<longleftrightarrow> switch s \<noteq> Acquiring) \<and> (filler s = FillerExited \<longrightarrow> bufferSetThreadStop s) \<and>
     (switch s = JoiningFiller \<longrightarrow> filler s \<noteq> WaitsConsumed)"

lemma stopping_ok_step: "dma_step s s' \<or> stop_step s s' \<Longrightarrow> stopping_ok s \<Longrightarrow> stopping_ok s'"
  by (erule disjE, (erule dma_step.cases; auto simp: stopping_ok_def read_into_def Let_def signal_consumed_def))
    (erule stop_step.cases; auto simp: stopping_ok_def signal_consumed_def)

lemma stop_step_weight: "stop_step s s' \<Longrightarrow> dma_weight s' < dma_weight s"
  by (induction rule: stop_step.induct)
    (use signal_weights(1) in \<open>simp_all add: dma_weight_def current_weight_def taken_blocks_def less_Suc_eq_le cong: option.case_cong\<close>)

lemma stop_run:
  "((\<lambda>s s'. dma_step s s' \<or> stop_step s s') ^^ n) (dma_start mem rs) s \<Longrightarrow>
     dma_inv s \<and> stopping_ok s \<and> n + dma_weight s \<le> dma_weight (dma_start mem rs)"
proof (induction n arbitrary: s)
  case 0
  then have s: "s = dma_start mem rs" by simp
  have "stopping_ok (dma_start mem rs)" by (simp add: stopping_ok_def dma_start_def)
  then show ?case unfolding s by (simp add: dma_inv_start)
next
  case (Suc n)
  then obtain t where t: "((\<lambda>s s'. dma_step s s' \<or> stop_step s s') ^^ n) (dma_start mem rs) t" "dma_step t s \<or> stop_step t s" by auto
  from Suc.IH [OF t(1)] have i: "dma_inv t" "stopping_ok t" "n + dma_weight t \<le> dma_weight (dma_start mem rs)" by simp_all
  have "dma_inv s" using dma_inv_any [of t s] t(2) i(1) by (auto simp: dma_any_def)
  moreover have "dma_weight s < dma_weight t" using t(2) dma_step_weight stop_step_weight i(1) by blast
  ultimately show ?case using stopping_ok_step [OF t(2) i(2)] i(3) by simp
qed

text \<open>
  Stopping the acquisition always comes to an end: every run with a stop in it and without spurious
  wake-ups is of bounded length, and where nothing can go on the thread has been joined, unless it
  still waits in \<^verbatim>\<open>read\<close> for the card.
\<close>

theorem stop_joins_filler:
  assumes "((\<lambda>s s'. dma_step s s' \<or> stop_step s s') ^^ n) (dma_start mem rs) s"
    and "\<forall>r \<in> set (next_reads s). length r \<le> BUFFER_SIZE"
  shows "n \<le> 8 + sum_list (map (\<lambda>b. 15 + 3 * length b) rs) \<and>
    ((\<exists>s'. dma_step s s' \<or> stop_step s s') \<or> switch s = Stopped \<or> (\<exists>k. filler s = ReadsInto k) \<and> next_reads s = [])"
proof
  note run = stop_run [OF assms(1)]
  show "n \<le> 8 + sum_list (map (\<lambda>b. 15 + 3 * length b) rs)" using run start_weight [of mem rs] by simp
  show "(\<exists>s'. dma_step s s' \<or> stop_step s s') \<or> switch s = Stopped \<or> (\<exists>k. filler s = ReadsInto k) \<and> next_reads s = []"
  proof (cases "\<exists>s'. dma_step s s' \<or> stop_step s s'")
    case False
    then have stuck: "\<not> (\<exists>s'. dma_step s s')" "\<not> (\<exists>s'. stop_step s s')" by blast+
    have sw: "switch s \<noteq> Acquiring" "switch s \<noteq> Stopping" "switch s = JoiningFiller \<Longrightarrow> filler s \<noteq> FillerExited"
      using stuck(2) stop_step.intros by blast+
    have filler: "filler s \<noteq> Checks" "filler s \<noteq> Publishes" "filler s \<noteq> SignalsFilled"
      using stuck(1) quits full selects publishes signals_filled by blast+
    have "switch s = Stopped \<or> (\<exists>k. filler s = ReadsInto k)"
      using sw filler run by (cases "switch s"; cases "filler s") (auto simp: stopping_ok_def)
    moreover have "next_reads s = []" if "filler s = ReadsInto k" for k
      using stuck(1) reads that assms(2) by (metis list.set_intros(1) neq_Nil_conv)
    ultimately show ?thesis by blast
  qed simp
qed

text \<open>
  The worker, however, may be left behind: when the thread has gone while a call of \<open>getNextFrame\<close> waits
  for it, no step of anybody ends that call (and so no stop of the worker, which joins it, returns).
\<close>

theorem stopped_reader_waits:
  assumes "switch s = Stopped" and "filler s = FillerExited" and "taker s = WaitsFilled"
  shows "\<not> dma_step s s' \<and> \<not> stop_step s s'"
  using assms by (auto elim!: dma_step.cases stop_step.cases)

section \<open>A run\<close>

definition one_frame :: "u64 list" where
  "one_frame = [0x0008002000000000, 0]"

lemma one_frame_good: "card_frame one_frame" "length one_frame = 2" "one_frame \<noteq> []"
  by (simp_all add: card_frame_def card_header_def one_frame_def at_def MaxRawDataFrameSize_def)

lemma sample_dma_run:
  "\<exists>s. (dma_step ^^ 12) (dma_start (\<lambda>_. []) [one_frame]) s \<and> results s = [FrameAt one_frame] \<and> taker s = WaitsFilled \<and>
    (\<forall>s'. \<not> dma_step s s')"
proof -
  let ?R = "\<lambda>n s. (dma_step ^^ n) (dma_start (\<lambda>_. []) [one_frame]) s"
  define s0 where "s0 = dma_start (\<lambda>_. []) [one_frame]"
  define s1 where "s1 = s0\<lparr>filler := ReadsInto 0\<rparr>"
  define s2 where "s2 = (read_into 0 one_frame s1)\<lparr>filler := Publishes, next_reads := []\<rparr>"
  define s3 where "s3 = s2\<lparr>filler := SignalsFilled, bufferSetWrPtr := 1\<rparr>"
  define s4 where "s4 = s3\<lparr>filler := Checks, taker := Outside\<rparr>"
  define s5 where "s5 = s4\<lparr>taker := Inside\<rparr>"
  define s6 where "s6 = s5\<lparr>currentBuffer := Some 0\<rparr>"
  define s7 where "s7 = s6\<lparr>taker := Outside, buf_consumed := (\<lambda>_. 0)(0 := 2), results := [FrameAt one_frame]\<rparr>"
  define s8 where "s8 = s7\<lparr>taker := Inside\<rparr>"
  define s9 where "s9 = s8\<lparr>currentBuffer := None, bufferSetRdPtr := 1, released := 1, taker := Releases False\<rparr>"
  define s10 where "s10 = s9\<lparr>taker := Inside\<rparr>"
  define s11 where "s11 = s10\<lparr>taker := WaitsFilled\<rparr>"
  define s12 where "s12 = s11\<lparr>filler := ReadsInto 1\<rparr>"
  note early = s0_def s1_def s2_def s3_def s4_def s5_def s6_def s7_def dma_start_def read_into_def Let_def
  note d = early s8_def s9_def s10_def s11_def s12_def
  note h = one_frame_good(1) [unfolded card_frame_def]
  have "dma_step s0 s1" using dma_step.selects [of s0] by (simp add: d dma_full_def)
  moreover have "dma_step s1 s2" using dma_step.reads [of s1 0 one_frame "[]"] by (simp add: d one_frame_good BUFFER_SIZE_def)
  moreover have "dma_step s2 s3" using dma_step.publishes [of s2] by (simp add: d next_ptr_def N_BUFFER_def)
  moreover have "dma_step s3 s4" using dma_step.signals_filled [of s3] by (simp add: d signal_filled_def)
  moreover have "dma_step s4 s5" using dma_step.calls [of s4] by (simp add: d)
  moreover have "dma_step s5 s6" using dma_step.takes [of s5] by (simp add: d)
  moreover have "dma_step s6 s7" using dma_step.returns [of s6 0 2] h by (simp add: d one_frame_good numeral_2_eq_2)
  moreover have "dma_step s7 s8" using dma_step.calls [of s7] by (simp add: d)
  moreover have "dma_step s8 s9" using dma_step.releases [of s8 0] by (simp add: d one_frame_good next_ptr_def N_BUFFER_def)
  moreover have "dma_step s9 s10" using dma_step.signals_consumed [of s9 False] by (simp add: d signal_consumed_def)
  moreover have "dma_step s10 s11" using dma_step.empty [of s10] by (simp add: d)
  moreover have "dma_step s11 s12" using dma_step.selects [of s11] by (simp add: d dma_full_def N_BUFFER_def)
  moreover have n: "12 = Suc (Suc (Suc (Suc (Suc (Suc (Suc (Suc (Suc (Suc (Suc (Suc (0))))))))))))" by simp
  ultimately have "?R 12 s12" unfolding s0_def [symmetric] n by (blast intro: relpowp_Suc_I relpowp_0_I)
  moreover have "\<not> dma_step s12 s'" for s' by (auto simp: d elim!: dma_step.cases)
  moreover have "results s12 = [FrameAt one_frame]" "taker s12 = WaitsFilled" by (simp_all add: d)
  ultimately show ?thesis by blast
qed

theorem card_delivers_all_witness:
  "\<exists>s. (dma_step ^^ 12) (dma_start (\<lambda>_. []) (map concat [[one_frame]])) s \<and> results s = concat (map read_results [[one_frame]])"
proof -
  obtain s where s: "(dma_step ^^ 12) (dma_start (\<lambda>_. []) (map concat [[one_frame]])) s" "\<forall>s'. \<not> dma_step s s'"
    using sample_dma_run by auto
  have "\<forall>fs \<in> set [[one_frame]]. length (concat fs) \<le> BUFFER_SIZE \<and> (\<forall>f \<in> set fs. card_frame f)"
    by (simp add: one_frame_good BUFFER_SIZE_def)
  from card_delivers_all [OF s(1) this] s show ?thesis by blast
qed


lemma sample_stop_run:
  "\<exists>s. ((\<lambda>s s'. dma_step s s' \<or> stop_step s s') ^^ 6) (dma_start (\<lambda>_. []) []) s \<and> switch s = Stopped \<and>
    filler s = FillerExited \<and> taker s = WaitsFilled \<and> next_reads s = []"
proof -
  define s0 where "s0 = dma_start (\<lambda>_. []) []"
  define s1 where "s1 = s0\<lparr>taker := Inside\<rparr>"
  define s2 where "s2 = s1\<lparr>taker := WaitsFilled\<rparr>"
  define s3 where "s3 = s2\<lparr>switch := Stopping, bufferSetThreadStop := True\<rparr>"
  define s4 where "s4 = s3\<lparr>switch := JoiningFiller\<rparr>"
  define s5 where "s5 = s4\<lparr>filler := FillerExited\<rparr>"
  define s6 where "s6 = s5\<lparr>switch := Stopped, bufferSetThreadValid := False\<rparr>"
  note d = s0_def s1_def s2_def s3_def s4_def s5_def s6_def dma_start_def
  let ?R = "\<lambda>s s'. dma_step s s' \<or> stop_step s s'"
  have "?R s0 s1" using dma_step.calls [of s0] by (simp add: d)
  moreover have "?R s1 s2" using dma_step.empty [of s1] by (simp add: d)
  moreover have "?R s2 s3" using stop_step.intros(1) [of s2] by (simp add: d)
  moreover have "?R s3 s4" using stop_step.intros(2) [of s3] by (simp add: d signal_consumed_def)
  moreover have "?R s4 s5" using dma_step.quits [of s4] by (simp add: d)
  moreover have "?R s5 s6" using stop_step.intros(3) [of s5] by (simp add: d)
  moreover have n: "6 = Suc (Suc (Suc (Suc (Suc (Suc (0))))))" by simp
  ultimately have "(?R ^^ 6) s0 s6" unfolding n by (blast intro: relpowp_Suc_I relpowp_0_I)
  moreover have "switch s6 = Stopped" "filler s6 = FillerExited" "taker s6 = WaitsFilled" "next_reads s6 = []" by (simp_all add: d)
  ultimately show ?thesis unfolding s0_def by blast
qed

theorem stop_joins_filler_witness:
  "\<exists>s. ((\<lambda>s s'. dma_step s s' \<or> stop_step s s') ^^ 6) (dma_start (\<lambda>_. []) []) s \<and> switch s = Stopped \<and> (6 :: nat) \<le> 8"
proof -
  obtain s where s: "((\<lambda>s s'. dma_step s s' \<or> stop_step s s') ^^ 6) (dma_start (\<lambda>_. []) []) s" "switch s = Stopped" "next_reads s = []"
    using sample_stop_run by blast
  from stop_joins_filler [OF s(1)] s show ?thesis by auto
qed

theorem stopped_reader_waits_witness:
  "\<exists>s. ((\<lambda>s s'. dma_step s s' \<or> stop_step s s') ^^ 6) (dma_start (\<lambda>_. []) []) s \<and> \<not> dma_step s s \<and> \<not> stop_step s s"
  using sample_stop_run stopped_reader_waits by blast

end
