(* ===== verification/CardRegisters.thy ===== *)
theory CardRegisters
  imports Prelude
begin

text \<open>
  The registers of an acquisition card (\<^verbatim>\<open>external/daqd/src/PFP_KX7.cpp\<close>): checked reads and writes, the
  mail boxes for commands and replies, the settings. The card and its driver are a parameter, a \<open>bus\<close>
  that reads and writes words at byte addresses of a device state \<open>'w\<close>; a checked access repeats until
  two reads agree, and \<open>None\<close> says that it never ends. The clock is an input: the milliseconds since the
  wait began, at each turn.
\<close>

record 'w bus =
  bus_read :: "int \<Rightarrow> 'w \<Rightarrow> u32 \<times> 'w"
  bus_write :: "int \<Rightarrow> u32 \<Rightarrow> 'w \<Rightarrow> 'w"

section \<open>Access\<close>

fun WriteWithoutCheck :: "'w bus \<Rightarrow> int \<Rightarrow> u32 list \<Rightarrow> 'w \<Rightarrow> 'w" where
  "WriteWithoutCheck bus reg [] w = w"
| "WriteWithoutCheck bus reg (d # ds) w = WriteWithoutCheck bus (reg + 4) ds (bus_write bus reg d w)"

fun ReadWithoutCheck :: "'w bus \<Rightarrow> int \<Rightarrow> nat \<Rightarrow> 'w \<Rightarrow> u32 list \<times> 'w" where
  "ReadWithoutCheck bus reg 0 w = ([], w)"
| "ReadWithoutCheck bus reg (Suc n) w =
     (let (d, w1) = bus_read bus reg w; (ds, w2) = ReadWithoutCheck bus (reg + 4) n w1 in (d # ds, w2))"

partial_function (option) WriteAndCheck :: "'w bus \<Rightarrow> int \<Rightarrow> u32 list \<Rightarrow> 'w \<Rightarrow> 'w option" where
  "WriteAndCheck bus reg ds w =
     (let (readBackBuffer, w') = ReadWithoutCheck bus reg (length ds) (WriteWithoutCheck bus reg ds w) in
      if readBackBuffer = ds then Some w' else WriteAndCheck bus reg ds w')"

partial_function (option) ReadAndCheck :: "'w bus \<Rightarrow> int \<Rightarrow> nat \<Rightarrow> 'w \<Rightarrow> (u32 list \<times> 'w) option" where
  "ReadAndCheck bus reg n w =
     (let (ds, w1) = ReadWithoutCheck bus reg n w; (readBackBuffer, w2) = ReadWithoutCheck bus reg n w1 in
      if readBackBuffer = ds then Some (ds, w2) else ReadAndCheck bus reg n w2)"

definition read_word :: "'w bus \<Rightarrow> int \<Rightarrow> 'w \<Rightarrow> (u32 \<times> 'w) option" where
  "read_word bus reg w = map_option (\<lambda>(ds, w'). (hd ds, w')) (ReadAndCheck bus reg 1 w)"

section \<open>Addresses\<close>

definition base_addr0 :: int where "base_addr0 = 0x00280000"
definition base_addr1 :: int where "base_addr1 = 0x100000"
definition ConfigReg :: int where "ConfigReg = 288"
definition txWrPointerReg :: int where "txWrPointerReg = 320"
definition DMAConfigReg :: int where "DMAConfigReg = 352"
definition txRdPointerReg :: int where "txRdPointerReg = 384"
definition rxWrPointerReg :: int where "rxWrPointerReg = 448"
definition rxRdPointerReg :: int where "rxRdPointerReg = 512"
definition ThresholdReg :: int where "ThresholdReg = 544"
definition acqStatusPointerReg :: int where "acqStatusPointerReg = 576"
definition GateEnableReg :: int where "GateEnableReg = 577"
definition CoincWindowReg :: int where "CoincWindowReg = 608"
definition CoincMasksReg :: int where "CoincMasksReg = 609"
definition statusReg :: int where "statusReg = 640"

lemmas address_defs = base_addr0_def base_addr1_def ConfigReg_def txWrPointerReg_def DMAConfigReg_def txRdPointerReg_def
  rxWrPointerReg_def rxRdPointerReg_def ThresholdReg_def acqStatusPointerReg_def GateEnableReg_def CoincWindowReg_def
  CoincMasksReg_def statusReg_def

definition reg_addr :: "int \<Rightarrow> int" where "reg_addr r = base_addr0 + r * 4"

definition RDWR_POINTER_LENGTH :: nat where "RDWR_POINTER_LENGTH = 1"
definition DMA_TRANS_BYTE_SIZE :: u32 where "DMA_TRANS_BYTE_SIZE = 262144"

section \<open>Mail boxes\<close>

record kx7 =
  txWrPointer :: u32
  rxRdPointer :: u32

text \<open>The words of 64 bits as the words of 32 bits the card sees, and back.\<close>

definition words32 :: "u64 list \<Rightarrow> u32 list" where
  "words32 ws = concat (map (\<lambda>w. [ucast w, ucast (drop_bit 32 w)]) ws)"

fun words64 :: "u32 list \<Rightarrow> u64 list" where
  "words64 (lo # hi # ds) = (ucast lo OR push_bit 32 (ucast hi)) # words64 ds"
| "words64 ds = []"

definition next_pointer :: "u32 \<Rightarrow> u32 \<Rightarrow> u32" where
  "next_pointer magic p = ((p + 1) AND (2 ^ RDWR_POINTER_LENGTH - 1)) OR magic"

partial_function (option) kx7_clearReplyQueue :: "'w bus \<Rightarrow> kx7 \<Rightarrow> 'w \<Rightarrow> (kx7 \<times> 'w) option" where
  "kx7_clearReplyQueue bus p w =
     (case read_word bus (reg_addr rxWrPointerReg) w of
        None \<Rightarrow> None
      | Some (rxWrPointer, w1) \<Rightarrow>
          let m = 2 ^ RDWR_POINTER_LENGTH - 1 in
          if rxWrPointer AND m = rxRdPointer p AND m then Some (p, w1)
          else
            let r = (rxWrPointer AND m) OR 0xFACE9100 in
            case WriteAndCheck bus (reg_addr rxRdPointerReg) [r] w1 of
              None \<Rightarrow> None
            | Some w2 \<Rightarrow> kx7_clearReplyQueue bus (p\<lparr>rxRdPointer := r\<rparr>) w2)"

text \<open>The waits: whether there is room (a reply) within the time, and the pointer read last.\<close>

fun wait_room :: "'w bus \<Rightarrow> u32 \<Rightarrow> int list \<Rightarrow> 'w \<Rightarrow> (bool \<times> 'w) option" where
  "wait_room bus txWr [] w = None"
| "wait_room bus txWr (ms # clock) w =
     (case read_word bus (reg_addr txRdPointerReg) w of
        None \<Rightarrow> None
      | Some (txRd, w1) \<Rightarrow>
          if ms > 10 then Some (False, w1)
          else if txWr AND 2 ^ (RDWR_POINTER_LENGTH - 1) \<noteq> txRd AND 2 ^ (RDWR_POINTER_LENGTH - 1) then wait_room bus txWr clock w1
          else Some (True, w1))"

definition kx7_sendCommand :: "'w bus \<Rightarrow> u64 list \<Rightarrow> int list \<Rightarrow> kx7 \<Rightarrow> 'w \<Rightarrow> (int \<times> kx7 \<times> 'w) option" where
  "kx7_sendCommand bus packetBuffer clock p w =
     (if length packetBuffer > 128 then Some (-1, p, w)
      else case wait_room bus (txWrPointer p) clock w of
        None \<Rightarrow> None
      | Some (False, w1) \<Rightarrow> Some (-1, p, w1)
      | Some (True, w1) \<Rightarrow>
          let wrSlot = txWrPointer p AND (2 ^ (RDWR_POINTER_LENGTH - 1) - 1) in
          case WriteAndCheck bus (base_addr0 + uint wrSlot * 2 ^ (9 - RDWR_POINTER_LENGTH) * 4) (words32 packetBuffer) w1 of
            None \<Rightarrow> None
          | Some w2 \<Rightarrow>
              let p' = p\<lparr>txWrPointer := next_pointer 0xCAFE1500 (txWrPointer p)\<rparr> in
              case WriteAndCheck bus (reg_addr txWrPointerReg) [txWrPointer p'] w2 of
                None \<Rightarrow> None
              | Some w3 \<Rightarrow> Some (0, p', w3))"

fun wait_reply :: "'w bus \<Rightarrow> u32 \<Rightarrow> int list \<Rightarrow> 'w \<Rightarrow> (bool \<times> 'w) option" where
  "wait_reply bus rxRd [] w = None"
| "wait_reply bus rxRd (ms # clock) w =
     (case read_word bus (reg_addr rxWrPointerReg) w of
        None \<Rightarrow> None
      | Some (rxWr, w1) \<Rightarrow>
          if ms > 10 then Some (False, w1)
          else if rxWr AND (2 ^ RDWR_POINTER_LENGTH - 1) = rxRd AND (2 ^ RDWR_POINTER_LENGTH - 1) then wait_reply bus rxRd clock w1
          else Some (True, w1))"

text \<open>
  \<open>packetBuffer\<close> is the memory of the caller and \<open>packetBufferSize\<close> what it says of it. The length is
  computed in \<^verbatim>\<open>float\<close>: exactly up to 16777216 bytes, above it not, but then it exceeds any buffer anyway.
\<close>

definition reply_words :: "u64 \<Rightarrow> nat" where
  "reply_words n = (unat n + 7) div 8"

definition kx7_recvReply ::
    "'w bus \<Rightarrow> u64 list \<Rightarrow> int \<Rightarrow> int list \<Rightarrow> kx7 \<Rightarrow> 'w \<Rightarrow> (int \<times> u64 list \<times> kx7 \<times> 'w) run" where
  "kx7_recvReply bus packetBuffer packetBufferSize clock p w =
     (if packetBufferSize < 8 then Fault
      else case wait_reply bus (rxRdPointer p) clock w of
        None \<Rightarrow> OutOfFuel
      | Some (False, w1) \<Rightarrow> Return (-1, packetBuffer, p, w1)
      | Some (True, w1) \<Rightarrow>
          let rdSlot = rxRdPointer p AND (2 ^ (RDWR_POINTER_LENGTH - 1) - 1);
              slot = base_addr0 + (768 + uint rdSlot * 2 ^ (9 - RDWR_POINTER_LENGTH)) * 4
          in if length packetBuffer < 2 then Fault
          else case ReadAndCheck bus slot 4 w1 of
            None \<Rightarrow> OutOfFuel
          | Some (head, w2) \<Rightarrow>
              let header = words64 head; packetSize = reply_words (header ! 1) in
              if 2 + packetSize > length packetBuffer then Fault
              else case ReadAndCheck bus (slot + 4 * 4) (packetSize * 2) w2 of
                None \<Rightarrow> OutOfFuel
              | Some (body, w3) \<Rightarrow>
                  let p' = p\<lparr>rxRdPointer := next_pointer 0xFACE9100 (rxRdPointer p)\<rparr> in
                  case WriteAndCheck bus (reg_addr rxRdPointerReg) [rxRdPointer p'] w3 of
                    None \<Rightarrow> OutOfFuel
                  | Some w4 \<Rightarrow> Return (8, header @ words64 body @ drop (2 + packetSize) packetBuffer, p', w4))"

section \<open>Settings and status\<close>

definition kx7_getPortUp :: "'w bus \<Rightarrow> 'w \<Rightarrow> (u64 \<times> 'w) option" where
  "kx7_getPortUp bus w = map_option (\<lambda>(d, w'). (ucast d, w')) (read_word bus (reg_addr statusReg) w)"

text \<open>
  \<open>centi\<close> is the rounded hundredfold of the temperature for a count, in \<^verbatim>\<open>double\<close> arithmetic; it is converted
  to an unsigned word.
\<close>

definition kx7_getDAQTemp :: "(u32 \<Rightarrow> int) \<Rightarrow> 'w bus \<Rightarrow> 'w \<Rightarrow> u64 \<times> 'w" where
  "kx7_getDAQTemp centi bus w =
     (let (ds, w') = ReadWithoutCheck bus (reg_addr (statusReg + 78)) 1 w;
          reply = (word_of_int (centi ((hd ds AND 0xFFF0) div 16)) :: u64)
      in ((if reply > 0xFFFF then 0xFFFF else reply) AND 0xFFFF, w'))"

definition kx7_getPortCounts :: "'w bus \<Rightarrow> int \<Rightarrow> int \<Rightarrow> 'w \<Rightarrow> u64 \<times> 'w" where
  "kx7_getPortCounts bus channel whichCount w =
     (let (ds, w') = ReadWithoutCheck bus (reg_addr (statusReg + 1 + 6 * channel + 2 * whichCount)) 2 w in
      (hd (words64 ds), w'))"

definition kx7_setSorter :: "'w bus \<Rightarrow> u32 \<Rightarrow> 'w \<Rightarrow> (int \<times> 'w) option" where
  "kx7_setSorter bus mode w =
     (case read_word bus (reg_addr ConfigReg) w of
        None \<Rightarrow> None
      | Some (currentSetting, w1) \<Rightarrow>
          let setting = (currentSetting AND 0xEFFFFFFF) OR (if mode = 0 then 0x10000000 else 0) in
          map_option (\<lambda>w2. (0, w2)) (WriteAndCheck bus (reg_addr ConfigReg) [setting] w1))"

record CoincidenceTriggerConfig =
  enable :: u32
  minToT :: u32
  cWindow :: u32
  preWindow :: u32
  postWindow :: u32
  singlesFraction :: u32
  trigger_mask :: "u32 list"

fun write_each :: "'w bus \<Rightarrow> (int \<times> u32 list) list \<Rightarrow> 'w \<Rightarrow> 'w option" where
  "write_each bus [] w = Some w"
| "write_each bus ((reg, ds) # ops) w =
     (case WriteAndCheck bus reg ds w of None \<Rightarrow> None | Some w' \<Rightarrow> write_each bus ops w')"

definition clamp_windows :: "CoincidenceTriggerConfig \<Rightarrow> CoincidenceTriggerConfig" where
  "clamp_windows c = c\<lparr>preWindow := min (preWindow c) 0xF, postWindow := min (postWindow c) 0x3F, cWindow := min (cWindow c) 0x3\<rparr>"

definition window_word :: "CoincidenceTriggerConfig \<Rightarrow> u32" where
  "window_word c = preWindow c OR push_bit 8 (postWindow c) OR push_bit 20 (cWindow c)"

definition mask_words :: "CoincidenceTriggerConfig \<Rightarrow> u32 list" where
  "mask_words c = map (\<lambda>n. (trigger_mask c ! (2 * n) AND 0xFFF) OR push_bit 16 (trigger_mask c ! (2 * n + 1) AND 0xFFF)) [0..<6]"

definition trigger_off :: "(int \<times> u32 list) list" where
  "trigger_off = (reg_addr CoincWindowReg, [0x0F000000]) # (reg_addr ThresholdReg, [0]) #
     map (\<lambda>n. (reg_addr (CoincMasksReg + int n), [0])) [0..<6]"

text \<open>The limits of the windows are written into the caller's configuration, which is returned.\<close>

definition kx7_setCoincidenceTrigger ::
    "'w bus \<Rightarrow> CoincidenceTriggerConfig option \<Rightarrow> 'w \<Rightarrow> (int \<times> CoincidenceTriggerConfig option \<times> 'w) option" where
  "kx7_setCoincidenceTrigger bus config w =
     (if (case config of None \<Rightarrow> True | Some c \<Rightarrow> enable c = 0)
      then map_option (\<lambda>w'. (0, config, w')) (write_each bus trigger_off w)
      else
        let c = clamp_windows (the config) in
        map_option (\<lambda>w'. (0, Some c, w'))
          (write_each bus [(reg_addr CoincWindowReg, [window_word c]), (reg_addr ThresholdReg, [minToT c]),
             (reg_addr CoincMasksReg, mask_words c)] w))"

definition kx7_setGateEnable :: "'w bus \<Rightarrow> u32 \<Rightarrow> 'w \<Rightarrow> (int \<times> 'w) option" where
  "kx7_setGateEnable bus mode w =
     map_option (\<lambda>w'. (1, w')) (WriteAndCheck bus (reg_addr GateEnableReg) [if mode \<noteq> 0 then 0x000FFFF else 0xFFFF0000] w)"

text \<open>The register of the acquisition is written twice, on and off; the threads are in the buffers' theory.\<close>

definition acquisition_word :: "bool \<Rightarrow> u32" where
  "acquisition_word on = (if on then 0x000FFFF else 0xFFFF0000)"

definition kx7_acquisition :: "'w bus \<Rightarrow> bool \<Rightarrow> 'w \<Rightarrow> (int \<times> 'w) option" where
  "kx7_acquisition bus on w =
     map_option (\<lambda>w'. (1, w'))
       (write_each bus [(reg_addr acqStatusPointerReg, [acquisition_word on]), (reg_addr acqStatusPointerReg, [acquisition_word on])] w)"

section \<open>Start-up\<close>

definition REQUIRED_DRIVER_VERSION :: int where "REQUIRED_DRIVER_VERSION = 400"

text \<open>The results of \<^verbatim>\<open>open\<close> and of the request for the version; \<open>None\<close> is a null pointer.\<close>

definition openCard :: "int \<Rightarrow> int \<Rightarrow> int \<Rightarrow> int option" where
  "openCard fd r version =
     (if fd = -1 then None
      else let v = (if r = 0 then version else -1) in if v \<noteq> REQUIRED_DRIVER_VERSION then None else Some fd)"

definition TARGET_EXT_CLK_FREQUENCY :: nat where "TARGET_EXT_CLK_FREQUENCY = 200000000"
definition ExtClk0 :: int where "ExtClk0 = 0x20000"
definition Osc0 :: int where "Osc0 = 0x200"

text \<open>The two products of the test for the oscillator are whole numbers, up to less than one.\<close>

definition oscillator_off :: "u32 \<Rightarrow> bool" where
  "oscillator_off f \<longleftrightarrow> unat f < 199990000 \<or> unat f > 200010000"

partial_function (option) wait_oscillator :: "'w bus \<Rightarrow> 'w \<Rightarrow> 'w option" where
  "wait_oscillator bus w =
     (let (ds, w1) = ReadWithoutCheck bus (base_addr1 + 0x10) 1 w in
      if hd ds \<noteq> 0 then wait_oscillator bus w1 else Some w1)"

definition tune_oscillator :: "'w bus \<Rightarrow> 'w \<Rightarrow> 'w option" where
  "tune_oscillator bus w =
     (let (f, w1) = ReadWithoutCheck bus (base_addr1 + ExtClk0) 1 w in
      if oscillator_off (hd f) then
        case wait_oscillator bus (WriteWithoutCheck bus (base_addr1 + 0x18) [1] w1) of
          None \<Rightarrow> None
        | Some w2 \<Rightarrow>
            wait_oscillator bus (WriteWithoutCheck bus (base_addr1 + Osc0) [word_of_nat (TARGET_EXT_CLK_FREQUENCY div 10000)] w2)
      else Some w1)"

text \<open>The flags of the firmware: whether the card is an old one, which has the oscillator.\<close>

definition read_firmware :: "'w bus \<Rightarrow> 'w \<Rightarrow> bool \<times> 'w" where
  "read_firmware bus w =
     (let (flags, w1) = ReadWithoutCheck bus (reg_addr (statusReg + 75)) 1 w in
      if hd flags AND 0x1 \<noteq> 0 then
        let (l, w2) = ReadWithoutCheck bus (reg_addr (statusReg + 76)) 1 w1;
            (h, w3) = ReadWithoutCheck bus (reg_addr (statusReg + 77)) 1 w2
        in (hd flags AND 0x2 = 0, w3)
      else (True, w1))"

text \<open>Whether the temperature is printed: it is unsigned, and divided as an integer.\<close>

definition temp_shown :: "u64 \<Rightarrow> bool" where
  "temp_shown t \<longleftrightarrow> uint (t div 100) > -273"

definition kx7_configure :: "'w bus \<Rightarrow> 'w \<Rightarrow> 'w" where
  "kx7_configure bus w =
     (let w1 = WriteWithoutCheck bus (reg_addr ConfigReg) [0x19000000] w;
          w2 = WriteWithoutCheck bus (reg_addr ThresholdReg) [0] w1;
          w3 = WriteWithoutCheck bus (reg_addr CoincWindowReg) [0x0F000000] w2;
          w4 = fold (\<lambda>i. WriteWithoutCheck bus (reg_addr (CoincMasksReg + int i)) [0xFFFFFFFF]) [0..<6] w3
      in WriteWithoutCheck bus (reg_addr DMAConfigReg) [0x08000000 + DMA_TRANS_BYTE_SIZE div 16] w4)"

definition kx7_pointers :: "'w bus \<Rightarrow> 'w \<Rightarrow> (kx7 \<times> 'w) option" where
  "kx7_pointers bus w =
     (case read_word bus (reg_addr txRdPointerReg) w of
        None \<Rightarrow> None
      | Some (tx, w1) \<Rightarrow>
          case WriteAndCheck bus (reg_addr txWrPointerReg) [tx] w1 of
            None \<Rightarrow> None
          | Some w2 \<Rightarrow>
              case read_word bus (reg_addr rxWrPointerReg) w2 of
                None \<Rightarrow> None
              | Some (rx, w3) \<Rightarrow>
                  map_option (\<lambda>w4. (\<lparr>txWrPointer = tx, rxRdPointer = rx\<rparr>, w4))
                    (WriteAndCheck bus (reg_addr rxRdPointerReg) [rx] w3))"

definition kx7_new :: "(u32 \<Rightarrow> int) \<Rightarrow> 'w bus \<Rightarrow> 'w \<Rightarrow> (kx7 \<times> 'w) option" where
  "kx7_new centi bus w =
     (let (pfp_kx7old, w1) = read_firmware bus w; (temp, w2) = kx7_getDAQTemp centi bus w1 in
      case (if pfp_kx7old then tune_oscillator bus w2 else Some w2) of
        None \<Rightarrow> None
      | Some w3 \<Rightarrow>
          let (up, w4) = ReadWithoutCheck bus (reg_addr statusReg) 1 (kx7_configure bus w3) in
          case kx7_pointers bus w4 of
            None \<Rightarrow> None
          | Some (p, w5) \<Rightarrow> map_option (\<lambda>(r, w6). (p, w6)) (kx7_acquisition bus False w5))"

section \<open>Registers that hold what is written\<close>

definition registers :: "(int \<Rightarrow> u32) bus" where
  "registers = \<lparr>bus_read = (\<lambda>a w. (w a, w)), bus_write = (\<lambda>a v w. w(a := v))\<rparr>"

definition held :: "(int \<Rightarrow> u32) \<Rightarrow> int \<Rightarrow> nat \<Rightarrow> u32 list" where
  "held w reg n = map (\<lambda>i. w (reg + 4 * int i)) [0..<n]"

lemma length_held [simp]: "length (held w reg n) = n"
  by (simp add: held_def)

lemma held_Suc: "held w reg (Suc n) = w reg # held w (reg + 4) n"
  unfolding held_def by (simp only: map_upt_Suc) (simp add: algebra_simps)

lemma held_1 [simp]: "held w reg (Suc 0) = [w reg]"
  by (simp add: held_def)

lemma read_registers [simp]: "ReadWithoutCheck registers reg n w = (held w reg n, w)"
  by (induction n arbitrary: reg) (simp_all add: held_Suc, simp_all add: held_def registers_def)

lemma write_Cons: "WriteWithoutCheck registers reg (d # ds) w = WriteWithoutCheck registers (reg + 4) ds (w(reg := d))"
  by (simp add: registers_def)

lemma write_elsewhere: "(\<And>i. i < length ds \<Longrightarrow> a \<noteq> reg + 4 * int i) \<Longrightarrow> WriteWithoutCheck registers reg ds w a = w a"
proof (induction ds arbitrary: reg w)
  case (Cons d ds)
  have "a \<noteq> reg" using Cons.prems [of 0] by simp
  moreover have "a \<noteq> reg + 4 + 4 * int i" if "i < length ds" for i
    using Cons.prems [of "Suc i"] that by (simp add: algebra_simps)
  ultimately show ?case using Cons.IH [of "reg + 4" "w(reg := d)"] by (simp add: write_Cons fun_upd_def del: WriteWithoutCheck.simps)
qed simp

lemma write_inside: "i < length ds \<Longrightarrow> WriteWithoutCheck registers reg ds w (reg + 4 * int i) = ds ! i"
proof (induction ds arbitrary: reg w i)
  case (Cons d ds)
  show ?case
  proof (cases i)
    case 0
    have "WriteWithoutCheck registers (reg + 4) ds (w(reg := d)) reg = (w(reg := d)) reg"
      by (rule write_elsewhere) simp
    with 0 show ?thesis by (simp add: write_Cons del: WriteWithoutCheck.simps)
  next
    case (Suc k)
    then show ?thesis using Cons.prems Cons.IH [of k "reg + 4" "w(reg := d)"]
      by (simp add: write_Cons fun_upd_def algebra_simps del: WriteWithoutCheck.simps)
  qed
qed simp

lemma held_written [simp]: "held (WriteWithoutCheck registers reg ds w) reg (length ds) = ds"
  by (rule nth_equalityI) (auto simp: held_def write_inside)

lemma write_check_registers [simp]: "WriteAndCheck registers reg ds w = Some (WriteWithoutCheck registers reg ds w)"
  by (subst WriteAndCheck.simps) simp

lemma read_check_registers [simp]: "ReadAndCheck registers reg n w = Some (held w reg n, w)"
  by (subst ReadAndCheck.simps) simp

lemma read_word_registers [simp]: "read_word registers reg w = Some (w reg, w)"
  by (simp add: read_word_def)

text \<open>On any card a checked access that ends has seen its words twice.\<close>

lemma checked_write_seen:
  "WriteAndCheck bus reg ds w = Some w' \<Longrightarrow>
   \<exists>w1. ReadWithoutCheck bus reg (length ds) (WriteWithoutCheck bus reg ds w1) = (ds, w')"
  by (rule WriteAndCheck.raw_induct [rotated]) (auto split: prod.splits if_splits)

section \<open>Commands and replies\<close>

lemma words64_words32 [simp]: "words64 (words32 ws) = ws"
proof (induction ws)
  case (Cons w ws)
  have "(ucast (ucast w :: u32) :: u64) OR push_bit 32 (ucast (ucast (drop_bit 32 w) :: u32)) = w"
    by (rule bit_word_eqI) (auto simp: bit_or_iff bit_ucast_iff bit_push_bit_iff bit_drop_bit_eq)
  with Cons show ?case by (simp add: words32_def)
qed (simp add: words32_def)

lemma length_words32 [simp]: "length (words32 ws) = 2 * length ws"
  by (induction ws) (simp_all add: words32_def)

definition room :: "kx7 \<Rightarrow> (int \<Rightarrow> u32) \<Rightarrow> bool" where
  "room p w \<longleftrightarrow> txWrPointer p AND 1 = w (reg_addr txRdPointerReg) AND 1"

lemma wait_room_registers:
  assumes "\<exists>ms \<in> set clock. ms > 10"
  shows "wait_room registers txWr clock w =
    Some (hd clock \<le> 10 \<and> txWr AND 1 = w (reg_addr txRdPointerReg) AND 1, w)"
  using assms
proof (induction clock)
  case (Cons ms clock)
  then show ?case by (cases "\<exists>ms \<in> set clock. ms > 10") (simp_all add: RDWR_POINTER_LENGTH_def)
qed simp

lemma pointer_flips: "(next_pointer 0xCAFE1500 p) AND 1 \<noteq> p AND 1" "(next_pointer 0xFACE9100 p) AND 1 \<noteq> p AND 1"
proof -
  have "((p + 1) AND 1) \<noteq> p AND 1" by (simp add: and_one_eq mod_2_eq_odd)
  then show "(next_pointer 0xCAFE1500 p) AND 1 \<noteq> p AND 1" "(next_pointer 0xFACE9100 p) AND 1 \<noteq> p AND 1"
    by (simp_all add: next_pointer_def RDWR_POINTER_LENGTH_def bit.conj_disj_distrib2 and.assoc)
qed


definition reply_waiting :: "kx7 \<Rightarrow> (int \<Rightarrow> u32) \<Rightarrow> bool" where
  "reply_waiting p w \<longleftrightarrow> w (reg_addr rxWrPointerReg) AND 1 \<noteq> rxRdPointer p AND 1"

definition reply_slot :: int where "reply_slot = base_addr0 + 768 * 4"

definition reply_length :: "(int \<Rightarrow> u32) \<Rightarrow> nat" where
  "reply_length w = reply_words (words64 (held w reply_slot 4) ! 1)"

lemma wait_reply_registers:
  assumes "\<exists>ms \<in> set clock. ms > 10"
  shows "wait_reply registers rxRd clock w = Some (hd clock \<le> 10 \<and> w (reg_addr rxWrPointerReg) AND 1 \<noteq> rxRd AND 1, w)"
  using assms
proof (induction clock)
  case (Cons ms clock)
  then show ?case by (cases "\<exists>ms \<in> set clock. ms > 10") (simp_all add: RDWR_POINTER_LENGTH_def)
qed simp

lemma held_add: "held w reg (m + n) = held w reg m @ held w (reg + 4 * int m) n"
  by (induction m arbitrary: reg) (simp_all add: held_Suc algebra_simps, simp add: held_def)

lemma words64_append: "even (length ds) \<Longrightarrow> words64 (ds @ es) = words64 ds @ words64 es"
  by (induction ds rule: words64.induct) simp_all

lemma recv_registers:
  fixes p :: kx7
  assumes "\<exists>ms \<in> set clock. ms > 10" "8 \<le> bufferSize" "2 \<le> length buf"
  defines "p' \<equiv> p\<lparr>rxRdPointer := next_pointer 0xFACE9100 (rxRdPointer p)\<rparr>"
  shows "kx7_recvReply registers buf bufferSize clock p w =
    (if \<not> (hd clock \<le> 10 \<and> reply_waiting p w) then Return (-1, buf, p, w)
     else if length buf < 2 + reply_length w then Fault
     else Return (8, words64 (held w reply_slot (4 + 2 * reply_length w)) @ drop (2 + reply_length w) buf, p',
       w(reg_addr rxRdPointerReg := rxRdPointer p')))"
proof -
  have split: "words64 (held w reply_slot (4 + 2 * n)) = words64 (held w reply_slot 4) @ words64 (held w (reply_slot + 16) (2 * n))" for n
    unfolding held_add by (subst words64_append) simp_all
  have slot: "base_addr0 + (768 + uint (rxRdPointer p AND (2 ^ (RDWR_POINTER_LENGTH - 1) - 1)) * 2 ^ (9 - RDWR_POINTER_LENGTH)) * 4 = reply_slot"
    by (simp add: RDWR_POINTER_LENGTH_def reply_slot_def)
  note wait = wait_reply_registers [OF assms(1), of "rxRdPointer p" w, folded reply_waiting_def]
  show ?thesis
  proof (cases "hd clock \<le> 10 \<and> reply_waiting p w")
    case True
    have one: "WriteWithoutCheck registers r [v] w = w(r := v)" for r v by (simp add: registers_def)
    have size: "\<not> bufferSize < 8" "\<not> length buf < 2" using assms(2, 3) by simp_all
    have twice: "n * 2 = 2 * n" for n :: nat by simp
    show ?thesis
      unfolding kx7_recvReply_def slot Let_def wait
      by (simp only: True size if_False if_True option.case prod.case bool.case simp_thms read_check_registers write_check_registers one twice
          p'_def reply_length_def split) (simp add: reply_length_def)
  next
    case False
    then show ?thesis using assms(2) wait by (auto simp: kx7_recvReply_def)
  qed
qed

text \<open>
  A reply that fits is taken exactly once: when one is waiting, \<open>recvReply\<close> stores the words of its
  header and of its announced length, changes only its read pointer, and then none is waiting and there
  is nothing left to clear; when none is waiting for 10 ms it changes nothing.
\<close>

theorem reply_taken_once:
  assumes "\<exists>ms \<in> set clock. ms > 10" and "8 \<le> bufferSize" and "2 + reply_length w \<le> length buf"
  shows "\<exists>r buf' p' w'. kx7_recvReply registers buf bufferSize clock p w = Return (r, buf', p', w') \<and> length buf' = length buf \<and>
    (if hd clock \<le> 10 \<and> reply_waiting p w
     then r = 8 \<and> buf' = words64 (held w reply_slot (4 + 2 * reply_length w)) @ drop (2 + reply_length w) buf \<and>
       \<not> reply_waiting p' w' \<and> kx7_clearReplyQueue registers p' w' = Some (p', w') \<and> txWrPointer p' = txWrPointer p \<and>
       (\<forall>a. a \<noteq> reg_addr rxRdPointerReg \<longrightarrow> w' a = w a)
     else r = -1 \<and> buf' = buf \<and> p' = p \<and> w' = w)"
proof (cases "hd clock \<le> 10 \<and> reply_waiting p w")
  case True
  define p' where "p' = p\<lparr>rxRdPointer := next_pointer 0xFACE9100 (rxRdPointer p)\<rparr>"
  define w' where "w' = w(reg_addr rxRdPointerReg := rxRdPointer p')"
  have len: "length (words64 ds) = length ds div 2" for ds by (induction ds rule: words64.induct) simp_all
  have "rxRdPointer p' AND 1 \<noteq> rxRdPointer p AND 1" by (simp add: p'_def pointer_flips)
  moreover have "(x :: u32) AND 1 \<noteq> y AND 1 \<Longrightarrow> z AND 1 \<noteq> y AND 1 \<Longrightarrow> x AND 1 = z AND 1" for x y z
    by (auto simp: and_one_eq mod_2_eq_odd split: if_splits)
  ultimately have "\<not> reply_waiting p' w'"
    using True by (auto simp: reply_waiting_def w'_def address_defs reg_addr_def)
  moreover from this have "kx7_clearReplyQueue registers p' w' = Some (p', w')"
    by (subst kx7_clearReplyQueue.simps) (simp add: reply_waiting_def RDWR_POINTER_LENGTH_def)
  moreover have "kx7_recvReply registers buf bufferSize clock p w =
      Return (8, words64 (held w reply_slot (4 + 2 * reply_length w)) @ drop (2 + reply_length w) buf, p', w')"
    using recv_registers [OF assms(1, 2), of buf p w] assms(3) True by (simp add: p'_def w'_def)
  moreover have "\<forall>a. a \<noteq> reg_addr rxRdPointerReg \<longrightarrow> w' a = w a" "txWrPointer p' = txWrPointer p"
    by (simp_all add: w'_def p'_def)
  ultimately show ?thesis using True assms(3) by (simp add: len)
qed (use recv_registers [OF assms(1, 2), of buf p w] assms(3) in auto)

text \<open>A reply that does not fit is stored outside the caller's memory: its length comes from the card and is not checked.\<close>

theorem long_reply_overflows:
  assumes "\<exists>ms \<in> set clock. ms > 10" and "8 \<le> bufferSize" and "2 \<le> length buf" and "hd clock \<le> 10" and "reply_waiting p w"
    and "length buf < 2 + reply_length w"
  shows "kx7_recvReply registers buf bufferSize clock p w = Fault"
  using recv_registers [OF assms(1-3)] assms(4-6) by simp

theorem long_reply_overflows_witness:
  "kx7_recvReply registers (replicate 256 0) 256 [0, 11] \<lparr>txWrPointer = 0, rxRdPointer = 0\<rparr>
     ((\<lambda>_. 0)(reg_addr rxWrPointerReg := 1, reply_slot + 8 := 2033)) = Fault"
proof -
  let ?w = "(\<lambda>_. 0 :: u32)(reg_addr rxWrPointerReg := 1, reply_slot + 8 := 2033)"
  have "held ?w reply_slot 4 = [0, 0, 2033, 0]"
    by (simp add: held_def upt_rec reply_slot_def address_defs reg_addr_def)
  then have n: "reply_length ?w = 255" by (simp add: reply_length_def reply_words_def)
  show ?thesis
    by (rule long_reply_overflows) (simp_all only: n, simp_all add: reply_waiting_def address_defs reg_addr_def reply_slot_def)
qed

theorem reply_taken_once_witness:
  "\<exists>p' w'. kx7_recvReply registers (replicate 256 0) 256 [0, 11] \<lparr>txWrPointer = 0, rxRdPointer = 0\<rparr>
     ((\<lambda>_. 0)(reg_addr rxWrPointerReg := 1)) = Return (8, replicate 256 0, p', w') \<and> \<not> reply_waiting p' w'"
proof -
  let ?w = "(\<lambda>_. 0 :: u32)(reg_addr rxWrPointerReg := 1)"
  let ?p = "\<lparr>txWrPointer = 0, rxRdPointer = 0\<rparr>"
  have h: "held ?w reply_slot 4 = [0, 0, 0, 0]"
    by (simp add: held_def upt_rec reply_slot_def address_defs reg_addr_def)
  then have n: "reply_length ?w = 0" by (simp add: reply_length_def reply_words_def)
  have w: "reply_waiting ?p ?w" by (simp add: reply_waiting_def)
  have buf: "words64 (held ?w reply_slot (4 + 2 * reply_length ?w)) @ drop (2 + reply_length ?w) (replicate 256 0) = replicate 256 0"
  proof -
    have "replicate 256 (0 :: u64) = replicate 2 0 @ replicate 254 0" by (simp add: replicate_add [symmetric])
    moreover have "words64 (held ?w reply_slot 4) = replicate 2 0" by (simp add: h numeral_2_eq_2)
    ultimately show ?thesis unfolding n by simp
  qed
  show ?thesis
    using reply_taken_once [of "[0, 11]" 256 ?w "replicate 256 0" ?p] w buf by (auto simp: n)
qed


section \<open>Settings\<close>

lemma kx7_setSorter_registers:
  "kx7_setSorter registers mode w = Some (0, w(reg_addr ConfigReg :=
     (w (reg_addr ConfigReg) AND 0xEFFFFFFF) OR (if mode = 0 then 0x10000000 else 0)))"
  by (simp add: kx7_setSorter_def) (simp add: registers_def)

lemma bit_not_28: "bit (0xEFFFFFFF :: u32) n \<longleftrightarrow> n < 32 \<and> n \<noteq> 28"
proof -
  have m: "(0xEFFFFFFF :: u32) = NOT (push_bit 28 1)" by simp
  show ?thesis unfolding m by (simp only: bit_not_iff bit_push_bit_iff bit_1_iff possible_bit_word) auto
qed

lemma bit_28: "bit (0x10000000 :: u32) n \<longleftrightarrow> n = 28"
proof -
  have m: "(0x10000000 :: u32) = push_bit 28 1" by simp
  show ?thesis unfolding m by (simp only: bit_push_bit_iff bit_1_iff possible_bit_word) auto
qed

text \<open>Setting the sorter changes bit 28 of the configuration word and no other bit of any register.\<close>

lemma sorter_bit_only:
  obtains w' where "kx7_setSorter registers mode w = Some (0, w')"
    and "\<And>n. n < 32 \<Longrightarrow> bit (w' (reg_addr ConfigReg)) n = (if n = 28 then mode = 0 else bit (w (reg_addr ConfigReg)) n)"
    and "\<And>a. a \<noteq> reg_addr ConfigReg \<Longrightarrow> w' a = w a"
proof (rule that [OF kx7_setSorter_registers])
  have k: "bit ((x AND 0xEFFFFFFF) OR (if mode = 0 then 0x10000000 else 0)) n = (if n = 28 then mode = 0 else bit x n)" if "n < 32" for x :: u32 and n
    using that by (cases "mode = 0") (auto simp only: bit_or_iff bit_and_iff bit_not_28 bit_28 if_True if_False simp_thms bit_0_eq bot_fun_def bot_bool_def split: if_splits)
  show "bit ((w(reg_addr ConfigReg := (w (reg_addr ConfigReg) AND 0xEFFFFFFF) OR (if mode = 0 then 0x10000000 else 0))) (reg_addr ConfigReg)) n =
      (if n = 28 then mode = 0 else bit (w (reg_addr ConfigReg)) n)" if "n < 32" for n
    by (simp only: fun_upd_same k [OF that])
qed simp

text \<open>The temperature is always printed, though cards that have none are meant to be left out.\<close>

lemma temperature_always_shown: "kx7_getDAQTemp centi bus w = (t, w') \<Longrightarrow> t \<le> 0xFFFF \<and> temp_shown t"
proof -
  assume "kx7_getDAQTemp centi bus w = (t, w')"
  then obtain r :: u64 where "t = r AND 0xFFFF" by (auto simp: kx7_getDAQTemp_def Let_def split: prod.splits)
  moreover have "temp_shown t"
    unfolding temp_shown_def by (rule less_le_trans [OF _ uint_nonnegative]) simp
  ultimately show ?thesis using word_and_le1 [of r "0xFFFF"] by simp
qed

end
