(* ===== verification/CalibrationSort.thy ===== *)
theory CalibrationSort
  imports Calibration Config SystemConfig
begin

text \<open>
  The first part of processing a calibration, which the TDC and the QDC have in common
  (\<^verbatim>\<open>sortData\<close> in \<^verbatim>\<open>external/scripts_c/src/process_tdc_calibration_impl.cpp\<close> and
  \<^verbatim>\<open>process_qdc_calibration_impl.cpp\<close>): the counted event words of a run are distributed over one
  temporary file for each ASIC. The two differ in the records made of a word, a parameter here. Files
  are kept by name; offsets in the index are not negative.
\<close>

section \<open>Counted event words\<close>

record RawCalibrationData =
  rc_word :: u64
  rc_freq :: i32

text \<open>What \<^verbatim>\<open>fread\<close> delivers of \<open>n\<close> records of 16 bytes.\<close>

fun raw_records :: "nat \<Rightarrow> u8 list \<Rightarrow> RawCalibrationData list" where
  "raw_records 0 bs = []"
| "raw_records (Suc n) bs =
     (if length bs < 16 then []
      else \<lparr>rc_word = le64 (take 8 bs), rc_freq = ucast (le64 (take 4 (drop 8 bs)))\<rparr> # raw_records n (drop 16 bs))"

section \<open>Temporary files\<close>

definition MAX_N_ASIC :: nat where "MAX_N_ASIC = 32 * 32 * 64"

datatype cal_error = CannotOpenBins | CannotParseBins | CannotOpenIndex | CannotOpenData | CannotCreateList | CannotCreateTmp nat |
  TooMuchMemory | CannotOpenTmpList | CannotOpenTmp nat | WaitFailed | CannotWriteTable | BadConfiguration cfg_error

definition asic_of :: "u64 \<Rightarrow> nat" where
  "asic_of w = unat (drop_bit 6 (getChannelID w))"

text \<open>Port, slave and chip of an ASIC.\<close>

definition asic_address :: "nat \<Rightarrow> nat \<times> nat \<times> nat" where
  "asic_address a = (a div 2048 mod 32, a div 64 mod 32, a mod 64)"

definition asic_prefix :: "string \<Rightarrow> nat \<Rightarrow> string" where
  "asic_prefix prefix a =
     (let (portID, slaveID, chipID) = asic_address a in
      prefix @ ''_'' @ dec_pad 2 portID @ ''_'' @ dec_pad 2 slaveID @ ''_'' @ dec_pad 2 chipID)"

definition tmp_name :: "string \<Rightarrow> nat \<Rightarrow> string" where
  "tmp_name prefix a = asic_prefix prefix a @ ''_data.tmp''"

record 'r sorting =
  tmpDataFiles :: "nat \<Rightarrow> 'r list option"
  maxgAsicID :: nat

definition sorting_new :: "'r sorting" where
  "sorting_new = \<lparr>tmpDataFiles = (\<lambda>_. None), maxgAsicID = 0\<rparr>"

text \<open>\<open>opens a\<close>: the file of ASIC \<open>a\<close> can be created; \<open>recs\<close>: the records made of a word.\<close>

definition sort_record ::
    "(nat \<Rightarrow> bool) \<Rightarrow> (RawCalibrationData \<Rightarrow> 'r list) \<Rightarrow> RawCalibrationData \<Rightarrow> 'r sorting \<Rightarrow> cal_error + 'r sorting" where
  "sort_record opens recs r s =
     (let a = asic_of (rc_word r); s1 = s\<lparr>maxgAsicID := max (maxgAsicID s) a\<rparr> in
      case tmpDataFiles s1 a of
        None \<Rightarrow> if opens a then Inr (s1\<lparr>tmpDataFiles := (tmpDataFiles s1)(a \<mapsto> recs r)\<rparr>) else Inl (CannotCreateTmp a)
      | Some f \<Rightarrow> Inr (s1\<lparr>tmpDataFiles := (tmpDataFiles s1)(a \<mapsto> f @ recs r)\<rparr>))"

fun sort_records ::
    "(nat \<Rightarrow> bool) \<Rightarrow> (RawCalibrationData \<Rightarrow> 'r list) \<Rightarrow> RawCalibrationData list \<Rightarrow> 'r sorting \<Rightarrow> cal_error + 'r sorting" where
  "sort_records opens recs [] s = Inr s"
| "sort_records opens recs (r # rs) s =
     (case sort_record opens recs r s of Inl e \<Rightarrow> Inl e | Inr s' \<Rightarrow> sort_records opens recs rs s')"

text \<open>
  A line of the index: the bytes of a step and its first value. When the file ends before the step
  does, the rest of the block is used without having been set.
\<close>

type_synonym 'd index_entry = "nat \<times> nat \<times> 'd"

definition block_records :: "u8 list \<Rightarrow> 'd index_entry \<Rightarrow> RawCalibrationData list" where
  "block_records file_bytes e = (case e of (startOffset, endOffset, phase) \<Rightarrow>
     raw_records ((endOffset - startOffset) div 16) (drop startOffset file_bytes))"

fun sort_steps ::
    "(nat \<Rightarrow> bool) \<Rightarrow> ('d \<Rightarrow> RawCalibrationData \<Rightarrow> 'r list) \<Rightarrow> u8 list \<Rightarrow> 'd index_entry list \<Rightarrow> 'r sorting \<Rightarrow>
     (cal_error + 'r sorting) run" where
  "sort_steps opens recs file_bytes [] s = Return (Inr s)"
| "sort_steps opens recs file_bytes ((startOffset, endOffset, phase) # es) s =
     (if endOffset < startOffset then Return (Inl TooMuchMemory)
      else let block = block_records file_bytes (startOffset, endOffset, phase) in
        if length block < (endOffset - startOffset) div 16 then Fault
        else case sort_records opens (recs phase) block s of
          Inl e \<Rightarrow> Return (Inl e)
        | Inr s' \<Rightarrow> sort_steps opens recs file_bytes es s')"

text \<open>The files a run of the program finds (\<open>None\<close>: it does not open) and can create.\<close>

record 'd sort_input =
  index_lines :: "'d index_entry list option"
  raw_bytes :: "u8 list option"
  list_opens :: bool
  tmp_opens :: "nat \<Rightarrow> bool"

type_synonym tmp_list = "(nat \<times> string) list"

definition tmp_list_of :: "string \<Rightarrow> 'r sorting \<Rightarrow> tmp_list" where
  "tmp_list_of prefix s =
     map (\<lambda>a. (a, tmp_name prefix a)) (filter (\<lambda>a. tmpDataFiles s a \<noteq> None) [0..<maxgAsicID s + 1])"

type_synonym 'r tmp_files = "string \<Rightarrow> 'r list option"

definition store_tmp :: "'r sorting \<Rightarrow> tmp_list \<Rightarrow> 'r tmp_files \<Rightarrow> 'r tmp_files" where
  "store_tmp s l fs = fold (\<lambda>(a, name) fs. fs(name := tmpDataFiles s a)) l fs"

definition sort_data ::
    "('d \<Rightarrow> RawCalibrationData \<Rightarrow> 'r list) \<Rightarrow> string \<Rightarrow> 'd sort_input \<Rightarrow> 'r tmp_files \<Rightarrow> (cal_error + tmp_list \<times> 'r tmp_files) run" where
  "sort_data recs prefix inp fs =
     (case index_lines inp of
        None \<Rightarrow> Return (Inl CannotOpenIndex)
      | Some es \<Rightarrow>
          (case raw_bytes inp of
             None \<Rightarrow> Return (Inl CannotOpenData)
           | Some bytes \<Rightarrow>
               if \<not> list_opens inp then Return (Inl CannotCreateList)
               else bind_run (sort_steps (tmp_opens inp) recs bytes es sorting_new) (\<lambda>r.
                 case r of
                   Inl e \<Rightarrow> Return (Inl e)
                 | Inr s \<Rightarrow> let l = tmp_list_of prefix s in Return (Inr (l, store_tmp s l fs)))))"

section \<open>What the files hold\<close>

lemma asic_of_bound: "asic_of w < MAX_N_ASIC"
proof -
  have "drop_bit 6 (getChannelID w) = ucast (drop_bit 48 w)"
    unfolding getChannelID_def by (rule bit_word_eqI) (auto simp: bit_simps dest: bit_imp_le_length)
  moreover have "unat (drop_bit 48 w) < 2 ^ 16"
  proof -
    have "unat w < 2 ^ 16 * 2 ^ 48" using unsigned_less [of w] by simp
    then have "unat w div 2 ^ 48 < 2 ^ 16" by (rule less_mult_imp_div_less)
    then show ?thesis by (simp only: unsigned_drop_bit_eq take_bit_nat_eq_self) (simp add: drop_bit_eq_div take_bit_eq_mod)
  qed
  ultimately show ?thesis
    by (simp add: asic_of_def MAX_N_ASIC_def unsigned_ucast_eq take_bit_nat_eq_self)
qed

lemma dec_pad_inj: "m < 10 ^ w \<Longrightarrow> n < 10 ^ w \<Longrightarrow> dec_pad w m = dec_pad w n \<Longrightarrow> m = n"
  using dec_pad_less [of m n w] dec_pad_less [of n m w] by (cases m n rule: linorder_cases) auto

lemma tmp_name_inj:
  assumes "a < MAX_N_ASIC" and "b < MAX_N_ASIC" and "tmp_name prefix a = tmp_name prefix b"
  shows "a = b"
proof -
  have "a div 2048 mod 32 = b div 2048 mod 32 \<and> a div 64 mod 32 = b div 64 mod 32 \<and> a mod 64 = b mod 64"
    using assms(3) by (simp add: tmp_name_def asic_prefix_def asic_address_def) (auto intro: dec_pad_inj [of _ 2])
  moreover have "a = a div 2048 mod 32 * 2048 + a div 64 mod 32 * 64 + a mod 64" if "a < MAX_N_ASIC" for a :: nat
  proof -
    have "a div 2048 mod 32 = a div 64 div 32" using that by (simp add: MAX_N_ASIC_def div_mult2_eq [symmetric])
    moreover have "a div 64 = a div 64 div 32 * 32 + a div 64 mod 32" by simp
    moreover have "a = a div 64 * 64 + a mod 64" by simp
    ultimately show ?thesis by linarith
  qed
  ultimately show ?thesis using assms(1, 2) by metis
qed

lemma length_raw_records: "16 * n \<le> length bs \<Longrightarrow> length (raw_records n bs) = n"
  by (induction n bs rule: raw_records.induct) auto

text \<open>The counted words of a run with the value of their step, and those of an ASIC.\<close>

definition all_records :: "u8 list \<Rightarrow> 'd index_entry list \<Rightarrow> ('d \<times> RawCalibrationData) list" where
  "all_records bs es = concat (map (\<lambda>e. map (Pair (snd (snd e))) (block_records bs e)) es)"

definition of_asic :: "nat \<Rightarrow> ('d \<times> RawCalibrationData) list \<Rightarrow> ('d \<times> RawCalibrationData) list" where
  "of_asic a xs = filter (\<lambda>x. asic_of (rc_word (snd x)) = a) xs"

definition made :: "('d \<Rightarrow> RawCalibrationData \<Rightarrow> 'r list) \<Rightarrow> ('d \<times> RawCalibrationData) list \<Rightarrow> 'r list" where
  "made recs xs = concat (map (\<lambda>(phase, r). recs phase r) xs)"

definition extend_file :: "'r list option \<Rightarrow> 'r list list \<Rightarrow> 'r list option" where
  "extend_file old xs = (if xs = [] then old else Some (concat ((case old of None \<Rightarrow> [] | Some f \<Rightarrow> f) # xs)))"

lemma extend_file_Nil [simp]: "extend_file old [] = old"
  by (simp add: extend_file_def)

lemma extend_file_twice [simp]: "extend_file (extend_file old xs) ys = extend_file old (xs @ ys)"
  by (auto simp: extend_file_def)

definition files_listed :: "'r sorting \<Rightarrow> bool" where
  "files_listed s \<longleftrightarrow> (\<forall>a. tmpDataFiles s a \<noteq> None \<longrightarrow> a \<le> maxgAsicID s)"

lemma sort_record_runs:
  assumes "\<forall>a. opens a" and "files_listed s"
  shows "\<exists>s'. sort_record opens recs r s = Inr s' \<and> files_listed s' \<and>
    (\<forall>a. tmpDataFiles s' a = extend_file (tmpDataFiles s a) (if asic_of (rc_word r) = a then [recs r] else []))"
  using assms by (auto simp: sort_record_def Let_def files_listed_def extend_file_def le_max_iff_disj split: option.split)

lemma sort_records_runs:
  assumes "\<forall>a. opens a" and "files_listed s"
  shows "\<exists>s'. sort_records opens recs rs s = Inr s' \<and> files_listed s' \<and>
    (\<forall>a. tmpDataFiles s' a = extend_file (tmpDataFiles s a) (map recs (filter (\<lambda>r. asic_of (rc_word r) = a) rs)))"
  using assms(2)
proof (induction rs arbitrary: s)
  case (Cons r rs)
  obtain s1 where s1: "sort_record opens recs r s = Inr s1" "files_listed s1"
    "\<forall>a. tmpDataFiles s1 a = extend_file (tmpDataFiles s a) (if asic_of (rc_word r) = a then [recs r] else [])"
    using sort_record_runs [OF assms(1) Cons.prems] by blast
  with Cons.IH [OF s1(2)] show ?case by auto
qed auto

lemma sort_steps_runs:
  assumes "\<forall>a. opens a" and "files_listed s" and "\<forall>(b, e, phase) \<in> set es. b \<le> e \<and> e \<le> length bs"
  shows "\<exists>s'. sort_steps opens recs bs es s = Return (Inr s') \<and> files_listed s' \<and>
    (\<forall>a. tmpDataFiles s' a = extend_file (tmpDataFiles s a) (map (\<lambda>(phase, r). recs phase r) (of_asic a (all_records bs es))))"
  using assms(2, 3)
proof (induction es arbitrary: s)
  case Nil
  then show ?case by (simp add: all_records_def of_asic_def)
next
  case (Cons e es)
  obtain b n phase where e: "e = (b, n, phase)" by (cases e)
  let ?rs = "block_records bs e"
  have len: "length ?rs = (n - b) div 16"
    unfolding block_records_def e prod.case by (rule length_raw_records) (use Cons.prems(2) e in auto)
  obtain s1 where s1: "sort_records opens (recs phase) ?rs s = Inr s1" "files_listed s1"
    "\<forall>a. tmpDataFiles s1 a = extend_file (tmpDataFiles s a) (map (recs phase) (filter (\<lambda>r. asic_of (rc_word r) = a) ?rs))"
    using sort_records_runs [OF assms(1) Cons.prems(1)] by blast
  obtain s2 where s2: "sort_steps opens recs bs es s1 = Return (Inr s2)" "files_listed s2"
    "\<forall>a. tmpDataFiles s2 a = extend_file (tmpDataFiles s1 a) (map (\<lambda>(phase, r). recs phase r) (of_asic a (all_records bs es)))"
    using Cons.IH [OF s1(2)] Cons.prems(2) by auto
  have "sort_steps opens recs bs (e # es) s = Return (Inr s2)"
    using s1(1) s2(1) len Cons.prems(2) by (simp add: e)
  moreover have "map (\<lambda>(phase, r). recs phase r) (of_asic a (all_records bs (e # es))) =
      map (recs phase) (filter (\<lambda>r. asic_of (rc_word r) = a) ?rs) @ map (\<lambda>(phase, r). recs phase r) (of_asic a (all_records bs es))" for a
    by (simp add: all_records_def of_asic_def e filter_map o_def)
  ultimately show ?case using s1(3) s2(2, 3) by auto
qed

lemma store_tmp_other: "name \<notin> set (map snd l) \<Longrightarrow> store_tmp s l fs name = fs name"
  unfolding store_tmp_def by (induction l arbitrary: fs) auto

lemma store_tmp_at: "(a, name) \<in> set l \<Longrightarrow> distinct (map snd l) \<Longrightarrow> store_tmp s l fs name = tmpDataFiles s a"
proof (induction l arbitrary: fs)
  case (Cons p l)
  then show ?case
    using store_tmp_other [of name l s] by (cases p) (auto simp: store_tmp_def image_iff)
qed simp

text \<open>
  Sorting distributes the counted words of a run completely and without mixing: when the files open
  and the steps of the index lie inside the data, the list names exactly the ASICs that have words,
  in ascending order, and the file of each holds the records of its own words and of no others, in
  the order of the run; no other file changes.
\<close>

lemma words_reach_asic_files:
  assumes "index_lines inp = Some es" and "raw_bytes inp = Some bs" and "list_opens inp" and "\<forall>a. tmp_opens inp a"
    and "\<forall>(b, e, phase) \<in> set es. b \<le> e \<and> e \<le> length bs"
  shows "\<exists>as fs'. sort_data recs prefix inp fs = Return (Inr (map (\<lambda>a. (a, tmp_name prefix a)) as, fs')) \<and>
    sorted_wrt (<) as \<and> set as = {a. of_asic a (all_records bs es) \<noteq> []} \<and>
    (\<forall>a \<in> set as. fs' (tmp_name prefix a) = Some (made recs (of_asic a (all_records bs es)))) \<and>
    (\<forall>name. name \<notin> tmp_name prefix ` set as \<longrightarrow> fs' name = fs name)"
proof -
  obtain s where s: "sort_steps (tmp_opens inp) recs bs es sorting_new = Return (Inr s)" "files_listed s"
    "\<forall>a. tmpDataFiles s a = extend_file None (map (\<lambda>(phase, r). recs phase r) (of_asic a (all_records bs es)))"
    using sort_steps_runs [OF assms(4) _ assms(5), where s = sorting_new and recs = recs] by (auto simp: sorting_new_def files_listed_def)
  define as where "as = filter (\<lambda>a. tmpDataFiles s a \<noteq> None) [0..<maxgAsicID s + 1]"
  let ?l = "map (\<lambda>a. (a, tmp_name prefix a)) as"
  have none: "tmpDataFiles s a \<noteq> None \<longleftrightarrow> of_asic a (all_records bs es) \<noteq> []" for a
    using s(3) by (simp add: extend_file_def)
  have as: "set as = {a. of_asic a (all_records bs es) \<noteq> []}"
    using s(2) none unfolding as_def files_listed_def set_filter set_upt by (auto simp: less_Suc_eq_le)
  have "a < MAX_N_ASIC" if "a \<in> set as" for a
    using that asic_of_bound unfolding as by (auto simp: of_asic_def filter_empty_conv)
  then have "inj_on (tmp_name prefix) (set as)" by (auto intro: inj_onI tmp_name_inj)
  moreover have "distinct as" unfolding as_def by (intro distinct_filter distinct_upt)
  ultimately have "distinct (map snd ?l)" by (simp add: distinct_map o_def)
  then have stored: "store_tmp s ?l fs (tmp_name prefix a) = tmpDataFiles s a" if "a \<in> set as" for a
    by (rule store_tmp_at [rotated]) (use that in auto)
  have "store_tmp s ?l fs (tmp_name prefix a) = Some (made recs (of_asic a (all_records bs es)))" if "a \<in> set as" for a
    unfolding stored [OF that] using that s(3) unfolding as by (simp add: extend_file_def made_def)
  moreover have "store_tmp s ?l fs name = fs name" if "name \<notin> tmp_name prefix ` set as" for name
    by (rule store_tmp_other) (use that in auto)
  moreover have "sort_data recs prefix inp fs = Return (Inr (?l, store_tmp s ?l fs))"
    using assms(1-3) s(1) by (simp add: sort_data_def tmp_list_of_def as_def Let_def)
  moreover have "sorted_wrt (<) as" unfolding as_def by (intro sorted_wrt_filter sorted_wrt_upt)
  ultimately show ?thesis using as by blast
qed

section \<open>Numbers of channels\<close>

lemma unat_small: "n < 2 ^ 32 \<Longrightarrow> unat (of_nat n :: u32) = n"
  by (simp add: unsigned_of_nat take_bit_nat_eq_self)

lemma number_fields:
  fixes h :: nat
  assumes "h < 2 ^ 22"
  shows "MAKE_GID (of_nat (h div 2 ^ 17 mod 32)) (of_nat (h div 2 ^ 12 mod 32)) (of_nat (h div 2 ^ 6 mod 64)) (of_nat (h mod 64)) = of_nat h"
proof -
  have parts: "h div 2 ^ 17 mod 32 = take_bit 5 (drop_bit 17 h)" "h div 2 ^ 12 mod 32 = take_bit 5 (drop_bit 12 h)"
    "h div 2 ^ 6 mod 64 = take_bit 6 (drop_bit 6 h)" "h mod 64 = take_bit 6 h"
    by (simp_all add: take_bit_eq_mod drop_bit_eq_div)
  have h: "take_bit 22 h = h" using assms by (simp add: take_bit_nat_eq_self)
  have top: "bit h n \<Longrightarrow> n < 22" for n by (metis h bit_take_bit_iff)
  show ?thesis unfolding parts MAKE_GID_def
  proof (rule bit_word_eqI)
    fix n :: nat
    assume "n < LENGTH(32)"
    then show "bit (ucast (ucast (of_nat (take_bit 6 h) :: u32) OR push_bit 6 (ucast (of_nat (take_bit 6 (drop_bit 6 h)) :: u32)) OR
        push_bit 12 (ucast (of_nat (take_bit 5 (drop_bit 12 h)) :: u32)) OR
        push_bit 17 (ucast (of_nat (take_bit 5 (drop_bit 17 h)) :: u32)) :: u64) :: u32) n = bit (of_nat h :: u32) n"
      by (cases "n < 6"; cases "n < 12"; cases "n < 17") (auto simp: bit_simps possible_bit_word dest: top)
  qed
qed

section \<open>The counted words of the recorder\<close>

lemma le64_low: "le64 (take 4 (le_bytes (ucast (n :: u32)))) = ucast n"
  by (simp add: le64_take_bytes) (rule bit_word_eqI, auto simp: bit_simps dest: bit_imp_le_length)

lemma pool_records:
  assumes "length pad = 4"
  shows "raw_records (length (concat cal)) (pool_writeOut pad cal @ rest) =
    map (\<lambda>(w, n). \<lparr>rc_word = w, rc_freq = n\<rparr>) (concat cal)"
proof -
  have "raw_records (length ms) (concat (map (\<lambda>(w, n). le_bytes w @ take 4 (le_bytes (ucast n)) @ pad) ms) @ rest) =
      map (\<lambda>(w, n). \<lparr>rc_word = w, rc_freq = n\<rparr>) ms" for ms :: "(u64 \<times> u32) list"
    using assms by (induction ms) (auto simp: le64_low le64_bytes ucast_up_ucast_id is_up)
  then show ?thesis by (simp only: pool_writeOut_def)
qed

lemma concat_only:
  assumes "i < length xss" and "\<And>j. j < length xss \<Longrightarrow> j \<noteq> i \<Longrightarrow> f (xss ! j) = []"
  shows "concat (map f xss) = f (xss ! i)"
proof -
  have xss: "xss = take i xss @ xss ! i # drop (Suc i) xss" by (rule id_take_nth_drop [OF assms(1)])
  have "f x = []" if "x \<in> set (take i xss)" for x
    using that assms by (auto simp: in_set_conv_nth)
  moreover have "f x = []" if "x \<in> set (drop (Suc i) xss)" for x
    using that assms by (auto simp: in_set_conv_nth)
  ultimately have "concat (map f (take i xss)) = []" "concat (map f (drop (Suc i) xss)) = []" by auto
  then show ?thesis by (subst xss) (simp only: map_append concat_append list.map concat.simps append_Nil append_Nil2)
qed

lemma filter_key: "distinct (map fst m) \<Longrightarrow>
    filter (\<lambda>(v, n). v = w) m = (case map_of m w of None \<Rightarrow> [] | Some n \<Rightarrow> [(w, n)])"
  by (induction m) (auto simp: filter_empty_conv image_iff split: option.split)

text \<open>
  C35: What the recorder has counted is what the processing of a calibration reads: of every event word
  the data of a step, written by the pool after whatever the file held before, gives one record with
  its count if it was counted and none otherwise.
\<close>

theorem counted_words_read_back:
  assumes "pool_ok cal" and "length pad = 4"
  shows "filter (\<lambda>r. rc_word r = w)
      (block_records (old @ pool_writeOut pad cal @ rest) (length old, length old + length (pool_writeOut pad cal), phase)) =
    (if \<exists>m \<in> set cal. map_find m w \<noteq> None then [\<lparr>rc_word = w, rc_freq = counted cal w\<rparr>] else [])"
proof -
  let ?i = "unat (event_hash w) mod length cal" and ?f = "filter (\<lambda>(v, n). v = w)"
  have cal: "cal \<noteq> []" "\<And>m. m \<in> set cal \<Longrightarrow> map_ok m"
    "\<And>i. i < length cal \<Longrightarrow> map_find (cal ! i) w \<noteq> None \<Longrightarrow> i = ?i"
    using assms(1) by (auto simp: pool_ok_def list_all_iff)
  have i: "?i < length cal" using cal(1) by simp
  have key: "?f m = (case map_find m w of None \<Rightarrow> [] | Some n \<Rightarrow> [(w, n)])" if "m \<in> set cal" for m
    using filter_key [of m w] map_ok_distinct [OF cal(2) [OF that]] by (simp add: map_find_def map_keys_def)
  have "concat (map ?f cal) = ?f (cal ! ?i)"
    by (rule concat_only [OF i]) (use key cal(3) in \<open>force split: option.split\<close>)
  moreover have "(\<exists>m \<in> set cal. map_find m w \<noteq> None) \<longleftrightarrow> map_find (cal ! ?i) w \<noteq> None"
    using cal(3) i by (metis in_set_conv_nth nth_mem)
  ultimately have words: "?f (concat cal) = (if \<exists>m \<in> set cal. map_find m w \<noteq> None then [(w, counted cal w)] else [])"
    using key [of "cal ! ?i"] i by (auto simp: filter_concat counted_def split: option.splits)
  have len: "length (pool_writeOut pad cal) = 16 * length (concat cal)"
  proof -
    have "length (concat (map (\<lambda>(w, n). le_bytes w @ take 4 (le_bytes (ucast n)) @ pad) ms)) = 16 * length ms" for ms :: "(u64 \<times> u32) list"
      using assms(2) by (induction ms) auto
    then show ?thesis by (simp only: pool_writeOut_def)
  qed
  have "block_records (old @ pool_writeOut pad cal @ rest) (length old, length old + length (pool_writeOut pad cal), phase) =
      map (\<lambda>(w, n). \<lparr>rc_word = w, rc_freq = n\<rparr>) (concat cal)"
    unfolding block_records_def prod.case len using pool_records [OF assms(2), of cal rest] by simp
  moreover have "filter (\<lambda>r. rc_word r = w) (map (\<lambda>(w, n). \<lparr>rc_word = w, rc_freq = n\<rparr>) ms) =
      map (\<lambda>(w, n). \<lparr>rc_word = w, rc_freq = n\<rparr>) (?f ms)" for ms :: "(u64 \<times> u32) list"
    by (induction ms) auto
  ultimately show ?thesis using words by simp
qed

theorem counted_words_read_back_witness:
  "filter (\<lambda>r. rc_word r = 5) (block_records ([1, 2] @ pool_writeOut [0, 0, 0, 0] [[(5, 3)]] @ [9])
     (length [1, 2 :: u8], length [1, 2 :: u8] + length (pool_writeOut [0, 0, 0, 0] [[(5, 3)]]), 0 :: int)) = [\<lparr>rc_word = 5, rc_freq = 3\<rparr>]"
proof -
  have ok: "pool_ok [[(5, 3)]]" by (simp add: pool_ok_def map_ok_def map_keys_def)
  have "counted [[(5, 3)]] 5 = 3" by (simp add: counted_def map_find_def)
  with counted_words_read_back [OF ok, of "[0, 0, 0, 0]" 5 "[1, 2]" "[9]" 0] show ?thesis by (simp add: map_find_def)
qed

end
