(* ===== verification/CalibrationWorkers.thy ===== *)
theory CalibrationWorkers
  imports CalibrationSort "HOL-Library.Multiset"
begin

text \<open>
  The processes that calibrate the ASICs of a list, at most so many at a time
  (\<^verbatim>\<open>calibrateAllAsics\<close> in \<^verbatim>\<open>process_tdc_calibration_impl.cpp\<close>, and the same in
  \<^verbatim>\<open>process_qdc_calibration_impl.cpp\<close>). A step is one of the parent, which forks a worker or waits for
  one, or the end of a worker; the workers write into a table in shared memory. \<open>work\<close> is what a worker
  does, and is taken as one step: it changes the entries of its own ASIC only and depends on no others,
  which the locale asks for and the calibrations satisfy.
\<close>

section \<open>Loops over a table\<close>

text \<open>A loop over entries of the table, each with a step that sees its own entry only.\<close>

fun visit :: "(nat \<Rightarrow> 'e \<Rightarrow> 'w \<Rightarrow> ('e \<times> 'w) run) \<Rightarrow> nat list \<Rightarrow> (nat \<Rightarrow> 'e) \<times> 'w \<Rightarrow> ((nat \<Rightarrow> 'e) \<times> 'w) run" where
  "visit f [] (tab, w) = Return (tab, w)"
| "visit f (g # gs) (tab, w) = bind_run (f g (tab g) w) (\<lambda>(e, w'). visit f gs (tab(g := e), w'))"

fun agree :: "nat set \<Rightarrow> ((nat \<Rightarrow> 'e) \<times> 'w) run \<Rightarrow> ((nat \<Rightarrow> 'e) \<times> 'w) run \<Rightarrow> bool" where
  "agree G (Return (tab, w)) (Return (tab', w')) \<longleftrightarrow> w = w' \<and> (\<forall>g \<in> G. tab g = tab' g)"
| "agree G Fault Fault \<longleftrightarrow> True"
| "agree G OutOfFuel OutOfFuel \<longleftrightarrow> True"
| "agree G _ _ \<longleftrightarrow> False"

lemma agree_bind:
  assumes "agree G r r'"
    and "\<And>tab tab' w. (\<forall>g \<in> G. tab g = tab' g) \<Longrightarrow> agree G (k (tab, w)) (k' (tab', w))"
  shows "agree G (bind_run r k) (bind_run r' k')"
  using assms by (induction G r r' rule: agree.induct) auto

lemma visit_local:
  "set gs \<subseteq> G \<Longrightarrow> \<forall>g \<in> G. tab g = tab' g \<Longrightarrow> agree G (visit f gs (tab, w)) (visit f gs (tab', w))"
proof (induction gs arbitrary: tab tab' w)
  case (Cons g gs)
  then have "tab g = tab' g" by auto
  with Cons show ?case by (cases "f g (tab' g) w") auto
qed simp

lemma visit_frame:
  "visit f gs (tab, w) = Return (tab', w') \<Longrightarrow> g \<notin> set gs \<Longrightarrow> tab' g = tab g"
proof (induction gs arbitrary: tab w)
  case (Cons a gs)
  then show ?case by (cases "f a (tab a) w") fastforce+
qed simp

text \<open>The results for tables that agree on the ASIC agree on it.\<close>

fun agree_tables :: "nat set \<Rightarrow> (nat \<Rightarrow> 'e) run \<Rightarrow> (nat \<Rightarrow> 'e) run \<Rightarrow> bool" where
  "agree_tables G (Return tab) (Return tab') \<longleftrightarrow> (\<forall>g \<in> G. tab g = tab' g)"
| "agree_tables G r r' \<longleftrightarrow> r = r'"

lemma agree_bind_tables:
  assumes "agree G r r'" and "\<And>tab tab' w. (\<forall>g \<in> G. tab g = tab' g) \<Longrightarrow> agree_tables G (k (tab, w)) (k' (tab', w))"
  shows "agree_tables G (bind_run r k) (bind_run r' k')"
  using assms by (induction G r r' rule: agree.induct) auto

text \<open>The weight of a record; it is signed.\<close>

definition repeated :: "i32 \<Rightarrow> 'a \<Rightarrow> 'a list" where
  "repeated freq x = replicate (nat (sint freq)) x"

section \<open>Temporary files\<close>

definition read_tmp :: "tmp_list \<Rightarrow> 'r tmp_files \<Rightarrow> nat \<Rightarrow> 'r list" where
  "read_tmp l fs a = (case map_of l a of None \<Rightarrow> [] | Some name \<Rightarrow> (case fs name of None \<Rightarrow> [] | Some recs \<Rightarrow> recs))"

fun first_missing :: "tmp_list \<Rightarrow> 'r tmp_files \<Rightarrow> nat option" where
  "first_missing [] fs = None"
| "first_missing ((a, name) # l) fs = (if fs name = None then Some a else first_missing l fs)"

definition delete_tmp :: "tmp_list \<Rightarrow> 'r tmp_files \<Rightarrow> 'r tmp_files" where
  "delete_tmp l fs = fold (\<lambda>(a, name) fs. fs(name := None)) l fs"

lemma first_missing_None: "(\<forall>(a, name) \<in> set l. fs name \<noteq> None) \<Longrightarrow> first_missing l fs = None"
  by (induction l fs rule: first_missing.induct) auto

lemma delete_tmp_at: "delete_tmp l fs name = (if name \<in> set (map snd l) then None else fs name)"
  unfolding delete_tmp_def by (induction l arbitrary: fs) auto

section \<open>How many\<close>

definition max_workers :: "int \<Rightarrow> int \<Rightarrow> int \<Rightarrow> nat" where
  "max_workers nCPU totalRamBytes max_tmp_file_size =
     (let maxWorkersByMem = totalRamBytes div (1 * 1024 * 1024 * 1024 + max_tmp_file_size);
          maxWorkers = (if nCPU < maxWorkersByMem then nCPU else maxWorkersByMem)
      in nat (if maxWorkers > 1 then maxWorkers else 1))"

lemma max_workers_pos: "0 < max_workers nCPU ram tmp"
  by (simp add: max_workers_def Let_def)

section \<open>Processes\<close>

datatype parent = Going | Finished | Failed cal_error

record 'e sched =
  todo :: "nat list"
  nWorkers :: nat
  running :: "nat list"
  zombies :: "nat list"
  reaped :: "nat list"
  parent :: parent
  shared :: "nat \<Rightarrow> 'e"

definition sched_start :: "nat list \<Rightarrow> (nat \<Rightarrow> 'e) \<Rightarrow> 'e sched" where
  "sched_start as tab = \<lparr>todo = as, nWorkers = 0, running = [], zombies = [], reaped = [], parent = Going, shared = tab\<rparr>"

text \<open>The parent is in one of its two waiting loops.\<close>

definition must_wait :: "nat \<Rightarrow> 'e sched \<Rightarrow> bool" where
  "must_wait maxWorkers s \<longleftrightarrow> nWorkers s \<ge> maxWorkers \<or> (todo s = [] \<and> nWorkers s > 0)"

inductive sched_step :: "nat \<Rightarrow> (nat \<Rightarrow> (nat \<Rightarrow> 'e) \<Rightarrow> (nat \<Rightarrow> 'e)) \<Rightarrow> 'e sched \<Rightarrow> 'e sched \<Rightarrow> bool"
  for maxWorkers work where
  forks: "parent s = Going \<Longrightarrow> nWorkers s < maxWorkers \<Longrightarrow> todo s = a # as \<Longrightarrow>
    sched_step maxWorkers work s (s\<lparr>todo := as, nWorkers := nWorkers s + 1, running := running s @ [a]\<rparr>)"
| worker_exits: "running s = xs @ a # ys \<Longrightarrow>
    sched_step maxWorkers work s (s\<lparr>running := xs @ ys, zombies := zombies s @ [a], shared := work a (shared s)\<rparr>)"
| reaps: "parent s = Going \<Longrightarrow> must_wait maxWorkers s \<Longrightarrow> zombies s = xs @ a # ys \<Longrightarrow>
    sched_step maxWorkers work s (s\<lparr>nWorkers := nWorkers s - 1, zombies := xs @ ys, reaped := reaped s @ [a]\<rparr>)"
| no_child: "parent s = Going \<Longrightarrow> must_wait maxWorkers s \<Longrightarrow> zombies s = [] \<Longrightarrow> running s = [] \<Longrightarrow>
    sched_step maxWorkers work s (s\<lparr>parent := Failed WaitFailed\<rparr>)"
| finishes: "parent s = Going \<Longrightarrow> nWorkers s < maxWorkers \<Longrightarrow> todo s = [] \<Longrightarrow> nWorkers s = 0 \<Longrightarrow>
    sched_step maxWorkers work s (s\<lparr>parent := Finished\<rparr>)"

text \<open>A call of \<open>fork\<close> that fails returns -1, which the parent takes for a worker; and a file that does not open.\<close>

inductive sched_fault :: "nat \<Rightarrow> 'e sched \<Rightarrow> 'e sched \<Rightarrow> bool" for maxWorkers where
  fork_fails: "parent s = Going \<Longrightarrow> nWorkers s < maxWorkers \<Longrightarrow> todo s = a # as \<Longrightarrow>
    sched_fault maxWorkers s (s\<lparr>todo := as, nWorkers := nWorkers s + 1\<rparr>)"
| open_fails: "parent s = Going \<Longrightarrow> nWorkers s < maxWorkers \<Longrightarrow> todo s = a # as \<Longrightarrow>
    sched_fault maxWorkers s (s\<lparr>parent := Failed (CannotOpenTmp a)\<rparr>)"

definition sched_left :: "'e sched \<Rightarrow> nat" where
  "sched_left s = 3 * length (todo s) + 2 * length (running s) + length (zombies s) + (if parent s = Going then 1 else 0)"

lemma sched_left_decreases: "sched_step maxWorkers work s s' \<Longrightarrow> sched_left s' < sched_left s"
  by (induction rule: sched_step.induct) (auto simp: sched_left_def)

section \<open>Workers that do not disturb each other\<close>

locale asic_work =
  fixes work :: "nat \<Rightarrow> (nat \<Rightarrow> 'e) \<Rightarrow> (nat \<Rightarrow> 'e)" and width :: nat
  assumes own: "g div width \<noteq> a \<Longrightarrow> work a tab g = tab g"
    and alone: "(\<And>g. g div width = a \<Longrightarrow> tab g = tab' g) \<Longrightarrow> g div width = a \<Longrightarrow> work a tab g = work a tab' g"
begin

lemma fold_at:
  "distinct as \<Longrightarrow> fold work as tab g = (if g div width \<in> set as then work (g div width) tab g else tab g)"
proof (induction as arbitrary: tab)
  case (Cons a as)
  show ?case
  proof (cases "g div width = a")
    case True
    with Cons show ?thesis by simp
  next
    case False
    have "work (g div width) (work a tab) g = work (g div width) tab g"
      by (rule alone [OF _ refl]) (use False own in auto)
    with Cons False own show ?thesis by simp
  qed
qed simp

definition done_by :: "nat list \<Rightarrow> (nat \<Rightarrow> 'e) \<Rightarrow> nat \<Rightarrow> 'e" where
  "done_by as tab g = (if g div width \<in> set as then work (g div width) tab g else tab g)"

text \<open>What holds of every state the processes come to from a list without repetitions.\<close>

definition sched_inv :: "nat \<Rightarrow> nat list \<Rightarrow> (nat \<Rightarrow> 'e) \<Rightarrow> 'e sched \<Rightarrow> bool" where
  "sched_inv maxWorkers as tab s \<longleftrightarrow>
     mset as = mset (todo s) + mset (running s) + mset (zombies s) + mset (reaped s) \<and>
     nWorkers s = length (running s) + length (zombies s) \<and> nWorkers s \<le> maxWorkers \<and>
     shared s = done_by (zombies s @ reaped s) tab \<and>
     (parent s = Going \<or> parent s = Finished \<and> todo s = [] \<and> nWorkers s = 0)"

lemma sched_inv_start: "sched_inv maxWorkers as tab (sched_start as tab)"
  by (auto simp: sched_inv_def sched_start_def done_by_def)

lemma done_by_work:
  assumes "a \<notin> set as"
  shows "work a (done_by as tab) = done_by (a # as) tab"
proof
  fix g
  show "work a (done_by as tab) g = done_by (a # as) tab g"
  proof (cases "g div width = a")
    case True
    have "work a (done_by as tab) g = work a tab g"
      by (rule alone [OF _ True]) (use assms in \<open>auto simp: done_by_def\<close>)
    with True show ?thesis by (simp add: done_by_def)
  qed (auto simp: own done_by_def)
qed

lemma done_by_set: "set as = set bs \<Longrightarrow> done_by as tab = done_by bs tab"
  by (simp add: done_by_def fun_eq_iff)

lemma sched_inv_step:
  assumes "sched_step maxWorkers work s s'" and "sched_inv maxWorkers as tab s" and "distinct as" and "0 < maxWorkers"
  shows "sched_inv maxWorkers as tab s'"
  using assms
proof (induction rule: sched_step.induct)
  case (worker_exits s xs a ys)
  have "mset as = mset (todo s) + mset (a # xs @ ys) + mset (zombies s) + mset (reaped s)"
    using worker_exits(1, 2) by (simp add: sched_inv_def)
  then have "distinct (todo s @ (a # xs @ ys) @ zombies s @ reaped s)"
    using worker_exits(3) by (metis add.assoc mset_append mset_eq_imp_distinct_iff)
  then have "a \<notin> set (zombies s @ reaped s)" by auto
  then have "work a (shared s) = done_by (a # zombies s @ reaped s) tab"
    using worker_exits(2) done_by_work by (simp add: sched_inv_def)
  also have "\<dots> = done_by ((zombies s @ [a]) @ reaped s) tab" by (rule done_by_set) auto
  finally show ?case using worker_exits(1, 2) by (auto simp: sched_inv_def)
next
  case (reaps s xs a ys)
  have "done_by (zombies s @ reaped s) tab = done_by ((xs @ ys) @ reaped s @ [a]) tab"
    by (rule done_by_set) (use reaps(3) in auto)
  with reaps show ?case by (auto simp: sched_inv_def)
next
  case (no_child s)
  then show ?case by (auto simp: sched_inv_def must_wait_def)
qed (auto simp: sched_inv_def)

lemma sched_inv_reached:
  assumes "(sched_step maxWorkers work ^^ n) (sched_start as tab) s" and "distinct as" and "0 < maxWorkers"
  shows "sched_inv maxWorkers as tab s"
  using assms(1)
proof (induction n arbitrary: s)
  case 0
  then have "s = sched_start as tab" by simp
  then show ?case by (simp add: sched_inv_start)
next
  case (Suc n)
  then show ?case using sched_inv_step [OF _ _ assms(2, 3)] by auto
qed

lemma sched_bound:
  "(sched_step maxWorkers work ^^ n) (sched_start as tab) s \<Longrightarrow> n + sched_left s \<le> 3 * length as + 1"
proof (induction n arbitrary: s)
  case 0
  then have "s = sched_start as tab" by simp
  then show ?case by (simp add: sched_left_def sched_start_def)
next
  case (Suc n)
  then obtain t where t: "n + sched_left t \<le> 3 * length as + 1" "sched_step maxWorkers work t s" by auto
  then show ?case using sched_left_decreases [OF t(2)] by simp
qed

lemma sched_stuck:
  assumes "sched_inv maxWorkers as tab s" and "\<And>s'. \<not> sched_step maxWorkers work s s'"
  shows "parent s = Finished \<and> running s = []"
proof -
  have run: "running s = []"
  proof (cases "running s")
    case (Cons a ys)
    then show ?thesis using assms(2) worker_exits [of s "[]" a ys] by auto
  qed
  moreover have "parent s = Finished"
  proof (rule ccontr)
    assume "parent s \<noteq> Finished"
    then have going: "parent s = Going" using assms(1) by (auto simp: sched_inv_def)
    show False
    proof (cases "must_wait maxWorkers s")
      case True
      then show False
        using assms(2) going run reaps [of s maxWorkers "[]" "hd (zombies s)" "tl (zombies s)"] no_child [of s maxWorkers]
        by (cases "zombies s") auto
    next
      case False
      then show False
        using assms(2) going forks [of s maxWorkers "hd (todo s)" "tl (todo s)"] finishes [of s maxWorkers]
        by (cases "todo s") (auto simp: must_wait_def)
    qed
  qed
  ultimately show ?thesis by simp
qed

text \<open>Every run ends, and then with all the work done; at no time there are too many workers.\<close>

lemma all_work_done:
  assumes "(sched_step maxWorkers work ^^ n) (sched_start as tab) s" and "distinct as" and "0 < maxWorkers"
  shows "length (running s) \<le> maxWorkers \<and> n \<le> 3 * length as + 1 \<and> (\<forall>e. parent s \<noteq> Failed e) \<and>
    ((\<exists>s'. sched_step maxWorkers work s s') \<or>
     parent s = Finished \<and> running s = [] \<and> mset (reaped s) = mset as \<and> shared s = fold work as tab)"
proof -
  note inv = sched_inv_reached [OF assms]
  have bounds: "length (running s) \<le> maxWorkers" "n \<le> 3 * length as + 1" "\<forall>e. parent s \<noteq> Failed e"
    using inv sched_bound [OF assms(1)] by (auto simp: sched_inv_def)
  have "parent s = Finished \<and> running s = [] \<and> mset (reaped s) = mset as \<and> shared s = fold work as tab"
    if stuck: "\<not> (\<exists>s'. sched_step maxWorkers work s s')"
  proof -
    have fin: "parent s = Finished" "running s = []" using sched_stuck [OF inv] stuck by auto
    then have r: "mset (reaped s) = mset as" "zombies s = []" using inv by (auto simp: sched_inv_def)
    have "shared s = done_by as tab"
      using inv r done_by_set [OF mset_eq_setD [OF r(1)]] by (simp add: sched_inv_def)
    also have "\<dots> = fold work as tab" by (rule ext) (simp add: done_by_def fold_at [OF assms(2)])
    finally show ?thesis using fin r by simp
  qed
  with bounds show ?thesis by blast
qed

end

section \<open>A fork that fails\<close>

definition lost_worker :: "'e sched \<Rightarrow> bool" where
  "lost_worker s \<longleftrightarrow> length (running s) + length (zombies s) < nWorkers s \<and> parent s \<noteq> Finished"

lemma lost_worker_step: "sched_step maxWorkers work s s' \<Longrightarrow> lost_worker s \<Longrightarrow> lost_worker s'"
  by (induction rule: sched_step.induct) (auto simp: lost_worker_def)

lemma lost_worker_fault: "sched_fault maxWorkers s s' \<Longrightarrow> lost_worker s \<Longrightarrow> lost_worker s'"
  by (induction rule: sched_fault.induct) (auto simp: lost_worker_def)

text \<open>
  When \<^verbatim>\<open>fork\<close> fails for an ASIC, which is not tested, the program can no longer finish: it waits for a
  worker that was never there, until \<^verbatim>\<open>wait\<close> fails.
\<close>

theorem failed_fork_never_finishes:
  assumes "parent s = Going" and "nWorkers s < maxWorkers" and "todo s = a # as"
    and "nWorkers s = length (running s) + length (zombies s)"
    and "(\<lambda>s s'. sched_step maxWorkers work s s' \<or> sched_fault maxWorkers s s')\<^sup>*\<^sup>*
      (s\<lparr>todo := as, nWorkers := nWorkers s + 1\<rparr>) s'"
  shows "parent s' \<noteq> Finished"
proof -
  have "lost_worker (s\<lparr>todo := as, nWorkers := nWorkers s + 1\<rparr>)" using assms(1, 4) by (simp add: lost_worker_def)
  with assms(5) have "lost_worker s'"
    by (induction rule: rtranclp_induct) (auto intro: lost_worker_step lost_worker_fault)
  then show ?thesis by (simp add: lost_worker_def)
qed

theorem failed_fork_never_finishes_witness:
  "parent ((sched_start [7] (\<lambda>_. 0 :: nat))\<lparr>todo := [], nWorkers := 1, parent := Failed WaitFailed\<rparr>) \<noteq> Finished"
proof (rule failed_fork_never_finishes [of "sched_start [7] (\<lambda>_. 0)" 2 7 "[]" "\<lambda>_ tab. tab"])
  let ?s = "(sched_start [7] (\<lambda>_. 0 :: nat))\<lparr>todo := [], nWorkers := nWorkers (sched_start [7] (\<lambda>_. 0 :: nat)) + 1\<rparr>"
  have "sched_step 2 (\<lambda>_ tab. tab) ?s (?s\<lparr>parent := Failed WaitFailed\<rparr>)"
    by (rule no_child) (simp_all add: sched_start_def must_wait_def)
  then show "(\<lambda>s s'. sched_step 2 (\<lambda>_ tab. tab) s s' \<or> sched_fault 2 s s')\<^sup>*\<^sup>* ?s
      ((sched_start [7] (\<lambda>_. 0))\<lparr>todo := [], nWorkers := 1, parent := Failed WaitFailed\<rparr>)"
    by (intro r_into_rtranclp) (simp add: sched_start_def)
qed (simp_all add: sched_start_def)

end
