(* ===== verification/TdcCalibration.thy ===== *)
theory TdcCalibration
  imports CalibrationWorkers Arithmetic
begin

text \<open>
  Processing a TDC calibration (\<^verbatim>\<open>external/scripts_c/src/process_tdc_calibration_impl.cpp\<close>). The
  arithmetic is a parameter, as elsewhere, and so are ROOT's histograms and fits, with a state \<open>'w\<close> of
  their own; the control plots are left out. A table is a function of the number of a TAC, eight for
  each channel: three bits of which the lowest is the branch.
\<close>

section \<open>Data\<close>

record 'd CalibrationData =
  cd_gid :: u32
  cd_coarse :: u16
  cd_fine :: u16
  cd_freq :: i32
  cd_phase :: 'd

record 'd CalibrationEntry =
  ce_t0 :: 'd
  ce_tEdge :: 'd
  ce_a0 :: 'd
  ce_a1 :: 'd
  ce_a2 :: 'd
  ce_valid :: bool

type_synonym 'd tdc_table = "nat \<Rightarrow> 'd CalibrationEntry"

definition MAX_N_TAC :: nat where "MAX_N_TAC = MAX_N_ASIC * 64 * 2 * 4"

definition empty_table :: "'d arith \<Rightarrow> 'd tdc_table" where
  "empty_table A = (\<lambda>_. \<lparr>ce_t0 = lit A 0, ce_tEdge = lit A 0, ce_a0 = lit A 0, ce_a1 = lit A 0, ce_a2 = lit A 0, ce_valid = False\<rparr>)"

definition tac_gid :: "u64 \<Rightarrow> u32 \<Rightarrow> u32" where
  "tac_gid w branch = push_bit 3 (getChannelID w) OR push_bit 1 (getTacID w) OR branch"

definition tdc_records :: "'d \<Rightarrow> RawCalibrationData \<Rightarrow> 'd CalibrationData list" where
  "tdc_records phase r =
     (let w = rc_word r in
      [\<lparr>cd_gid = tac_gid w 0, cd_coarse = ucast (getTCoarse w), cd_fine = ucast (getTFine w), cd_freq = rc_freq r, cd_phase = phase\<rparr>,
       \<lparr>cd_gid = tac_gid w 1, cd_coarse = ucast (getECoarse w), cd_fine = ucast (getEFine w), cd_freq = rc_freq r, cd_phase = phase\<rparr>])"

definition gids_of :: "nat \<Rightarrow> nat list" where
  "gids_of asic = [asic * 64 * 2 * 4..<(asic + 1) * 64 * 4 * 2]"

definition records_of :: "nat \<Rightarrow> 'd CalibrationData list \<Rightarrow> 'd CalibrationData list" where
  "records_of g recs = filter (\<lambda>r. unat (cd_gid r) = g) recs"

section \<open>ROOT\<close>

record 'd profile =
  nBinsX :: nat
  bin_content :: "nat \<Rightarrow> 'd"
  bin_error :: "nat \<Rightarrow> 'd"
  bin_center :: "nat \<Rightarrow> 'd"
  bin_entries :: "nat \<Rightarrow> int"

text \<open>
  A fit is given the start values with their limits; it gives \<open>None\<close> or its chi square and degrees of
  freedom, and the parameters of its function afterwards.
\<close>

type_synonym 'd limited = "'d \<times> ('d \<times> 'd) option"
type_synonym 'd fitted = "('d \<times> int) option"

record ('d, 'w) root =
  infinity :: 'd
  profile_of :: "('d \<times> u16) list \<Rightarrow> 'w \<Rightarrow> 'd profile \<times> 'w"
  fit_pol1 :: "'d profile \<Rightarrow> 'd \<Rightarrow> 'd \<Rightarrow> 'w \<Rightarrow> 'd option \<times> 'w"
  fit_F1 :: "'d profile \<Rightarrow> 'd limited list \<Rightarrow> 'w \<Rightarrow> 'd fitted \<times> ('d \<times> 'd \<times> 'd) \<times> 'w"
  fit_F2 :: "'d profile \<Rightarrow> 'd limited list \<Rightarrow> 'w \<Rightarrow> 'd fitted \<times> ('d \<times> 'd \<times> 'd \<times> 'd) \<times> 'w"
  profile_mean :: "('d \<times> 'd) list \<Rightarrow> 'd"
  fit_gaus :: "'d list \<Rightarrow> 'w \<Rightarrow> 'd option \<times> 'w"

section \<open>The edge\<close>

record 'd edge =
  tEdge :: 'd
  lowerT0 :: 'd
  upperT0 :: 'd
  maxSlope :: 'd
  adcMin :: 'd

definition edge_pairs :: "nat \<Rightarrow> (nat \<times> nat) list" where
  "edge_pairs bins = concat (map (\<lambda>n. map (\<lambda>j. (n, j)) [1..<bins - 1 - n]) (rev [1..<11]))"

definition rise :: "'d arith \<Rightarrow> 'd profile \<Rightarrow> nat \<times> nat \<Rightarrow> 'd option" where
  "rise A p nj =
     (let (n, j) = nj in
      if bin_entries p j = 0 \<or> bin_entries p (j + n) = 0 then None
      else if less_than A (lit A 5) (bin_error p j) \<or> less_than A (lit A 5) (bin_error p (j + n)) then None
      else Some (fdiv A (fsub A (bin_content p (j + n)) (bin_content p j)) (fsub A (bin_center p (j + n)) (bin_center p j))))"

definition edge_step :: "'d arith \<Rightarrow> 'd profile \<Rightarrow> nat \<times> nat \<Rightarrow> 'd edge \<Rightarrow> 'd edge" where
  "edge_step A p nj e =
     (case rise A p nj of
        None \<Rightarrow> e
      | Some slope \<Rightarrow>
          if less_than A (maxSlope e) slope then
            let (n, j) = nj; t1 = bin_center p j; t2 = bin_center p (j + n); v = bin_content p j in
            \<lparr>tEdge = fdiv A (fadd A t2 t1) (lit A 2), lowerT0 = t1, upperT0 = t2, maxSlope = slope,
             adcMin = (if less_than A v (adcMin e) then v else adcMin e)\<rparr>
          else e)"

definition no_edge :: "'d arith \<Rightarrow> 'd edge" where
  "no_edge A = \<lparr>tEdge = lit A 0, lowerT0 = lit A 0, upperT0 = lit A 0, maxSlope = lit A 0, adcMin = lit A 1024\<rparr>"

definition find_edge :: "'d arith \<Rightarrow> 'd profile \<Rightarrow> 'd edge" where
  "find_edge A p = fold (edge_step A p) (edge_pairs (nBinsX p)) (no_edge A)"

text \<open>Moved by whole periods (of one clock) into the first; \<open>None\<close>: it never ends.\<close>

partial_function (option) first_period :: "'d arith \<Rightarrow> 'd edge \<Rightarrow> 'd edge option" where
  "first_period A e =
     (if less_than A (lit A 1) (lowerT0 e) \<and> less_than A (lit A 1) (tEdge e) \<and> less_than A (lit A 1) (upperT0 e)
      then first_period A (e\<lparr>lowerT0 := fsub A (lowerT0 e) (lit A 1), tEdge := fsub A (tEdge e) (lit A 1),
        upperT0 := fsub A (upperT0 e) (lit A 1)\<rparr>)
      else Some e)"

section \<open>The fits of a TAC\<close>

record 'd tries =
  currChi2 :: 'd
  prevChi2 :: 'd
  nTry :: nat

definition no_tries :: "('d, 'w) root \<Rightarrow> 'd tries" where
  "no_tries R = \<lparr>currChi2 = infinity R, prevChi2 = infinity R, nTry = 0\<rparr>"

text \<open>The values of a try; \<open>b\<close> and \<open>m\<close> are not set before the first fit that is better than the last.\<close>

type_synonym 'd first_values = "'d \<times> ('d \<times> 'd) option"

definition first_try ::
    "'d arith \<Rightarrow> ('d, 'w) root \<Rightarrow> 'd profile \<Rightarrow> 'd edge \<Rightarrow> 'd \<Rightarrow> 'd first_values \<Rightarrow> 'd tries \<Rightarrow> 'w \<Rightarrow> 'd first_values \<times> 'd tries \<times> 'w" where
  "first_try A R p e estimatedM v t w =
     (let tolerance = fsub A (upperT0 e) (lowerT0 e);
          (r, (p0, p1, p2), w1) = fit_F1 R p
            [(fst v, Some (lowerT0 e, upperT0 e)),
             (adcMin e, Some (fsub A (adcMin e) (fmul A estimatedM tolerance), adcMin e)),
             (estimatedM, Some (dmul A (frac A 98 100) estimatedM, dmul A (frac A 102 100) estimatedM))] w
      in case r of
        None \<Rightarrow> (v, t\<lparr>nTry := nTry t + 1\<rparr>, w1)
      | Some (chi2, ndf) \<Rightarrow>
          let curr = to_float A (ddiv A chi2 (of_integer A ndf));
              t1 = \<lparr>currChi2 = curr, prevChi2 = currChi2 t, nTry = nTry t + 1\<rparr>
          in (if less_than A curr (currChi2 t) then (to_float A p0, Some (to_float A p1, to_float A p2)) else v, t1, w1))"

function first_fits ::
    "'d arith \<Rightarrow> ('d, 'w) root \<Rightarrow> 'd profile \<Rightarrow> 'd edge \<Rightarrow> 'd \<Rightarrow> 'd first_values \<Rightarrow> 'd tries \<Rightarrow> 'w \<Rightarrow> 'd first_values \<times> 'd tries \<times> 'w" where
  "first_fits A R p e estimatedM v t w =
     (let (v1, t1, w1) = first_try A R p e estimatedM v t w in
      if less_or_equal A (currChi2 t1) (dmul A (frac A 95 100) (prevChi2 t1)) \<and> nTry t1 < 10
      then first_fits A R p e estimatedM v1 t1 w1 else (v1, t1, w1))"
  by pat_completeness auto
termination
proof (relation "measure (\<lambda>(A, R, p, e, estimatedM, v, t, w). 10 - nTry t)", goal_cases)
  case (2 A R p e estimatedM v t w x v1 y t1 w1)
  then have eq: "first_try A R p e estimatedM v t w = (v1, t1, w1)" by simp
  then have "nTry t1 = nTry t + 1"
    by (auto simp: first_try_def Let_def split: prod.splits option.splits)
  with 2(4) show ?case by (auto simp: eq)
qed simp

declare first_fits.simps [simp del]

record 'd second_values =
  sv_tE :: 'd
  sv_fitted :: "'d \<times> 'd \<times> 'd \<times> 'd"
  sv_minChi2 :: 'd

definition second_try ::
    "'d arith \<Rightarrow> ('d, 'w) root \<Rightarrow> 'd profile \<Rightarrow> 'd \<Rightarrow> 'd \<Rightarrow> 'd second_values \<Rightarrow> 'd tries \<Rightarrow> 'w \<Rightarrow> 'd second_values \<times> 'd tries \<times> 'w" where
  "second_try A R p b m v t w =
     (let tE = sv_tE v;
          (r, pars, w1) = fit_F2 R p
            [(tE, Some (dsub A tE (frac A 6 100), dadd A tE (frac A 6 100))), (b, None), (m, None),
             (lit A (-1), Some (lit A (-20), frac A (-1) 100))] w;
          (tE1, curr, prev) = (case r of
             None \<Rightarrow> (tE, currChi2 t, prevChi2 t)
           | Some (chi2, ndf) \<Rightarrow>
               (to_float A (dadd A tE (frac A 1 1000)), to_float A (ddiv A chi2 (of_integer A ndf)), currChi2 t))
      in (\<lparr>sv_tE = tE1, sv_fitted = pars, sv_minChi2 = (if less_than A curr (sv_minChi2 v) then curr else sv_minChi2 v)\<rparr>,
          \<lparr>currChi2 = curr, prevChi2 = prev, nTry = nTry t + 1\<rparr>, w1))"

text \<open>\<open>bad\<close> is the condition to go on, in both of the loops.\<close>

function second_fits ::
    "'d arith \<Rightarrow> ('d, 'w) root \<Rightarrow> 'd profile \<Rightarrow> 'd \<Rightarrow> 'd \<Rightarrow> ('d \<Rightarrow> bool) \<Rightarrow> 'd second_values \<Rightarrow> 'd tries \<Rightarrow> 'w \<Rightarrow>
     'd second_values \<times> 'd tries \<times> 'w" where
  "second_fits A R p b m bad v t w =
     (let (v1, t1, w1) = second_try A R p b m v t w in
      if nTry t1 < 100 \<and> bad (currChi2 t1) then second_fits A R p b m bad v1 t1 w1 else (v1, t1, w1))"
  by pat_completeness auto
termination
proof (relation "measure (\<lambda>(A, R, p, b, m, bad, v, t, w). 100 - nTry t)", goal_cases)
  case (2 A R p b m bad v t w x v1 y t1 w1)
  then have eq: "second_try A R p b m v t w = (v1, t1, w1)" by simp
  then have "nTry t1 = nTry t + 1"
    by (auto simp: second_try_def Let_def split: prod.splits option.splits)
  with 2(4) show ?case by (auto simp: eq)
qed simp

declare second_fits.simps [simp del]

text \<open>The histogram of a TAC.\<close>

definition fills :: "'d CalibrationData list \<Rightarrow> nat \<Rightarrow> ('d \<times> u16) list" where
  "fills recs g = concat (map (\<lambda>r. repeated (cd_freq r) (cd_phase r, cd_fine r)) (records_of g recs))"

text \<open>
  The calibration of a TAC. A \<open>Fault\<close> is the use of a result of the first fit when there has been none,
  \<open>OutOfFuel\<close> an endless loop; an entry that cannot be calibrated is left as it is.
\<close>

definition calibrate_tac ::
    "'d arith \<Rightarrow> ('d, 'w) root \<Rightarrow> 'd CalibrationData list \<Rightarrow> nat \<Rightarrow> 'd CalibrationEntry \<Rightarrow> 'w \<Rightarrow> ('d CalibrationEntry \<times> 'w) run" where
  "calibrate_tac A R recs g entry w =
     (let hFine2 = fills recs g in
      if length hFine2 < 1000 then Return (entry, w)
      else
        let (p, w1) = profile_of R hFine2 w; e0 = find_edge A p in
        if equals A (adcMin e0) (lit A 1024) then Return (entry, w1)
        else case first_period A e0 of
          None \<Rightarrow> OutOfFuel
        | Some e \<Rightarrow>
            let tolerance = fsub A (upperT0 e) (lowerT0 e);
                (slope, w2) = fit_pol1 R p (fadd A (tEdge e) tolerance) (fsub A (fadd A (tEdge e) (lit A 1)) tolerance) w1
            in case slope of
              None \<Rightarrow> Return (entry, w2)
            | Some s \<Rightarrow>
                let estimatedM = to_float A (fneg A s) in
                if less_than A estimatedM (lit A 100) \<or> less_than A (lit A 256) estimatedM then Return (entry, w2)
                else
                  let (v, t, w3) = first_fits A R p e estimatedM (tEdge e, None) (no_tries R) w2 in
                  case snd v of
                    None \<Rightarrow> Fault
                  | Some (b, m) \<Rightarrow>
                      let tE = to_float A (dsub A (fst v) (frac A 5 100));
                          start = (\<lambda>minChi2. \<lparr>sv_tE = tE, sv_fitted = (lit A 0, lit A 0, lit A 0, lit A 0), sv_minChi2 = minChi2\<rparr>);
                          (v1, t1, w4) = second_fits A R p b m (\<lambda>chi. less_than A (lit A 2) chi) (start (infinity R)) (no_tries R) w3;
                          (v2, t2, w5) =
                            (if less_than A (lit A 2) (currChi2 t1)
                             then second_fits A R p b m (\<lambda>chi. less_than A (dadd A (sv_minChi2 v1) (frac A 1 10000)) chi)
                               (start (sv_minChi2 v1)) (no_tries R) w4
                             else (v1, t1, w4))
                      in if less_than A (lit A 20000) (prevChi2 t2) \<and> less_than A (lit A 20000) (currChi2 t2) then Return (entry, w5)
                      else
                        let (q0, q1, q2, q3) = sv_fitted v2 in
                        Return (\<lparr>ce_t0 = lit A 0, ce_tEdge = to_float A q0, ce_a0 = to_float A q1, ce_a1 = to_float A q2,
                          ce_a2 = to_float A q3, ce_valid = True\<rparr>, w5))"

section \<open>The offsets\<close>

definition time_error :: "'d arith \<Rightarrow> 'd CalibrationEntry \<Rightarrow> 'd CalibrationData \<Rightarrow> 'd option" where
  "time_error A e r =
     (let delta = fsub A (fmul A (ce_a1 e) (ce_a1 e))
            (fmul A (fmul A (lit A 4) (fsub A (ce_a0 e) (of_integer A (uint (cd_fine r))))) (ce_a2 e))
      in if less_than A delta (lit A 0) then None
         else
           let qEstimate = fdiv A (fadd A (fneg A (ce_a1 e)) (fsqrt A delta)) (fmul A (lit A 2) (ce_a2 e));
               tEstimate = fsub A (fsub A (of_integer A (uint (cd_coarse r))) qEstimate) (ce_t0 e)
           in Some (fsub A tEstimate (cd_phase r)))"

definition control_fills :: "'d arith \<Rightarrow> 'd CalibrationData list \<Rightarrow> nat \<Rightarrow> 'd CalibrationEntry \<Rightarrow> ('d \<times> 'd) list" where
  "control_fills A recs g e =
     concat (map (\<lambda>r. case time_error A e r of None \<Rightarrow> [] | Some err \<Rightarrow> repeated (cd_freq r) (cd_phase r, err)) (records_of g recs))"

definition offset_step ::
    "'d arith \<Rightarrow> ('d, 'w) root \<Rightarrow> 'd CalibrationData list \<Rightarrow> nat \<Rightarrow> 'd CalibrationEntry \<Rightarrow> 'w \<Rightarrow> ('d CalibrationEntry \<times> 'w) run" where
  "offset_step A R recs g e w =
     (if \<not> ce_valid e then Return (e, w)
      else
        let pControlT = control_fills A recs g e;
            hControlE = filter (\<lambda>err. less_than A (dabs A err) (frac A 5 10)) (map snd pControlT);
            offset = (if length pControlT > 100 then to_float A (profile_mean R pControlT) else lit A 0);
            (offset, w1) =
              (if length hControlE > 1000 then
                 let (f, w1) = fit_gaus R hControlE w in (case f of None \<Rightarrow> offset | Some mu \<Rightarrow> to_float A mu, w1)
               else (offset, w))
        in Return (e\<lparr>ce_t0 := fadd A (ce_t0 e) offset\<rparr>, w1))"

fun offset_iterations ::
    "nat \<Rightarrow> 'd arith \<Rightarrow> ('d, 'w) root \<Rightarrow> 'd CalibrationData list \<Rightarrow> nat list \<Rightarrow> 'd tdc_table \<times> 'w \<Rightarrow> ('d tdc_table \<times> 'w) run" where
  "offset_iterations 0 A R recs gs tw = Return tw"
| "offset_iterations (Suc n) A R recs gs tw = bind_run (visit (offset_step A R recs) gs tw) (offset_iterations n A R recs gs)"

section \<open>An ASIC\<close>

text \<open>A channel with an uncalibrated TAC is invalid as a whole.\<close>

definition zero_channel :: "nat \<Rightarrow> 'd tdc_table \<Rightarrow> 'd tdc_table" where
  "zero_channel gChannelID tab =
     (let gids = map (\<lambda>tac. 8 * gChannelID + tac) [0..<8] in
      if list_all (\<lambda>g. ce_valid (tab g)) gids then tab
      else fold (\<lambda>g tab. tab(g := tab g\<lparr>ce_valid := False\<rparr>)) gids tab)"

definition zero_channels :: "nat \<Rightarrow> 'd tdc_table \<Rightarrow> 'd tdc_table" where
  "zero_channels asic tab = fold zero_channel [asic * 64..<(asic + 1) * 64] tab"

text \<open>A record of another ASIC fails an assertion; without records the ASIC is left alone.\<close>

definition calibrateAsic ::
    "'d arith \<Rightarrow> ('d, 'w) root \<Rightarrow> 'd CalibrationData list \<Rightarrow> 'w \<Rightarrow> nat \<Rightarrow> 'd tdc_table \<Rightarrow> 'd tdc_table run" where
  "calibrateAsic A R recs w asic tab =
     (if \<not> list_all (\<lambda>r. unat (cd_gid r) div 512 = asic) recs then Fault
      else if recs = [] then Return tab
      else bind_run (visit (calibrate_tac A R recs) (gids_of asic) (tab, w)) (\<lambda>tw.
        bind_run (offset_iterations 3 A R recs (gids_of asic) tw) (\<lambda>(tab, w).
        Return (zero_channels asic tab))))"

text \<open>A worker. The assertion fails before anything has changed; the other failures are not followed further.\<close>

definition tdc_work :: "'d arith \<Rightarrow> ('d, 'w) root \<Rightarrow> 'w \<Rightarrow> (nat \<Rightarrow> 'd CalibrationData list) \<Rightarrow> nat \<Rightarrow> 'd tdc_table \<Rightarrow> 'd tdc_table" where
  "tdc_work A R w recs asic tab =
     (case calibrateAsic A R (recs asic) w asic tab of Return tab' \<Rightarrow> tab' | _ \<Rightarrow> tab)"

section \<open>The table\<close>

definition branch_gids :: "nat \<Rightarrow> nat \<Rightarrow> nat list" where
  "branch_gids n branchID = filter (\<lambda>g. g mod 2 = branchID) [0..<n]"

definition adjust_branch :: "'d arith \<Rightarrow> nat \<Rightarrow> nat \<Rightarrow> 'd tdc_table \<Rightarrow> 'd tdc_table" where
  "adjust_branch A n branchID tab =
     (let gids = filter (\<lambda>g. ce_valid (tab g)) (branch_gids n branchID);
          sum = fold (\<lambda>g sum. dadd A sum (ce_t0 (tab g))) gids (lit A 0);
          average = ddiv A sum (of_integer A (int (length gids)))
      in fold (\<lambda>g tab. tab(g := tab g\<lparr>ce_t0 := to_float A (dsub A (ce_t0 (tab g)) average)\<rparr>)) gids tab)"

definition adjustCalibrationTable :: "'d arith \<Rightarrow> nat \<Rightarrow> 'd tdc_table \<Rightarrow> 'd tdc_table" where
  "adjustCalibrationTable A n tab = adjust_branch A n 1 (adjust_branch A n 0 tab)"

text \<open>
  A line of the table as it is read back: \<open>reread\<close> is what printing a number with \<^verbatim>\<open>%8.7e\<close> and scanning
  it gives.
\<close>

definition tdc_row :: "('d \<Rightarrow> 'd) \<Rightarrow> nat \<Rightarrow> 'd CalibrationEntry \<Rightarrow> address \<times> u32 \<times> char \<times> 'd TacConfig" where
  "tdc_row reread g e =
     ((of_nat (g div 2 ^ 20 mod 32), of_nat (g div 2 ^ 15 mod 32), of_nat (g div 2 ^ 9 mod 64), of_nat (g div 2 ^ 3 mod 64)),
      of_nat (g div 2 mod 4), if g mod 2 = 0 then CHR ''T'' else CHR ''E'',
      \<lparr>tac_t0 = reread (ce_t0 e), tac_a0 = reread (ce_a0 e), tac_a1 = reread (ce_a1 e), tac_a2 = reread (ce_a2 e)\<rparr>)"

definition writeCalibrationTable ::
    "('d \<Rightarrow> 'd) \<Rightarrow> nat \<Rightarrow> 'd tdc_table \<Rightarrow> (address \<times> u32 \<times> char \<times> 'd TacConfig) list" where
  "writeCalibrationTable reread n tab = map (\<lambda>g. tdc_row reread g (tab g)) (filter (\<lambda>g. ce_valid (tab g)) [0..<n])"

section \<open>A run\<close>

text \<open>The list of an earlier run and the temporary files are what it finds when it does not sort.\<close>

type_synonym 'd tmp_state = "tmp_list option \<times> 'd CalibrationData tmp_files"

text \<open>\<open>bins\<close>: the file does not open, does not parse, or gives the binning of the histograms.\<close>

definition runProcessTdcCalibration ::
    "'d arith \<Rightarrow> (int \<times> 'd \<times> 'd \<Rightarrow> ('d, 'w) root) \<Rightarrow> 'w \<Rightarrow> ('d \<Rightarrow> 'd) \<Rightarrow> (int \<times> 'd \<times> 'd) option option \<Rightarrow> 'd sort_input \<Rightarrow> string \<Rightarrow>
     bool \<Rightarrow> bool \<Rightarrow> bool \<Rightarrow> 'd tmp_state \<Rightarrow>
     (cal_error + (address \<times> u32 \<times> char \<times> 'd TacConfig) list \<times> 'd tmp_state) run" where
  "runProcessTdcCalibration A R w reread bins inp prefix doSorting keepTemporary table_opens st =
     (case bins of
        None \<Rightarrow> Return (Inl CannotOpenBins)
      | Some None \<Rightarrow> Return (Inl CannotParseBins)
      | Some (Some bs) \<Rightarrow>
          bind_run
            (if doSorting then bind_run (sort_data tdc_records prefix inp (snd st)) (\<lambda>r. case r of
                 Inl e \<Rightarrow> Return (Inl e) | Inr (l, fs) \<Rightarrow> Return (Inr (Some l, fs)))
             else Return (Inr st))
            (\<lambda>r. case r of
               Inl e \<Rightarrow> Return (Inl e)
             | Inr (None, fs) \<Rightarrow> Return (Inl CannotOpenTmpList)
             | Inr (Some l, fs) \<Rightarrow>
                 (case first_missing l fs of
                    Some a \<Rightarrow> Return (Inl (CannotOpenTmp a))
                  | None \<Rightarrow>
                      let tab = fold (tdc_work A (R bs) w (read_tmp l fs)) (map fst l) (empty_table A);
                          tab1 = adjustCalibrationTable A MAX_N_TAC tab
                      in if \<not> table_opens then Return (Inl CannotWriteTable)
                      else Return (Inr (writeCalibrationTable reread MAX_N_TAC tab1,
                        if keepTemporary then (Some l, fs) else (None, delete_tmp l fs))))))"

section \<open>Each ASIC for itself\<close>

lemma offset_local:
  "set gs \<subseteq> G \<Longrightarrow> \<forall>g \<in> G. tab g = tab' g \<Longrightarrow> agree G (offset_iterations n A R recs gs (tab, w)) (offset_iterations n A R recs gs (tab', w))"
  by (induction n arbitrary: tab tab' w) (auto intro!: agree_bind visit_local)

lemma offset_frame:
  "offset_iterations n A R recs gs (tab, w) = Return (tab', w') \<Longrightarrow> g \<notin> set gs \<Longrightarrow> tab' g = tab g"
proof (induction n arbitrary: tab w)
  case (Suc n)
  then show ?case by (cases "visit (offset_step A R recs) gs (tab, w)") (auto dest: visit_frame)
qed simp

lemma zero_channel_apply:
  "zero_channel c tab g =
    (if g div 8 = c \<and> (\<exists>k < 8. \<not> ce_valid (tab (8 * c + k))) then tab g\<lparr>ce_valid := False\<rparr> else tab g)"
proof -
  have fold_gs: "distinct gs \<Longrightarrow> fold (\<lambda>g tab. tab(g := tab g\<lparr>ce_valid := False\<rparr>)) gs tab g = (if g \<in> set gs then tab g\<lparr>ce_valid := False\<rparr> else tab g)"
    for gs and tab :: "nat \<Rightarrow> 'a CalibrationEntry"
    by (induction gs arbitrary: tab) auto
  have mem: "g \<in> set (map (\<lambda>tac. 8 * c + tac) [0..<8]) \<longleftrightarrow> g div 8 = c"
  proof
    assume "g div 8 = c"
    then have "g = 8 * c + g mod 8" using mult_div_mod_eq [of 8 g] by simp
    then show "g \<in> set (map (\<lambda>tac. 8 * c + tac) [0..<8])" unfolding set_map set_upt by (intro image_eqI) auto
  qed auto
  have "distinct (map (\<lambda>tac. 8 * c + tac) [0..<8])" by (simp add: distinct_map del: upt_Suc)
  note f = fold_gs [OF this]
  have ok: "list_all (\<lambda>g. ce_valid (tab g)) (map (\<lambda>tac. 8 * c + tac) [0..<8]) \<longleftrightarrow> \<not> (\<exists>k < 8. \<not> ce_valid (tab (8 * c + k)))"
    by (simp only: list_all_iff set_map set_upt ball_simps) auto
  show ?thesis unfolding zero_channel_def Let_def ok f mem if_distrib [of "\<lambda>t. t g"] f by auto
qed

lemma zero_channels_apply:
  assumes "distinct cs"
  shows "fold zero_channel cs tab g =
    (if g div 8 \<in> set cs \<and> (\<exists>k < 8. \<not> ce_valid (tab (8 * (g div 8) + k))) then tab g\<lparr>ce_valid := False\<rparr> else tab g)"
  using assms
proof (induction cs arbitrary: tab)
  case (Cons c cs)
  have keep: "zero_channel c tab (8 * (g div 8) + k) = tab (8 * (g div 8) + k)" if "k < 8" "g div 8 \<noteq> c" for k
    using that by (simp add: zero_channel_apply)
  show ?case
  proof (cases "g div 8 = c")
    case True
    then show ?thesis using Cons by (simp add: zero_channel_apply)
  next
    case False
    with Cons keep show ?thesis by (auto simp: zero_channel_apply)
  qed
qed simp

lemma gids_of_iff: "g \<in> set (gids_of asic) \<longleftrightarrow> g div 512 = asic"
  by (auto simp: gids_of_def)

lemma channels_of_iff: "g div 8 \<in> set [asic * 64..<(asic + 1) * 64] \<longleftrightarrow> g div 512 = asic"
  by auto

lemma zero_channels_at:
  "zero_channels asic tab g =
    (if g div 512 = asic \<and> (\<exists>k < 8. \<not> ce_valid (tab (8 * (g div 8) + k))) then tab g\<lparr>ce_valid := False\<rparr> else tab g)"
  unfolding zero_channels_def zero_channels_apply [OF distinct_upt] channels_of_iff by simp

lemma zero_channels_local:
  assumes "\<forall>g. g div 512 = asic \<longrightarrow> tab g = tab' g" and "g div 512 = asic"
  shows "zero_channels asic tab g = zero_channels asic tab' g"
proof -
  have same: "tab (8 * (g div 8) + k) = tab' (8 * (g div 8) + k)" if "k < 8" for k
  proof -
    have "(8 * (g div 8) + k) div 8 = g div 8" using that by simp
    then have "(8 * (g div 8) + k) div 512 = g div 512" using div_mult2_eq [of _ 8 64] by simp
    with assms show ?thesis by simp
  qed
  then have "(\<exists>k < 8. \<not> ce_valid (tab (8 * (g div 8) + k))) \<longleftrightarrow> (\<exists>k < 8. \<not> ce_valid (tab' (8 * (g div 8) + k)))" by auto
  moreover have "tab g = tab' g" using assms by simp
  ultimately show ?thesis unfolding zero_channels_at by auto
qed

lemma calibrateAsic_frame:
  assumes "calibrateAsic A R recs w asic tab = Return tab'" and "g div 512 \<noteq> asic"
  shows "tab' g = tab g"
proof (cases "recs = []")
  case False
  obtain tab1 w1 where t1: "visit (calibrate_tac A R recs) (gids_of asic) (tab, w) = Return (tab1, w1)"
    "bind_run (offset_iterations 3 A R recs (gids_of asic) (tab1, w1)) (\<lambda>(tab, w). Return (zero_channels asic tab)) = Return tab'"
    using assms(1) False
    by (cases "visit (calibrate_tac A R recs) (gids_of asic) (tab, w)") (auto simp: calibrateAsic_def split: if_splits)
  obtain tab2 w2 where t2: "offset_iterations 3 A R recs (gids_of asic) (tab1, w1) = Return (tab2, w2)" "tab' = zero_channels asic tab2"
    using t1(2) by (cases "offset_iterations 3 A R recs (gids_of asic) (tab1, w1)") auto
  have g: "g \<notin> set (gids_of asic)" using assms(2) by (simp add: gids_of_iff)
  show ?thesis using visit_frame [OF t1(1) g] offset_frame [OF t2(1) g] assms(2) by (simp add: t2(2) zero_channels_at)
qed (use assms(1) in \<open>simp add: calibrateAsic_def split: if_splits\<close>)

lemma calibrateAsic_local:
  assumes "\<forall>g. g div 512 = asic \<longrightarrow> tab g = tab' g"
  shows "agree_tables {g. g div 512 = asic} (calibrateAsic A R recs w asic tab) (calibrateAsic A R recs w asic tab')"
proof -
  let ?G = "{g. g div 512 = asic}"
  have G: "set (gids_of asic) \<subseteq> ?G" by (auto simp: gids_of_iff)
  show ?thesis
    unfolding calibrateAsic_def
    using assms by (auto intro!: agree_bind_tables [OF visit_local [OF G]] agree_bind_tables [OF offset_local [OF G]] zero_channels_local)
qed

interpretation tdc: asic_work "tdc_work A R w recs" 512 for A R w recs
proof unfold_locales
  fix g asic :: nat and tab :: "'a tdc_table"
  assume "g div 512 \<noteq> asic"
  then show "tdc_work A R w recs asic tab g = tab g"
    using calibrateAsic_frame [of A R "recs asic" w asic tab]
    by (cases "calibrateAsic A R (recs asic) w asic tab") (simp_all add: tdc_work_def)
next
  fix g asic :: nat and tab tab' :: "'a tdc_table"
  assume *: "\<And>g. g div 512 = asic \<Longrightarrow> tab g = tab' g" "g div 512 = asic"
  then have "agree_tables {g. g div 512 = asic} (calibrateAsic A R (recs asic) w asic tab) (calibrateAsic A R (recs asic) w asic tab')"
    by (intro calibrateAsic_local) simp
  then show "tdc_work A R w recs asic tab g = tdc_work A R w recs asic tab' g"
    using * by (cases "calibrateAsic A R (recs asic) w asic tab"; cases "calibrateAsic A R (recs asic) w asic tab'") (auto simp: tdc_work_def)
qed

end
