(* ===== verification/TdcTable.thy ===== *)
theory TdcTable
  imports Complex_Main TdcCalibration
begin

text \<open>
  What processing a TDC calibration achieves: the records of an ASIC stay within it, the offsets are
  centred, whole channels are calibrated or left out, and the table that is written is the one the
  configuration loads.
\<close>

section \<open>Numbers of TACs\<close>

lemma tac_gid_asic:
  assumes "b = 0 \<or> b = (1 :: u32)"
  shows "unat (tac_gid w b) div 512 = asic_of w"
proof -
  have tac: "\<not> bit (getTacID w) n" if "2 \<le> n" for n
    using that by (simp add: getTacID_def mod_4_u64 bit_simps)
  have low: "\<not> bit b n" if "1 \<le> n" for n using assms that by (auto simp: bit_1_iff)
  have "drop_bit 9 (tac_gid w b) = drop_bit 6 (getChannelID w)"
  proof (rule bit_word_eqI)
    fix n :: nat
    have chan: "bit (getChannelID w) k \<Longrightarrow> k < 22" for k
      by (auto simp: getChannelID_def bit_simps dest: bit_imp_le_length)
    have n: "9 + n - 3 = 6 + n" "2 \<le> 9 + n - 1" "1 \<le> 9 + n" "3 \<le> 9 + n" by simp_all
    show "bit (drop_bit 9 (tac_gid w b)) n = bit (drop_bit 6 (getChannelID w)) n"
      unfolding tac_gid_def bit_drop_bit_eq bit_or_iff bit_push_bit_iff o_def possible_bit_word n(1) using chan [of "6 + n"] n tac low by auto
  qed
  then have "unat (drop_bit 9 (tac_gid w b)) = asic_of w" by (simp add: asic_of_def)
  then show ?thesis by (simp add: drop_bit_eq_div unat_div)
qed

lemma made_in_asic: "r \<in> set (made tdc_records (of_asic a xs)) \<Longrightarrow> unat (cd_gid r) div 512 = a"
  by (auto simp: made_def of_asic_def tdc_records_def Let_def tac_gid_asic)

lemma gid_of_row: "g < MAX_N_TAC \<Longrightarrow> gid (fst (tdc_row reread g e)) = of_nat (g div 8)"
  using number_fields [of "g div 8"]
  by (simp add: tdc_row_def MAX_N_TAC_def MAX_N_ASIC_def div_mult2_eq [symmetric])

section \<open>The table that is read back\<close>

text \<open>The number of entry \<open>k\<close> of a channel in the table \<open>T\<close> (if \<open>b\<close>) or \<open>E\<close>.\<close>

definition entry_number :: "bool \<Rightarrow> u32 \<Rightarrow> nat \<Rightarrow> nat" where
  "entry_number b G k = 8 * unat G + 2 * k + (if b then 0 else 1)"

definition tac_values :: "('d \<Rightarrow> 'd) \<Rightarrow> 'd CalibrationEntry \<Rightarrow> 'd TacConfig" where
  "tac_values reread e =
     \<lparr>tac_t0 = reread (ce_t0 e), tac_a0 = reread (ce_a0 e), tac_a1 = reread (ce_a1 e), tac_a2 = reread (ce_a2 e)\<rparr>"

lemma row_matches:
  assumes "g < MAX_N_TAC" and "k < 4" and "tdc_row reread g e = (a, tacID, bStr, t)"
  shows "gid a = G \<and> unat tacID = k \<and> (bStr = CHR ''T'') = b \<longleftrightarrow> g = entry_number b G k"
proof -
  have a: "gid a = of_nat (g div 8)" using gid_of_row [OF assms(1), of reread e] assms(3) by simp
  have "g div 8 < 2 ^ 32" using assms(1) by (simp add: MAX_N_TAC_def MAX_N_ASIC_def)
  then have G: "gid a = G \<longleftrightarrow> g div 8 = unat G"
    unfolding a word_unat_eq_iff by (simp add: unat_small)
  have tac: "unat tacID = g div 2 mod 4"
  proof -
    have "unat (of_nat (g div 2 mod 4) :: u32) = g div 2 mod 4" by (rule unat_small) (rule less_le_trans [of _ 4], simp_all)
    with assms(3) show ?thesis by (auto simp: tdc_row_def)
  qed
  have br: "bStr = CHR ''T'' \<longleftrightarrow> g mod 2 = 0" using assms(3) by (auto simp: tdc_row_def split: if_splits)
  have g: "g = 8 * (g div 8) + 2 * (g div 2 mod 4) + g mod 2"
  proof -
    have "g div 2 = 4 * (g div 2 div 4) + g div 2 mod 4" by simp
    moreover have "g div 2 div 4 = g div 8" by (simp add: div_mult2_eq [symmetric])
    moreover have "g = 2 * (g div 2) + g mod 2" by simp
    ultimately show ?thesis by linarith
  qed
  show ?thesis
  proof
    assume "gid a = G \<and> unat tacID = k \<and> (bStr = CHR ''T'') = b"
    then have "g div 8 = unat G" "g div 2 mod 4 = k" "g mod 2 = (if b then 0 else 1)" using G tac br by auto
    with g show "g = entry_number b G k" by (simp add: entry_number_def)
  next
    assume n: "g = entry_number b G k"
    have "g div 8 = unat G" "g div 2 mod 4 = k" "g mod 2 = (if b then 0 else 1)"
      using assms(2) unfolding n entry_number_def by (cases b; simp; presburger)+
    then show "gid a = G \<and> unat tacID = k \<and> (bStr = CHR ''T'') = b" using G tac br by auto
  qed
qed

lemma last_of_rows:
  assumes "\<forall>g \<in> set gs. g < MAX_N_TAC" and "k < 4"
  shows "last_tdc b G k (map (\<lambda>g. Some (tdc_row reread g (tab g))) gs) old =
    (if entry_number b G k \<in> set gs then tac_values reread (tab (entry_number b G k)) else old)"
  using assms(1)
proof (induction gs arbitrary: old)
  case (Cons g gs)
  obtain a tacID bStr t where row: "tdc_row reread g (tab g) = (a, tacID, bStr, t)" by (metis prod_cases4)
  have t: "t = tac_values reread (tab g)" using row by (simp add: tdc_row_def tac_values_def)
  have "gid a = G \<and> unat tacID = k \<and> (bStr = CHR ''T'') = b \<longleftrightarrow> g = entry_number b G k"
    by (rule row_matches [OF _ assms(2) row]) (use Cons.prems in simp)
  with Cons t show ?case by (auto simp: row)
qed simp

lemma row_in_range:
  assumes "g < MAX_N_TAC"
  shows "case tdc_row reread g e of (a, tacID, b, t) \<Rightarrow> address_ok a \<and> unat tacID < 4"
proof -
  obtain a tacID b t where row: "tdc_row reread g e = (a, tacID, b, t)" by (metis prod_cases4)
  have "gid a = of_nat (g div 8)" using gid_of_row [OF assms, of reread e] row by simp
  moreover have "unat (of_nat (g div 8) :: u32) = g div 8"
    using assms by (intro unat_small) (simp add: MAX_N_TAC_def MAX_N_ASIC_def)
  ultimately have "address_ok a" using assms by (simp add: address_ok_def PATH_MAX_def MAX_N_TAC_def MAX_N_ASIC_def)
  moreover have "unat (of_nat (g div 2 mod 4) :: u32) < 4"
    by (subst unat_small) (rule less_le_trans [of _ 4], simp_all)
  moreover have "tacID = of_nat (g div 2 mod 4)" using row by (simp add: tdc_row_def)
  ultimately show ?thesis by (simp add: row)
qed

text \<open>
  C19: The table that the processing writes is the one the configuration loads: the loader accepts every
  line, and then entry \<open>k\<close> of each of the two tables of each channel holds the printed values of that TAC
  and branch if it was calibrated, and what it held before if not.
\<close>

theorem calibration_table_read_back:
  assumes "channels_ok c" and "getChannelConfig zero c G = Some e" and "channel_ok e" and "unat G < 2 ^ 22"
  shows "\<exists>c' e'. load_lines (tdc_line zero) (map Some (writeCalibrationTable reread MAX_N_TAC tab)) c = Return c' \<and>
    getChannelConfig zero c' G = Some e' \<and>
    (\<forall>k < 4. let g = entry_number True G k; h = entry_number False G k in
       tac_T e' ! k = (if ce_valid (tab g) then tac_values reread (tab g) else tac_T e ! k) \<and>
       tac_E e' ! k = (if ce_valid (tab h) then tac_values reread (tab h) else tac_E e ! k))"
proof -
  define gs where "gs = filter (\<lambda>g. ce_valid (tab g)) [0..<MAX_N_TAC]"
  have lines: "map Some (writeCalibrationTable reread MAX_N_TAC tab) = map (\<lambda>g. Some (tdc_row reread g (tab g))) gs"
    by (simp add: writeCalibrationTable_def gs_def)
  have range: "\<forall>g \<in> set gs. g < MAX_N_TAC" by (simp add: gs_def)
  have "\<forall>l. Some l \<in> set (map (\<lambda>g. Some (tdc_row reread g (tab g))) gs) \<longrightarrow>
      (case l of (a, tacID, b, t) \<Rightarrow> address_ok a \<and> unat tacID < 4)"
  proof (intro allI impI)
    fix l assume "Some l \<in> set (map (\<lambda>g. Some (tdc_row reread g (tab g))) gs)"
    then obtain g where "l = tdc_row reread g (tab g)" "g \<in> set gs" by auto
    then show "case l of (a, tacID, b, t) \<Rightarrow> address_ok a \<and> unat tacID < 4"
      using range row_in_range [of g reread "tab g"] by simp
  qed
  from load_lines_runs [OF lines_run(1) this assms(1), of zero] obtain c' where
    c': "load_lines (tdc_line zero) (map (\<lambda>g. Some (tdc_row reread g (tab g))) gs) c = Return c'" by blast
  obtain e' where e': "getChannelConfig zero c' G = Some e'"
    "e' = e\<lparr>tac_T := map (\<lambda>k. last_tdc True G k (map (\<lambda>g. Some (tdc_row reread g (tab g))) gs) (tac_T e ! k)) [0..<4],
           tac_E := map (\<lambda>k. last_tdc False G k (map (\<lambda>g. Some (tdc_row reread g (tab g))) gs) (tac_E e ! k)) [0..<4]\<rparr>"
    using tdc_calibration_lookup [OF c' assms(2, 3)] by blast
  have "entry_number b G k < MAX_N_TAC" if "k < 4" for b k
    using that assms(4) by (simp add: entry_number_def MAX_N_TAC_def MAX_N_ASIC_def)
  then have "entry_number b G k \<in> set gs \<longleftrightarrow> ce_valid (tab (entry_number b G k))" if "k < 4" for b k
    using that by (simp add: gs_def)
  then show ?thesis
    unfolding lines using c' e'(1)
    by (intro exI [of _ c'] exI [of _ e']) (simp add: e'(2) last_of_rows [OF range] Let_def del: upt_Suc)
qed

section \<open>The offsets\<close>

definition valid_gids :: "nat \<Rightarrow> nat \<Rightarrow> 'd tdc_table \<Rightarrow> nat list" where
  "valid_gids n b tab = filter (\<lambda>g. ce_valid (tab g)) (branch_gids n b)"

definition mean_offset :: "'d arith \<Rightarrow> nat \<Rightarrow> nat \<Rightarrow> 'd tdc_table \<Rightarrow> 'd" where
  "mean_offset A n b tab =
     ddiv A (fold (\<lambda>g sum. dadd A sum (ce_t0 (tab g))) (valid_gids n b tab) (lit A 0)) (of_integer A (int (length (valid_gids n b tab))))"

lemma valid_gids_iff [simp]: "g \<in> set (valid_gids n b tab) \<longleftrightarrow> g < n \<and> g mod 2 = b \<and> ce_valid (tab g)"
  by (auto simp: valid_gids_def branch_gids_def)

lemma distinct_valid_gids [simp]: "distinct (valid_gids n b tab)"
  by (simp add: valid_gids_def branch_gids_def)

lemma adjust_branch_at:
  "adjust_branch A n b tab g =
    (if g \<in> set (valid_gids n b tab) then tab g\<lparr>ce_t0 := to_float A (dsub A (ce_t0 (tab g)) (mean_offset A n b tab))\<rparr> else tab g)"
proof -
  have "distinct gs \<Longrightarrow> fold (\<lambda>g tab. tab(g := tab g\<lparr>ce_t0 := to_float A (dsub A (ce_t0 (tab g)) m)\<rparr>)) gs tab g =
      (if g \<in> set gs then tab g\<lparr>ce_t0 := to_float A (dsub A (ce_t0 (tab g)) m)\<rparr> else tab g)" for gs m and tab :: "'a tdc_table"
    by (induction gs arbitrary: tab) auto
  from this [OF distinct_valid_gids] show ?thesis
    unfolding adjust_branch_def Let_def valid_gids_def [symmetric] mean_offset_def [symmetric] .
qed

lemma adjust_keeps:
  "ce_valid (adjustCalibrationTable A n tab g) = ce_valid (tab g)" "ce_tEdge (adjustCalibrationTable A n tab g) = ce_tEdge (tab g)"
  "ce_a0 (adjustCalibrationTable A n tab g) = ce_a0 (tab g)" "ce_a1 (adjustCalibrationTable A n tab g) = ce_a1 (tab g)"
  "ce_a2 (adjustCalibrationTable A n tab g) = ce_a2 (tab g)"
  "\<not> ce_valid (tab g) \<Longrightarrow> ce_t0 (adjustCalibrationTable A n tab g) = ce_t0 (tab g)"
  by (auto simp: adjustCalibrationTable_def adjust_branch_at)

text \<open>The two branches do not meet: each is adjusted by its own mean.\<close>

lemma adjust_t0:
  assumes "g \<in> set (valid_gids n b tab)"
  shows "ce_t0 (adjustCalibrationTable A n tab g) = to_float A (dsub A (ce_t0 (tab g)) (mean_offset A n b tab))"
proof -
  have v: "valid_gids n 1 (adjust_branch A n 0 tab) = valid_gids n 1 tab"
    unfolding valid_gids_def by (rule filter_cong [OF refl]) (simp add: adjust_branch_at)
  have "fold (\<lambda>g sum. dadd A sum (ce_t0 (adjust_branch A n 0 tab g))) (valid_gids n 1 tab) x =
      fold (\<lambda>g sum. dadd A sum (ce_t0 (tab g))) (valid_gids n 1 tab) x" for x
    by (rule fold_cong [OF refl refl]) (auto simp: adjust_branch_at)
  then have m: "mean_offset A n 1 (adjust_branch A n 0 tab) = mean_offset A n 1 tab"
    unfolding mean_offset_def v by (simp only:)
  have "b = 0 \<or> b = 1" using assms by auto
  then show ?thesis
  proof
    assume b: "b = 0"
    show ?thesis using assms unfolding b adjustCalibrationTable_def by (simp add: adjust_branch_at)
  next
    assume b: "b = 1"
    show ?thesis using assms unfolding b adjustCalibrationTable_def by (simp add: adjust_branch_at m [unfolded One_nat_def])
  qed
qed

text \<open>Exact arithmetic.\<close>

definition rat_arith :: "rat arith" where
  "rat_arith = \<lparr>lit = of_int, frac = (\<lambda>n d. of_int n / of_int d), of_integer = of_int, to_float = id, dadd = (+), dsub = (-),
     dmul = (*), ddiv = (/), dabs = abs, fadd = (+), fsub = (-), fmul = (*), fdiv = (/), fpow = (\<lambda>x n. x), fneg = uminus, fsqrt = id,
     less_than = (<), less_or_equal = (\<le>), equals = (=)\<rparr>"

lemma mean_of_rats:
  "mean_offset rat_arith n b tab * of_nat (length (valid_gids n b tab)) = sum_list (map (\<lambda>g. ce_t0 (tab g)) (valid_gids n b tab))"
proof -
  have sum: "fold (\<lambda>g sum. sum + f g) gs x = x + sum_list (map f gs)" for f :: "nat \<Rightarrow> rat" and gs x
    by (induction gs arbitrary: x) (simp_all add: algebra_simps)
  show ?thesis by (cases "valid_gids n b tab = []") (simp_all add: mean_offset_def rat_arith_def sum)
qed

text \<open>
  C39: Adjusting the table centres the offsets: up to rounding, that is in exact arithmetic, the offsets
  of the calibrated TACs of each branch add up to zero afterwards, the difference of any two of them
  is what it was, and nothing else of any entry changes.
\<close>

theorem offsets_centred:
  fixes n :: nat and tab :: "rat tdc_table"
  defines "tab' \<equiv> adjustCalibrationTable rat_arith n tab"
  shows "(\<forall>b < 2. sum_list (map (\<lambda>g. ce_t0 (tab' g)) (valid_gids n b tab)) = 0 \<and>
      (\<forall>g \<in> set (valid_gids n b tab). \<forall>h \<in> set (valid_gids n b tab). ce_t0 (tab' g) - ce_t0 (tab' h) = ce_t0 (tab g) - ce_t0 (tab h))) \<and>
    (\<forall>g. tab' g\<lparr>ce_t0 := 0\<rparr> = tab g\<lparr>ce_t0 := 0\<rparr> \<and> (\<not> ce_valid (tab g) \<longrightarrow> tab' g = tab g))"
proof (intro conjI allI impI)
  fix b :: nat
  have t0: "ce_t0 (tab' g) = ce_t0 (tab g) - mean_offset rat_arith n b tab" if "g \<in> set (valid_gids n b tab)" for g
    unfolding tab'_def adjust_t0 [OF that] by (simp add: rat_arith_def)
  have "sum_list (map (\<lambda>g. ce_t0 (tab' g)) gs) = sum_list (map (\<lambda>g. ce_t0 (tab g)) gs) - mean_offset rat_arith n b tab * of_nat (length gs)"
    if "set gs \<subseteq> set (valid_gids n b tab)" for gs
    using that by (induction gs) (auto simp: t0 algebra_simps simp del: valid_gids_iff)
  from this [OF subset_refl] show "sum_list (map (\<lambda>g. ce_t0 (tab' g)) (valid_gids n b tab)) = 0" by (simp add: mean_of_rats)
  show "\<forall>g \<in> set (valid_gids n b tab). \<forall>h \<in> set (valid_gids n b tab). ce_t0 (tab' g) - ce_t0 (tab' h) = ce_t0 (tab g) - ce_t0 (tab h)"
    by (auto simp: t0 simp del: valid_gids_iff)
next
  fix g
  show "tab' g\<lparr>ce_t0 := 0\<rparr> = tab g\<lparr>ce_t0 := 0\<rparr>" by (simp add: tab'_def adjust_keeps)
  show "tab' g = tab g" if "\<not> ce_valid (tab g)" using that by (simp add: tab'_def adjust_keeps)
qed

theorem offsets_centred_witness:
  "\<exists>tab :: rat tdc_table. map (\<lambda>g. ce_t0 (tab g)) (valid_gids 3 0 tab) = [3, 1] \<and>
     map (\<lambda>g. ce_t0 (adjustCalibrationTable rat_arith 3 tab g)) (valid_gids 3 0 tab) = [1, -1]"
proof -
  let ?e = "\<lambda>t. \<lparr>ce_t0 = t, ce_tEdge = 0, ce_a0 = 0, ce_a1 = 0, ce_a2 = 0, ce_valid = True\<rparr>"
  let ?tab = "(empty_table rat_arith)(0 := ?e 3, 2 := ?e 1) :: rat tdc_table"
  have gids: "valid_gids 3 0 ?tab = [0, 2]"
    by (simp add: valid_gids_def branch_gids_def empty_table_def upt_rec)
  let ?t = "\<lambda>g. ce_t0 (adjustCalibrationTable rat_arith 3 ?tab g)"
  have "?t 0 + ?t 2 = 0"
    using offsets_centred [of 3 ?tab, THEN conjunct1, rule_format, of 0, THEN conjunct1] unfolding gids by simp
  moreover have "?t 0 - ?t 2 = 2"
    using offsets_centred [of 3 ?tab, THEN conjunct1, rule_format, of 0, THEN conjunct2, rule_format, of 0 2] unfolding gids by simp
  ultimately have "?t 0 = 1" "?t 2 = -1" by linarith+
  then show ?thesis using gids by (intro exI [of _ ?tab]) simp
qed

section \<open>Whole channels\<close>

definition whole_channels :: "'d tdc_table \<Rightarrow> bool" where
  "whole_channels tab \<longleftrightarrow> (\<forall>c. (\<forall>k < 8. ce_valid (tab (8 * c + k))) \<or> (\<forall>k < 8. \<not> ce_valid (tab (8 * c + k))))"

lemma channel_parts: "k < 8 \<Longrightarrow> (8 * c + k) div 8 = (c :: nat)" "k < 8 \<Longrightarrow> (8 * c + k) div 512 = c div 64"
proof -
  show a: "k < 8 \<Longrightarrow> (8 * c + k) div 8 = (c :: nat)" for c by simp
  show "k < 8 \<Longrightarrow> (8 * c + k) div 512 = c div 64" using a [of c] div_mult2_eq [of "8 * c + k" 8 64] by simp
qed

lemma work_whole:
  assumes "\<And>g. \<not> ce_valid (tab g)"
  shows "(\<forall>k < 8. ce_valid (tdc_work A R w recs (c div 64) tab (8 * c + k))) \<or>
    (\<forall>k < 8. \<not> ce_valid (tdc_work A R w recs (c div 64) tab (8 * c + k)))"
proof (cases "calibrateAsic A R (recs (c div 64)) w (c div 64) tab")
  case (Return tab')
  then have work: "tdc_work A R w recs (c div 64) tab = tab'" by (simp add: tdc_work_def)
  have "tab' = tab \<or> (\<exists>tab2. tab' = zero_channels (c div 64) tab2)"
  proof (cases "recs (c div 64) = []")
    case False
    from Return False obtain tw where "bind_run (offset_iterations 3 A R (recs (c div 64)) (gids_of (c div 64)) tw)
        (\<lambda>(tab, w). Return (zero_channels (c div 64) tab)) = Return tab'"
      by (cases "visit (calibrate_tac A R (recs (c div 64))) (gids_of (c div 64)) (tab, w)")
        (auto simp: calibrateAsic_def split: if_splits)
    then show ?thesis
      by (cases "offset_iterations 3 A R (recs (c div 64)) (gids_of (c div 64)) tw") (auto split: prod.splits)
  qed (use Return in \<open>auto simp: calibrateAsic_def split: if_splits\<close>)
  then show ?thesis
  proof
    assume "tab' = tab"
    then show ?thesis using assms work by simp
  next
    assume "\<exists>tab2. tab' = zero_channels (c div 64) tab2"
    then obtain tab2 where "tab' = zero_channels (c div 64) tab2" by blast
    then show ?thesis unfolding work by (simp add: zero_channels_at channel_parts)
  qed
qed (use assms in \<open>simp_all add: tdc_work_def\<close>)

section \<open>The whole processing\<close>

lemma tdc_work_cong: "recs a = recs' a \<Longrightarrow> tdc_work A R w recs a = tdc_work A R w recs' a"
  by (simp add: tdc_work_def fun_eq_iff)

text \<open>The table before it is adjusted: of each ASIC with words what its worker makes of them.\<close>

definition calibrated ::
    "'d arith \<Rightarrow> ('d, 'w) root \<Rightarrow> 'w \<Rightarrow> ('d \<times> RawCalibrationData) list \<Rightarrow> 'd tdc_table" where
  "calibrated A R w xs g =
     (if of_asic (g div 512) xs = [] then empty_table A g
      else tdc_work A R w (\<lambda>a. made tdc_records (of_asic a xs)) (g div 512) (empty_table A) g)"

lemma calibrated_whole: "whole_channels (adjustCalibrationTable A n (calibrated A R w xs))"
proof -
  have inv: "\<not> ce_valid (empty_table A g)" for g by (simp add: empty_table_def)
  show ?thesis
    unfolding whole_channels_def adjust_keeps
  proof
    fix c
    show "(\<forall>k < 8. ce_valid (calibrated A R w xs (8 * c + k))) \<or> (\<forall>k < 8. \<not> ce_valid (calibrated A R w xs (8 * c + k)))"
      using work_whole [where A = A and R = R and w = w and recs = "\<lambda>a. made tdc_records (of_asic a xs)" and c = c, OF inv] inv
      by (cases "of_asic (c div 64) xs = []") (simp_all add: calibrated_def channel_parts)
  qed
qed


section \<open>The workers\<close>


section \<open>The edge\<close>

lemma edge_steps:
  assumes "\<And>x y. less_than A x y \<longleftrightarrow> key x < (key y :: rat)"
  shows "let E = fold (edge_step A p) ps (no_edge A) in
    (\<forall>nj \<in> set ps. \<forall>s. rise A p nj = Some s \<longrightarrow> key s \<le> key (maxSlope E)) \<and> key (lit A 0) \<le> key (maxSlope E) \<and>
    (E = no_edge A \<or> key (lit A 0) < key (maxSlope E) \<and> (\<exists>(n, j) \<in> set ps. rise A p (n, j) = Some (maxSlope E) \<and>
      lowerT0 E = bin_center p j \<and> upperT0 E = bin_center p (j + n) \<and> tEdge E = fdiv A (fadd A (upperT0 E) (lowerT0 E)) (lit A 2) \<and>
      key (adcMin E) \<le> key (bin_content p j) \<and> key (adcMin E) \<le> key (lit A 1024)))"
proof (induction ps rule: rev_induct)
  case (snoc nj ps)
  let ?E = "fold (edge_step A p) ps (no_edge A)"
  obtain n j where nj: "nj = (n, j)" by (cases nj)
  show ?case
  proof (cases "\<exists>s. rise A p nj = Some s \<and> key (maxSlope ?E) < key s")
    case False
    then have "edge_step A p nj ?E = ?E" by (auto simp: edge_step_def assms split: option.split)
    moreover have "\<forall>s. rise A p nj = Some s \<longrightarrow> key s \<le> key (maxSlope ?E)" using False by auto
    ultimately show ?thesis using snoc by (auto simp: Let_def)
  next
    case True
    then obtain s where s: "rise A p nj = Some s" "key (maxSlope ?E) < key s" by blast
    let ?v = "bin_content p j"
    have step: "edge_step A p nj ?E = \<lparr>tEdge = fdiv A (fadd A (bin_center p (j + n)) (bin_center p j)) (lit A 2), lowerT0 = bin_center p j,
        upperT0 = bin_center p (j + n), maxSlope = s, adcMin = (if less_than A ?v (adcMin ?E) then ?v else adcMin ?E)\<rparr>"
      using s by (simp add: edge_step_def assms nj Let_def)
    have old: "\<forall>nj \<in> set ps. \<forall>s. rise A p nj = Some s \<longrightarrow> key s \<le> key (maxSlope ?E)" "key (lit A 0) \<le> key (maxSlope ?E)"
      "key (adcMin ?E) \<le> key (lit A 1024)"
      using snoc by (auto simp: Let_def no_edge_def)
    have "\<forall>nj \<in> set ps. \<forall>t. rise A p nj = Some t \<longrightarrow> key t \<le> key s" using old(1) s(2) by fastforce
    moreover have "key (lit A 0) < key s" using old(2) s(2) by simp
    moreover have "key (if less_than A ?v (adcMin ?E) then ?v else adcMin ?E) \<le> key ?v"
      "key (if less_than A ?v (adcMin ?E) then ?v else adcMin ?E) \<le> key (lit A 1024)"
      using old(3) by (auto simp: assms)
    ultimately show ?thesis using s(1) step by (auto simp: Let_def nj)
  qed
qed (simp add: no_edge_def)

text \<open>
  C40: The search for the edge of a TAC finds the steepest rise: where the numbers are ordered, no pair of
  bins one to ten apart, filled and with small errors, rises more steeply than what is found, and it is the
  rise of such a pair, the edge being in the middle between its bins; if there is no rise nothing is
  found.
\<close>

theorem edge_is_steepest:
  assumes "\<And>x y. less_than A x y \<longleftrightarrow> key x < (key y :: rat)"
  shows "(\<forall>n j s. 1 \<le> n \<longrightarrow> n \<le> 10 \<longrightarrow> 1 \<le> j \<longrightarrow> j + n + 1 < nBinsX p \<longrightarrow> rise A p (n, j) = Some s \<longrightarrow>
      \<not> less_than A (maxSlope (find_edge A p)) s) \<and>
    (find_edge A p = no_edge A \<or> less_than A (lit A 0) (maxSlope (find_edge A p)) \<and>
      (\<exists>n j. 1 \<le> n \<and> n \<le> 10 \<and> 1 \<le> j \<and> j + n + 1 < nBinsX p \<and> rise A p (n, j) = Some (maxSlope (find_edge A p)) \<and>
        lowerT0 (find_edge A p) = bin_center p j \<and> upperT0 (find_edge A p) = bin_center p (j + n) \<and>
        tEdge (find_edge A p) = fdiv A (fadd A (bin_center p (j + n)) (bin_center p j)) (lit A 2)))"
proof -
  have pair: "(n, j) \<in> set (edge_pairs (nBinsX p)) \<longleftrightarrow> 1 \<le> n \<and> n \<le> 10 \<and> 1 \<le> j \<and> j + n + 1 < nBinsX p" for n j
    unfolding edge_pairs_def by (auto simp del: upt_Suc intro!: bexI [of _ n])
  note E = edge_steps [OF assms, of p "edge_pairs (nBinsX p)", folded find_edge_def, unfolded Let_def]
  have "\<not> less_than A (maxSlope (find_edge A p)) s" if "(n, j) \<in> set (edge_pairs (nBinsX p))" "rise A p (n, j) = Some s" for n j s
    using E that by (fastforce simp: assms not_less)
  moreover have "find_edge A p = no_edge A \<or> less_than A (lit A 0) (maxSlope (find_edge A p)) \<and>
      (\<exists>(n, j) \<in> set (edge_pairs (nBinsX p)). rise A p (n, j) = Some (maxSlope (find_edge A p)) \<and>
        lowerT0 (find_edge A p) = bin_center p j \<and> upperT0 (find_edge A p) = bin_center p (j + n) \<and>
        tEdge (find_edge A p) = fdiv A (fadd A (bin_center p (j + n)) (bin_center p j)) (lit A 2))"
    using E by (auto simp: assms)
  ultimately show ?thesis unfolding pair Bex_def case_prod_unfold by (auto simp: pair)
qed

section \<open>Samples\<close>

definition sample_root :: "(int, unit) root" where
  "sample_root = \<lparr>infinity = 1000000,
     profile_of = (\<lambda>xs w. (\<lparr>nBinsX = 4, bin_content = (\<lambda>j. if j = 2 then 50 else 10), bin_error = (\<lambda>_. 1), bin_center = int,
       bin_entries = (\<lambda>_. 7)\<rparr>, w)),
     fit_pol1 = (\<lambda>p lo hi w. (Some (-128), w)), fit_F1 = (\<lambda>p ls w. (Some (1, 1), (0, 300, 128), w)),
     fit_F2 = (\<lambda>p ls w. (Some (1, 1), (0, 300, 128, -1), w)), profile_mean = (\<lambda>_. 0), fit_gaus = (\<lambda>_ w. (None, w))\<rparr>"


theorem edge_is_steepest_witness:
  "maxSlope (find_edge int_arith (fst (profile_of sample_root [] ()))) = 40 \<and>
   \<not> less_than int_arith (maxSlope (find_edge int_arith (fst (profile_of sample_root [] ())))) 40"
proof -
  let ?p = "fst (profile_of sample_root [] ())"
  have r: "rise int_arith ?p (1, 1) = Some 40" by (simp add: rise_def sample_root_def)
  have "edge_pairs 4 = [(1, 1)]" by (simp add: edge_pairs_def upt_rec)
  then have "maxSlope (find_edge int_arith ?p) = 40"
    using r by (simp add: find_edge_def edge_step_def no_edge_def sample_root_def Let_def)
  moreover have "\<not> less_than int_arith (maxSlope (find_edge int_arith ?p)) 40"
  proof -
    have "less_than int_arith x y \<longleftrightarrow> rat_of_int x < rat_of_int y" for x y by simp
    from edge_is_steepest [OF this, of ?p, THEN conjunct1, rule_format, of 1 1 40] r
    show ?thesis by (simp add: sample_root_def)
  qed
  ultimately show ?thesis by simp
qed

definition sample_input :: "int sort_input" where
  "sample_input = \<lparr>index_lines = Some [(0, 16, 5)], raw_bytes = Some (replicate 16 0), list_opens = True, tmp_opens = (\<lambda>_. True)\<rparr>"


theorem calibration_table_read_back_witness:
  "\<exists>c' e'. load_lines (tdc_line 0) (map Some (writeCalibrationTable id MAX_N_TAC
       ((empty_table int_arith)(3 := \<lparr>ce_t0 = 1, ce_tEdge = 0, ce_a0 = 300, ce_a1 = 128, ce_a2 = -1, ce_valid = True\<rparr>))))
     (config_new (False, False)) = Return c' \<and> getChannelConfig 0 c' 0 = Some e' \<and> tac_a1 (tac_E e' ! 1) = 128 \<and> tac_a1 (tac_T e' ! 1) = 0"
proof -
  let ?tab = "(empty_table int_arith)(3 := \<lparr>ce_t0 = 1, ce_tEdge = 0, ce_a0 = 300, ce_a1 = 128, ce_a2 = -1, ce_valid = True\<rparr>)"
  have c: "channels_ok (config_new (False, False))" "getChannelConfig 0 (config_new (False, False)) 0 = Some (nullChannelConfig (0 :: int))"
    by (simp_all add: channels_ok_def getChannelConfig_def PATH_MAX_def config_new_def)
  have n: "entry_number False 0 1 = 3" "entry_number True 0 1 = 2" by (simp_all add: entry_number_def)
  obtain c' e' where r: "load_lines (tdc_line 0) (map Some (writeCalibrationTable id MAX_N_TAC ?tab)) (config_new (False, False)) = Return c'"
    "getChannelConfig 0 c' 0 = Some e'"
    "\<forall>k < 4. let g = entry_number True 0 k; h = entry_number False 0 k in
       tac_T e' ! k = (if ce_valid (?tab g) then tac_values id (?tab g) else tac_T (nullChannelConfig 0) ! k) \<and>
       tac_E e' ! k = (if ce_valid (?tab h) then tac_values id (?tab h) else tac_E (nullChannelConfig 0) ! k)"
    using calibration_table_read_back [OF c null_ok, of id ?tab] by auto
  from r(3) [rule_format, of 1] have "tac_a1 (tac_E e' ! 1) = 128" "tac_a1 (tac_T e' ! 1) = 0"
    unfolding Let_def n by (simp_all add: tac_values_def empty_table_def nullChannelConfig_def Let_def)
  with r(1, 2) show ?thesis by blast
qed

end
