(* ===== verification/QdcCalibration.thy ===== *)
theory QdcCalibration
  imports CalibrationWorkers Arithmetic
begin

text \<open>
  Processing a QDC calibration (\<^verbatim>\<open>external/scripts_c/src/process_qdc_calibration_impl.cpp\<close>): the times of
  the counted words by the TDC calibration, a polynomial for each of the four QACs of a channel, the
  table. ROOT and the arithmetic are parameters; the control plots, which do not change the table, are
  left out.
\<close>

section \<open>Data\<close>

record qdc_data =
  qd_gid :: u32
  qd_tcoarse :: u16
  qd_tfine :: u16
  qd_ecoarse :: u16
  qd_qfine :: u16
  qd_freq :: i32
  qd_saturation :: bool

text \<open>The ten coefficients are those of the configuration.\<close>

record 'd qdc_entry =
  qe_p :: "'d QacConfig"
  qe_xMin :: 'd
  qe_xMax :: 'd
  qe_xMax100 :: 'd
  qe_valid :: bool

type_synonym 'd qdc_table = "nat \<Rightarrow> 'd qdc_entry"

definition MAX_N_QAC :: nat where "MAX_N_QAC = MAX_N_ASIC * 64 * 4"

definition qac_gid :: "u64 \<Rightarrow> u32" where
  "qac_gid w = push_bit 2 (getChannelID w) OR getTacID w"

definition qdc_records :: "'d arith \<Rightarrow> 'd \<Rightarrow> RawCalibrationData \<Rightarrow> qdc_data list" where
  "qdc_records A phase r =
     (let w = rc_word r in
      [\<lparr>qd_gid = qac_gid w, qd_tcoarse = ucast (getTCoarse w), qd_tfine = ucast (getTFine w), qd_ecoarse = ucast (getECoarse w),
        qd_qfine = ucast (getEFine w), qd_freq = rc_freq r, qd_saturation = equals A phase (lit A (-1))\<rparr>])"

section \<open>Times\<close>

text \<open>\<open>None\<close>: the channel is outside the table of the configuration.\<close>

definition getTime :: "'d arith \<Rightarrow> 'd SystemConfig \<Rightarrow> qdc_data \<Rightarrow> 'd option" where
  "getTime A config r =
     (let channelID = drop_bit 2 (qd_gid r); tacID = unat (qd_gid r mod 4); num = (\<lambda>w. of_integer A (uint w)) in
      map_option (\<lambda>cc.
        let ct = tac_T cc ! tacID;
            delta = fsub A (fmul A (tac_a1 ct) (tac_a1 ct))
              (fmul A (fmul A (lit A 4) (fsub A (tac_a0 ct) (num (qd_tfine r)))) (tac_a2 ct))
        in if less_than A delta (lit A 0) then num (qd_tcoarse r)
           else
             let q_T = fdiv A (fadd A (fneg A (tac_a1 ct)) (fsqrt A delta)) (fmul A (lit A 2) (tac_a2 ct)) in
             fsub A (fsub A (num (qd_tcoarse r)) q_T) (tac_t0 ct))
        (getChannelConfig (lit A 0) config channelID))"

text \<open>The end of a hit is moved by the period of its counter when it is far before the start.\<close>

definition unwrapped :: "qdc_data \<Rightarrow> qdc_data" where
  "unwrapped r = (if uint (qd_ecoarse r) - uint (qd_tcoarse r) < -256 then r\<lparr>qd_ecoarse := qd_ecoarse r + 1024\<rparr> else r)"

definition integration_time :: "'d arith \<Rightarrow> 'd SystemConfig \<Rightarrow> qdc_data \<Rightarrow> 'd option" where
  "integration_time A config r = map_option (fsub A (of_integer A (uint (qd_ecoarse r)))) (getTime A config r)"

section \<open>Histograms\<close>

definition qdc_of :: "nat \<Rightarrow> qdc_data list \<Rightarrow> qdc_data list" where
  "qdc_of g recs = filter (\<lambda>r. unat (qd_gid r) = g) recs"

definition max_adc :: "qdc_data list \<Rightarrow> nat \<Rightarrow> u16" where
  "max_adc recs g = fold (\<lambda>r m. if m > qd_qfine r then m else qd_qfine r) (qdc_of g recs) 0"

fun qdc_fills :: "'d arith \<Rightarrow> 'd SystemConfig \<Rightarrow> qdc_data list \<Rightarrow> ('d \<times> u16) list option" where
  "qdc_fills A config [] = Some []"
| "qdc_fills A config (r # rs) =
     (if qd_saturation r then qdc_fills A config rs
      else case integration_time A config (unwrapped r) of
        None \<Rightarrow> None
      | Some ti \<Rightarrow> map_option ((@) (repeated (qd_freq r) (ti, qd_qfine r))) (qdc_fills A config rs))"

section \<open>ROOT\<close>

text \<open>
  A profile \<open>'p\<close> with its minimum, maximum, first bin above a value and lower edges of bins; a fit of a
  polynomial gives \<open>None\<close> or its chi square and coefficients.
\<close>

record ('d, 'p, 'w) qroot =
  qprofile_of :: "('d \<times> u16) list \<Rightarrow> 'w \<Rightarrow> 'p \<times> 'w"
  minimum_above :: "'p \<Rightarrow> 'd \<Rightarrow> 'd"
  maximum_of :: "'p \<Rightarrow> 'd"
  first_bin_above :: "'p \<Rightarrow> 'd \<Rightarrow> int"
  low_edge :: "'p \<Rightarrow> int \<Rightarrow> 'd"
  fit_pol :: "'p \<Rightarrow> nat \<Rightarrow> 'd \<Rightarrow> 'd \<Rightarrow> 'w \<Rightarrow> ('d \<times> (nat \<Rightarrow> 'd)) option \<times> 'w"

definition zero_coefficients :: "'d arith \<Rightarrow> 'd QacConfig" where
  "zero_coefficients A = \<lparr>qp0 = lit A 0, qp1 = lit A 0, qp2 = lit A 0, qp3 = lit A 0, qp4 = lit A 0, qp5 = lit A 0, qp6 = lit A 0,
     qp7 = lit A 0, qp8 = lit A 0, qp9 = lit A 0\<rparr>"

definition coefficients :: "'d arith \<Rightarrow> nat \<Rightarrow> (nat \<Rightarrow> 'd) \<Rightarrow> 'd QacConfig" where
  "coefficients A order par =
     (let p = (\<lambda>i. if order \<ge> i then to_float A (par i) else lit A 0) in
      \<lparr>qp0 = p 0, qp1 = p 1, qp2 = p 2, qp3 = p 3, qp4 = p 4, qp5 = p 5, qp6 = p 6, qp7 = p 7, qp8 = p 8, qp9 = p 9\<rparr>)"

text \<open>The orders are tried one after the other until a fit succeeds.\<close>

fun fit_orders :: "'d arith \<Rightarrow> ('d, 'p, 'w) qroot \<Rightarrow> 'p \<Rightarrow> 'd \<Rightarrow> 'd \<Rightarrow> nat list \<Rightarrow> 'w \<Rightarrow> 'd QacConfig option \<times> 'w" where
  "fit_orders A R p xMin xMax [] w = (None, w)"
| "fit_orders A R p xMin xMax (order # orders) w =
     (let (f, w1) = fit_pol R p order xMin xMax w in
      case f of
        None \<Rightarrow> fit_orders A R p xMin xMax orders w1
      | Some (chi2, par) \<Rightarrow>
          if equals A (to_float A chi2) (lit A 0) then fit_orders A R p xMin xMax orders w1
          else (Some (coefficients A order par), w1))"

definition fit_sequence :: "nat list" where
  "fit_sequence = [8, 7, 6, 5, 4]"

section \<open>An ASIC\<close>

definition calibrate_qac ::
    "'d arith \<Rightarrow> ('d, 'p, 'w) qroot \<Rightarrow> int \<Rightarrow> 'd SystemConfig \<Rightarrow> qdc_data list \<Rightarrow> nat \<Rightarrow> 'd qdc_entry \<Rightarrow> 'w \<Rightarrow> ('d qdc_entry \<times> 'w) run" where
  "calibrate_qac A R nBins config recs g entry w =
     (case qdc_fills A config (qdc_of g recs) of
        None \<Rightarrow> Fault
      | Some hFine2 \<Rightarrow>
          if length hFine2 < 1000 then Return (entry, w)
          else
            let (p, w1) = qprofile_of R hFine2 w;
                bMin = max 1 (first_bin_above R p (to_float A (minimum_above R p (lit A 2))));
                bMax = min (nBins - 1) (first_bin_above R p (to_float A (dmul A (maximum_of R p) (frac A 97 100))));
                b100 = first_bin_above R p (of_integer A (uint (max_adc recs g) - 100));
                b100 = (if b100 = -1 then nBins else b100);
                bMax100 = min (nBins - 1) (max 1 b100);
                xMin = to_float A (low_edge R p bMin); xMax = to_float A (low_edge R p (bMax + 1));
                (f, w2) = fit_orders A R p xMin xMax fit_sequence w1
            in Return (\<lparr>qe_p = (case f of None \<Rightarrow> zero_coefficients A | Some q \<Rightarrow> q), qe_xMin = xMin, qe_xMax = xMax,
                 qe_xMax100 = to_float A (low_edge R p (bMax100 + 1)), qe_valid = (f \<noteq> None)\<rparr>, w2))"

definition qac_gids_of :: "nat \<Rightarrow> nat list" where
  "qac_gids_of asic = [asic * 64 * 4..<(asic + 1) * 64 * 4]"

definition calibrate_qdc_asic ::
    "'d arith \<Rightarrow> ('d, 'p, 'w) qroot \<Rightarrow> int \<Rightarrow> 'd SystemConfig \<Rightarrow> qdc_data list \<Rightarrow> 'w \<Rightarrow> nat \<Rightarrow> 'd qdc_table \<Rightarrow> 'd qdc_table run" where
  "calibrate_qdc_asic A R nBins config recs w asic tab =
     (if \<not> list_all (\<lambda>r. unat (qd_gid r) div 256 = asic) recs then Fault
      else bind_run (visit (calibrate_qac A R nBins config recs) (qac_gids_of asic) (tab, w)) (\<lambda>(tab, w). Return tab))"

definition qdc_work ::
    "'d arith \<Rightarrow> ('d, 'p, 'w) qroot \<Rightarrow> int \<Rightarrow> 'd SystemConfig \<Rightarrow> 'w \<Rightarrow> (nat \<Rightarrow> qdc_data list) \<Rightarrow> nat \<Rightarrow> 'd qdc_table \<Rightarrow> 'd qdc_table" where
  "qdc_work A R nBins config w recs asic tab =
     (case calibrate_qdc_asic A R nBins config (recs asic) w asic tab of Return tab' \<Rightarrow> tab' | _ \<Rightarrow> tab)"

section \<open>The table\<close>

definition qac_reread :: "('d \<Rightarrow> 'd) \<Rightarrow> 'd QacConfig \<Rightarrow> 'd QacConfig" where
  "qac_reread reread q = \<lparr>qp0 = reread (qp0 q), qp1 = reread (qp1 q), qp2 = reread (qp2 q), qp3 = reread (qp3 q), qp4 = reread (qp4 q),
     qp5 = reread (qp5 q), qp6 = reread (qp6 q), qp7 = reread (qp7 q), qp8 = reread (qp8 q), qp9 = reread (qp9 q)\<rparr>"

definition qdc_row :: "('d \<Rightarrow> 'd) \<Rightarrow> nat \<Rightarrow> 'd qdc_entry \<Rightarrow> address \<times> u32 \<times> 'd QacConfig" where
  "qdc_row reread g e =
     ((of_nat (g div 2 ^ 19 mod 32), of_nat (g div 2 ^ 14 mod 32), of_nat (g div 2 ^ 8 mod 64), of_nat (g div 2 ^ 2 mod 64)),
      of_nat (g mod 4), qac_reread reread (qe_p e))"

definition write_qdc_table :: "('d \<Rightarrow> 'd) \<Rightarrow> nat \<Rightarrow> 'd qdc_table \<Rightarrow> (address \<times> u32 \<times> 'd QacConfig) list" where
  "write_qdc_table reread n tab = map (\<lambda>g. qdc_row reread g (tab g)) (filter (\<lambda>g. qe_valid (tab g)) [0..<n])"

definition empty_qdc_table :: "'d arith \<Rightarrow> 'd qdc_table" where
  "empty_qdc_table A = (\<lambda>_. \<lparr>qe_p = zero_coefficients A, qe_xMin = lit A 0, qe_xMax = lit A 0, qe_xMax100 = lit A 0, qe_valid = False\<rparr>)"

section \<open>A run\<close>

type_synonym qdc_tmp = "tmp_list option \<times> qdc_data tmp_files"

definition runProcessQdcCalibration ::
    "'d arith \<Rightarrow> (int \<times> 'd \<times> 'd \<Rightarrow> ('d, 'p, 'w) qroot) \<Rightarrow> 'w \<Rightarrow> ('d \<Rightarrow> 'd) \<Rightarrow> bool \<times> bool \<Rightarrow> 'd config_files \<Rightarrow>
     (int \<times> 'd \<times> 'd) option option \<Rightarrow> 'd sort_input \<Rightarrow> string \<Rightarrow> bool \<Rightarrow> bool \<Rightarrow> bool \<Rightarrow> qdc_tmp \<Rightarrow>
     (cal_error + (address \<times> u32 \<times> 'd QacConfig) list \<times> qdc_tmp) run" where
  "runProcessQdcCalibration A R w reread old fs bins inp prefix doSorting keepTemporary table_opens st =
     bind_run (fromFile (lit A 0) old LOAD_TDC_CALIBRATION fs) (\<lambda>r.
       case r of
         Inl e \<Rightarrow> Return (Inl (BadConfiguration e))
       | Inr config \<Rightarrow>
           (case bins of
              None \<Rightarrow> Return (Inl CannotOpenBins)
            | Some None \<Rightarrow> Return (Inl CannotParseBins)
            | Some (Some bs) \<Rightarrow>
                bind_run
                  (if doSorting then bind_run (sort_data (qdc_records A) prefix inp (snd st)) (\<lambda>r. case r of
                       Inl e \<Rightarrow> Return (Inl e) | Inr (l, fs) \<Rightarrow> Return (Inr (Some l, fs)))
                   else Return (Inr st))
                  (\<lambda>r. case r of
                     Inl e \<Rightarrow> Return (Inl e)
                   | Inr (None, fs) \<Rightarrow> Return (Inl CannotOpenTmpList)
                   | Inr (Some l, fs) \<Rightarrow>
                       (case first_missing l fs of
                          Some a \<Rightarrow> Return (Inl (CannotOpenTmp a))
                        | None \<Rightarrow>
                            let tab = fold (qdc_work A (R bs) (fst bs) config w (read_tmp l fs)) (map fst l) (empty_qdc_table A) in
                            if \<not> table_opens then Return (Inl CannotWriteTable)
                            else Return (Inr (write_qdc_table reread MAX_N_QAC tab,
                              if keepTemporary then (Some l, fs) else (None, delete_tmp l fs)))))))"

end
