(* ===== verification/QdcTable.thy ===== *)
theory QdcTable
  imports QdcCalibration
begin

text \<open>
  What processing a QDC calibration achieves: ASICs do not disturb each other, the highest order that
  fits is taken, and the table that is written is the one the configuration loads.
\<close>

section \<open>Each ASIC for itself\<close>

lemma qac_gids_of_iff: "g \<in> set (qac_gids_of asic) \<longleftrightarrow> g div 256 = asic"
  by (auto simp: qac_gids_of_def)

interpretation qdc: asic_work "qdc_work A R nBins config w recs" 256 for A R nBins config w recs
proof unfold_locales
  fix g asic :: nat and tab :: "'a qdc_table"
  assume g: "g div 256 \<noteq> asic"
  show "qdc_work A R nBins config w recs asic tab g = tab g"
  proof (cases "visit (calibrate_qac A R nBins config (recs asic)) (qac_gids_of asic) (tab, w)")
    case (Return tw)
    then show ?thesis
      using visit_frame [of _ "qac_gids_of asic" tab w "fst tw" "snd tw" g] g
      by (cases tw) (simp add: qdc_work_def calibrate_qdc_asic_def qac_gids_of_iff)
  qed (simp_all add: qdc_work_def calibrate_qdc_asic_def)
next
  fix g asic :: nat and tab tab' :: "'a qdc_table"
  assume same: "\<And>g. g div 256 = asic \<Longrightarrow> tab g = tab' g" and g: "g div 256 = asic"
  have "agree {g. g div 256 = asic} (visit (calibrate_qac A R nBins config (recs asic)) (qac_gids_of asic) (tab, w))
      (visit (calibrate_qac A R nBins config (recs asic)) (qac_gids_of asic) (tab', w))"
    by (rule visit_local) (auto simp: qac_gids_of_iff same)
  then show "qdc_work A R nBins config w recs asic tab g = qdc_work A R nBins config w recs asic tab' g"
    using same [OF g] g
    by (cases "visit (calibrate_qac A R nBins config (recs asic)) (qac_gids_of asic) (tab, w)";
        cases "visit (calibrate_qac A R nBins config (recs asic)) (qac_gids_of asic) (tab', w)")
      (auto simp: qdc_work_def calibrate_qdc_asic_def)
qed

section \<open>The order of the polynomial\<close>

lemma fit_orders_first:
  assumes "fit_orders A R p xMin xMax orders w = (Some q, w')"
  shows "\<exists>order \<in> set orders. \<exists>w1 w2 chi2 par. fit_pol R p order xMin xMax w1 = (Some (chi2, par), w2) \<and>
    \<not> equals A (to_float A chi2) (lit A 0) \<and> q = coefficients A order par"
  using assms
proof (induction orders arbitrary: w)
  case (Cons order orders)
  obtain f w1 where f: "fit_pol R p order xMin xMax w = (f, w1)" by (cases "fit_pol R p order xMin xMax w")
  show ?case
  proof (cases "\<exists>chi2 par. f = Some (chi2, par) \<and> \<not> equals A (to_float A chi2) (lit A 0)")
    case True
    then obtain chi2 par where "f = Some (chi2, par)" "\<not> equals A (to_float A chi2) (lit A 0)" by blast
    with Cons.prems f show ?thesis by (intro bexI [of _ order] exI [of _ w] exI [of _ w1] exI [of _ chi2] exI [of _ par]) auto
  next
    case False
    then have "fit_orders A R p xMin xMax orders w1 = (Some q, w')" using Cons.prems f by (auto split: option.splits if_splits)
    from Cons.IH [OF this] show ?thesis by auto
  qed
qed simp

text \<open>The comment promises the ninth order, falling back to the third: neither is ever tried.\<close>

lemma order_between_4_and_8:
  assumes "calibrate_qac A R nBins config recs g entry w = Return (e, w')" and "e \<noteq> entry" and "qe_valid e"
  shows "\<exists>order par. 4 \<le> order \<and> order \<le> 8 \<and> qe_p e = coefficients A order par \<and> qp9 (qe_p e) = lit A 0"
proof -
  obtain p xMin xMax w1 w2 q where "fit_orders A R p xMin xMax fit_sequence w1 = (Some q, w2)" "qe_p e = q"
    using assms by (auto simp: calibrate_qac_def Let_def split: option.splits if_splits prod.splits)
  with fit_orders_first [OF this(1)] obtain order par where q: "order \<in> set fit_sequence" "qe_p e = coefficients A order par" by auto
  then have "4 \<le> order" "order \<le> 8" by (auto simp: fit_sequence_def)
  moreover from this have "qp9 (coefficients A order par) = lit A 0" by (simp add: coefficients_def Let_def)
  ultimately show ?thesis using q(2) by metis
qed

section \<open>The table that is read back\<close>

fun last_qdc :: "u32 \<Rightarrow> nat \<Rightarrow> (address \<times> u32 \<times> 'd QacConfig) option list \<Rightarrow> 'd QacConfig \<Rightarrow> 'd QacConfig" where
  "last_qdc G k [] old = old"
| "last_qdc G k (None # ls) old = last_qdc G k ls old"
| "last_qdc G k (Some (a, tacID, q) # ls) old = last_qdc G k ls (if gid a = G \<and> unat tacID = k then q else old)"

lemma qdc_line_spec:
  assumes "qdc_line zero (a, tacID, q) c = Return c'" and "getChannelConfig zero c G = Some e"
  shows "\<exists>e'. getChannelConfig zero c' G = Some e' \<and> e' = e\<lparr>qac_Q := (if gid a = G then (qac_Q e)[unat tacID := q] else qac_Q e)\<rparr>"
  using assms by (auto simp: qdc_line_def set_entry_def dest!: update_channel_spec split: if_splits)

lemma qdc_calibration_lookup:
  assumes "load_lines (qdc_line zero) ls c = Return c'" and "getChannelConfig zero c G = Some e" and "channel_ok e"
  shows "\<exists>e'. getChannelConfig zero c' G = Some e' \<and> e' = e\<lparr>qac_Q := map (\<lambda>k. last_qdc G k ls (qac_Q e ! k)) [0..<4]\<rparr>"
  using assms
proof (induction "qdc_line zero :: _ \<Rightarrow> 'a SystemConfig \<Rightarrow> _" ls c arbitrary: e rule: load_lines.induct)
  case (1 c)
  then have "map (\<lambda>k. qac_Q e ! k) [0..<4] = qac_Q e" using map_nth [of "qac_Q e"] by (simp add: channel_ok_def)
  with 1 show ?case by simp
next
  case (2 ls c)
  then show ?case by simp
next
  case (3 l ls c)
  obtain a tacID q where l: "l = (a, tacID, q)" by (cases l)
  obtain c1 where c1: "qdc_line zero l c = Return c1" "load_lines (qdc_line zero) ls c1 = Return c'"
    using 3(2) by (cases "qdc_line zero l c") auto
  obtain e1 where e1: "getChannelConfig zero c1 G = Some e1" "e1 = e\<lparr>qac_Q := (if gid a = G then (qac_Q e)[unat tacID := q] else qac_Q e)\<rparr>"
    using qdc_line_spec [OF c1(1) [unfolded l] 3(3)] by blast
  have ok: "channel_ok e1" and four: "length (qac_Q e) = 4" using 3(4) unfolding e1(2) by (simp_all add: channel_ok_def)
  have "qac_Q e1 ! k = (if gid a = G \<and> unat tacID = k then q else qac_Q e ! k)" if "k < 4" for k
    using that four unfolding e1(2) by (simp add: nth_list_update)
  then have "map (\<lambda>k. last_qdc G k ls (qac_Q e1 ! k)) [0..<4] = map (\<lambda>k. last_qdc G k (Some l # ls) (qac_Q e ! k)) [0..<4]"
    by (intro map_cong [OF refl]) (simp add: l)
  then show ?case using 3(1) [OF c1(2) e1(1) ok] unfolding e1(2) by simp
qed

lemma qdc_row_gid: "g < MAX_N_QAC \<Longrightarrow> gid (fst (qdc_row reread g e)) = of_nat (g div 4)"
  using number_fields [of "g div 4"]
  by (simp add: qdc_row_def MAX_N_QAC_def MAX_N_ASIC_def div_mult2_eq [symmetric])

lemma qdc_row_tac: "unat (fst (snd (qdc_row reread g e))) = g mod 4"
  by (simp add: qdc_row_def) (rule unat_small, rule less_le_trans [of _ 4], simp_all)

lemma qdc_row_matches:
  assumes "g < MAX_N_QAC" and "k < 4"
  shows "gid (fst (qdc_row reread g e)) = G \<and> unat (fst (snd (qdc_row reread g e))) = k \<longleftrightarrow> g = 4 * unat G + k"
proof -
  have "g div 4 < 2 ^ 32" using assms(1) by (simp add: MAX_N_QAC_def MAX_N_ASIC_def)
  then have "gid (fst (qdc_row reread g e)) = G \<longleftrightarrow> g div 4 = unat G"
    unfolding qdc_row_gid [OF assms(1)] word_unat_eq_iff by (simp add: unat_small)
  moreover have "g div 4 = unat G \<and> g mod 4 = k \<longleftrightarrow> g = 4 * unat G + k"
  proof
    assume "g div 4 = unat G \<and> g mod 4 = k"
    then show "g = 4 * unat G + k" by (metis mult_div_mod_eq)
  qed (use assms(2) in simp)
  ultimately show ?thesis by (simp add: qdc_row_tac)
qed

lemma last_of_qdc_rows:
  assumes "\<forall>g \<in> set gs. g < MAX_N_QAC" and "k < 4"
  shows "last_qdc G k (map (\<lambda>g. Some (qdc_row reread g (tab g))) gs) old =
    (if 4 * unat G + k \<in> set gs then qac_reread reread (qe_p (tab (4 * unat G + k))) else old)"
  using assms(1)
proof (induction gs arbitrary: old)
  case (Cons g gs)
  obtain a tacID q where row: "qdc_row reread g (tab g) = (a, tacID, q)" by (metis prod_cases3)
  have q: "q = qac_reread reread (qe_p (tab g))" using row by (simp add: qdc_row_def)
  have "gid a = G \<and> unat tacID = k \<longleftrightarrow> g = 4 * unat G + k"
    using qdc_row_matches [of g k reread "tab g" G] Cons.prems assms(2) row by simp
  with Cons q show ?case by (auto simp: row)
qed simp

text \<open>
  The table of the QDC calibration, too, is the one the configuration loads: every line is accepted,
  and then entry \<open>k\<close> of each channel holds the printed coefficients of its QAC \<open>k\<close> if that was calibrated
  and what it held before if not.
\<close>

theorem qdc_table_read_back:
  assumes "channels_ok c" and "getChannelConfig zero c G = Some e" and "channel_ok e" and "unat G < 2 ^ 22"
  shows "\<exists>c' e'. load_lines (qdc_line zero) (map Some (write_qdc_table reread MAX_N_QAC tab)) c = Return c' \<and>
    getChannelConfig zero c' G = Some e' \<and>
    (\<forall>k < 4. let g = 4 * unat G + k in
       qac_Q e' ! k = (if qe_valid (tab g) then qac_reread reread (qe_p (tab g)) else qac_Q e ! k))"
proof -
  define gs where "gs = filter (\<lambda>g. qe_valid (tab g)) [0..<MAX_N_QAC]"
  let ?ls = "map (\<lambda>g. Some (qdc_row reread g (tab g))) gs"
  have lines: "map Some (write_qdc_table reread MAX_N_QAC tab) = ?ls" by (simp add: write_qdc_table_def gs_def)
  have range: "\<forall>g \<in> set gs. g < MAX_N_QAC" by (simp add: gs_def)
  have "\<forall>l. Some l \<in> set ?ls \<longrightarrow> (case l of (a, tacID, q) \<Rightarrow> address_ok a \<and> unat tacID < 4)"
  proof (intro allI impI)
    fix l assume "Some l \<in> set ?ls"
    then obtain g where g: "l = qdc_row reread g (tab g)" "g < MAX_N_QAC" using range by auto
    have "unat (of_nat (g div 4) :: u32) = g div 4" using g(2) by (intro unat_small) (simp add: MAX_N_QAC_def MAX_N_ASIC_def)
    then have "address_ok (fst l)" using g(2) unfolding g(1) address_ok_def qdc_row_gid [OF g(2)]
      by (simp add: PATH_MAX_def MAX_N_QAC_def MAX_N_ASIC_def)
    moreover have "unat (fst (snd l)) < 4" unfolding g(1) qdc_row_tac by simp
    ultimately show "case l of (a, tacID, q) \<Rightarrow> address_ok a \<and> unat tacID < 4" by (cases l) simp
  qed
  from load_lines_runs [OF lines_run(2) this assms(1), of zero] obtain c' where c': "load_lines (qdc_line zero) ?ls c = Return c'" by blast
  obtain e' where e': "getChannelConfig zero c' G = Some e'" "e' = e\<lparr>qac_Q := map (\<lambda>k. last_qdc G k ?ls (qac_Q e ! k)) [0..<4]\<rparr>"
    using qdc_calibration_lookup [OF c' assms(2, 3)] by blast
  have "4 * unat G + k \<in> set gs \<longleftrightarrow> qe_valid (tab (4 * unat G + k))" if "k < 4" for k
    using that assms(4) by (simp add: gs_def MAX_N_QAC_def MAX_N_ASIC_def)
  then show ?thesis
    unfolding lines using c' e'(1)
    by (intro exI [of _ c'] exI [of _ e']) (simp add: e'(2) last_of_qdc_rows [OF range] Let_def del: upt_Suc)
qed

theorem qdc_table_read_back_witness:
  "\<exists>c' e'. load_lines (qdc_line 0) (map Some (write_qdc_table id MAX_N_QAC
       ((empty_qdc_table int_arith)(2 := \<lparr>qe_p = (zero_coefficients int_arith)\<lparr>qp3 := 7\<rparr>, qe_xMin = 0, qe_xMax = 1, qe_xMax100 = 1, qe_valid = True\<rparr>))))
     (config_new (False, False)) = Return c' \<and> getChannelConfig 0 c' 0 = Some e' \<and> qp3 (qac_Q e' ! 2) = 7 \<and> qp3 (qac_Q e' ! 1) = 0"
proof -
  let ?tab = "(empty_qdc_table int_arith)(2 := \<lparr>qe_p = (zero_coefficients int_arith)\<lparr>qp3 := 7\<rparr>, qe_xMin = 0, qe_xMax = 1, qe_xMax100 = 1, qe_valid = True\<rparr>)"
  have c: "channels_ok (config_new (False, False))" "getChannelConfig 0 (config_new (False, False)) 0 = Some (nullChannelConfig (0 :: int))"
    by (simp_all add: channels_ok_def getChannelConfig_def PATH_MAX_def config_new_def)
  obtain c' e' where r: "load_lines (qdc_line 0) (map Some (write_qdc_table id MAX_N_QAC ?tab)) (config_new (False, False)) = Return c'"
    "getChannelConfig 0 c' 0 = Some e'"
    "\<forall>k < 4. let g = 4 * unat (0 :: u32) + k in
       qac_Q e' ! k = (if qe_valid (?tab g) then qac_reread id (qe_p (?tab g)) else qac_Q (nullChannelConfig 0) ! k)"
    using qdc_table_read_back [OF c null_ok, of id ?tab] by auto
  from r(3) [rule_format, of 2] r(3) [rule_format, of 1] have "qp3 (qac_Q e' ! 2) = 7" "qp3 (qac_Q e' ! 1) = 0"
    unfolding Let_def by (simp_all add: qac_reread_def empty_qdc_table_def nullChannelConfig_def Let_def)
  with r(1, 2) show ?thesis by blast
qed

section \<open>The whole processing\<close>

text \<open>The table of the workers, each with the words of its ASIC.\<close>

definition qdc_calibrated ::
    "'d arith \<Rightarrow> ('d, 'p, 'w) qroot \<Rightarrow> int \<Rightarrow> 'd SystemConfig \<Rightarrow> 'w \<Rightarrow> ('d \<times> RawCalibrationData) list \<Rightarrow> 'd qdc_table" where
  "qdc_calibrated A R nBins config w xs g =
     (if of_asic (g div 256) xs = [] then empty_qdc_table A g
      else qdc_work A R nBins config w (\<lambda>a. made (qdc_records A) (of_asic a xs)) (g div 256) (empty_qdc_table A) g)"

lemma qdc_work_cong: "recs a = recs' a \<Longrightarrow> qdc_work A R nBins config w recs a = qdc_work A R nBins config w recs' a"
  by (simp add: qdc_work_def fun_eq_iff)

text \<open>
  Processing a QDC calibration with a TDC calibration that loads does what its parts do together: when
  the files open and the steps of the index lie inside the data, the table published is that of
  the workers, each of which has seen exactly the counted words of its ASIC and the loaded
  calibration.
\<close>

theorem qdc_processing_publishes:
  assumes "fromFile (lit A 0) old LOAD_TDC_CALIBRATION fls = Return (Inr config)"
    and "index_lines inp = Some es" and "raw_bytes inp = Some bs" and "list_opens inp" and "\<forall>a. tmp_opens inp a"
    and "\<forall>(b, e, phase) \<in> set es. b \<le> e \<and> e \<le> length bs"
  shows "\<exists>l fs'. runProcessQdcCalibration A R w reread old fls (Some (Some bins)) inp prefix True True True (lst, fs) =
    Return (Inr (write_qdc_table reread MAX_N_QAC (qdc_calibrated A (R bins) (fst bins) config w (all_records bs es)), Some l, fs')) \<and>
    set (map fst l) = {a. of_asic a (all_records bs es) \<noteq> []}"
proof -
  let ?xs = "all_records bs es" and ?recs = "\<lambda>a. made (qdc_records A) (of_asic a (all_records bs es))"
  obtain as fs1 where s: "sort_data (qdc_records A) prefix inp fs = Return (Inr (map (\<lambda>a. (a, tmp_name prefix a)) as, fs1))"
    "sorted_wrt (<) as" "set as = {a. of_asic a ?xs \<noteq> []}" "\<forall>a \<in> set as. fs1 (tmp_name prefix a) = Some (?recs a)"
    using words_reach_asic_files [OF assms(2-6), of "qdc_records A" prefix fs] by blast
  let ?l = "map (\<lambda>a. (a, tmp_name prefix a)) as"
  have dist: "distinct as" using s(2) by (simp add: strict_sorted_iff)
  have found: "first_missing ?l fs1 = None" by (rule first_missing_None) (use s(4) in auto)
  have read: "read_tmp ?l fs1 a = ?recs a" if "a \<in> set as" for a
    using that s(4) by (simp add: read_tmp_def map_of_map_restrict)
  have "fold (qdc_work A (R bins) (fst bins) config w (read_tmp ?l fs1)) as (empty_qdc_table A) =
      fold (qdc_work A (R bins) (fst bins) config w ?recs) as (empty_qdc_table A)"
    by (rule fold_cong [OF refl refl]) (rule qdc_work_cong, rule read)
  also have "\<dots> = qdc_calibrated A (R bins) (fst bins) config w ?xs"
    by (rule ext) (simp add: qdc.fold_at [OF dist] qdc_calibrated_def s(3))
  finally have work: "fold (qdc_work A (R bins) (fst bins) config w (read_tmp ?l fs1)) (map fst ?l) (empty_qdc_table A) =
      qdc_calibrated A (R bins) (fst bins) config w ?xs"
    by (simp add: o_def)
  have run: "runProcessQdcCalibration A R w reread old fls (Some (Some bins)) inp prefix True True True (lst, fs) =
    Return (Inr (write_qdc_table reread MAX_N_QAC (qdc_calibrated A (R bins) (fst bins) config w ?xs), Some ?l, fs1))"
    by (simp only: runProcessQdcCalibration_def assms(1) snd_conv s(1) option.case if_True bind_run.simps sum.case prod.case found work Let_def
        not_True_eq_False if_False)
  have "set (map fst ?l) = {a. of_asic a ?xs \<noteq> []}" by (simp add: o_def s(3))
  with run show ?thesis by (intro exI conjI)
qed

definition sample_qroot :: "(int, unit, unit) qroot" where
  "sample_qroot = \<lparr>qprofile_of = (\<lambda>xs w. ((), w)), minimum_above = (\<lambda>_ _. 0), maximum_of = (\<lambda>_. 100), first_bin_above = (\<lambda>_ _. 1),
     low_edge = (\<lambda>_ i. i), fit_pol = (\<lambda>p n lo hi w. (if n \<le> 6 then Some (1, int) else None, w))\<rparr>"

theorem qdc_processing_publishes_witness:
  "\<exists>config l fs'. runProcessQdcCalibration int_arith (\<lambda>_. sample_qroot) () id (False, False) sample_files (Some (Some (100, 0, 1)))
     \<lparr>index_lines = Some [(0, 16, 5)], raw_bytes = Some (replicate 16 0), list_opens = True, tmp_opens = (\<lambda>_. True)\<rparr> ''x'' True True True
     (None, \<lambda>_. None) =
   Return (Inr (write_qdc_table id MAX_N_QAC (qdc_calibrated int_arith sample_qroot 100 config () (all_records (replicate 16 0) [(0, 16, 5)])), Some l, fs'))"
proof -
  have m: "LOAD_TDC_CALIBRATION \<noteq> 0" "LOAD_TDC_CALIBRATION AND LOAD_QDC_CALIBRATION = 0"
    "LOAD_TDC_CALIBRATION AND LOAD_MAPPING = 0" "LOAD_TDC_CALIBRATION AND LOAD_TIMEALIGN_CALIBRATION = 0"
    by (simp_all add: LOAD_TDC_CALIBRATION_def LOAD_QDC_CALIBRATION_def LOAD_MAPPING_def LOAD_TIMEALIGN_CALIBRATION_def)
  obtain config where c: "fromFile (lit int_arith 0) (False, False) LOAD_TDC_CALIBRATION sample_files = Return (Inr config)"
    by (simp add: fromFile_def load_tdc_part_def load_qdc_part_def load_map_part_def load_offset_part_def m sample_files_def load_file_def
        bind_loaded_def tdc_line_def sample_gid update_channel_def touchChannelConfig_def PATH_MAX_def config_new_def set_entry_def
        nullChannelConfig_def Let_def)
  show ?thesis
    using qdc_processing_publishes [OF c, of "\<lparr>index_lines = Some [(0, 16, 5)], raw_bytes = Some (replicate 16 0), list_opens = True, tmp_opens = (\<lambda>_. True)\<rparr>"
        "[(0, 16, 5)]" "replicate 16 0" "\<lambda>_. sample_qroot" "()" id "(100, 0, 1)" "''x''" None "\<lambda>_. None"] by auto
qed

section \<open>The control pass\<close>

text \<open>
  The second pass over the records, which makes the control plots, uses the time without the correction
  for the period: for a record that has been corrected it is off by a whole period.
\<close>

lemma control_time_off:
  assumes "uint (qd_ecoarse r) < 1024" and "uint (qd_ecoarse r) - uint (qd_tcoarse r) < -256"
    and "integration_time int_arith config r = Some t"
  shows "integration_time int_arith config (unwrapped r) = Some (t + 1024)"
proof -
  have "uint (qd_ecoarse r + 1024) = uint (qd_ecoarse r) + 1024"
    using assms(1) by (simp add: uint_word_ariths)
  moreover have "getTime int_arith config (r\<lparr>qd_ecoarse := x\<rparr>) = getTime int_arith config r" for x
    by (simp add: getTime_def Let_def cong: if_cong)
  ultimately show ?thesis using assms(2, 3) by (auto simp: integration_time_def unwrapped_def)
qed

end
