(* ===== verification/Decimal.thy ===== *)
theory Decimal
  imports Config
begin

text \<open>Reading decimal digits, as the inverse of printing them.\<close>

fun decimal :: "string \<Rightarrow> nat \<Rightarrow> nat" where
  "decimal [] n = n"
| "decimal (c # cs) n = decimal cs (10 * n + (of_char c - 48))"

lemma decimal_append: "decimal (s @ t) n = decimal t (decimal s n)"
  by (induction s arbitrary: n) auto

lemma decimal_digit: "n < 10 \<Longrightarrow> of_char (digit n) - 48 = n"
  by (simp add: digit_def of_char_of take_bit_nat_eq_self)

lemma decimal_show: "decimal (show_nat n) 0 = n"
  by (induction n rule: show_nat.induct) (subst show_nat.simps, simp add: decimal_digit decimal_append)

end
