(* ===== verification/Singles.thy ===== *)
theory Singles
  imports Convert CoarseSort ProcessHit Decimal
begin

text \<open>
  Conversion of a raw data file to calibrated hits
  (\<^verbatim>\<open>external/scripts_c/src/convert_raw_to_singles_impl.cpp\<close>): the writer with its three formats and
  its splitting of the output by time, and the pipeline of sorter, calibration and writer. A file is
  its rows and the rows of its index; the bytes of the formats are those of its fields. What is
  buffered for an open file counts as written, so that closing it changes nothing.
\<close>

datatype singles_type = SinglesText | SinglesBinary | SinglesRoot | SinglesNull

text \<open>The conversions of C++ from \<^verbatim>\<open>double\<close>: \<^verbatim>\<open>(int)floor(x)\<close> and \<^verbatim>\<open>(long long)x\<close>.\<close>

record 'd casts =
  int_floor :: "'d \<Rightarrow> int"
  longlong :: "'d \<Rightarrow> int"

record 'd single_row =
  sr_step1 :: u32
  sr_step2 :: u32
  sr_time :: int
  sr_channelID :: u32
  sr_tot :: 'd
  sr_energy :: 'd
  sr_tacID :: u16
  sr_xi :: int
  sr_yi :: int
  sr_x :: 'd
  sr_y :: 'd
  sr_z :: 'd
  sr_tqT :: 'd
  sr_tqE :: 'd

text \<open>The fields of a row of the tree, of a packed \<^verbatim>\<open>SingleEvent\<close>, and of a line of text.\<close>

datatype 'd singles_row = RootRow "'d single_row" | BinaryRow int 'd int | TextRow int 'd int

definition sizeof_SingleEvent :: int where "sizeof_SingleEvent = 8 + 4 + 4"

type_synonym singles_index = "(u32 \<times> u32 \<times> int \<times> int) list"

record 'd singles_file =
  file_rows :: "'d singles_row list"
  file_index :: singles_index

type_synonym 'd singles_dir = "string \<Rightarrow> 'd singles_file option"

text \<open>Which files the system lets the program create and rename.\<close>

record file_rights =
  can_create :: "string \<Rightarrow> bool"
  can_rename :: "string \<Rightarrow> string \<Rightarrow> bool"

record 'd singles_writer =
  sw_name :: string
  sw_frequency :: 'd
  sw_type :: singles_type
  sw_fraction :: int
  sw_counter :: int
  sw_split :: 'd
  sw_part :: int
  sw_begin :: int
  sw_files :: "'d singles_dir"

section \<open>Files\<close>

definition dev_null :: string where "dev_null = ''/dev/null''"

definition data_suffix :: "singles_type \<Rightarrow> string" where
  "data_suffix ty = (if ty = SinglesBinary then ''.ldat'' else [])"

definition index_suffix :: "singles_type \<Rightarrow> string" where
  "index_suffix ty = (if ty = SinglesBinary then ''.lidx'' else [])"

definition data_name :: "'d singles_writer \<Rightarrow> string" where
  "data_name w = sw_name w @ data_suffix (sw_type w)"

definition index_name :: "'d singles_writer \<Rightarrow> string" where
  "index_name w = sw_name w @ index_suffix (sw_type w)"

text \<open>A string built in an array of 1024 characters, one of which ends it.\<close>

definition in_array :: "string \<Rightarrow> bool" where
  "in_array s \<longleftrightarrow> length s < 1024"

definition empty_file :: "'d singles_file" where
  "empty_file = \<lparr>file_rows = [], file_index = []\<rparr>"

text \<open>
  \<open>openFile\<close>. The results of \<^verbatim>\<open>fopen\<close> are asserted. That of \<^verbatim>\<open>TFile\<close> is not tested; what ROOT
  does without a file is not in this code, and counts as \<open>Fault\<close>, too.
\<close>

definition open_singles :: "file_rights \<Rightarrow> 'd singles_writer \<Rightarrow> 'd singles_writer run" where
  "open_singles os w =
     (let w' = w\<lparr>sw_begin := 0\<rparr> in
      if sw_type w = SinglesNull then Return w'
      else if sw_type w = SinglesBinary \<and> \<not> in_array (data_name w) then Fault
      else if can_create os (data_name w) \<and> can_create os (index_name w) then
        Return (w'\<lparr>sw_files := (sw_files w)(data_name w \<mapsto> empty_file, index_name w \<mapsto> empty_file)\<rparr>)
      else Fault)"

text \<open>
  The constructor. The path \<^verbatim>\<open>/dev/null\<close> stands for no output whatever the type; the fraction and the
  split time are narrowed on the way, to \<^verbatim>\<open>int\<close> and to \<^verbatim>\<open>float\<close>.
\<close>

definition singles_writer_new ::
  "'d arith \<Rightarrow> file_rights \<Rightarrow> string \<Rightarrow> 'd \<Rightarrow> singles_type \<Rightarrow> int \<Rightarrow> 'd \<Rightarrow> 'd singles_dir \<Rightarrow> 'd singles_writer run" where
  "singles_writer_new A os fName freq ty fraction splitTime files =
     open_singles os \<lparr>sw_name = fName, sw_frequency = freq, sw_type = (if fName \<noteq> dev_null then ty else SinglesNull),
       sw_fraction = signed_take_bit 31 fraction, sw_counter = 0, sw_split = dmul A (to_float A splitTime) freq,
       sw_part = 0, sw_begin = 0, sw_files = files\<rparr>"

definition change_file :: "string \<Rightarrow> ('d singles_file \<Rightarrow> 'd singles_file) \<Rightarrow> 'd singles_dir \<Rightarrow> 'd singles_dir" where
  "change_file name f files = files(name := map_option f (files name))"

definition rows_in :: "'d singles_writer \<Rightarrow> 'd singles_row list" where
  "rows_in w = (case sw_files w (data_name w) of None \<Rightarrow> [] | Some f \<Rightarrow> file_rows f)"

text \<open>The position in the data: rows of the tree, or bytes of the file.\<close>

definition row_size :: "singles_type \<Rightarrow> int" where
  "row_size ty = (if ty = SinglesBinary then sizeof_SingleEvent else 1)"

definition close_singles_step :: "u32 \<Rightarrow> u32 \<Rightarrow> 'd singles_writer \<Rightarrow> 'd singles_writer" where
  "close_singles_step sv1 sv2 w =
     (if sw_type w = SinglesRoot \<or> sw_type w = SinglesBinary then
        let e = row_size (sw_type w) * int (length (rows_in w)) in
        w\<lparr>sw_begin := e, sw_files := change_file (index_name w) (\<lambda>f. f\<lparr>file_index := file_index f @ [(sv1, sv2, sw_begin w, e)]\<rparr>) (sw_files w)\<rparr>
      else w)"

text \<open>\<^verbatim>\<open>%08lld\<close> of a number that is not negative, and the name of a part.\<close>

definition part_number :: "int \<Rightarrow> string" where
  "part_number k = replicate (8 - length (show_nat (nat k))) CHR ''0'' @ show_nat (nat k)"

definition before_dot :: "string \<Rightarrow> string" where
  "before_dot s = rev (tl (dropWhile (\<lambda>c. c \<noteq> dot) (rev s)))"

definition after_dot :: "string \<Rightarrow> string" where
  "after_dot s = rev (takeWhile (\<lambda>c. c \<noteq> dot) (rev s))"

definition part_name :: "singles_type \<Rightarrow> string \<Rightarrow> string \<Rightarrow> int \<Rightarrow> string" where
  "part_name ty name suffix k =
     (if ty = SinglesBinary then name @ ''_'' @ part_number k @ suffix
      else if dot \<notin> set name then name @ ''_'' @ part_number k
      else before_dot name @ ''_'' @ part_number k @ ''.'' @ after_dot name)"

text \<open>\<^verbatim>\<open>rename\<close> with its assertion; the names are built in arrays.\<close>

definition rename_asserted :: "file_rights \<Rightarrow> string \<Rightarrow> string \<Rightarrow> 'd singles_dir \<Rightarrow> 'd singles_dir run" where
  "rename_asserted os old new files =
     (if \<not> in_array old \<or> \<not> in_array new then Fault
      else case files old of
        None \<Rightarrow> Fault
      | Some f \<Rightarrow> if can_rename os old new then Return (files(old := None, new \<mapsto> f)) else Fault)"

definition rename_part :: "file_rights \<Rightarrow> 'd singles_writer \<Rightarrow> 'd singles_writer run" where
  "rename_part os w =
     (let part = (\<lambda>suffix. part_name (sw_type w) (sw_name w) suffix (sw_part w)) in
      bind_run (rename_asserted os (data_name w) (part (data_suffix (sw_type w))) (sw_files w)) (\<lambda>files.
      bind_run (if sw_type w = SinglesBinary then rename_asserted os (index_name w) (part (index_suffix (sw_type w))) files else Return files)
        (\<lambda>files. Return (w\<lparr>sw_files := files\<rparr>))))"

text \<open>The destructor.\<close>

definition end_singles :: "'d arith \<Rightarrow> file_rights \<Rightarrow> 'd singles_writer \<Rightarrow> 'd singles_writer run" where
  "end_singles A os w = (if less_than A (lit A 0) (sw_split w) then rename_part os w else Return w)"

section \<open>Events\<close>

text \<open>The row of a hit, of its raw hit; \<open>T\<close> is the length of a clock cycle in picoseconds.\<close>

definition clock_ps :: "'d arith \<Rightarrow> 'd \<Rightarrow> 'd" where
  "clock_ps A freq = ddiv A (lit A 1000000000000) freq"

definition hit_ps :: "'d casts \<Rightarrow> 'd arith \<Rightarrow> 'd \<Rightarrow> int \<Rightarrow> 'd Hit \<Rightarrow> int" where
  "hit_ps C A T tMin h = signed_take_bit 63 (longlong C (dmul A (hit_time h) T) + tMin)"

definition energy_in_units :: "'d arith \<Rightarrow> 'd \<Rightarrow> RawHit \<Rightarrow> 'd Hit \<Rightarrow> 'd" where
  "energy_in_units A T r h = fmul A (hit_energy h) (if qdcMode r then lit A 1 else to_float A (ddiv A T (lit A 1000)))"

definition rows_of_hit ::
  "'d casts \<Rightarrow> 'd arith \<Rightarrow> singles_type \<Rightarrow> 'd \<Rightarrow> u32 \<Rightarrow> u32 \<Rightarrow> int \<Rightarrow> RawHit \<Rightarrow> 'd Hit \<Rightarrow> 'd singles_row list" where
  "rows_of_hit C A ty T sv1 sv2 tMin r h =
     (case ty of
        SinglesRoot \<Rightarrow> [RootRow \<lparr>sr_step1 = sv1, sr_step2 = sv2, sr_time = hit_ps C A T tMin h, sr_channelID = hitChannelID r,
          sr_tot = to_float A (dmul A (dsub A (hit_timeEnd h) (hit_time h)) T), sr_energy = energy_in_units A T r h,
          sr_tacID = tacID r, sr_xi = hit_xi h, sr_yi = hit_yi h, sr_x = hit_x h, sr_y = hit_y h, sr_z = hit_z h,
          sr_tqT = to_float A (dsub A (of_integer A (hitTime r)) (hit_time h)),
          sr_tqE = to_float A (dsub A (of_integer A (hitTimeEnd r)) (hit_timeEnd h))\<rparr>]
      | SinglesBinary \<Rightarrow> [BinaryRow (hit_ps C A T tMin h) (energy_in_units A T r h) (sint (hitChannelID r))]
      | SinglesText \<Rightarrow> [TextRow (hit_ps C A T tMin h) (energy_in_units A T r h) (sint (hitChannelID r))]
      | SinglesNull \<Rightarrow> [])"

text \<open>
  One turn of the loop of \<open>addEvents\<close>; the raw hits are those of the buffer that the calibration was
  given, which its hits point into.
\<close>

definition add_single ::
  "'d casts \<Rightarrow> 'd arith \<Rightarrow> 'd \<Rightarrow> u32 \<Rightarrow> u32 \<Rightarrow> int \<Rightarrow> RawHit list \<Rightarrow> 'd Hit \<Rightarrow> 'd singles_writer \<Rightarrow> 'd singles_writer run" where
  "add_single C A T sv1 sv2 tMin raws h w =
     (let tmpCounter = sw_counter w; w' = w\<lparr>sw_counter := tmpCounter + 1\<rparr> in
      if tmpCounter mod 1024 \<ge> sw_fraction w then Return w'
      else if \<not> hit_valid h then Return w'
      else case at raws (hit_raw h) of
        None \<Rightarrow> Fault
      | Some r \<Rightarrow> Return (w'\<lparr>sw_files := change_file (data_name w)
            (\<lambda>f. f\<lparr>file_rows := file_rows f @ rows_of_hit C A (sw_type w) T sv1 sv2 tMin r h\<rparr>) (sw_files w)\<rparr>))"

fun add_singles_loop ::
  "'d casts \<Rightarrow> 'd arith \<Rightarrow> 'd \<Rightarrow> u32 \<Rightarrow> u32 \<Rightarrow> int \<Rightarrow> RawHit list \<Rightarrow> 'd Hit list \<Rightarrow> 'd singles_writer \<Rightarrow> 'd singles_writer run" where
  "add_singles_loop C A T sv1 sv2 tMin raws [] w = Return w"
| "add_singles_loop C A T sv1 sv2 tMin raws (h # hs) w =
     bind_run (add_single C A T sv1 sv2 tMin raws h w) (add_singles_loop C A T sv1 sv2 tMin raws hs)"

text \<open>The part that a buffer belongs to, and the change to it.\<close>

definition part_index :: "'d casts \<Rightarrow> 'd arith \<Rightarrow> 'd \<Rightarrow> 'e ebuffer \<Rightarrow> int" where
  "part_index C A split b = int_floor C (ddiv A (of_integer A (bufferTMin b)) split)"

definition starts_part :: "'d casts \<Rightarrow> 'd arith \<Rightarrow> 'd \<Rightarrow> int \<Rightarrow> 'e ebuffer \<Rightarrow> bool" where
  "starts_part C A split current b \<longleftrightarrow> less_than A (lit A 0) split \<and> part_index C A split b > current"

definition change_part :: "'d casts \<Rightarrow> 'd arith \<Rightarrow> file_rights \<Rightarrow> u32 \<Rightarrow> u32 \<Rightarrow> 'e ebuffer \<Rightarrow> 'd singles_writer \<Rightarrow> 'd singles_writer run" where
  "change_part C A os sv1 sv2 b w =
     (if starts_part C A (sw_split w) (sw_part w) b then
        bind_run (rename_part os (close_singles_step sv1 sv2 w)) (\<lambda>w.
        bind_run (open_singles os w) (\<lambda>w. Return (w\<lparr>sw_part := part_index C A (sw_split w) b\<rparr>)))
      else Return w)"

definition buffer_ps :: "'d casts \<Rightarrow> 'd arith \<Rightarrow> 'd \<Rightarrow> 'e ebuffer \<Rightarrow> int" where
  "buffer_ps C A T b = signed_take_bit 63 (bufferTMin b * longlong C T)"

definition add_singles ::
  "'d casts \<Rightarrow> 'd arith \<Rightarrow> file_rights \<Rightarrow> u32 \<Rightarrow> u32 \<Rightarrow> RawHit list \<times> 'd Hit ebuffer \<Rightarrow> 'd singles_writer \<Rightarrow> 'd singles_writer run" where
  "add_singles C A os sv1 sv2 = (\<lambda>(raws, b) w.
     bind_run (change_part C A os sv1 sv2 b w) (\<lambda>w.
       let T = clock_ps A (sw_frequency w) in add_singles_loop C A T sv1 sv2 (buffer_ps C A T b) raws (used_events b) w))"

section \<open>Steps\<close>

text \<open>A buffer on its way through the pipeline: with the hits it ends as, the raw hits they point to.\<close>

definition singles_pipeline ::
  "opened \<Rightarrow> ((int \<times> nat) list \<Rightarrow> (int \<times> nat) list) \<Rightarrow> 'd arith \<Rightarrow> 'd SystemConfig \<Rightarrow> UndecodedHit ebuffer \<Rightarrow> (RawHit list \<times> 'd Hit ebuffer) option" where
  "singles_pipeline rd srt A c b =
     (let es = \<lparr>es_frequency = of_integer A (uint (frequency rd)), es_triggerID = triggerID rd\<rparr> in
      Option.bind (decode_buffer rd b) (\<lambda>raw.
      Option.bind (coarse_sort srt raw) (\<lambda>sorted.
      Option.bind (process_hits A c es sorted) (\<lambda>(out, n). Some (used_events sorted, out)))))"

fun add_all_singles ::
  "'d casts \<Rightarrow> 'd arith \<Rightarrow> file_rights \<Rightarrow> u32 \<Rightarrow> u32 \<Rightarrow> (RawHit list \<times> 'd Hit ebuffer) list \<Rightarrow> 'd singles_writer \<Rightarrow> 'd singles_writer run" where
  "add_all_singles C A os sv1 sv2 [] w = Return w"
| "add_all_singles C A os sv1 sv2 (b # bs) w = bind_run (add_singles C A os sv1 sv2 b w) (add_all_singles C A os sv1 sv2 bs)"

fun singles_steps ::
  "'d casts \<Rightarrow> 'd arith \<Rightarrow> file_rights \<Rightarrow> (UndecodedHit ebuffer \<Rightarrow> (RawHit list \<times> 'd Hit ebuffer) option) \<Rightarrow> nat \<Rightarrow> step_input list \<Rightarrow>
    'd singles_writer \<Rightarrow> 'd singles_writer run" where
  "singles_steps C A os pipeline fuel [] w = Return w"
| "singles_steps C A os pipeline fuel ((line, r, sv1, sv2) # ls) w =
     (let next = getNextStep line r in
      if \<not> fst next then Return w
      else bind_run (processStep fuel (snd next)) (\<lambda>q.
        case those (map pipeline (queuedBuffers q)) of
          None \<Rightarrow> Fault
        | Some bs \<Rightarrow> bind_run (add_all_singles C A os sv1 sv2 bs w) (\<lambda>w.
            singles_steps C A os pipeline fuel ls (close_singles_step sv1 sv2 w))))"

text \<open>
  \<open>runConvertRawToSingles\<close> from the opening of its input on (before it, it checks its arguments as the
  conversion of raw data does). Without charge integration, the calibrations for it are not loaded.
\<close>

definition LOAD_ENERGY_CALIBRATION :: u64 where "LOAD_ENERGY_CALIBRATION = 0x8"

definition singles_mask :: "opened \<Rightarrow> u64" where
  "singles_mask rd = (if isTOT rd then LOAD_ALL XOR (LOAD_QDC_CALIBRATION OR LOAD_ENERGY_CALIBRATION) else LOAD_ALL)"

definition runConvertRawToSingles ::
  "'d casts \<Rightarrow> 'd arith \<Rightarrow> ((int \<times> nat) list \<Rightarrow> (int \<times> nat) list) \<Rightarrow> file_rights \<Rightarrow> bool \<times> bool \<Rightarrow> 'd config_files \<Rightarrow> opened \<Rightarrow> nat \<Rightarrow>
    step_input list \<Rightarrow> string \<Rightarrow> singles_type \<Rightarrow> int \<Rightarrow> 'd \<Rightarrow> 'd singles_dir \<Rightarrow> (cfg_error + 'd singles_dir) run" where
  "runConvertRawToSingles C A srt os old cfiles rd fuel inps outputFileName ty fraction splitTime files =
     bind_run (fromFile (lit A 0) old (singles_mask rd) cfiles) (\<lambda>r. case r of
         Inl e \<Rightarrow> Return (Inl e)
       | Inr config \<Rightarrow>
           bind_run (singles_writer_new A os outputFileName (of_integer A (uint (frequency rd))) ty fraction splitTime files) (\<lambda>w.
           bind_run (singles_steps C A os (singles_pipeline rd srt A config) fuel inps w) (\<lambda>w.
           bind_run (end_singles A os w) (\<lambda>w. Return (Inr (sw_files w))))))"

section \<open>Names of parts\<close>

lemma decimal_part: "0 \<le> k \<Longrightarrow> decimal (part_number k) 0 = nat k"
proof -
  have "decimal (replicate m CHR ''0'') 0 = 0" for m by (induction m) auto
  then show ?thesis by (simp add: part_number_def decimal_append decimal_show)
qed

lemma part_number_inj: "0 \<le> j \<Longrightarrow> 0 \<le> k \<Longrightarrow> part_number j = part_number k \<Longrightarrow> j = k"
  using decimal_part [of j] decimal_part [of k] by simp

lemma name_at_dot:
  assumes "dot \<in> set s"
  shows "s = before_dot s @ [dot] @ after_dot s"
proof -
  let ?r = "rev s"
  have "dot \<in> set ?r" using assms by simp
  then have "dropWhile (\<lambda>c. c \<noteq> dot) ?r \<noteq> []" by (auto simp: dropWhile_eq_Nil_conv)
  then have "dropWhile (\<lambda>c. c \<noteq> dot) ?r = dot # tl (dropWhile (\<lambda>c. c \<noteq> dot) ?r)"
    using hd_dropWhile [of "\<lambda>c. c \<noteq> dot" ?r] by (cases "dropWhile (\<lambda>c. c \<noteq> dot) ?r") auto
  then have "?r = takeWhile (\<lambda>c. c \<noteq> dot) ?r @ dot # tl (dropWhile (\<lambda>c. c \<noteq> dot) ?r)"
    using takeWhile_dropWhile_id [of "\<lambda>c. c \<noteq> dot" ?r] by metis
  then have "s = rev (takeWhile (\<lambda>c. c \<noteq> dot) ?r @ dot # tl (dropWhile (\<lambda>c. c \<noteq> dot) ?r))"
    by (metis rev_rev_ident)
  then show ?thesis by (simp add: before_dot_def after_dot_def)
qed

lemma part_length: "length (part_name ty name suffix k) =
    (if ty = SinglesBinary then length name + 1 + length (part_number k) + length suffix else length name + 1 + length (part_number k))"
  using arg_cong [OF name_at_dot, of name length] by (auto simp: part_name_def)

lemma part_number_length: "0 \<le> k \<Longrightarrow> k < 2 ^ 31 \<Longrightarrow> length (part_number k) \<le> 10"
proof -
  assume k: "0 \<le> k" "k < 2 ^ 31"
  have "length (show_nat n) \<le> m + 1" if "n < 10 ^ (m + 1)" for n m
    using that
  proof (induction m arbitrary: n)
    case (Suc m)
    have "n div 10 < 10 ^ (m + 1)" using Suc.prems by (simp add: div_less_iff_less_mult mult.commute)
    with Suc.IH [of "n div 10"] show ?case by (simp add: show_nat.simps [of n])
  qed (simp add: show_nat.simps)
  moreover have "nat k < 10 ^ (9 + 1)" using k by (simp add: nat_less_iff)
  ultimately have "length (show_nat (nat k)) \<le> 9 + 1" by blast
  then show ?thesis by (simp add: part_number_def)
qed

lemma part_name_inj:
  assumes "part_name ty name suffix j = part_name ty name suffix k" and "0 \<le> j" and "0 \<le> k"
  shows "j = k"
  using assms part_number_inj [of j k] by (auto simp: part_name_def split: if_splits)

lemma part_suffixes: "part_name SinglesBinary name ''.ldat'' j \<noteq> part_name SinglesBinary name ''.lidx'' k"
  by (auto simp: part_name_def dest: arg_cong [where f = last])

lemma part_new:
  "part_name ty name (data_suffix ty) k \<noteq> name @ data_suffix ty" "part_name ty name (index_suffix ty) k \<noteq> name @ index_suffix ty"
  by (auto dest!: arg_cong [where f = length] simp: part_length data_suffix_def index_suffix_def split: if_splits)

lemma part_other:
  "part_name ty name (data_suffix ty) k \<noteq> name @ index_suffix ty" "part_name ty name (index_suffix ty) k \<noteq> name @ data_suffix ty"
  by (auto dest!: arg_cong [where f = length] simp: part_length data_suffix_def index_suffix_def split: if_splits)

section \<open>What the files hold\<close>

text \<open>
  The rows of a part come in segments, one for each entry of its index: the values of the step and
  the rows of it that went to this part.
\<close>

type_synonym 'd segments = "((u32 \<times> u32) \<times> 'd singles_row list) list"

fun segment_index :: "int \<Rightarrow> int \<Rightarrow> 'd segments \<Rightarrow> singles_index" where
  "segment_index u b [] = []"
| "segment_index u b (((sv1, sv2), rs) # segs) =
     (sv1, sv2, b, b + u * int (length rs)) # segment_index u (b + u * int (length rs)) segs"

definition segment_rows :: "'d segments \<Rightarrow> 'd singles_row list" where
  "segment_rows segs = concat (map snd segs)"

lemma segment_index_append:
  "segment_index u b (segs @ segs') = segment_index u b segs @ segment_index u (b + u * int (length (segment_rows segs))) segs'"
  by (induction u b segs rule: segment_index.induct) (simp_all add: segment_rows_def algebra_simps)

definition data_content :: "singles_type \<Rightarrow> 'd segments \<Rightarrow> 'd singles_row list \<Rightarrow> 'd singles_file" where
  "data_content ty segs rest = \<lparr>file_rows = segment_rows segs @ rest,
     file_index = (if ty = SinglesRoot then segment_index 1 0 segs else [])\<rparr>"

definition index_content :: "singles_type \<Rightarrow> 'd segments \<Rightarrow> 'd singles_row list \<Rightarrow> 'd singles_file" where
  "index_content ty segs rest =
     (if ty = SinglesBinary then \<lparr>file_rows = [], file_index = segment_index sizeof_SingleEvent 0 segs\<rparr> else data_content ty segs rest)"

definition store :: "singles_type \<Rightarrow> string \<Rightarrow> string \<Rightarrow> 'd segments \<Rightarrow> 'd singles_row list \<Rightarrow> 'd singles_dir \<Rightarrow> 'd singles_dir" where
  "store ty d i segs rest files = files(d \<mapsto> data_content ty segs rest, i \<mapsto> index_content ty segs rest)"

definition store_part :: "singles_type \<Rightarrow> string \<Rightarrow> int \<times> 'd segments \<Rightarrow> 'd singles_dir \<Rightarrow> 'd singles_dir" where
  "store_part ty name = (\<lambda>(k, segs). store ty (part_name ty name (data_suffix ty) k) (part_name ty name (index_suffix ty) k) segs [])"

text \<open>
  The state of the writer: its files are those from before, the finished parts \<open>H\<close>, and the open one,
  of which \<open>segs\<close> are indexed and \<open>rest\<close> belongs to the step that goes on.
\<close>

definition closes_steps :: "singles_type \<Rightarrow> bool" where
  "closes_steps ty \<longleftrightarrow> ty = SinglesRoot \<or> ty = SinglesBinary"

definition holds ::
  "'d singles_dir \<Rightarrow> (int \<times> 'd segments) list \<Rightarrow> 'd segments \<Rightarrow> 'd singles_row list \<Rightarrow> 'd singles_writer \<Rightarrow> bool" where
  "holds before H segs rest w \<longleftrightarrow>
     sw_files w = store (sw_type w) (data_name w) (index_name w) segs rest (fold (store_part (sw_type w) (sw_name w)) H before) \<and>
     (closes_steps (sw_type w) \<longrightarrow> sw_begin w = row_size (sw_type w) * int (length (segment_rows segs)))"

definition same_setup :: "'d singles_writer \<Rightarrow> 'd singles_writer \<Rightarrow> bool" where
  "same_setup w w' \<longleftrightarrow> sw_name w' = sw_name w \<and> sw_frequency w' = sw_frequency w \<and> sw_type w' = sw_type w \<and>
     sw_fraction w' = sw_fraction w \<and> sw_split w' = sw_split w"

lemma same_setup_trans: "same_setup w w' \<Longrightarrow> same_setup w' w'' \<Longrightarrow> same_setup w w''"
  by (simp add: same_setup_def)

lemma same_setup_refl [simp]: "same_setup w w"
  by (simp add: same_setup_def)

lemma names_setup: "same_setup w w' \<Longrightarrow> data_name w' = data_name w \<and> index_name w' = index_name w"
  by (simp add: same_setup_def data_name_def index_name_def)

lemma data_is_index: "data_name w = index_name w \<longleftrightarrow> sw_type w \<noteq> SinglesBinary"
  by (auto simp: data_name_def index_name_def data_suffix_def index_suffix_def dest: arg_cong [where f = last])

lemma holds_data: "holds before H segs rest w \<Longrightarrow> sw_files w (data_name w) = Some (data_content (sw_type w) segs rest)"
  using data_is_index [of w] by (auto simp: holds_def store_def index_content_def)

lemma holds_add:
  assumes "holds before H segs rest w"
  shows "holds before H segs (rest @ rs) (w\<lparr>sw_counter := n,
    sw_files := change_file (data_name w) (\<lambda>f. f\<lparr>file_rows := file_rows f @ rs\<rparr>) (sw_files w)\<rparr>)"
  using assms holds_data [OF assms] data_is_index [of w]
  by (auto simp: holds_def store_def change_file_def index_content_def data_content_def data_name_def index_name_def fun_eq_iff)

lemma holds_close:
  assumes "holds before H segs rest w"
  shows "holds before H (segs @ [((sv1, sv2), rest)]) [] (close_singles_step sv1 sv2 w)"
    and "same_setup w (close_singles_step sv1 sv2 w)" and "sw_part (close_singles_step sv1 sv2 w) = sw_part w"
    and "sw_counter (close_singles_step sv1 sv2 w) = sw_counter w"
proof -
  have rows: "rows_in w = segment_rows segs @ rest" using holds_data [OF assms] by (simp add: rows_in_def data_content_def)
  show "holds before H (segs @ [((sv1, sv2), rest)]) [] (close_singles_step sv1 sv2 w)"
    using assms data_is_index [of w]
    by (cases "sw_type w")
      (auto simp: holds_def close_singles_step_def rows store_def change_file_def index_content_def data_content_def data_name_def
        index_name_def fun_eq_iff closes_steps_def row_size_def segment_index_append segment_rows_def Let_def algebra_simps)
qed (simp_all add: close_singles_step_def same_setup_def Let_def)

lemma parts_elsewhere:
  assumes "\<And>k. p \<noteq> part_name ty name (data_suffix ty) k" and "\<And>k. p \<noteq> part_name ty name (index_suffix ty) k"
  shows "fold (store_part ty name) H before p = before p"
  by (induction H arbitrary: before) (auto simp: store_part_def store_def assms)

lemma rename_one:
  "files old = Some f \<Longrightarrow> in_array old \<Longrightarrow> in_array new \<Longrightarrow> can_rename os old new \<Longrightarrow>
    rename_asserted os old new files = Return (files(old := None, new \<mapsto> f))"
  by (simp add: rename_asserted_def)

lemma move_two:
  "F d = None \<Longrightarrow> F i = None \<Longrightarrow> d \<noteq> i \<Longrightarrow> pd \<noteq> d \<Longrightarrow> pd \<noteq> i \<Longrightarrow> pi \<noteq> d \<Longrightarrow> pi \<noteq> i \<Longrightarrow>
    F(d \<mapsto> a, i \<mapsto> b, d := None, pd \<mapsto> a, i := None, pi \<mapsto> b) = F(pd \<mapsto> a, pi \<mapsto> b)"
  by (auto simp: fun_eq_iff)

lemma rename_holds:
  assumes "holds before H segs [] w" and "before (data_name w) = None" and "before (index_name w) = None"
    and "\<forall>p q. can_rename os p q" and "length (sw_name w) \<le> 1000" and "0 \<le> sw_part w" and "sw_part w < 2 ^ 31"
  shows "rename_part os w = Return (w\<lparr>sw_files := fold (store_part (sw_type w) (sw_name w)) (H @ [(sw_part w, segs)]) before\<rparr>)"
proof -
  let ?ty = "sw_type w" and ?F = "fold (store_part (sw_type w) (sw_name w)) H before"
  have fits: "in_array (sw_name w @ data_suffix ?ty)" "in_array (sw_name w @ index_suffix ?ty)"
    "in_array (part_name ?ty (sw_name w) (data_suffix ?ty) (sw_part w))" "in_array (part_name ?ty (sw_name w) (index_suffix ?ty) (sw_part w))"
    using assms(5) part_number_length [OF assms(6,7)] by (simp_all add: in_array_def part_length data_suffix_def index_suffix_def)
  have none: "?F (data_name w) = None" "?F (index_name w) = None"
    using parts_elsewhere [of "data_name w" ?ty "sw_name w" H before] parts_elsewhere [of "index_name w" ?ty "sw_name w" H before]
      assms(2,3)
    by (simp_all add: data_name_def index_name_def part_new part_other part_new [symmetric] part_other [symmetric])
  let ?d = "data_name w" and ?i = "index_name w"
    and ?pd = "part_name ?ty (sw_name w) (data_suffix ?ty) (sw_part w)" and ?pi = "part_name ?ty (sw_name w) (index_suffix ?ty) (sw_part w)"
  let ?a = "data_content ?ty segs []" and ?b = "index_content ?ty segs []"
  have ne: "?pd \<noteq> ?d" "?pd \<noteq> ?i" "?pi \<noteq> ?d" "?pi \<noteq> ?i"
    using part_new part_other unfolding data_name_def index_name_def by auto
  note in_arrays = fits [folded data_name_def index_name_def]
  have files: "sw_files w = ?F(?d \<mapsto> ?a, ?i \<mapsto> ?b)" using assms(1) by (simp add: holds_def store_def)
  have goal: "fold (store_part ?ty (sw_name w)) (H @ [(sw_part w, segs)]) before = ?F(?pd \<mapsto> ?a, ?pi \<mapsto> ?b)"
    by (simp add: store_part_def store_def)
  show ?thesis
  proof (cases "?ty = SinglesBinary")
    case True
    then have di: "?d \<noteq> ?i" using data_is_index by metis
    have r1: "rename_asserted os ?d ?pd (sw_files w) = Return ((sw_files w)(?d := None, ?pd \<mapsto> ?a))"
      by (rule rename_one) (use files di in_arrays assms(4) in simp_all)
    have r2: "rename_asserted os ?i ?pi ((sw_files w)(?d := None, ?pd \<mapsto> ?a)) =
        Return ((sw_files w)(?d := None, ?pd \<mapsto> ?a, ?i := None, ?pi \<mapsto> ?b))"
      by (rule rename_one) (use files di ne in_arrays assms(4) in simp_all)
    show ?thesis
      unfolding goal rename_part_def Let_def r1 bind_run.simps
      using True r2 move_two [OF none di ne, of ?a ?b] by (simp add: files)
  next
    case False
    then have di: "?i = ?d" using data_is_index by metis
    have eq: "?pi = ?pd" "?b = ?a" using False by (simp_all add: data_suffix_def index_suffix_def index_content_def)
    have r1: "rename_asserted os ?d ?pd (sw_files w) = Return ((sw_files w)(?d := None, ?pd \<mapsto> ?a))"
      by (rule rename_one) (use files di eq in_arrays assms(4) in simp_all)
    have "?F(?d := None) = ?F" using none(1) by auto
    then show ?thesis
      unfolding goal rename_part_def Let_def r1 bind_run.simps using False by (simp add: files di eq)
  qed
qed

lemma open_holds:
  assumes "sw_files w = fold (store_part (sw_type w) (sw_name w)) H before" and "\<forall>p. can_create os p" and "length (sw_name w) \<le> 1000"
    and "sw_type w \<noteq> SinglesNull"
  shows "\<exists>w'. open_singles os w = Return w' \<and> holds before H [] [] w' \<and> same_setup w w' \<and> sw_part w' = sw_part w \<and> sw_counter w' = sw_counter w"
  using assms by (auto simp: open_singles_def holds_def same_setup_def in_array_def data_name_def index_name_def data_suffix_def
      index_suffix_def store_def data_content_def index_content_def segment_rows_def empty_file_def fun_eq_iff Let_def)

section \<open>Every hit once, in its part and segment\<close>

definition hit_rows ::
  "'d casts \<Rightarrow> 'd arith \<Rightarrow> singles_type \<Rightarrow> 'd \<Rightarrow> u32 \<Rightarrow> u32 \<Rightarrow> int \<Rightarrow> RawHit list \<Rightarrow> 'd Hit list \<Rightarrow> 'd singles_row list" where
  "hit_rows C A ty T sv1 sv2 tMin raws hs = concat (map (\<lambda>h. rows_of_hit C A ty T sv1 sv2 tMin (raws ! hit_raw h) h) (filter hit_valid hs))"

lemma add_loop_holds:
  assumes "holds before H segs rest w" and "\<forall>h \<in> set hs. hit_raw h < length raws"
  shows "\<exists>w'. add_singles_loop C A T sv1 sv2 tMin raws hs w = Return w' \<and>
    holds before H segs (rest @ hit_rows C A (sw_type w) T sv1 sv2 tMin raws (chosen (sw_fraction w) (sw_counter w) hs)) w' \<and>
    same_setup w w' \<and> sw_part w' = sw_part w \<and> sw_counter w' = sw_counter w + int (length hs)"
  using assms
proof (induction hs arbitrary: w rest)
  case Nil
  then show ?case by (simp add: hit_rows_def)
next
  case (Cons h hs)
  let ?chosen = "sw_counter w mod 1024 < sw_fraction w"
  let ?new = "if ?chosen \<and> hit_valid h then rows_of_hit C A (sw_type w) T sv1 sv2 tMin (raws ! hit_raw h) h else []"
  obtain w1 where w1: "add_single C A T sv1 sv2 tMin raws h w = Return w1" "holds before H segs (rest @ ?new) w1" "same_setup w w1"
    "sw_part w1 = sw_part w" "sw_counter w1 = sw_counter w + 1"
  proof (cases "?chosen \<and> hit_valid h")
    case True
    then show ?thesis
      using that holds_add [OF Cons.prems(1)] Cons.prems(2) by (simp add: add_single_def same_setup_def Let_def not_le)
  next
    case False
    have "holds before H segs rest (w\<lparr>sw_counter := sw_counter w + 1\<rparr>)"
      using Cons.prems(1) by (simp add: holds_def data_name_def index_name_def)
    moreover have "add_single C A T sv1 sv2 tMin raws h w = Return (w\<lparr>sw_counter := sw_counter w + 1\<rparr>)"
      using False by (auto simp: add_single_def Let_def)
    ultimately show ?thesis
      using that [of "w\<lparr>sw_counter := sw_counter w + 1\<rparr>"] False by (simp add: same_setup_def)
  qed
  have conf: "sw_type w1 = sw_type w" "sw_fraction w1 = sw_fraction w" using w1(3) by (simp_all add: same_setup_def)
  obtain w' where w': "add_singles_loop C A T sv1 sv2 tMin raws hs w1 = Return w'"
    "holds before H segs ((rest @ ?new) @ hit_rows C A (sw_type w) T sv1 sv2 tMin raws (chosen (sw_fraction w) (sw_counter w + 1) hs)) w'"
    "same_setup w1 w'" "sw_part w' = sw_part w" "sw_counter w' = sw_counter w + 1 + int (length hs)"
    using Cons.IH [OF w1(2)] Cons.prems(2) w1(4,5) conf by auto
  have rows: "(rest @ ?new) @ hit_rows C A (sw_type w) T sv1 sv2 tMin raws (chosen (sw_fraction w) (sw_counter w + 1) hs) =
      rest @ hit_rows C A (sw_type w) T sv1 sv2 tMin raws (chosen (sw_fraction w) (sw_counter w) (h # hs))"
    by (auto simp: hit_rows_def not_le)
  show ?case using w1(1) w'(1,2,4,5) same_setup_trans [OF w1(3) w'(3)] unfolding rows by simp
qed

text \<open>The part after a buffer, and the rows of buffers with their parts and steps.\<close>

definition part_after :: "'d casts \<Rightarrow> 'd arith \<Rightarrow> 'd \<Rightarrow> int \<Rightarrow> 'e ebuffer \<Rightarrow> int" where
  "part_after C A split current b = (if starts_part C A split current b then part_index C A split b else current)"

definition buffer_rows ::
  "'d casts \<Rightarrow> 'd arith \<Rightarrow> 'd singles_writer \<Rightarrow> int \<Rightarrow> u32 \<Rightarrow> u32 \<Rightarrow> RawHit list \<times> 'd Hit ebuffer \<Rightarrow> 'd singles_row list" where
  "buffer_rows C A w n sv1 sv2 = (\<lambda>(raws, b). let T = clock_ps A (sw_frequency w) in
     hit_rows C A (sw_type w) T sv1 sv2 (buffer_ps C A T b) raws (chosen (sw_fraction w) n (used_events b)))"

type_synonym 'd placed = "int \<times> (u32 \<times> u32) \<times> 'd singles_row"

fun placed_buffers ::
  "'d casts \<Rightarrow> 'd arith \<Rightarrow> 'd singles_writer \<Rightarrow> int \<Rightarrow> int \<Rightarrow> u32 \<Rightarrow> u32 \<Rightarrow> (RawHit list \<times> 'd Hit ebuffer) list \<Rightarrow> 'd placed list \<times> int \<times> int" where
  "placed_buffers C A w k n sv1 sv2 [] = ([], k, n)"
| "placed_buffers C A w k n sv1 sv2 (b # bs) =
     (let k' = part_after C A (sw_split w) k (snd b);
          (ps, k'', n') = placed_buffers C A w k' (n + int (length (used_events (snd b)))) sv1 sv2 bs
      in (map (\<lambda>r. (k', (sv1, sv2), r)) (buffer_rows C A w n sv1 sv2 b) @ ps, k'', n'))"

type_synonym 'd step_buffers = "(u32 \<times> u32) \<times> (RawHit list \<times> 'd Hit ebuffer) list"

fun placed_steps ::
  "'d casts \<Rightarrow> 'd arith \<Rightarrow> 'd singles_writer \<Rightarrow> int \<Rightarrow> int \<Rightarrow> 'd step_buffers list \<Rightarrow> 'd placed list" where
  "placed_steps C A w k n [] = []"
| "placed_steps C A w k n (((sv1, sv2), bs) # sts) =
     (let (ps, k', n') = placed_buffers C A w k n sv1 sv2 bs in ps @ placed_steps C A w k' n' sts)"

definition place_segments :: "int \<Rightarrow> 'd segments \<Rightarrow> 'd placed list" where
  "place_segments k segs = concat (map (\<lambda>(step, rs). map (\<lambda>r. (k, step, r)) rs) segs)"

definition place_parts :: "(int \<times> 'd segments) list \<Rightarrow> 'd placed list" where
  "place_parts H = concat (map (\<lambda>(k, segs). place_segments k segs) H)"

lemma place_append [simp]:
  "place_segments k (segs @ segs') = place_segments k segs @ place_segments k segs'" "place_parts (H @ H') = place_parts H @ place_parts H'"
  by (simp_all add: place_segments_def place_parts_def)

lemma place_simps [simp]:
  "place_segments k [] = []" "place_segments k [(step, rs)] = map (\<lambda>r. (k, step, r)) rs" "place_parts [] = []"
  "place_parts [(k, segs)] = place_segments k segs"
  by (simp_all add: place_segments_def place_parts_def)

text \<open>What holds between the steps, with what has been placed so far.\<close>

definition in_order :: "(int \<times> 'd segments) list \<Rightarrow> int \<Rightarrow> bool" where
  "in_order H k \<longleftrightarrow> sorted_wrt (<) (map fst H @ [k]) \<and> (\<forall>j \<in> set (map fst H @ [k]). 0 \<le> j \<and> j < 2 ^ 31)"

definition env_ok :: "'d casts \<Rightarrow> file_rights \<Rightarrow> 'd singles_dir \<Rightarrow> 'd singles_writer \<Rightarrow> bool" where
  "env_ok C os before w \<longleftrightarrow> (\<forall>x. int_floor C x < 2 ^ 31) \<and> (\<forall>p. can_create os p) \<and> (\<forall>p q. can_rename os p q) \<and>
     length (sw_name w) \<le> 1000 \<and> sw_type w \<noteq> SinglesNull \<and> before (data_name w) = None \<and> before (index_name w) = None"

lemma env_same: "same_setup w w' \<Longrightarrow> env_ok C os before w' = env_ok C os before w"
  by (simp add: env_ok_def same_setup_def data_name_def index_name_def)

lemma change_part_holds:
  assumes "holds before H segs rest w" and "env_ok C os before w" and "in_order H (sw_part w)"
  shows "\<exists>w' H' segs' rest'. change_part C A os sv1 sv2 b w = Return w' \<and> holds before H' segs' rest' w' \<and> same_setup w w' \<and>
    sw_part w' = part_after C A (sw_split w) (sw_part w) b \<and> sw_counter w' = sw_counter w \<and> in_order H' (sw_part w') \<and>
    (less_than A (lit A 0) (sw_split w) \<or> H' = H) \<and>
    place_parts H' @ place_segments (sw_part w') segs' @ map (\<lambda>r. (sw_part w', (sv1, sv2), r)) rest' =
      place_parts H @ place_segments (sw_part w) segs @ map (\<lambda>r. (sw_part w, (sv1, sv2), r)) rest"
proof (cases "starts_part C A (sw_split w) (sw_part w) b")
  case True
  let ?w1 = "close_singles_step sv1 sv2 w" and ?segs = "segs @ [((sv1, sv2), rest)]"
  note closed = holds_close [OF assms(1), of sv1 sv2]
  have env: "env_ok C os before ?w1" using env_same [OF closed(2)] assms(2) by blast
  have part: "0 \<le> sw_part ?w1" "sw_part ?w1 < 2 ^ 31" using assms(3) closed(3) by (simp_all add: in_order_def)
  let ?H = "H @ [(sw_part w, ?segs)]"
  let ?w2 = "?w1\<lparr>sw_files := fold (store_part (sw_type ?w1) (sw_name ?w1)) ?H before\<rparr>"
  have renamed: "rename_part os ?w1 = Return ?w2"
    using rename_holds [OF closed(1)] env part unfolding env_ok_def closed(3) by blast
  obtain w3 where w3: "open_singles os ?w2 = Return w3" "holds before ?H [] [] w3" "same_setup ?w2 w3" "sw_part w3 = sw_part ?w2"
    "sw_counter w3 = sw_counter ?w2"
    using open_holds [of ?w2 ?H before os] env by (auto simp: env_ok_def)
  have conf: "same_setup w w3" using closed(2) w3(3) by (simp add: same_setup_def)
  let ?k = "part_index C A (sw_split w) b" and ?w4 = "w3\<lparr>sw_part := part_index C A (sw_split w3) b\<rparr>"
  have split: "sw_split w3 = sw_split w" using conf by (simp add: same_setup_def)
  have "in_order ?H ?k"
    using assms(2,3) True by (auto simp: in_order_def env_ok_def part_index_def starts_part_def sorted_wrt_append)
  moreover have "holds before ?H [] [] ?w4" using w3(2) by (simp add: holds_def data_name_def index_name_def)
  moreover have "change_part C A os sv1 sv2 b w = Return ?w4" using True renamed w3(1) by (simp add: change_part_def)
  moreover have "same_setup w ?w4" using conf by (simp add: same_setup_def)
  moreover have "sw_part ?w4 = part_after C A (sw_split w) (sw_part w) b" using True split by (simp add: part_after_def)
  moreover have "sw_counter ?w4 = sw_counter w" using w3(5) closed(4) by simp
  moreover have "place_parts ?H @ place_segments ?k [] @ map (\<lambda>r. (?k, (sv1, sv2), r)) [] =
      place_parts H @ place_segments (sw_part w) segs @ map (\<lambda>r. (sw_part w, (sv1, sv2), r)) rest" by simp
  moreover have "less_than A (lit A 0) (sw_split w)" using True by (simp add: starts_part_def)
  ultimately show ?thesis using split by (intro exI [of _ ?w4] exI [of _ ?H] exI [of _ "[]"]) simp
next
  case False
  then show ?thesis using assms by (intro exI [of _ w] exI [of _ H] exI [of _ segs] exI [of _ rest]) (simp add: change_part_def part_after_def)
qed

lemma placed_same:
  "same_setup w w' \<Longrightarrow> placed_buffers C A w' k n sv1 sv2 bs = placed_buffers C A w k n sv1 sv2 bs"
  "same_setup w w' \<Longrightarrow> placed_steps C A w' k n sts = placed_steps C A w k n sts"
proof -
  have b: "same_setup w w' \<Longrightarrow> placed_buffers C A w' k n sv1 sv2 bs = placed_buffers C A w k n sv1 sv2 bs" for k n sv1 sv2 bs
    by (induction bs arbitrary: k n) (simp_all add: same_setup_def buffer_rows_def)
  then show "same_setup w w' \<Longrightarrow> placed_buffers C A w' k n sv1 sv2 bs = placed_buffers C A w k n sv1 sv2 bs" .
  show "same_setup w w' \<Longrightarrow> placed_steps C A w' k n sts = placed_steps C A w k n sts"
  proof (induction sts arbitrary: k n)
    case (Cons st sts)
    then show ?case by (cases st) (auto simp: b split: prod.split)
  qed simp
qed

lemma placed_unsplit:
  "\<not> less_than A (lit A 0) (sw_split w) \<Longrightarrow> fst (snd (placed_buffers C A w k n sv1 sv2 bs)) = k"
proof (induction bs arbitrary: k n)
  case (Cons b bs)
  obtain ps k' n' where "placed_buffers C A w k (n + int (length (used_events (snd b)))) sv1 sv2 bs = (ps, k', n')"
    by (metis surj_pair)
  with Cons.IH [OF Cons.prems, of k "n + int (length (used_events (snd b)))"] Cons.prems show ?case
    by (simp add: part_after_def starts_part_def Let_def)
qed simp

definition points_into :: "RawHit list \<times> 'd Hit ebuffer \<Rightarrow> bool" where
  "points_into b \<longleftrightarrow> (\<forall>h \<in> set (used_events (snd b)). hit_raw h < length (fst b))"

lemma add_all_holds:
  assumes "holds before H segs rest w" and "env_ok C os before w" and "in_order H (sw_part w)" and "\<forall>b \<in> set bs. points_into b"
  shows "\<exists>w' H' segs' rest' ps. add_all_singles C A os sv1 sv2 bs w = Return w' \<and> holds before H' segs' rest' w' \<and> same_setup w w' \<and>
    in_order H' (sw_part w') \<and> (less_than A (lit A 0) (sw_split w) \<or> H' = H) \<and>
    placed_buffers C A w (sw_part w) (sw_counter w) sv1 sv2 bs = (ps, sw_part w', sw_counter w') \<and>
    place_parts H' @ place_segments (sw_part w') segs' @ map (\<lambda>r. (sw_part w', (sv1, sv2), r)) rest' =
      place_parts H @ place_segments (sw_part w) segs @ map (\<lambda>r. (sw_part w, (sv1, sv2), r)) rest @ ps"
  using assms
proof (induction bs arbitrary: w H segs rest)
  case Nil
  then show ?case by (intro exI [of _ w] exI [of _ H] exI [of _ segs] exI [of _ rest] exI [of _ "[]"]) simp
next
  case (Cons b bs)
  obtain raws buf where b: "b = (raws, buf)" by (cases b)
  obtain w1 H1 segs1 rest1 where w1: "change_part C A os sv1 sv2 buf w = Return w1" "holds before H1 segs1 rest1 w1" "same_setup w w1"
    "sw_part w1 = part_after C A (sw_split w) (sw_part w) buf" "sw_counter w1 = sw_counter w" "in_order H1 (sw_part w1)"
    "less_than A (lit A 0) (sw_split w) \<or> H1 = H"
    "place_parts H1 @ place_segments (sw_part w1) segs1 @ map (\<lambda>r. (sw_part w1, (sv1, sv2), r)) rest1 =
      place_parts H @ place_segments (sw_part w) segs @ map (\<lambda>r. (sw_part w, (sv1, sv2), r)) rest"
    using change_part_holds [OF Cons.prems(1,2,3)] by blast
  have conf: "sw_frequency w1 = sw_frequency w" "sw_type w1 = sw_type w" "sw_fraction w1 = sw_fraction w" "sw_split w1 = sw_split w"
    using w1(3) by (simp_all add: same_setup_def)
  let ?T = "clock_ps A (sw_frequency w)"
  let ?rows = "buffer_rows C A w (sw_counter w) sv1 sv2 (raws, buf)"
  have "\<forall>h \<in> set (used_events buf). hit_raw h < length raws" using Cons.prems(4) by (simp add: b points_into_def)
  from add_loop_holds [OF w1(2) this, of C A ?T sv1 sv2 "buffer_ps C A ?T buf"]
  obtain w2 where w2: "add_singles_loop C A ?T sv1 sv2 (buffer_ps C A ?T buf) raws (used_events buf) w1 = Return w2"
    "holds before H1 segs1 (rest1 @ ?rows) w2" "same_setup w1 w2" "sw_part w2 = sw_part w1"
    "sw_counter w2 = sw_counter w + int (length (used_events buf))"
    unfolding buffer_rows_def conf w1(5) Let_def prod.case by blast
  have setup2: "same_setup w w2" using same_setup_trans [OF w1(3) w2(3)] .
  have added: "add_singles C A os sv1 sv2 b w = Return w2" using w1(1) w2(1) by (simp add: add_singles_def b conf)
  have env2: "env_ok C os before w2" using env_same [OF setup2] Cons.prems(2) by blast
  have ord2: "in_order H1 (sw_part w2)" using w1(6) w2(4) by simp
  have bs: "\<forall>b \<in> set bs. points_into b" using Cons.prems(4) by simp
  obtain w' H' segs' rest' ps where w': "add_all_singles C A os sv1 sv2 bs w2 = Return w'" "holds before H' segs' rest' w'" "same_setup w2 w'"
    "in_order H' (sw_part w')" "less_than A (lit A 0) (sw_split w2) \<or> H' = H1"
    "placed_buffers C A w2 (sw_part w2) (sw_counter w2) sv1 sv2 bs = (ps, sw_part w', sw_counter w')"
    "place_parts H' @ place_segments (sw_part w') segs' @ map (\<lambda>r. (sw_part w', (sv1, sv2), r)) rest' =
      place_parts H1 @ place_segments (sw_part w2) segs1 @ map (\<lambda>r. (sw_part w2, (sv1, sv2), r)) (rest1 @ ?rows) @ ps"
    using Cons.IH [OF w2(2) env2 ord2 bs] by blast
  let ?new = "map (\<lambda>r. (sw_part w1, (sv1, sv2), r)) ?rows"
  have "add_all_singles C A os sv1 sv2 (b # bs) w = Return w'" using added w'(1) by simp
  moreover have "same_setup w w'" using same_setup_trans [OF setup2 w'(3)] .
  moreover have "less_than A (lit A 0) (sw_split w) \<or> H' = H" using w'(5) w1(7) setup2 by (auto simp: same_setup_def)
  moreover have "placed_buffers C A w (sw_part w) (sw_counter w) sv1 sv2 (b # bs) = (?new @ ps, sw_part w', sw_counter w')"
    using w'(6) placed_same(1) [OF setup2] w2(4,5) w1(4) by (simp add: b Let_def)
  moreover have "place_parts H' @ place_segments (sw_part w') segs' @ map (\<lambda>r. (sw_part w', (sv1, sv2), r)) rest' =
      place_parts H @ place_segments (sw_part w) segs @ map (\<lambda>r. (sw_part w, (sv1, sv2), r)) rest @ ?new @ ps"
    using w'(7) arg_cong [OF w1(8), of "\<lambda>l. l @ ?new @ ps"] unfolding w2(4) by simp
  ultimately show ?case using w'(2,4) by blast
qed

text \<open>Steps as they come from the reader, without the reader.\<close>

fun write_steps :: "'d casts \<Rightarrow> 'd arith \<Rightarrow> file_rights \<Rightarrow> 'd step_buffers list \<Rightarrow> 'd singles_writer \<Rightarrow> 'd singles_writer run" where
  "write_steps C A os [] w = Return w"
| "write_steps C A os (((sv1, sv2), bs) # sts) w =
     bind_run (add_all_singles C A os sv1 sv2 bs w) (\<lambda>w. write_steps C A os sts (close_singles_step sv1 sv2 w))"

lemma write_steps_holds:
  assumes "holds before H segs [] w" and "env_ok C os before w" and "in_order H (sw_part w)" and "\<forall>st \<in> set sts. \<forall>b \<in> set (snd st). points_into b"
  shows "\<exists>w' H' segs'. write_steps C A os sts w = Return w' \<and> holds before H' segs' [] w' \<and> same_setup w w' \<and> in_order H' (sw_part w') \<and>
    (less_than A (lit A 0) (sw_split w) \<or> H' = H) \<and> (less_than A (lit A 0) (sw_split w) \<or> sw_part w' = sw_part w) \<and>
    place_parts (H' @ [(sw_part w', segs')]) = place_parts (H @ [(sw_part w, segs)]) @ placed_steps C A w (sw_part w) (sw_counter w) sts"
  using assms
proof (induction sts arbitrary: w H segs)
  case Nil
  then show ?case by (intro exI [of _ w] exI [of _ H] exI [of _ segs]) simp
next
  case (Cons st sts)
  obtain sv1 sv2 bs where st: "st = ((sv1, sv2), bs)" by (metis surj_pair)
  have bs: "\<forall>b \<in> set bs. points_into b" "\<forall>st \<in> set sts. \<forall>b \<in> set (snd st). points_into b" using Cons.prems(4) by (simp_all add: st)
  obtain w1 H1 segs1 rest1 ps where w1: "add_all_singles C A os sv1 sv2 bs w = Return w1" "holds before H1 segs1 rest1 w1" "same_setup w w1"
    "in_order H1 (sw_part w1)" "less_than A (lit A 0) (sw_split w) \<or> H1 = H"
    "placed_buffers C A w (sw_part w) (sw_counter w) sv1 sv2 bs = (ps, sw_part w1, sw_counter w1)"
    "place_parts H1 @ place_segments (sw_part w1) segs1 @ map (\<lambda>r. (sw_part w1, (sv1, sv2), r)) rest1 =
      place_parts H @ place_segments (sw_part w) segs @ map (\<lambda>r. (sw_part w, (sv1, sv2), r)) [] @ ps"
    using add_all_holds [OF Cons.prems(1,2,3) bs(1), of A sv1 sv2] by blast
  let ?w = "close_singles_step sv1 sv2 w1"
  note closed = holds_close [OF w1(2), of sv1 sv2]
  have same: "same_setup w ?w" using same_setup_trans [OF w1(3) closed(2)] .
  have env: "env_ok C os before ?w" using env_same [OF same] Cons.prems(2) by blast
  have ord: "in_order H1 (sw_part ?w)" using w1(4) closed(3) by simp
  obtain w' H' segs' where w': "write_steps C A os sts ?w = Return w'" "holds before H' segs' [] w'" "same_setup ?w w'" "in_order H' (sw_part w')"
    "less_than A (lit A 0) (sw_split ?w) \<or> H' = H1" "less_than A (lit A 0) (sw_split ?w) \<or> sw_part w' = sw_part ?w"
    "place_parts (H' @ [(sw_part w', segs')]) = place_parts (H1 @ [(sw_part ?w, segs1 @ [((sv1, sv2), rest1)])]) @
      placed_steps C A ?w (sw_part ?w) (sw_counter ?w) sts"
    using Cons.IH [OF closed(1) env ord bs(2)] by blast
  have split: "sw_split ?w = sw_split w" using same by (simp add: same_setup_def)
  have "write_steps C A os (st # sts) w = Return w'" using w1(1) w'(1) by (simp add: st)
  moreover have "same_setup w w'" using same_setup_trans [OF same w'(3)] .
  moreover have "less_than A (lit A 0) (sw_split w) \<or> H' = H" using w'(5) w1(5) split by auto
  moreover have "less_than A (lit A 0) (sw_split w) \<or> sw_part w' = sw_part w"
    using w'(6) split closed(3) placed_unsplit [of A w C "sw_part w" "sw_counter w" sv1 sv2 bs] w1(6)
    by (cases "less_than A (lit A 0) (sw_split w)") simp_all
  moreover have "place_parts (H' @ [(sw_part w', segs')]) = place_parts (H @ [(sw_part w, segs)]) @ placed_steps C A w (sw_part w) (sw_counter w) (st # sts)"
    using w'(7) w1(7) unfolding st placed_steps.simps w1(6) closed(3,4) placed_same(2) [OF same] by simp
  ultimately show ?case using w'(2,4) by blast
qed

lemma parts_stored:
  assumes "sorted_wrt (<) (map fst H)" and "\<forall>j \<in> set (map fst H). 0 \<le> j" and "(k, segs) \<in> set H"
  shows "fold (store_part ty name) H before (part_name ty name (data_suffix ty) k) = Some (data_content ty segs [])"
    and "fold (store_part ty name) H before (part_name ty name (index_suffix ty) k) = Some (index_content ty segs [])"
proof -
  let ?d = "part_name ty name (data_suffix ty) k" and ?i = "part_name ty name (index_suffix ty) k"
  have both: "fold (store_part ty name) H before ?d = Some (data_content ty segs []) \<and> fold (store_part ty name) H before ?i = Some (index_content ty segs [])"
    using assms
  proof (induction H rule: rev_induct)
    case (snoc p H)
    obtain j segs' where p: "p = (j, segs')" by (cases p)
    show ?case
    proof (cases "(k, segs) = p")
      case True
      then show ?thesis by (simp add: p store_part_def store_def index_content_def data_suffix_def index_suffix_def)
        (auto simp: part_name_def)
    next
      case False
      then have "(k, segs) \<in> set H" using snoc.prems(3) by simp
      moreover have "j \<noteq> k" "0 \<le> j" "0 \<le> k" using snoc.prems(1,2) calculation by (force simp: p sorted_wrt_append)+
      moreover have "?d \<noteq> part_name ty name s j \<and> ?i \<noteq> part_name ty name s j" if "s = data_suffix ty \<or> s = index_suffix ty" for s
        using that part_name_inj [of ty name "data_suffix ty" k j] part_name_inj [of ty name "index_suffix ty" k j] calculation(2-4)
          part_suffixes [of name k j] part_suffixes [of name j k]
        by (cases "ty = SinglesBinary") (auto simp: data_suffix_def index_suffix_def)
      ultimately show ?thesis using snoc.IH snoc.prems(1,2) by (simp add: p store_part_def store_def sorted_wrt_append)
    qed
  qed simp
  then show "fold (store_part ty name) H before ?d = Some (data_content ty segs [])"
    "fold (store_part ty name) H before ?i = Some (index_content ty segs [])" by simp_all
qed

text \<open>The files of a part: with its number in the name if the output is split.\<close>

definition output_name :: "'d arith \<Rightarrow> 'd singles_writer \<Rightarrow> string \<Rightarrow> int \<Rightarrow> string" where
  "output_name A w suffix k =
     (if less_than A (lit A 0) (sw_split w) then part_name (sw_type w) (sw_name w) suffix k else sw_name w @ suffix)"

definition writer_start :: "'d arith \<Rightarrow> string \<Rightarrow> 'd \<Rightarrow> singles_type \<Rightarrow> int \<Rightarrow> 'd \<Rightarrow> 'd singles_dir \<Rightarrow> 'd singles_writer" where
  "writer_start A name freq ty fraction splitTime files = \<lparr>sw_name = name, sw_frequency = freq, sw_type = ty,
     sw_fraction = signed_take_bit 31 fraction, sw_counter = 0, sw_split = dmul A (to_float A splitTime) freq,
     sw_part = 0, sw_begin = 0, sw_files = files\<rparr>"

text \<open>The parts \<open>H\<close>, one after the other and as different files, are what has been added to the files of \<open>w0\<close>.\<close>

definition on_disk :: "'d arith \<Rightarrow> 'd singles_writer \<Rightarrow> (int \<times> 'd segments) list \<Rightarrow> 'd singles_dir \<Rightarrow> bool" where
  "on_disk A w0 H files \<longleftrightarrow> sorted_wrt (<) (map fst H) \<and>
     (let d = output_name A w0 (data_suffix (sw_type w0)); i = output_name A w0 (index_suffix (sw_type w0)) in
      (\<forall>(k, segs) \<in> set H. files (d k) = Some (data_content (sw_type w0) segs []) \<and> files (i k) = Some (index_content (sw_type w0) segs [])) \<and>
      (\<forall>p. p \<notin> {data_name w0, index_name w0} \<longrightarrow> (\<forall>(k, segs) \<in> set H. p \<noteq> d k \<and> p \<noteq> i k) \<longrightarrow> files p = sw_files w0 p))"

lemma singles_stored:
  fixes A :: "'d arith" and files :: "'d singles_dir" and splitTime freq :: 'd and fraction :: int
  assumes "ty \<noteq> SinglesNull" and "name \<noteq> dev_null" and "length name \<le> 1000"
    and "\<forall>x. int_floor C x < 2 ^ 31" and "\<forall>p. can_create os p" and "\<forall>p q. can_rename os p q"
    and "\<forall>st \<in> set sts. \<forall>b \<in> set (snd st). points_into b"
  defines "w0 \<equiv> writer_start A name freq ty fraction splitTime files"
  shows "\<exists>w H. bind_run (bind_run (singles_writer_new A os name freq ty fraction splitTime files) (write_steps C A os sts)) (end_singles A os) = Return w \<and>
    place_parts H = placed_steps C A w0 0 0 sts \<and> on_disk A w0 H (sw_files w)"
proof -
  let ?d = "name @ data_suffix ty" and ?i = "name @ index_suffix ty" and ?split = "less_than A (lit A 0) (sw_split w0)"
  let ?before = "files(?d := None, ?i := None)"
  have names0: "data_name w0 = ?d" "index_name w0 = ?i" by (simp_all add: w0_def writer_start_def data_name_def index_name_def)
  have conf0: "sw_name w0 = name" "sw_type w0 = ty" "sw_part w0 = 0" "sw_counter w0 = 0" "sw_files w0 = files"
    by (simp_all add: w0_def writer_start_def)
  have opened: "\<exists>w1. singles_writer_new A os name freq ty fraction splitTime files = Return w1 \<and> holds ?before [] [] [] w1 \<and> same_setup w0 w1 \<and>
      sw_part w1 = 0 \<and> sw_counter w1 = 0"
    using assms(1-3,5)
    by (auto simp: singles_writer_new_def open_singles_def in_array_def data_name_def index_name_def data_suffix_def index_suffix_def holds_def
        store_def data_content_def index_content_def segment_rows_def empty_file_def same_setup_def w0_def writer_start_def Let_def fun_eq_iff)
  then obtain w1 where w1: "singles_writer_new A os name freq ty fraction splitTime files = Return w1" "holds ?before [] [] [] w1" "same_setup w0 w1"
    "sw_part w1 = 0" "sw_counter w1 = 0" by blast
  have env: "env_ok C os ?before w1"
    using assms(1,3-6) w1(3) by (simp add: env_ok_def same_setup_def data_name_def index_name_def conf0)
  have ord: "in_order [] (sw_part w1)" by (simp add: in_order_def w1(4))
  obtain w2 H segs where w2: "write_steps C A os sts w1 = Return w2" "holds ?before H segs [] w2" "same_setup w1 w2" "in_order H (sw_part w2)"
    "less_than A (lit A 0) (sw_split w1) \<or> H = []" "less_than A (lit A 0) (sw_split w1) \<or> sw_part w2 = sw_part w1"
    "place_parts (H @ [(sw_part w2, segs)]) = place_parts ([] @ [(sw_part w1, [])]) @ placed_steps C A w1 (sw_part w1) (sw_counter w1) sts"
    using write_steps_holds [OF w1(2) env ord assms(7)] by blast
  let ?H = "H @ [(sw_part w2, segs)]"
  have same: "same_setup w0 w2" using same_setup_trans [OF w1(3) w2(3)] .
  have conf2: "sw_name w2 = name" "sw_type w2 = ty" "sw_split w2 = sw_split w0" "sw_split w1 = sw_split w0"
    using same w1(3) by (simp_all add: same_setup_def conf0)
  have names: "data_name w2 = ?d" "index_name w2 = ?i" by (simp_all add: data_name_def index_name_def conf2)
  have placed: "place_parts ?H = placed_steps C A w0 0 0 sts" using w2(7) placed_same(2) [OF w1(3)] by (simp add: w1(4,5))
  have sorted: "sorted_wrt (<) (map fst ?H)" "\<forall>j \<in> set (map fst ?H). 0 \<le> j" using w2(4) by (simp_all add: in_order_def)
  show ?thesis
  proof (cases ?split)
    case True
    let ?w = "w2\<lparr>sw_files := fold (store_part ty name) ?H ?before\<rparr>"
    have env2: "env_ok C os ?before w2" using env_same [OF w2(3)] env by blast
    have part: "0 \<le> sw_part w2" "sw_part w2 < 2 ^ 31" using w2(4) by (simp_all add: in_order_def)
    have "rename_part os w2 = Return ?w"
      using rename_holds [OF w2(2) _ _ _ _ part, of os] env2 unfolding env_ok_def conf2 by (simp del: fun_upd_apply fold.simps fold_append)
    then have run: "bind_run (bind_run (singles_writer_new A os name freq ty fraction splitTime files) (write_steps C A os sts)) (end_singles A os) = Return ?w"
      using True by (simp add: w1(1) w2(1) end_singles_def conf2)
    have out: "output_name A w0 s k = part_name ty name s k" for s k using True by (simp add: output_name_def conf0)
    have kept: "sw_files ?w p = files p" if "p \<notin> {?d, ?i}"
      "\<forall>(k, segs) \<in> set ?H. p \<noteq> part_name ty name (data_suffix ty) k \<and> p \<noteq> part_name ty name (index_suffix ty) k" for p
    proof -
      have "fold (store_part ty name) G F p = F p"
        if "\<forall>(k, segs) \<in> set G. p \<noteq> part_name ty name (data_suffix ty) k \<and> p \<noteq> part_name ty name (index_suffix ty) k" for G F
        using that by (induction G arbitrary: F) (auto simp: store_part_def store_def)
      from this [OF that(2), of ?before] that(1) show ?thesis by simp
    qed
    show ?thesis unfolding on_disk_def Let_def conf0 names0
    proof (intro exI conjI)
      show "\<forall>(k, segs) \<in> set ?H. sw_files ?w (output_name A w0 (data_suffix ty) k) = Some (data_content ty segs []) \<and>
          sw_files ?w (output_name A w0 (index_suffix ty) k) = Some (index_content ty segs [])"
        using parts_stored [OF sorted] by (auto simp: out)
    qed (use run placed sorted kept in \<open>simp_all add: out\<close>)
  next
    case False
    have H: "?H = [(0, segs)]" using False w2(5,6) conf2 w1(4) by simp
    have run: "bind_run (bind_run (singles_writer_new A os name freq ty fraction splitTime files) (write_steps C A os sts)) (end_singles A os) = Return w2"
      using False by (simp add: w1(1) w2(1) end_singles_def conf2)
    have out: "output_name A w0 s k = name @ s" for s k using False by (simp add: output_name_def conf0)
    have fs: "sw_files w2 = store ty ?d ?i segs [] ?before"
      using w2(2,5) False by (simp add: holds_def names conf2)
    have di: "?d = ?i \<longleftrightarrow> ty \<noteq> SinglesBinary" using data_is_index [of w2] by (simp add: names conf2)
    show ?thesis unfolding on_disk_def Let_def conf0 names0
    proof (intro exI conjI)
      show "\<forall>(k, segs) \<in> set ?H. sw_files w2 (output_name A w0 (data_suffix ty) k) = Some (data_content ty segs []) \<and>
          sw_files w2 (output_name A w0 (index_suffix ty) k) = Some (index_content ty segs [])"
        unfolding H out using di by (auto simp: fs store_def index_content_def)
    qed (use run placed sorted fs in \<open>simp_all add: out store_def\<close>)
  qed
qed

text \<open>
  C14: Every hit that is to be written is written once: whatever the format and the time after which the
  output is split, all goes well while the system creates and renames the files, and then the files
  hold, part after part and segment after segment, exactly the rows of the valid hits that the
  fraction lets through, in their order, each in the part that its buffer belongs to and in a segment
  with the values of its step; the index of a part gives its segments one after the other from its
  beginning to its end; the parts are different files, and nothing else is touched.
\<close>

theorem singles_in_parts:
  fixes A :: "'d arith" and files :: "'d singles_dir" and splitTime freq :: 'd and fraction :: int
  assumes "ty \<noteq> SinglesNull" and "name \<noteq> dev_null" and "length name \<le> 1000"
    and "\<forall>x. int_floor C x < 2 ^ 31" and "\<forall>p. can_create os p" and "\<forall>p q. can_rename os p q"
    and "\<forall>st \<in> set sts. \<forall>b \<in> set (snd st). points_into b"
  defines "w0 \<equiv> writer_start A name freq ty fraction splitTime files"
  shows "\<exists>w H. bind_run (bind_run (singles_writer_new A os name freq ty fraction splitTime files) (write_steps C A os sts)) (end_singles A os) = Return w \<and>
    place_parts H = placed_steps C A w0 0 0 sts \<and> on_disk A w0 H (sw_files w)"
  unfolding w0_def by (rule singles_stored [OF assms(1-7)])

definition sample_casts :: "int casts" where
  "sample_casts = \<lparr>int_floor = signed_take_bit 31, longlong = id\<rparr>"

definition all_rights :: file_rights where
  "all_rights = \<lparr>can_create = (\<lambda>_. True), can_rename = (\<lambda>_ _. True)\<rparr>"

lemma sample_env: "\<forall>x. int_floor sample_casts x < 2 ^ 31" "\<forall>p. can_create all_rights p" "\<forall>p q. can_rename all_rights p q"
  using signed_take_bit_int_less_exp [of 31] by (simp_all add: sample_casts_def all_rights_def)

theorem singles_in_parts_witness:
  "\<exists>sts w H. bind_run (bind_run (singles_writer_new int_arith all_rights ''s.dat'' 10 SinglesText 1024 1 Map.empty)
      (write_steps sample_casts int_arith all_rights sts)) (end_singles int_arith all_rights) = Return w \<and>
    place_parts H = [(0, (1, 2), TextRow 300000000000 (700 :: int) 5), (2, (3, 4), TextRow 2800000000000 (700 :: int) 5)] \<and> map fst sts = [(1, 2), (3, 4)]"
proof -
  let ?r = "\<lparr>valid = True, qdcMode = True, hitTime = 0, hitTimeEnd = 0, hitChannelID = 5, hitFrameID = 0, tcoarse = 0, ecoarse = 0,
    tfine = 0, efine = 0, tacID = 0\<rparr>"
  let ?h = "\<lparr>hit_valid = True, hit_raw = 0, hit_time = 3, hit_timeEnd = 4, hit_energy = 700, hit_region = 0, hit_xi = 0, hit_yi = 0,
    hit_x = 0, hit_y = 0, hit_z = 0\<rparr> :: int Hit"
  let ?b = "\<lambda>t. \<lparr>bufferSeqN = 0, bufferTMin = t, bufferTMax = 0, capacity = 1024, used_events = [?h]\<rparr>"
  let ?sts = "[((1, 2), [([?r], ?b 0)]), ((3, 4), [([?r], ?b 25)])] :: int step_buffers list"
  let ?w0 = "writer_start int_arith ''s.dat'' 10 SinglesText 1024 1 Map.empty"
  have "\<forall>st \<in> set ?sts. \<forall>b \<in> set (snd st). points_into b" by (simp add: points_into_def)
  then obtain w H where run: "bind_run (bind_run (singles_writer_new int_arith all_rights ''s.dat'' 10 SinglesText 1024 1 Map.empty)
      (write_steps sample_casts int_arith all_rights ?sts)) (end_singles int_arith all_rights) = Return w"
    and "place_parts H = placed_steps sample_casts int_arith ?w0 0 0 ?sts"
    using singles_in_parts [of SinglesText "''s.dat''" sample_casts all_rights ?sts int_arith 10 1024 1 Map.empty] sample_env
    by (auto simp: dev_null_def)
  moreover have "placed_steps sample_casts int_arith ?w0 0 0 ?sts =
      [(0, (1, 2), TextRow 300000000000 (700 :: int) 5), (2, (3, 4), TextRow 2800000000000 (700 :: int) 5)]"
    by (simp add: sample_casts_def writer_start_def buffer_rows_def hit_rows_def rows_of_hit_def part_after_def starts_part_def
        part_index_def clock_ps_def hit_ps_def energy_in_units_def buffer_ps_def signed_take_bit_int_eq_self Let_def)
  ultimately have "place_parts H = [(0, (1, 2), TextRow 300000000000 700 5), (2, (3, 4), TextRow 2800000000000 700 5)]" by (simp only:)
  with run show ?thesis by (intro exI [of _ ?sts] exI [of _ w] exI [of _ H] conjI) simp_all
qed

section \<open>From the recorded file\<close>

lemma decoded_in_range:
  assumes "decode_hit rd u = Some h"
  shows "unat (hitChannelID h) div 4096 < PATH_MAX" and "unat (tacID h) < 4"
proof -
  have h: "hitChannelID h = getChannelID (snd u)" "tacID h = ucast (getTacID (snd u))"
    using decode_hit_total [of rd u] assms by auto
  show "unat (hitChannelID h) div 4096 < PATH_MAX"
    using channel_in_table [of "snd u"] by (simp add: h MAX_NUMBER_CHANNELS_def PATH_MAX_def div_less_iff_less_mult)
  have "unat (drop_bit 40 (snd u) mod 4) < 4" by (simp add: unat_mod)
  moreover have "unat (ucast w :: 'b::len word) \<le> unat w" for w :: "'a::len word"
    by (simp add: unsigned_ucast_eq)
  ultimately show "unat (tacID h) < 4" unfolding h(2) getTacID_def by (meson order.strict_trans1)
qed

lemma those_eq: "those xs = Some ys \<Longrightarrow> xs = map Some ys"
  by (induction xs arbitrary: ys) (auto split: option.splits)

lemma pipeline_total:
  assumes "channels_ok c" and "sorts_by_time srt"
  shows "\<exists>b'. singles_pipeline rd srt A c b = Some b' \<and> points_into b'"
proof -
  let ?es = "\<lparr>es_frequency = of_integer A (uint (frequency rd)), es_triggerID = triggerID rd\<rparr>"
  obtain hb hs where hb: "decode_buffer rd b = Some hb" "those (map (decode_hit rd) (used_events b)) = Some hs" "used_events hb = hs"
    using decode_buffer_total by blast
  obtain out where out: "coarse_sort srt hb = Some out" "mset (used_events out) = mset hs"
    using coarse_sort_spec [OF assms(2), of hb] hb(3) by auto
  have "\<exists>u. decode_hit rd u = Some r" if "r \<in> set hs" for r
    using those_eq [OF hb(2)] that by (metis (no_types, lifting) image_eqI image_iff list.set_map)
  then have range: "\<forall>r \<in> set (used_events out). unat (hitChannelID r) div 4096 < PATH_MAX \<and> unat (tacID r) < 4"
    using mset_eq_setD [OF out(2)] decoded_in_range by metis
  let ?o = "buffer_child (length (used_events out)) out 0"
  obtain o' n new where new: "process_hits A c ?es out = Some (o', n)" "used_events o' = used_events ?o @ new"
    "\<forall>h \<in> set new. hit_raw h < length (used_events out)"
    using process_raw_spec [OF assms(1) range, of A ?es 0 ?o] unfolding process_hits_def by (metis add_0)
  have "used_events o' = new" using new(2) by (simp add: buffer_child_def)
  then show ?thesis using hb(1) out(1) new(1,3) by (simp add: singles_pipeline_def points_into_def)
qed

text \<open>Buffers that come of the events of a step.\<close>

definition step_calibrated ::
  "(UndecodedHit ebuffer \<Rightarrow> (RawHit list \<times> 'd Hit ebuffer) option) \<Rightarrow> block list \<Rightarrow> 'd step_buffers \<Rightarrow> bool" where
  "step_calibrated pipeline st sb \<longleftrightarrow> fst sb = step_values st \<and>
     (\<exists>qs. map pipeline qs = map Some (snd sb) \<and> concat (map absolute_events qs) = step_events st)"

lemma those_total: "(\<And>x. \<exists>y. f x = Some y \<and> P y) \<Longrightarrow> \<exists>ys. those (map f xs) = Some ys \<and> map f xs = map Some ys \<and> (\<forall>y \<in> set ys. P y)"
proof (induction xs)
  case (Cons x xs)
  obtain y where "f x = Some y" "P y" using Cons.prems by blast
  moreover obtain ys where "those (map f xs) = Some ys" "map f xs = map Some ys" "\<forall>y \<in> set ys. P y" using Cons by blast
  ultimately show ?case by (intro exI [of _ "y # ys"]) simp
qed simp

lemma singles_covered_steps:
  assumes "list_all2 (covers d) ls sts" and "list_all2 (presents d) ls inps" and "length d < ULLONG_MAX"
    and "\<forall>st \<in> set sts. 2 * length (step_frames st) \<le> fuel" and "\<And>b. \<exists>b'. pipeline b = Some b' \<and> points_into b'"
  shows "\<exists>sbs. list_all2 (step_calibrated pipeline) sts sbs \<and> (\<forall>sb \<in> set sbs. \<forall>b \<in> set (snd sb). points_into b) \<and>
    (\<forall>w. singles_steps C A os pipeline fuel inps w = write_steps C A os sbs w)"
  using assms(1,2,4)
proof (induction sts arbitrary: ls inps rule: list.induct)
  case Nil
  then show ?case by (intro exI [of _ "[]"]) simp
next
  case (Cons st sts)
  obtain l ls' where ls: "ls = l # ls'" "covers d l st" "list_all2 (covers d) ls' sts"
    using Cons.prems(1) by (auto simp: list_all2_Cons2)
  obtain inp inps' where inps: "inps = inp # inps'" "presents d l inp" "list_all2 (presents d) ls' inps'"
    using Cons.prems(2) by (auto simp: ls(1) list_all2_Cons1)
  obtain b e f n x y r cs rest where l: "l = IndexLine b e f n x y" "inp = (Some (step_entry.Regular (nat b) (nat e)), r, x, y)"
    "\<not> fromTemp r" "[] \<notin> set cs" "concat cs = drop (nat b) d" "reads r = map ReadBytes cs @ rest"
    using inps(2) by (auto simp: presents_def)
  have vals: "(x, y) = step_values st" using ls(2) unfolding covers_def l(1) step_values_def by auto
  have fuel: "2 * length (step_frames st) \<le> fuel" using Cons.prems(3) by simp
  obtain r' q where q: "getNextStep (Some (step_entry.Regular (nat b) (nat e))) r = (True, r')" "processStep fuel r' = Return q"
    "concat (map absolute_events (queuedBuffers q)) = step_events st"
    using covers_read_back [OF ls(2) [unfolded l(1)] assms(3) l(3-6) fuel] by blast
  obtain bs where bs: "those (map pipeline (queuedBuffers q)) = Some bs" "map pipeline (queuedBuffers q) = map Some bs"
    "\<forall>b \<in> set bs. points_into b" using those_total [of pipeline points_into, OF assms(5)] by blast
  obtain sbs where sbs: "list_all2 (step_calibrated pipeline) sts sbs" "\<forall>sb \<in> set sbs. \<forall>b \<in> set (snd sb). points_into b"
    "\<forall>w. singles_steps C A os pipeline fuel inps' w = write_steps C A os sbs w"
    using Cons.IH [OF ls(3) inps(3)] Cons.prems(3) by auto
  have "step_calibrated pipeline st ((x, y), bs)" using bs(2) q(3) vals by (auto simp: step_calibrated_def)
  then show ?case using sbs bs(1,3) q(1,2) unfolding inps(1) l(2) by (intro exI [of _ "((x, y), bs) # sbs"]) simp
qed

text \<open>
  C13: From the ring to the calibrated hits nothing is lost: after \<open>write_raw\<close> has written any steps of
  well-formed frames, and when the configuration for the mode of the data loads, the conversion to
  singles returns, and the files hold, once each and in order, the rows of the valid hits
  that decoding, sorting and calibrating make of the buffers, which together carry exactly the events of
  each step.
\<close>

theorem recorded_file_to_singles:
  fixes A :: "'d arith" and files :: "'d singles_dir" and splitTime :: 'd and fraction :: int
  assumes "list_all is_step sts" and "\<forall>st \<in> set sts. \<forall>f \<in> set (step_frames st). good_frame f"
    and "write_raw True pad (concat sts) (writer_init header, cal) = Some (s, cal')" and "length (dataFile s) < ULLONG_MAX"
    and "list_all2 (presents (dataFile s)) (indexFile s) inps" and "\<forall>st \<in> set sts. 2 * length (step_frames st) \<le> fuel"
    and "files_ok cfiles" and "fromFile (lit A 0) old (singles_mask rd) cfiles = Return (Inr config)" and "sorts_by_time srt"
    and "ty \<noteq> SinglesNull" and "name \<noteq> dev_null" and "length name \<le> 1000"
    and "\<forall>x. int_floor C x < 2 ^ 31" and "\<forall>p. can_create os p" and "\<forall>p q. can_rename os p q"
  defines "w0 \<equiv> writer_start A name (of_integer A (uint (frequency rd))) ty fraction splitTime files"
  shows "\<exists>files' H sbs. runConvertRawToSingles C A srt os old cfiles rd fuel inps name ty fraction splitTime files = Return (Inr files') \<and>
    place_parts H = placed_steps C A w0 0 0 sbs \<and> on_disk A w0 H files' \<and>
    list_all2 (step_calibrated (singles_pipeline rd srt A config)) sts sbs"
proof -
  have "good_result (fromFile (lit A 0) old (singles_mask rd) cfiles)" by (rule fromFile_good [OF assms(7)])
  then have ok: "channels_ok config" unfolding assms(8) by simp
  have covered: "list_all2 (covers (dataFile s)) (indexFile s) sts"
    using write_raw_steps [OF assms(1,2), of pad "writer_init header" cal] assms(3) by (auto simp: writer_init_def)
  obtain sbs where sbs: "list_all2 (step_calibrated (singles_pipeline rd srt A config)) sts sbs"
    "\<forall>sb \<in> set sbs. \<forall>b \<in> set (snd sb). points_into b"
    "\<forall>w. singles_steps C A os (singles_pipeline rd srt A config) fuel inps w = write_steps C A os sbs w"
    using singles_covered_steps [where pipeline = "singles_pipeline rd srt A config", OF covered assms(5,4,6) pipeline_total [OF ok assms(9)]] by blast
  obtain w H where w: "bind_run (bind_run (singles_writer_new A os name (of_integer A (uint (frequency rd))) ty fraction splitTime files)
      (write_steps C A os sbs)) (end_singles A os) = Return w"
    "place_parts H = placed_steps C A w0 0 0 sbs" "on_disk A w0 H (sw_files w)"
    using singles_stored [OF assms(10-15) sbs(2)] unfolding w0_def by blast
  have "runConvertRawToSingles C A srt os old cfiles rd fuel inps name ty fraction splitTime files = Return (Inr (sw_files w))"
    using w(1) by (auto simp: runConvertRawToSingles_def assms(8) sbs(3) bind_run_Return)
  then show ?thesis using w(2,3) sbs(1) by blast
qed

theorem recorded_file_to_singles_witness:
  "\<exists>s inp files' H. write_raw True [] sample_step (writer_init [0, 0, 0, 0, 0, 0, 0, 0], []) = Some (s, []) \<and>
    runConvertRawToSingles sample_casts int_arith (sort_key fst) all_rights (False, False) sample_files
      \<lparr>frequency = 10, triggerID = -1, qdcModes = (\<lambda>_. False), indexIsTemp = False\<rparr> 4 [inp] ''s.dat'' SinglesText 1024 1 Map.empty =
      Return (Inr files') \<and> on_disk int_arith (writer_start int_arith ''s.dat'' 10 SinglesText 1024 1 Map.empty) H files'"
proof -
  obtain s where s: "write_raw True [] sample_step (writer_init [0, 0, 0, 0, 0, 0, 0, 0], []) = Some (s, [])"
    "length (dataFile s) = 112" "indexFile s = [IndexLine 64 112 7 7 5 6]" using sample_written by blast
  let ?r = "\<lparr>unread = [], reads = [ReadBytes (drop 64 (dataFile s))], polled = [], stepBegin = 0, stepEnd = 0, fromTemp = False\<rparr>"
  let ?inp = "(Some (step_entry.Regular 64 112), ?r, 5 :: u32, 6 :: u32)"
  let ?rd = "\<lparr>frequency = 10, triggerID = -1, qdcModes = (\<lambda>_. False), indexIsTemp = False\<rparr>"
  have "drop 64 (dataFile s) \<noteq> []" using s(2) by simp
  then have present: "presents (dataFile s) (IndexLine 64 112 7 7 5 6) ?inp"
    unfolding presents_def
    by (intro exI [of _ "64 :: int"] exI [of _ "112 :: int"] exI [of _ "7 :: int"] exI [of _ "5 :: u32"] exI [of _ "6 :: u32"]
        exI [of _ ?r] exI [of _ "[drop 64 (dataFile s)]"] exI [of _ "[]"]) simp
  have mask: "singles_mask ?rd = 0xFFFFFFFFFFFFFFF3"
    by (simp add: singles_mask_def isTOT_def list_all_iff LOAD_ALL_def LOAD_QDC_CALIBRATION_def LOAD_ENERGY_CALIBRATION_def)
  have "toupper (CHR ''c'') = CHR ''C''" by code_simp
  then have "\<exists>c. fromFile 0 (False, False) 0xFFFFFFFFFFFFFFF3 sample_files = Return (Inr c)"
    by (simp add: fromFile_def load_tdc_part_def load_qdc_part_def load_map_part_def load_offset_part_def LOAD_TDC_CALIBRATION_def
        LOAD_QDC_CALIBRATION_def LOAD_MAPPING_def LOAD_TIMEALIGN_CALIBRATION_def sample_files_def load_file_def bind_loaded_def
        tdc_line_def channel_line_def sample_gid update_channel_def touchChannelConfig_def PATH_MAX_def config_new_def
        set_entry_def nullChannelConfig_def MAX_TRIGGER_REGIONS_def Let_def)
  then obtain c where c: "fromFile (lit int_arith 0) (False, False) (singles_mask ?rd) sample_files = Return (Inr c)"
    unfolding mask by auto
  have ok: "files_ok sample_files"
    by (auto simp: files_ok_def lines_ok_def sample_files_def address_ok_def sample_gid PATH_MAX_def)
  have srt: "sorts_by_time (sort_key fst)" by (simp add: sorts_by_time_def)
  obtain files' H where "runConvertRawToSingles sample_casts int_arith (sort_key fst) all_rights (False, False) sample_files ?rd 4 [?inp]
      ''s.dat'' SinglesText 1024 1 Map.empty = Return (Inr files')"
    "on_disk int_arith (writer_start int_arith ''s.dat'' (of_integer int_arith (uint (frequency ?rd))) SinglesText 1024 1 Map.empty) H files'"
    using recorded_file_to_singles [of "[sample_step]" "[]" "[0, 0, 0, 0, 0, 0, 0, 0]" "[]" s "[]" "[?inp]" 4 sample_files int_arith
        "(False, False)" ?rd c "sort_key fst" SinglesText "''s.dat''" sample_casts all_rights 1024 1 Map.empty] s present c ok srt sample_env
    by (auto simp: sample_is_step sample_good sample_step_frames ULLONG_MAX_def dev_null_def simp del: int_arith_simps)
  with s(1) show ?thesis by (intro exI [of _ s] exI [of _ ?inp] exI [of _ files'] exI [of _ H]) simp
qed

end
