(* ===== verification/Threshold.thy ===== *)
theory Threshold
  imports Decimal Arithmetic "HOL-Library.Product_Lexorder"
begin

text \<open>
  Processing of a threshold calibration
  (\<^verbatim>\<open>external/scripts_c/src/process_threshold_calibration_impl.cpp\<close>): reading the tables of base lines
  and of noise, and the table of results. ROOT's histogram and fit are parameters; plots are left out.
\<close>

section \<open>Lines and tokens\<close>

definition is_space :: "char \<Rightarrow> bool" where
  "is_space c \<longleftrightarrow> (of_char c :: nat) \<in> {9, 10, 11, 12, 13, 32}"

definition hash :: char where "hash = CHR ''#''"
definition tab :: char where "tab = CHR 0x09"

text \<open>The expressions are replaced everywhere, each match being the longest one at the first place that has one.\<close>

definition comment_at :: "string \<Rightarrow> string option" where
  "comment_at s = (case dropWhile is_space s of [] \<Rightarrow> None | c # cs \<Rightarrow> if c = hash then Some (dropWhile is_any cs) else None)"

lemma comment_shorter: "comment_at s = Some r \<Longrightarrow> length r < length s"
proof -
  assume "comment_at s = Some r"
  then obtain cs where "dropWhile is_space s = hash # cs" "r = dropWhile is_any cs"
    by (auto simp: comment_at_def split: list.splits if_splits)
  then show ?thesis using length_dropWhile_le [of is_space s] length_dropWhile_le [of is_any cs] by simp
qed

function remove_comments :: "string \<Rightarrow> string" where
  "remove_comments s =
     (case comment_at s of
        Some r \<Rightarrow> remove_comments r
      | None \<Rightarrow> (case s of [] \<Rightarrow> [] | c # cs \<Rightarrow> c # remove_comments cs))"
  by auto
termination by (relation "measure length") (auto simp: comment_shorter)

declare remove_comments.simps [simp del]

definition trim_left :: "string \<Rightarrow> string" where "trim_left s = dropWhile is_space s"
definition trim_right :: "string \<Rightarrow> string" where "trim_right s = rev (dropWhile is_space (rev s))"

function squeeze :: "string \<Rightarrow> string" where
  "squeeze [] = []"
| "squeeze (c # cs) = (if is_space c then tab # squeeze (dropWhile is_space cs) else c # squeeze cs)"
  by pat_completeness auto
termination by (relation "measure length") (auto simp: le_imp_less_Suc length_dropWhile_le)

text \<open>\<^verbatim>\<open>getline\<close> with the tab as its end, until the stream has no more.\<close>

function split_tabs :: "string \<Rightarrow> string list" where
  "split_tabs s = (if s = [] then [] else takeWhile (\<lambda>c. c \<noteq> tab) s # split_tabs (tl (dropWhile (\<lambda>c. c \<noteq> tab) s)))"
  by auto
termination
proof (relation "measure length")
  fix s :: string
  assume "s \<noteq> []"
  then have "length (tl xs) < length s" if "length xs \<le> length s" for xs :: string
    using that by (cases xs) auto
  from this [OF length_dropWhile_le] show "(tl (dropWhile (\<lambda>c. c \<noteq> tab) s), s) \<in> measure length" by simp
qed simp

declare split_tabs.simps [simp del]

definition normalizeAndSplit :: "string \<Rightarrow> string list" where
  "normalizeAndSplit line =
     split_tabs (filter (\<lambda>c. c \<noteq> CHR 0x0A) (filter (\<lambda>c. c \<noteq> CHR 0x0D) (squeeze (trim_right (trim_left (remove_comments line))))))"

section \<open>Numbers\<close>

text \<open>\<^verbatim>\<open>std::stoi\<close>: \<open>None\<close> for its exceptions.\<close>

definition stoi :: "string \<Rightarrow> int option" where
  "stoi s =
     (let t = dropWhile is_space s;
          (negative, u) = (case t of [] \<Rightarrow> (False, t) | c # r \<Rightarrow>
             if c = CHR ''-'' then (True, r) else if c = CHR ''+'' then (False, r) else (False, t));
          ds = takeWhile is_digit u; v = int (decimal ds 0); x = (if negative then - v else v)
      in if ds = [] \<or> x < - (2 ^ 31) \<or> x \<ge> 2 ^ 31 then None else Some x)"

datatype threshold_error = EmptyNumber nat string | InvalidInteger string nat string | InvalidDouble string nat string

definition safe_stoi :: "string \<Rightarrow> nat \<Rightarrow> string \<Rightarrow> threshold_error + int" where
  "safe_stoi s lineNo file =
     (if s = [] then Inl (EmptyNumber lineNo file)
      else case stoi s of None \<Rightarrow> Inl (InvalidInteger s lineNo file) | Some x \<Rightarrow> Inr x)"

definition safe_stod :: "(string \<Rightarrow> 'd option) \<Rightarrow> string \<Rightarrow> nat \<Rightarrow> string \<Rightarrow> threshold_error + 'd" where
  "safe_stod stod s lineNo file =
     (if s = [] then Inl (EmptyNumber lineNo file)
      else case stod s of None \<Rightarrow> Inl (InvalidDouble s lineNo file) | Some x \<Rightarrow> Inr x)"

type_synonym 'a checked = "(threshold_error + 'a) run"

definition bind_checked :: "'a checked \<Rightarrow> ('a \<Rightarrow> 'b checked) \<Rightarrow> 'b checked" where
  "bind_checked m f = bind_run m (\<lambda>r. case r of Inl e \<Rightarrow> Return (Inl e) | Inr x \<Rightarrow> f x)"

lemma bind_checked_simps [simp]:
  "bind_checked (Return (Inr x)) f = f x" "bind_checked (Return (Inl e)) f = Return (Inl e)" "bind_checked Fault f = Fault"
  "bind_checked OutOfFuel f = OutOfFuel"
  by (simp_all add: bind_checked_def)

text \<open>The numbers at given places of a line; \<open>Fault\<close> where it has no such token.\<close>

fun token_ints :: "string list \<Rightarrow> nat \<Rightarrow> string \<Rightarrow> nat list \<Rightarrow> int list checked" where
  "token_ints tokens lineNo file [] = Return (Inr [])"
| "token_ints tokens lineNo file (k # ks) =
     (case at tokens k of
        None \<Rightarrow> Fault
      | Some s \<Rightarrow> bind_checked (Return (safe_stoi s lineNo file)) (\<lambda>x.
          bind_checked (token_ints tokens lineNo file ks) (\<lambda>xs. Return (Inr (x # xs)))))"

fun read_table :: "(nat \<Rightarrow> string \<Rightarrow> 's \<Rightarrow> 's checked) \<Rightarrow> nat \<Rightarrow> string list \<Rightarrow> 's \<Rightarrow> 's checked" where
  "read_table step lineNo [] s = Return (Inr s)"
| "read_table step lineNo (line # ls) s = bind_checked (step (lineNo + 1) line s) (read_table step (lineNo + 1) ls)"

section \<open>Base lines and noise\<close>

type_synonym channel_key = "int \<times> int \<times> int \<times> int"
type_synonym chip_key = "int \<times> int \<times> int"

record baselines =
  baselineSettings :: "channel_key \<Rightarrow> (int \<times> int) option"
  activeChannels :: "channel_key list"
  activeChips :: "chip_key list"

definition baselines_new :: baselines where
  "baselines_new = \<lparr>baselineSettings = Map.empty, activeChannels = [], activeChips = []\<rparr>"

text \<open>\<^verbatim>\<open>insert\<close> of \<^verbatim>\<open>std::set\<close>, as the list of its elements in their order.\<close>

definition set_add :: "'k::linorder \<Rightarrow> 'k list \<Rightarrow> 'k list" where
  "set_add k ks = (if k \<in> set ks then ks else insort k ks)"

definition baseline_line :: "string \<Rightarrow> nat \<Rightarrow> string \<Rightarrow> baselines \<Rightarrow> baselines checked" where
  "baseline_line file lineNo line b =
     (let tokens = normalizeAndSplit line in
      if tokens = [] then Return (Inr b)
      else bind_checked (token_ints tokens lineNo file [0, 1, 2, 3, 4, 5]) (\<lambda>v.
        let ck = (v ! 0, v ! 1, v ! 2, v ! 3) in
        Return (Inr \<lparr>baselineSettings = (baselineSettings b)(ck \<mapsto> (v ! 4, v ! 5)),
          activeChannels = set_add ck (activeChannels b), activeChips = set_add (v ! 0, v ! 1, v ! 2) (activeChips b)\<rparr>)))"

type_synonym 'd noise_fills = "(int \<times> 'd) list"

text \<open>The profiles that exist, and how often \<^verbatim>\<open>rand\<close> has been called.\<close>

record 'd noise =
  noiseProfiles :: "channel_key \<times> string \<Rightarrow> 'd noise_fills option"
  randCalls :: nat

definition threshold_names :: "string list" where
  "threshold_names = [''vth_t1'', ''vth_t2'', ''vth_e'']"

definition noise_new :: "channel_key list \<Rightarrow> 'd noise" where
  "noise_new cks = \<lparr>noiseProfiles = (\<lambda>(ck, t). if ck \<in> set cks \<and> t \<in> set threshold_names then Some [] else None), randCalls = 0\<rparr>"

text \<open>The small random number that is added to a point.\<close>

definition dither :: "'d arith \<Rightarrow> (nat \<Rightarrow> int) \<times> int \<Rightarrow> nat \<Rightarrow> 'd" where
  "dither A = (\<lambda>(rand, RAND_MAX) n.
     dmul A (dsub A (ddiv A (of_integer A (rand n)) (of_integer A RAND_MAX)) (frac A 1 2)) (frac A 1 1000000))"

text \<open>\<open>Fault\<close>: the point of a profile that was not made goes to a null pointer.\<close>

definition noise_line ::
  "'d arith \<Rightarrow> (string \<Rightarrow> 'd option) \<Rightarrow> (nat \<Rightarrow> int) \<times> int \<Rightarrow> string \<Rightarrow> nat \<Rightarrow> string \<Rightarrow> 'd noise \<Rightarrow> 'd noise checked" where
  "noise_line A stod rand file lineNo line s =
     (let tokens = normalizeAndSplit line in
      if length tokens < 7 then Return (Inr s)
      else bind_checked (token_ints tokens lineNo file [0, 1, 2, 3]) (\<lambda>v.
        bind_checked (token_ints tokens lineNo file [5]) (\<lambda>x.
        bind_checked (Return (safe_stod stod (tokens ! 6) lineNo file)) (\<lambda>y.
        let key = ((v ! 0, v ! 1, v ! 2, v ! 3), tokens ! 4) in
        case noiseProfiles s key of
          None \<Rightarrow> Fault
        | Some fs \<Rightarrow> Return (Inr \<lparr>noiseProfiles = (noiseProfiles s)(key \<mapsto> fs @ [(x ! 0, dadd A y (dither A rand (randCalls s)))]),
            randCalls = randCalls s + 1\<rparr>)))))"

section \<open>Results\<close>

text \<open>What is asked of ROOT about a profile: bins, centres, and the parameters of a fit, the width and then the centre.\<close>

record 'd profile_root =
  first_bin_above :: "'d noise_fills \<Rightarrow> 'd \<Rightarrow> int"
  profile_centre :: "int \<Rightarrow> 'd"
  sigmoid_fit :: "'d noise_fills \<Rightarrow> 'd \<Rightarrow> 'd \<Rightarrow> ('d \<times> 'd) option"

definition getBaselineAndNoise :: "'d arith \<Rightarrow> 'd profile_root \<Rightarrow> 'd noise_fills \<Rightarrow> 'd \<times> 'd" where
  "getBaselineAndNoise A R p =
     (let low = dsub A (profile_centre R (first_bin_above R p (frac A 1 10))) (frac A 1 2);
          high = dadd A (profile_centre R (first_bin_above R p (frac A 9 10))) (frac A 1 2)
      in case sigmoid_fit R p low high of
           Some (width, centre) \<Rightarrow> (centre, width)
         | None \<Rightarrow> (ddiv A (dadd A low high) (lit A 2), frac A 5 100))"

type_synonym 'd threshold_row = "channel_key \<times> (int \<times> int) \<times> ('d \<times> 'd) list"

text \<open>A row of the table, the zero and the noise of each threshold being a pair; \<open>operator[]\<close> makes what is missing.\<close>

definition threshold_row_of :: "'d arith \<Rightarrow> 'd profile_root \<Rightarrow> baselines \<Rightarrow> 'd noise \<Rightarrow> channel_key \<Rightarrow> 'd threshold_row run" where
  "threshold_row_of A R b n ck =
     (case those (map (\<lambda>t. noiseProfiles n (ck, t)) threshold_names) of
        None \<Rightarrow> Fault
      | Some ps \<Rightarrow> Return (ck, case baselineSettings b ck of None \<Rightarrow> (0, 0) | Some v \<Rightarrow> v, map (getBaselineAndNoise A R) ps))"

fun threshold_rows :: "'d arith \<Rightarrow> 'd profile_root \<Rightarrow> baselines \<Rightarrow> 'd noise \<Rightarrow> channel_key list \<Rightarrow> 'd threshold_row list run" where
  "threshold_rows A R b n [] = Return []"
| "threshold_rows A R b n (ck # cks) =
     bind_run (threshold_row_of A R b n ck) (\<lambda>r. bind_run (threshold_rows A R b n cks) (\<lambda>rs. Return (r # rs)))"

text \<open>A file that does not open gives no lines. Without a table (\<open>None\<close>) nothing has been written.\<close>

definition lines_of :: "(string \<Rightarrow> string list option) \<Rightarrow> string \<Rightarrow> string list" where
  "lines_of files name = (case files name of None \<Rightarrow> [] | Some ls \<Rightarrow> ls)"

definition runProcessThresholdCalibration ::
  "'d arith \<Rightarrow> 'd profile_root \<Rightarrow> (string \<Rightarrow> 'd option) \<Rightarrow> (nat \<Rightarrow> int) \<times> int \<Rightarrow> (string \<Rightarrow> string list option) \<Rightarrow> string \<Rightarrow> string \<Rightarrow> string \<Rightarrow>
    (bool \<times> 'd threshold_row list option) checked" where
  "runProcessThresholdCalibration A R stod rand files configFile inputFilePrefix outFileName =
     (if configFile = [] \<or> inputFilePrefix = [] \<or> outFileName = [] then Return (Inr (False, None))
      else let bfile = inputFilePrefix @ ''_baseline.tsv''; nfile = inputFilePrefix @ ''_noise.tsv'' in
        bind_checked (read_table (baseline_line bfile) 0 (lines_of files bfile) baselines_new) (\<lambda>b.
        bind_checked (read_table (noise_line A stod rand nfile) 0 (lines_of files nfile) (noise_new (activeChannels b))) (\<lambda>n.
        bind_run (threshold_rows A R b n (activeChannels b)) (\<lambda>rs. Return (Inr (True, Some rs))))))"

section \<open>Tokens are words\<close>

function words_in_line :: "string \<Rightarrow> string list" where
  "words_in_line s =
     (let t = dropWhile is_space s in
      if t = [] then [] else takeWhile (\<lambda>c. \<not> is_space c) t # words_in_line (dropWhile (\<lambda>c. \<not> is_space c) t))"
  by auto
termination
proof (relation "measure length")
  fix s t :: string
  assume t: "t = dropWhile is_space s" "t \<noteq> []"
  then have "\<not> is_space (hd t)" using hd_dropWhile by metis
  then have "length (dropWhile (\<lambda>c. \<not> is_space c) t) < length t"
    using t(2) by (cases t) (auto simp: le_imp_less_Suc length_dropWhile_le)
  also have "length t \<le> length s" by (simp add: t(1) length_dropWhile_le)
  finally show "(dropWhile (\<lambda>c. \<not> is_space c) t, s) \<in> measure length" by simp
qed simp

declare words_in_line.simps [simp del]

lemma words_spaces: "\<forall>c \<in> set sp. is_space c \<Longrightarrow> words_in_line sp = []"
  by (subst words_in_line.simps) (simp add: Let_def dropWhile_eq_Nil_conv)

lemma words_skip: "\<forall>c \<in> set sp. is_space c \<Longrightarrow> words_in_line (sp @ s) = words_in_line s"
  by (subst (1 2) words_in_line.simps) (simp add: dropWhile_append2)

lemma words_word:
  assumes "w \<noteq> []" and "\<forall>c \<in> set w. \<not> is_space c" and "s = [] \<or> is_space (hd s)"
  shows "words_in_line (w @ s) = w # words_in_line s"
proof -
  have "dropWhile is_space (w @ s) = w @ s" using assms(1,2) by (cases w) auto
  moreover have "takeWhile (\<lambda>c. \<not> is_space c) (w @ s) = w" "dropWhile (\<lambda>c. \<not> is_space c) (w @ s) = s"
    using assms(2,3) by (cases s; simp add: takeWhile_append2 dropWhile_append2)+
  ultimately show ?thesis using assms(1) by (subst words_in_line.simps) (simp add: Let_def)
qed

text \<open>A string is spaces, and then nothing or a word and a rest that does not continue it.\<close>

lemma words_cases:
  obtains (spaces) "\<forall>c \<in> set s. is_space c"
  | (word) sp w r where "s = sp @ w @ r" "\<forall>c \<in> set sp. is_space c" "w \<noteq> []" "\<forall>c \<in> set w. \<not> is_space c" "r = [] \<or> is_space (hd r)"
proof (cases "\<forall>c \<in> set s. is_space c")
  case False
  let ?t = "dropWhile is_space s"
  let ?w = "takeWhile (\<lambda>c. \<not> is_space c) ?t" and ?r = "dropWhile (\<lambda>c. \<not> is_space c) ?t"
  have t: "?t \<noteq> []" using False by (simp add: dropWhile_eq_Nil_conv)
  then have "\<not> is_space (hd ?t)" using hd_dropWhile by metis
  then have "?w \<noteq> []" using t by (cases ?t) auto
  moreover have "s = takeWhile is_space s @ ?w @ ?r" by simp
  moreover have "\<forall>c \<in> set (takeWhile is_space s). is_space c" "\<forall>c \<in> set ?w. \<not> is_space c" by (auto dest: set_takeWhileD)
  moreover have "?r = [] \<or> is_space (hd ?r)" using hd_dropWhile [of "\<lambda>c. \<not> is_space c" ?t] by auto
  ultimately show thesis using word by blast
qed (use spaces in blast)

lemma words_append_spaces: "\<forall>c \<in> set sp. is_space c \<Longrightarrow> words_in_line (s @ sp) = words_in_line s"
proof (induction s rule: measure_induct_rule [of length])
  case (less s)
  show ?case
  proof (cases s rule: words_cases)
    case spaces
    with less.prems show ?thesis by (simp add: words_spaces words_skip)
  next
    case (word sp' w r)
    have "length r < length s" using word(1,3) by simp
    then have "words_in_line (r @ sp) = words_in_line r" using less by blast
    moreover have "r @ sp = [] \<or> is_space (hd (r @ sp))" using word(5) less.prems by (cases r; cases sp) auto
    moreover have "words_in_line (s @ sp) = words_in_line (w @ (r @ sp))" "words_in_line s = words_in_line (w @ r)"
      using words_skip [OF word(2)] by (simp_all add: word(1))
    ultimately show ?thesis using words_word [OF word(3,4)] word(5) by simp
  qed
qed

lemma words_trim: "words_in_line (trim_right (trim_left s)) = words_in_line s"
proof -
  have left: "words_in_line (trim_left s) = words_in_line s"
    using words_skip [of "takeWhile is_space s" "dropWhile is_space s"] set_takeWhileD by (fastforce simp: trim_left_def)
  have "trim_left s = trim_right (trim_left s) @ rev (takeWhile is_space (rev (trim_left s)))"
    unfolding trim_right_def by (metis rev_append rev_rev_ident takeWhile_dropWhile_id)
  moreover have "\<forall>c \<in> set (rev (takeWhile is_space (rev (trim_left s)))). is_space c" by (auto dest: set_takeWhileD)
  ultimately show ?thesis using words_append_spaces left by metis
qed

lemma squeeze_word: "\<forall>c \<in> set w. \<not> is_space c \<Longrightarrow> squeeze (w @ s) = w @ squeeze s"
  by (induction w) auto

lemma squeeze_spaces: "sp \<noteq> [] \<Longrightarrow> \<forall>c \<in> set sp. is_space c \<Longrightarrow> squeeze (sp @ s) = tab # squeeze (dropWhile is_space s)"
  by (cases sp) (simp_all add: dropWhile_append2)

lemma tab_space: "is_space tab"
  by (simp add: is_space_def tab_def)

lemma squeeze_chars: "c \<in> set (squeeze s) \<Longrightarrow> c = tab \<or> \<not> is_space c"
  by (induction s rule: squeeze.induct) (auto split: if_splits)

lemma split_word:
  assumes "\<forall>c \<in> set w. \<not> is_space c" and "w \<noteq> []"
  shows "split_tabs w = [w]" and "split_tabs (w @ tab # s) = w # split_tabs s"
proof -
  have w: "takeWhile (\<lambda>c. c \<noteq> tab) w = w" "dropWhile (\<lambda>c. c \<noteq> tab) w = []"
    using assms(1) tab_space by (auto simp: takeWhile_eq_all_conv dropWhile_eq_Nil_conv)
  show "split_tabs w = [w]" using assms(2) by (simp add: split_tabs.simps [of w] w split_tabs.simps [of "[]"])
  have "\<And>x. x \<in> set w \<Longrightarrow> x \<noteq> tab" using assms(1) tab_space by auto
  then have "takeWhile (\<lambda>c. c \<noteq> tab) (w @ tab # s) = w" "dropWhile (\<lambda>c. c \<noteq> tab) (w @ tab # s) = tab # s"
    by (simp_all add: takeWhile_append2 dropWhile_append2)
  then show "split_tabs (w @ tab # s) = w # split_tabs s" using assms(2) by (subst split_tabs.simps) simp
qed

lemma split_squeezed:
  "s = [] \<or> \<not> is_space (hd s) \<Longrightarrow> s = [] \<or> \<not> is_space (last s) \<Longrightarrow> split_tabs (squeeze s) = words_in_line s"
proof (induction s rule: measure_induct_rule [of length])
  case (less s)
  show ?case
  proof (cases s rule: words_cases)
    case spaces
    then have "s = []" using less.prems(1) by (cases s) auto
    then show ?thesis by (simp add: split_tabs.simps words_in_line.simps)
  next
    case (word sp w r)
    have "sp = []" using word(1-3) less.prems(1) by (cases sp) auto
    with word(1) have s: "s = w @ r" by simp
    show ?thesis
    proof (cases "r = []")
      case True
      then show ?thesis using squeeze_word [OF word(4), of "[]"] split_word(1) [OF word(4,3)] words_word [OF word(3,4), of "[]"]
        by (simp add: s words_spaces)
    next
      case False
      let ?sp = "takeWhile is_space r" and ?r = "dropWhile is_space r"
      have last: "\<not> is_space (last r)" using less.prems(2) False by (simp add: s)
      then have ne: "?r \<noteq> []" using False by (auto simp: dropWhile_eq_Nil_conv)
      have sps: "\<forall>c \<in> set ?sp. is_space c" "?sp \<noteq> []" using False word(5) by (auto dest: set_takeWhileD simp: takeWhile_eq_Nil_iff)
      have r: "r = ?sp @ ?r" by simp
      have "\<not> is_space (hd ?r)" by (rule hd_dropWhile [OF ne])
      moreover have "last ?r = last r" using ne by (metis last_append r)
      moreover have "length ?r < length s" using word(3) length_dropWhile_le [of is_space r] by (simp add: s le_imp_less_Suc add_strict_increasing)
      ultimately have ih: "split_tabs (squeeze ?r) = words_in_line ?r" using less.IH last by simp
      have "squeeze r = tab # squeeze ?r"
        using squeeze_spaces [OF sps(2,1), of ?r] by (metis dropWhile_idem takeWhile_dropWhile_id)
      then have "split_tabs (squeeze s) = w # words_in_line ?r"
        using squeeze_word [OF word(4), of r] split_word(2) [OF word(4,3)] ih by (simp add: s)
      moreover have "words_in_line r = words_in_line ?r" using words_skip [OF sps(1), of ?r] by simp
      ultimately show ?thesis using words_word [OF word(3,4,5)] by (simp add: s)
    qed
  qed
qed

lemma comments_gone:
  "\<forall>c \<in> set s. is_any c \<Longrightarrow> \<exists>sp. takeWhile (\<lambda>c. c \<noteq> hash) s = remove_comments s @ sp \<and> (\<forall>c \<in> set sp. is_space c)"
proof (induction s rule: remove_comments.induct)
  case (1 s)
  show ?case
  proof (cases "comment_at s")
    case None
    show ?thesis
    proof (cases s)
      case (Cons c cs)
      have "c \<noteq> hash" using None by (auto simp: comment_at_def Cons is_space_def hash_def)
      moreover obtain sp where "takeWhile (\<lambda>c. c \<noteq> hash) cs = remove_comments cs @ sp" "\<forall>c \<in> set sp. is_space c"
        using 1(1) [OF None Cons] 1(3) by (auto simp: Cons)
      ultimately show ?thesis using None by (simp add: remove_comments.simps [of "c # cs"] Cons)
    qed (simp add: remove_comments.simps [of "[]"] comment_at_def)
  next
    case (Some r)
    then obtain cs where cs: "dropWhile is_space s = hash # cs" "r = dropWhile is_any cs"
      by (auto simp: comment_at_def split: list.splits if_splits)
    have "set cs \<subseteq> set s" by (metis cs(1) set_dropWhileD set_subset_Cons subsetD subsetI)
    then have "r = []" using 1(3) by (auto simp: cs(2) dropWhile_eq_Nil_conv)
    then have empty: "remove_comments s = []" using Some by (simp add: remove_comments.simps [of s] remove_comments.simps [of "[]"] comment_at_def)
    have sp: "\<forall>c \<in> set (takeWhile is_space s). is_space c" by (auto dest: set_takeWhileD)
    have "takeWhile (\<lambda>c. c \<noteq> hash) (takeWhile is_space s @ hash # cs) = takeWhile is_space s"
      using sp by (subst takeWhile_append2) (auto simp: is_space_def hash_def)
    then have "takeWhile (\<lambda>c. c \<noteq> hash) s = takeWhile is_space s" using cs(1) takeWhile_dropWhile_id [of is_space s] by metis
    then show ?thesis using empty sp by simp
  qed
qed

lemma normalize_words:
  assumes "\<forall>c \<in> set line. is_any c"
  shows "normalizeAndSplit line = words_in_line (takeWhile (\<lambda>c. c \<noteq> hash) line)"
proof -
  let ?t = "trim_right (trim_left (remove_comments line))"
  have "\<forall>c \<in> set (squeeze ?t). c \<noteq> CHR 0x0A \<and> c \<noteq> CHR 0x0D"
    using squeeze_chars [of _ ?t] by (fastforce simp: is_space_def tab_def)
  then have "normalizeAndSplit line = split_tabs (squeeze ?t)" by (simp add: normalizeAndSplit_def filter_id_conv)
  also have "\<dots> = words_in_line ?t"
  proof (rule split_squeezed)
    have last: "u = [] \<or> \<not> is_space (hd u) \<Longrightarrow> trim_right u = [] \<or> \<not> is_space (hd (trim_right u))" for u
    proof -
      have "u = trim_right u @ rev (takeWhile is_space (rev u))"
        unfolding trim_right_def by (metis rev_append rev_rev_ident takeWhile_dropWhile_id)
      then show "u = [] \<or> \<not> is_space (hd u) \<Longrightarrow> trim_right u = [] \<or> \<not> is_space (hd (trim_right u))" by (metis append_is_Nil_conv hd_append2)
    qed
    show "?t = [] \<or> \<not> is_space (hd ?t)" by (rule last) (unfold trim_left_def, metis hd_dropWhile)
    show "?t = [] \<or> \<not> is_space (last ?t)" using hd_dropWhile [of is_space "rev (trim_left (remove_comments line))"]
      by (auto simp: trim_right_def last_rev)
  qed
  also have "\<dots> = words_in_line (remove_comments line)" by (rule words_trim)
  also have "\<dots> = words_in_line (takeWhile (\<lambda>c. c \<noteq> hash) line)" using comments_gone [OF assms] words_append_spaces by metis
  finally show ?thesis .
qed

section \<open>Tables that are printed and read\<close>

definition show_int :: "int \<Rightarrow> string" where
  "show_int x = (if x < 0 then CHR ''-'' # show_nat (nat (- x)) else show_nat (nat x))"

fun tsv :: "string list \<Rightarrow> string" where
  "tsv [] = []"
| "tsv [w] = w"
| "tsv (w # ws) = w @ tab # tsv ws"

definition is_word :: "string \<Rightarrow> bool" where
  "is_word w \<longleftrightarrow> w \<noteq> [] \<and> (\<forall>c \<in> set w. \<not> is_space c \<and> c \<noteq> hash)"

lemma digit_no_space: "is_digit c \<Longrightarrow> \<not> is_space c \<and> c \<noteq> hash \<and> c \<noteq> CHR ''-'' \<and> c \<noteq> CHR ''+''"
  by (auto simp: is_digit_def is_space_def hash_def less_eq_char_def)

lemma show_int_word: "is_word (show_int x)"
proof -
  have "\<forall>c \<in> set (show_nat n). is_digit c" for n using show_nat_digits [of n] by (simp add: list_all_iff)
  then show ?thesis using show_nat_nonempty digit_no_space by (auto simp: is_word_def show_int_def is_space_def hash_def)
qed

lemma stoi_show: "- (2 ^ 31) \<le> x \<Longrightarrow> x < 2 ^ 31 \<Longrightarrow> stoi (show_int x) = Some x"
proof -
  assume x: "- (2 ^ 31) \<le> x" "x < 2 ^ 31"
  have digits: "\<forall>c \<in> set (show_nat n). is_digit c" for n using show_nat_digits [of n] by (simp add: list_all_iff)
  obtain c cs where c: "show_nat (nat x) = c # cs" using show_nat_nonempty by (cases "show_nat (nat x)") auto
  have take: "takeWhile is_digit (show_nat n) = show_nat n" for n using digits by (simp add: takeWhile_eq_all_conv)
  show ?thesis
  proof (cases "x < 0")
    case True
    then show ?thesis using x show_nat_nonempty by (auto simp: stoi_def show_int_def is_space_def decimal_show take Let_def)
  next
    case False
    have "is_digit c" using digits [of "nat x"] by (simp add: c)
    then have "dropWhile is_space (c # cs) = c # cs" "c \<noteq> CHR ''-''" "c \<noteq> CHR ''+''" using digit_no_space by auto
    moreover have all: "takeWhile is_digit (c # cs) = c # cs" using take [of "nat x"] by (simp only: c)
    ultimately show ?thesis using False x decimal_show [of "nat x"]
      by (auto simp: stoi_def show_int_def c all Let_def simp del: dropWhile.simps takeWhile.simps decimal.simps)
  qed
qed

lemma words_tsv: "ws \<noteq> [] \<Longrightarrow> \<forall>w \<in> set ws. is_word w \<Longrightarrow> words_in_line (tsv ws) = ws"
proof (induction ws rule: tsv.induct)
  case (2 w)
  then show ?case using words_word [of w "[]"] by (simp add: is_word_def words_spaces)
next
  case (3 w v ws)
  have "words_in_line (w @ tab # tsv (v # ws)) = w # words_in_line (tab # tsv (v # ws))"
    by (rule words_word) (use 3(3) tab_space in \<open>simp_all add: is_word_def\<close>)
  also have "words_in_line (tab # tsv (v # ws)) = words_in_line (tsv (v # ws))" using words_skip [of "[tab]"] tab_space by simp
  finally show ?case using 3 by simp
qed simp

lemma tokens_tsv:
  assumes "ws \<noteq> []" and "\<forall>w \<in> set ws. is_word w"
  shows "normalizeAndSplit (tsv ws) = ws"
proof -
  have chars: "\<forall>c \<in> set (tsv ws). c = tab \<or> \<not> is_space c \<and> c \<noteq> hash"
    using assms(2) by (induction ws rule: tsv.induct) (auto simp: is_word_def)
  then have "\<forall>c \<in> set (tsv ws). is_any c" by (fastforce simp: is_any_def is_space_def tab_def)
  moreover have "takeWhile (\<lambda>c. c \<noteq> hash) (tsv ws) = tsv ws" using chars by (fastforce simp: takeWhile_eq_all_conv tab_def hash_def)
  ultimately show ?thesis using normalize_words words_tsv [OF assms] by metis
qed

definition is_int32 :: "int \<Rightarrow> bool" where
  "is_int32 x \<longleftrightarrow> - (2 ^ 31) \<le> x \<and> x < 2 ^ 31"

fun key_ints :: "channel_key \<Rightarrow> int list" where
  "key_ints (p, s, c, ch) = [p, s, c, ch]"

lemma token_int_show:
  "at tokens k = Some (show_int x) \<Longrightarrow> is_int32 x \<Longrightarrow> token_ints tokens n file (k # ks) =
    bind_checked (token_ints tokens n file ks) (\<lambda>xs. Return (Inr (x # xs)))"
proof -
  have "show_int x \<noteq> []" using show_int_word [of x] by (simp add: is_word_def)
  then show "at tokens k = Some (show_int x) \<Longrightarrow> is_int32 x \<Longrightarrow> token_ints tokens n file (k # ks) =
    bind_checked (token_ints tokens n file ks) (\<lambda>xs. Return (Inr (x # xs)))" using stoi_show [of x] by (simp add: safe_stoi_def is_int32_def)
qed

definition baseline_text :: "channel_key \<times> (int \<times> int) \<Rightarrow> string" where
  "baseline_text = (\<lambda>(ck, t, e). tsv (map show_int (key_ints ck @ [t, e])))"

definition add_baseline :: "channel_key \<times> (int \<times> int) \<Rightarrow> baselines \<Rightarrow> baselines" where
  "add_baseline = (\<lambda>(ck, v) b. \<lparr>baselineSettings = (baselineSettings b)(ck \<mapsto> v), activeChannels = set_add ck (activeChannels b),
     activeChips = set_add (case ck of (p, s, c, ch) \<Rightarrow> (p, s, c)) (activeChips b)\<rparr>)"

lemma baseline_read_back:
  assumes "\<forall>x \<in> set (key_ints ck @ [t, e]). is_int32 x"
  shows "baseline_line file n (baseline_text (ck, t, e)) b = Return (Inr (add_baseline (ck, t, e) b))"
proof -
  obtain p s c ch where ck: "ck = (p, s, c, ch)" by (cases ck)
  have tokens: "normalizeAndSplit (baseline_text (ck, t, e)) = map show_int [p, s, c, ch, t, e]"
    using show_int_word tokens_tsv [of "map show_int [p, s, c, ch, t, e]"] by (simp add: baseline_text_def ck)
  have "token_ints (map show_int [p, s, c, ch, t, e]) n file [0, 1, 2, 3, 4, 5] = Return (Inr [p, s, c, ch, t, e])"
    using assms by (simp add: token_int_show ck at_def del: token_ints.simps(2))
  then show ?thesis unfolding baseline_line_def tokens by (simp add: add_baseline_def ck Let_def)
qed

type_synonym noise_point = "channel_key \<times> string \<times> int \<times> string"

definition noise_text :: "noise_point \<Rightarrow> string" where
  "noise_text = (\<lambda>(ck, t, x, y). tsv (map show_int (key_ints ck) @ [t, show_int x, y]))"

text \<open>The points of a profile: those of its channel and threshold, in order, with their dithered values.\<close>

fun points_of :: "(string \<Rightarrow> 'd option) \<Rightarrow> (nat \<Rightarrow> 'd \<Rightarrow> 'd) \<Rightarrow> channel_key \<times> string \<Rightarrow> nat \<Rightarrow> noise_point list \<Rightarrow> 'd noise_fills" where
  "points_of stod f key n [] = []"
| "points_of stod f key n ((ck, t, x, y) # ps) =
     (if (ck, t) = key then [(x, f n (the (stod y)))] else []) @ points_of stod f key (n + 1) ps"

lemma noise_read_back:
  assumes "\<forall>i \<in> set (key_ints ck @ [x]). is_int32 i" and "is_word t" and "is_word y" and "stod y = Some v"
    and "noiseProfiles s (ck, t) = Some fs"
  shows "noise_line A stod rand file n (noise_text (ck, t, x, y)) s =
    Return (Inr \<lparr>noiseProfiles = (noiseProfiles s)((ck, t) \<mapsto> fs @ [(x, dadd A v (dither A rand (randCalls s)))]), randCalls = randCalls s + 1\<rparr>)"
proof -
  obtain p l c ch where ck: "ck = (p, l, c, ch)" by (cases ck)
  let ?ws = "map show_int [p, l, c, ch] @ [t, show_int x, y]"
  have tokens: "normalizeAndSplit (noise_text (ck, t, x, y)) = ?ws"
    using show_int_word assms(2,3) tokens_tsv [of ?ws] by (simp add: noise_text_def ck)
  have "token_ints ?ws n file [0, 1, 2, 3] = Return (Inr [p, l, c, ch])" "token_ints ?ws n file [5] = Return (Inr [x])"
    using assms(1) by (simp_all add: token_int_show ck at_def del: token_ints.simps(2))
  moreover have "safe_stod stod y n file = Inr v" using assms(3,4) by (simp add: safe_stod_def is_word_def)
  ultimately show ?thesis unfolding noise_line_def tokens using assms(5) by (simp add: ck Let_def)
qed

section \<open>The whole table\<close>

definition blank :: "string \<Rightarrow> bool" where
  "blank line \<longleftrightarrow> normalizeAndSplit line = []"

lemma read_table_skips:
  assumes "\<And>n l s. blank l \<Longrightarrow> step n l s = Return (Inr s)"
    and "\<And>n x s. x \<in> set xs \<Longrightarrow> I s \<Longrightarrow> step n (text_of x) s = Return (Inr (f x s)) \<and> I (f x s)"
    and "filter (\<lambda>l. \<not> blank l) ls = map text_of xs" and "I s"
  shows "read_table step n ls s = Return (Inr (fold f xs s))"
  using assms(2-4)
proof (induction ls arbitrary: xs s n)
  case (Cons l ls)
  show ?case
  proof (cases "blank l")
    case True
    then show ?thesis using Cons assms(1) by simp
  next
    case False
    then obtain x xs' where xs: "xs = x # xs'" "l = text_of x" "filter (\<lambda>l. \<not> blank l) ls = map text_of xs'"
      using Cons.prems(2) by (cases xs) auto
    have "step (n + 1) l s = Return (Inr (f x s))" "I (f x s)" using Cons.prems(1) [of x s "n + 1"] Cons.prems(3) by (simp_all add: xs)
    moreover have "read_table step (n + 1) ls (f x s) = Return (Inr (fold f xs' (f x s)))"
      by (rule Cons.IH) (use Cons.prems(1) xs calculation(2) in auto)
    ultimately show ?thesis by (simp add: xs(1))
  qed
qed simp

lemma set_add_sorted: "sorted ks \<Longrightarrow> distinct ks \<Longrightarrow> sorted (set_add k ks) \<and> distinct (set_add k ks) \<and> set (set_add k ks) = insert k (set ks)"
  by (auto simp: set_add_def sorted_insort distinct_insort set_insort_key)

lemma baselines_fold:
  "sorted (activeChannels b) \<and> distinct (activeChannels b) \<Longrightarrow>
    sorted (activeChannels (fold add_baseline bl b)) \<and> distinct (activeChannels (fold add_baseline bl b)) \<and>
    set (activeChannels (fold add_baseline bl b)) = fst ` set bl \<union> set (activeChannels b) \<and>
    baselineSettings (fold add_baseline bl b) = baselineSettings b ++ map_of (rev bl)"
proof (induction bl arbitrary: b)
  case (Cons x bl)
  obtain ck v where x: "x = (ck, v)" by (cases x)
  have "sorted (activeChannels (add_baseline x b)) \<and> distinct (activeChannels (add_baseline x b)) \<and>
      set (activeChannels (add_baseline x b)) = insert ck (set (activeChannels b))"
    using set_add_sorted [of "activeChannels b" ck] Cons.prems by (simp add: add_baseline_def x)
  moreover have "baselineSettings (add_baseline x b) = (baselineSettings b)(ck \<mapsto> v)" by (simp add: add_baseline_def x)
  ultimately show ?case using Cons.IH [of "add_baseline x b"] by (auto simp: x map_add_def fun_eq_iff split: option.splits)
qed simp

definition add_point :: "(string \<Rightarrow> 'd option) \<Rightarrow> (nat \<Rightarrow> 'd \<Rightarrow> 'd) \<Rightarrow> noise_point \<Rightarrow> 'd noise \<Rightarrow> 'd noise" where
  "add_point stod f = (\<lambda>(ck, t, x, y) s. \<lparr>noiseProfiles = (noiseProfiles s)((ck, t) \<mapsto> the (noiseProfiles s (ck, t)) @ [(x, f (randCalls s) (the (stod y)))]),
     randCalls = randCalls s + 1\<rparr>)"

lemma points_fold:
  "\<forall>(ck, t, x, y) \<in> set nl. noiseProfiles s (ck, t) \<noteq> None \<Longrightarrow>
    noiseProfiles (fold (add_point stod f) nl s) key = map_option (\<lambda>fs. fs @ points_of stod f key (randCalls s) nl) (noiseProfiles s key)"
proof (induction nl arbitrary: s)
  case (Cons p nl)
  obtain ck t x y where p: "p = (ck, t, x, y)" by (cases p)
  let ?s = "add_point stod f p s"
  have "\<forall>(ck, t, x, y) \<in> set nl. noiseProfiles ?s (ck, t) \<noteq> None" using Cons.prems by (auto simp: add_point_def p)
  note ih = Cons.IH [OF this]
  show ?case using ih Cons.prems by (auto simp: p add_point_def)
qed (simp add: option.map_ident)

lemma threshold_rows_all:
  assumes "\<forall>ck \<in> set cks. \<forall>t \<in> set threshold_names. noiseProfiles n (ck, t) = Some (g ck t)"
  shows "threshold_rows A R b n cks =
    Return (map (\<lambda>ck. (ck, case baselineSettings b ck of None \<Rightarrow> (0, 0) | Some v \<Rightarrow> v, map (\<lambda>t. getBaselineAndNoise A R (g ck t)) threshold_names)) cks)"
  using assms
proof (induction cks)
  case (Cons ck cks)
  then show ?case by (simp add: threshold_row_of_def threshold_names_def)
qed simp

text \<open>
  C17: The table of thresholds is complete: from tables in their printed form, with comments and empty
  lines between, of numbers of 32 bits and of noise points only for the channels of the base lines, comes a row for
  every channel, once each and in increasing order, with the last base lines given for it and what
  the fits make of exactly its own noise points, in their order.
\<close>

theorem threshold_table_complete:
  fixes A :: "'d arith" and rand :: "(nat \<Rightarrow> int) \<times> int"
  assumes "configFile \<noteq> []" and "prefix \<noteq> []" and "outFileName \<noteq> []"
    and "files (prefix @ ''_baseline.tsv'') = Some bls" and "filter (\<lambda>l. \<not> blank l) bls = map baseline_text bl"
    and "files (prefix @ ''_noise.tsv'') = Some nls" and "filter (\<lambda>l. \<not> blank l) nls = map noise_text nl"
    and "\<forall>(ck, t, e) \<in> set bl. \<forall>x \<in> set (key_ints ck @ [t, e]). is_int32 x"
    and "\<forall>(ck, t, x, y) \<in> set nl. ck \<in> fst ` set bl \<and> t \<in> set threshold_names \<and> is_int32 x \<and> is_word y \<and> stod y \<noteq> None"
  defines "points \<equiv> \<lambda>ck t. points_of stod (\<lambda>n y. dadd A y (dither A rand n)) (ck, t) 0 nl"
  shows "runProcessThresholdCalibration A R stod rand files configFile prefix outFileName =
    Return (Inr (True, Some (map (\<lambda>ck. (ck, the (map_of (rev bl) ck), map (\<lambda>t. getBaselineAndNoise A R (points ck t)) threshold_names))
      (sorted_list_of_set (fst ` set bl)))))"
proof -
  let ?bfile = "prefix @ ''_baseline.tsv''" and ?nfile = "prefix @ ''_noise.tsv''" and ?f = "\<lambda>n y. dadd A y (dither A rand n)"
  let ?b = "fold add_baseline bl baselines_new"
  let ?start = "noise_new (activeChannels ?b) :: 'd noise"
  let ?n = "fold (add_point stod ?f) nl ?start"
  have b: "sorted (activeChannels ?b)" "distinct (activeChannels ?b)" "set (activeChannels ?b) = fst ` set bl"
    "baselineSettings ?b = map_of (rev bl)"
    using baselines_fold [of baselines_new bl] by (simp_all add: baselines_new_def)
  then have cks: "activeChannels ?b = sorted_list_of_set (fst ` set bl)" by (metis sorted_list_of_set.idem_if_sorted_distinct)
  have 1: "read_table (baseline_line ?bfile) 0 bls baselines_new = Return (Inr ?b)"
  proof (rule read_table_skips [where text_of = baseline_text and I = "\<lambda>_. True"])
    show "\<And>n x s. x \<in> set bl \<Longrightarrow> True \<Longrightarrow> baseline_line ?bfile n (baseline_text x) s = Return (Inr (add_baseline x s)) \<and> True"
      using assms(8) baseline_read_back by fastforce
  qed (use assms(5) in \<open>simp_all add: baseline_line_def blank_def\<close>)
  let ?I = "\<lambda>s. \<forall>ck \<in> fst ` set bl. \<forall>t \<in> set threshold_names. noiseProfiles s (ck, t) \<noteq> None"
  have key: "is_int32 i" if "(ck, t, x, y) \<in> set nl" "i \<in> set (key_ints ck)" for ck t x y i
    using assms(8,9) that by fastforce
  have 2: "read_table (noise_line A stod rand ?nfile) 0 nls ?start = Return (Inr ?n)"
  proof (rule read_table_skips [where text_of = noise_text and I = ?I])
    fix n :: nat and x :: noise_point and s :: "'d noise"
    assume x: "x \<in> set nl" "?I s"
    obtain ck t i y where p: "x = (ck, t, i, y)" by (cases x)
    have ok: "ck \<in> fst ` set bl" "t \<in> set threshold_names" "is_int32 i" "is_word y" "stod y \<noteq> None" using assms(9) x(1) by (auto simp: p)
    then obtain v fs where v: "stod y = Some v" "noiseProfiles s (ck, t) = Some fs" using x(2) by blast
    have "is_word t" using ok(2) by (auto simp: threshold_names_def is_word_def is_space_def hash_def)
    moreover have "\<forall>j \<in> set (key_ints ck @ [i]). is_int32 j" using key x(1) ok(3) by (auto simp: p)
    ultimately have "noise_line A stod rand ?nfile n (noise_text x) s = Return (Inr (add_point stod ?f x s))"
      using noise_read_back [of ck i t y stod v s fs A rand ?nfile n] ok(4) v by (simp add: p add_point_def)
    then show "noise_line A stod rand ?nfile n (noise_text x) s = Return (Inr (add_point stod ?f x s)) \<and> ?I (add_point stod ?f x s)"
      using x(2) by (auto simp: p add_point_def)
  qed (use assms(7) b(3) in \<open>auto simp: noise_line_def blank_def noise_new_def\<close>)
  have "\<forall>(ck, t, x, y) \<in> set nl. noiseProfiles ?start (ck, t) \<noteq> None" using assms(9) b(3) by (auto simp: noise_new_def)
  from points_fold [OF this, of stod ?f] have "\<forall>ck \<in> set (activeChannels ?b). \<forall>t \<in> set threshold_names. noiseProfiles ?n (ck, t) = Some (points ck t)"
    by (simp add: noise_new_def points_def)
  from threshold_rows_all [OF this, of A R ?b] have 3: "threshold_rows A R ?b ?n (activeChannels ?b) =
      Return (map (\<lambda>ck. (ck, case map_of (rev bl) ck of None \<Rightarrow> (0, 0) | Some v \<Rightarrow> v, map (\<lambda>t. getBaselineAndNoise A R (points ck t)) threshold_names))
        (activeChannels ?b))" unfolding b(4) .
  have last: "(case map_of (rev bl) ck of None \<Rightarrow> (0, 0) | Some v \<Rightarrow> v) = the (map_of (rev bl) ck)" if "ck \<in> set (activeChannels ?b)" for ck
    using that by (auto simp: b(3) map_of_eq_None_iff split: option.split)
  have rows: "map (\<lambda>ck. (ck, case map_of (rev bl) ck of None \<Rightarrow> (0, 0) | Some v \<Rightarrow> v, map (\<lambda>t. getBaselineAndNoise A R (points ck t)) threshold_names))
      (activeChannels ?b) = map (\<lambda>ck. (ck, the (map_of (rev bl) ck), map (\<lambda>t. getBaselineAndNoise A R (points ck t)) threshold_names)) (activeChannels ?b)"
    using last by (intro map_cong refl) (simp only: prod.inject simp_thms)
  show ?thesis
    using assms(1-3) 1 2 3 by (simp add: runProcessThresholdCalibration_def lines_of_def assms(4,6) rows Let_def) (simp add: cks)
qed

lemma texts_not_blank:
  "\<not> blank (baseline_text b)" "is_word (fst (snd p)) \<Longrightarrow> is_word (snd (snd (snd p))) \<Longrightarrow> \<not> blank (noise_text p)"
proof -
  show "\<not> blank (baseline_text b)"
    using tokens_tsv [of "map show_int (key_ints (fst b) @ [fst (snd b), snd (snd b)])"]
    by (cases b) (auto simp: blank_def baseline_text_def show_int_word)
  show "is_word (fst (snd p)) \<Longrightarrow> is_word (snd (snd (snd p))) \<Longrightarrow> \<not> blank (noise_text p)"
    using tokens_tsv [of "map show_int (key_ints (fst p)) @ [fst (snd p), show_int (fst (snd (snd p))), snd (snd (snd p))]"]
    by (cases p) (auto simp: blank_def noise_text_def show_int_word)
qed

theorem threshold_table_complete_witness:
  "\<exists>bls nls rs. runProcessThresholdCalibration int_arith \<lparr>first_bin_above = (\<lambda>fs x. int (length fs)), profile_centre = id, sigmoid_fit = (\<lambda>_ _ _. None)\<rparr>
      stoi (\<lambda>_. 0, 1) [''p_baseline.tsv'' \<mapsto> bls, ''p_noise.tsv'' \<mapsto> nls] ''c'' ''p'' ''o'' = Return (Inr (True, Some rs)) \<and>
    map fst rs = [(0, 0, 0, 1), (1, 0, 2, 3)] \<and> map (fst \<circ> snd) rs = [(41, 51), (42, 52)] \<and> bls = map baseline_text
      [((1, 0, 2, 3), (40, 50)), ((0, 0, 0, 1), (41, 51)), ((1, 0, 2, 3), (42, 52))]"
proof -
  let ?bl = "[((1, 0, 2, 3), (40, 50)), ((0, 0, 0, 1), (41, 51)), ((1, 0, 2, 3), (42, 52))] :: (channel_key \<times> (int \<times> int)) list"
  let ?nl = "[((1, 0, 2, 3), ''vth_t1'', 10, ''1'')] :: noise_point list"
  let ?R = "\<lparr>first_bin_above = (\<lambda>fs x. int (length fs)), profile_centre = id, sigmoid_fit = (\<lambda>_ _ _. None)\<rparr> :: int profile_root"
  let ?files = "[''p_baseline.tsv'' \<mapsto> map baseline_text ?bl, ''p_noise.tsv'' \<mapsto> map noise_text ?nl]"
  have words: "is_word ''vth_t1''" "is_word ''1''" by (simp_all add: is_word_def is_space_def hash_def)
  have y: "stoi ''1'' \<noteq> None"
    by (simp add: stoi_def is_space_def is_digit_def less_eq_char_def Let_def)
  have keep: "filter (\<lambda>l. \<not> blank l) (map baseline_text ?bl) = map baseline_text ?bl"
    "filter (\<lambda>l. \<not> blank l) (map noise_text ?nl) = map noise_text ?nl"
    using texts_not_blank(1) texts_not_blank(2) [of "hd ?nl"] words by simp_all
  have "\<forall>(ck, t, e) \<in> set ?bl. \<forall>x \<in> set (key_ints ck @ [t, e]). is_int32 x" by (simp add: is_int32_def)
  moreover have "\<forall>(ck, t, x, y) \<in> set ?nl. ck \<in> fst ` set ?bl \<and> t \<in> set threshold_names \<and> is_int32 x \<and> is_word y \<and> stoi y \<noteq> None"
    using words y by (simp add: threshold_names_def is_int32_def)
  moreover have "sorted_list_of_set (fst ` set ?bl) = [(0, 0, 0, 1), (1, 0, 2, 3)]"
    by (simp add: insert_commute)
  ultimately have "\<exists>rs. runProcessThresholdCalibration int_arith ?R stoi (\<lambda>_. 0, 1) ?files ''c'' ''p'' ''o'' = Return (Inr (True, Some rs)) \<and>
      map fst rs = [(0, 0, 0, 1), (1, 0, 2, 3)] \<and> map (fst \<circ> snd) rs = [(41, 51), (42, 52)]"
    using threshold_table_complete [of "''c''" "''p''" "''o''" ?files "map baseline_text ?bl" ?bl "map noise_text ?nl" ?nl stoi int_arith ?R "(\<lambda>_. 0, 1)"] keep
    by simp
  then obtain rs where rs: "runProcessThresholdCalibration int_arith ?R stoi (\<lambda>_. 0, 1) ?files ''c'' ''p'' ''o'' = Return (Inr (True, Some rs))"
    "map fst rs = [(0, 0, 0, 1), (1, 0, 2, 3)]" "map (fst \<circ> snd) rs = [(41, 51), (42, 52)]" by (elim exE conjE) (rule that)
  show ?thesis by (intro exI conjI, rule rs(1), rule rs(2), rule rs(3), rule refl)
qed

text \<open>
  Lines that are not as they should be: a base line without all its numbers is read behind its tokens,
  a noise point of an unknown channel goes to a null pointer; and where the input files are missing, the
  result is a table without rows that counts as success.
\<close>

theorem bad_tables:
  "baseline_line file n ''1'' baselines_new = Fault \<and>
    noise_line int_arith stoi (rand, rmax) file n (noise_text ((1, 2, 3, 4), ''vth_t1'', 5, ''6'')) (noise_new []) = Fault \<and>
    runProcessThresholdCalibration A R stod r Map.empty ''c'' ''p'' ''o'' = Return (Inr (True, Some []))"
proof (intro conjI)
  have one: "is_word ''1''" "is_word ''6''" "is_word ''vth_t1''" by (simp_all add: is_word_def is_space_def hash_def)
  have "normalizeAndSplit ''1'' = [''1'']" using tokens_tsv [of "[''1'']"] one(1) by simp
  then show "baseline_line file n ''1'' baselines_new = Fault"
    by (simp add: baseline_line_def safe_stoi_def stoi_def is_space_def is_digit_def less_eq_char_def at_def Let_def)
  let ?ws = "map show_int [1, 2, 3, 4] @ [''vth_t1'', show_int 5, ''6'']"
  have tokens: "normalizeAndSplit (noise_text ((1, 2, 3, 4), ''vth_t1'', 5, ''6'')) = ?ws"
    using show_int_word one tokens_tsv [of ?ws] by (simp add: noise_text_def)
  have "token_ints ?ws n file [0, 1, 2, 3] = Return (Inr [1, 2, 3, 4])" "token_ints ?ws n file [5] = Return (Inr [5])"
    by (simp_all add: token_int_show at_def is_int32_def del: token_ints.simps(2))
  moreover have "safe_stod stoi ''6'' n file = Inr 6"
    by (simp add: safe_stod_def stoi_def is_space_def is_digit_def less_eq_char_def Let_def)
  ultimately show "noise_line int_arith stoi (rand, rmax) file n (noise_text ((1, 2, 3, 4), ''vth_t1'', 5, ''6'')) (noise_new []) = Fault"
    unfolding noise_line_def tokens by (simp add: noise_new_def Let_def)
  show "runProcessThresholdCalibration A R stod r Map.empty ''c'' ''p'' ''o'' = Return (Inr (True, Some []))"
    by (simp add: runProcessThresholdCalibration_def lines_of_def baselines_new_def Let_def)
qed

end
