(* ===== verification/Controller.thy ===== *)
theory Controller
  imports DaqControl
begin

text \<open>
  The controller (\<^verbatim>\<open>src/GRAMS_TOF_DAQController.cpp\<close>) and the program around it
  (\<^verbatim>\<open>tools/grams_tof_client_daq.cpp\<close>): start-up with the repair of the standard descriptors, the
  two connections, shut-down, and the destructors that run then. The acquisition is the state of
  \<open>DaqControl\<close>; a signal that asks for its end may come at any time. The connections keep the
  process's descriptors in their field \<open>sys\<close>; here it is the one of the manager.
\<close>

section \<open>Start\<close>

text \<open>A turn of \<open>ensureStandardFDs\<close>: \<^verbatim>\<open>open\<close> gives the lowest free number or fails.\<close>

definition ensure_fd :: "bool \<Rightarrow> int \<Rightarrow> fds \<Rightarrow> fds" where
  "ensure_fd open_ok fd s =
     (if fd \<in> os_open s then s
      else if \<not> open_ok then os_close (-1) s
      else let (newfd, s1) = os_new_fd s in
        if newfd \<noteq> fd then os_close newfd (s1\<lparr>os_open := insert fd (os_open s1)\<rparr>) else s1)"

definition ensureStandardFDs :: "(int \<Rightarrow> bool) \<Rightarrow> fds \<Rightarrow> fds" where
  "ensureStandardFDs open_ok s = fold (\<lambda>fd. ensure_fd (open_ok fd) fd) [0, 1, 2] s"

record controller =
  noFpgaMode :: bool
  keepRunning :: bool
  acq :: control
  eventHub :: hub
  commandHub :: hub

datatype start_result = ConfigThrows | InitFails | Running

text \<open>\<open>hub_new\<close> is a connection object as its constructor leaves it.\<close>

definition hub_new :: hub where
  "hub_new = \<lparr>sys = fds_init, hubConnection = None, running = False\<rparr>"

definition set_mgr :: "daqm \<Rightarrow> controller \<Rightarrow> controller" where
  "set_mgr m c = c\<lparr>acq := (acq c)\<lparr>mgr := m\<rparr>\<rparr>"

definition controller_new :: "bool \<Rightarrow> (int \<Rightarrow> bool) \<Rightarrow> fds \<Rightarrow> controller" where
  "controller_new noFpga open_ok s =
     \<lparr>noFpgaMode = noFpga, keepRunning = True,
      acq = control_init (daqm_new (ensureStandardFDs open_ok s) ''GBE'' [''/dev/psdaq0'']) [],
      eventHub = hub_new, commandHub = hub_new\<rparr>"

definition controller_initialize :: "init_env \<Rightarrow> controller \<Rightarrow> bool \<times> controller" where
  "controller_initialize e c =
     (let (ok, m) = (if noFpgaMode c then (True, mgr (acq c)) else initialize e (mgr (acq c))); c1 = set_mgr m c in
      if \<not> ok then (False, c1)
      else (True, c1\<lparr>eventHub := start_client hub_new, commandHub := start_client hub_new\<rparr>))"

text \<open>The constructor, which throws if the configuration does not load, and \<open>initialize\<close>.\<close>

definition controller_start :: "bool \<Rightarrow> bool \<Rightarrow> (int \<Rightarrow> bool) \<Rightarrow> init_env \<Rightarrow> fds \<Rightarrow> start_result \<times> controller" where
  "controller_start config_ok noFpga open_ok e s =
     (let c = controller_new noFpga open_ok s in
      if \<not> config_ok then (ConfigThrows, c)
      else let (ok, c') = controller_initialize e c in (if ok then Running else InitFails, c'))"

section \<open>End\<close>

text \<open>An operation of a connection, with the descriptors of the process.\<close>

definition with_hub :: "(hub \<Rightarrow> hub) \<Rightarrow> hub \<Rightarrow> daqm \<Rightarrow> hub \<times> daqm" where
  "with_hub f h m = (let h' = f (h\<lparr>sys := dsys m\<rparr>) in (h', m\<lparr>dsys := sys h'\<rparr>))"

definition controller_stop :: "controller \<Rightarrow> controller" where
  "controller_stop c = c\<lparr>keepRunning := False\<rparr>"

text \<open>
  \<open>run\<close> returns when the flag is down, after stopping the command client and then the event client; \<open>ep\<close>
  are the numbers of their \<^verbatim>\<open>epoll\<close> descriptors.
\<close>

definition controller_run :: "int \<times> int \<Rightarrow> controller \<Rightarrow> controller run" where
  "controller_run ep c =
     (if keepRunning c then OutOfFuel
      else let (ch, m1) = with_hub (stop_client COMMAND (fst ep)) (commandHub c) (mgr (acq c));
               (eh, m2) = with_hub (stop_client EVENT (snd ep)) (eventHub c) m1
           in Return (set_mgr m2 (c\<lparr>commandHub := ch, eventHub := eh\<rparr>)))"

text \<open>
  What becomes of the acquisition thread once nobody gives commands any more: a thread that enters
  \<open>run\<close> clears the flag, and then polls for ever.
\<close>

definition thread_completes :: "control \<Rightarrow> control run" where
  "thread_completes s =
     (case tpc s of
        Entered \<Rightarrow> if frameServer (mgr s) \<noteq> None then OutOfFuel else Return (s\<lparr>tpc := Ended, daqRunning := False\<rparr>)
      | Polling \<Rightarrow> if globalUserStop s then Return (s\<lparr>tpc := Ended, daqRunning := False\<rparr>) else OutOfFuel
      | Leaving \<Rightarrow> Return (s\<lparr>tpc := Ended, daqRunning := False\<rparr>)
      | _ \<Rightarrow> Return s)"

text \<open>
  The destructor of the dispatcher, with that of its member \<open>daqThread_\<close>, which ends the program
  (\<^verbatim>\<open>std::terminate\<close>) when the thread has not been joined.
\<close>

definition dispatch_destroy :: "control \<Rightarrow> control run" where
  "dispatch_destroy s =
     bind_run
       (if daqRunning s then bind_run (thread_completes (s\<lparr>globalUserStop := True\<rparr>)) (\<lambda>s. Return (s\<lparr>tpc := NoThread\<rparr>))
        else Return s)
       (\<lambda>s. if tpc s \<noteq> NoThread then Fault else Return s)"

definition manager_destroy :: "control \<Rightarrow> control" where
  "manager_destroy s = s\<lparr>globalUserStop := True, mgr := cleanup (mgr s)\<rparr>"

text \<open>The destructors of the controller's members, last member first; a client is stopped at most once.\<close>

definition controller_destroy :: "int \<times> int \<Rightarrow> controller \<Rightarrow> controller run" where
  "controller_destroy ep c =
     (let (ch, m1) = with_hub (stop_client COMMAND (fst ep)) (commandHub c) (mgr (acq c));
          (eh, m2) = with_hub (stop_client EVENT (snd ep)) (eventHub c) m1;
          c1 = set_mgr m2 (c\<lparr>commandHub := ch, eventHub := eh\<rparr>)
      in bind_run (dispatch_destroy (acq c1)) (\<lambda>s. Return (c1\<lparr>acq := manager_destroy s\<rparr>)))"

text \<open>
  The program: its result, and the controller as the destructors leave it, if there is one: when the constructor throws
  only its members are destroyed, none of which has done anything. The user's key comes when it comes;
  \<open>acts\<close> is what the running program has done until then.
\<close>

definition client_daq :: "(controller \<Rightarrow> controller) \<Rightarrow> int \<times> int \<Rightarrow> bool \<Rightarrow> bool \<Rightarrow> (int \<Rightarrow> bool) \<Rightarrow> init_env \<Rightarrow> fds \<Rightarrow> (nat \<times> controller) run" where
  "client_daq acts ep config_ok noFpga open_ok e s =
     (case controller_start config_ok noFpga open_ok e s of
        (Running, c) \<Rightarrow> bind_run (controller_run ep (controller_stop (acts c))) (\<lambda>c.
          bind_run (controller_destroy ep c) (\<lambda>c. Return (0, c)))
      | (_, c) \<Rightarrow> bind_run (controller_destroy ep c) (\<lambda>c. Return (1, c)))"

section \<open>Standard descriptors\<close>

lemma lowest_free_first:
  assumes "finite opn" and "fd \<notin> opn" and "a \<le> fd" and "\<forall>x. a \<le> x \<and> x < fd \<longrightarrow> x \<in> opn"
  shows "lowest_free (card opn) a opn = fd"
proof -
  let ?m = "lowest_free (card opn) a opn"
  have "?m \<notin> opn" "a \<le> ?m" using lowest_free_notin [OF assms(1)] lowest_free_ge by blast+
  then have "\<not> ?m < fd" using assms(4) by blast
  moreover have "\<not> fd < ?m" using lowest_free_below [of a fd "card opn" opn] assms(2,3) by blast
  ultimately show ?thesis by simp
qed

lemma ensure_fd_spec:
  assumes "open_ok" and "finite (os_open s)" and "0 \<le> fd" and "\<forall>x. 0 \<le> x \<and> x < fd \<longrightarrow> x \<in> os_open s"
  shows "ensure_fd open_ok fd s = s\<lparr>os_open := insert fd (os_open s)\<rparr>"
  using assms lowest_free_first [OF assms(2) _ assms(3,4)]
  by (cases "fd \<in> os_open s") (simp_all add: ensure_fd_def os_new_fd_def insert_absorb Let_def)

text \<open>
  After the start the standard descriptors are open: when \<^verbatim>\<open>/dev/null\<close> opens, each of the numbers
  0 to 2 that was closed is taken by it, and nothing else changes; so every socket that is opened later
  gets another number.
\<close>

theorem standard_fds_open:
  assumes "\<forall>fd. open_ok fd" and "finite (os_open s)"
  shows "ensureStandardFDs open_ok s = s\<lparr>os_open := {0, 1, 2} \<union> os_open s\<rparr> \<and>
    fst (os_new_fd (ensureStandardFDs open_ok s)) > 2"
proof -
  let ?s1 = "s\<lparr>os_open := insert 0 (os_open s)\<rparr>" and ?s2 = "s\<lparr>os_open := insert 1 (insert 0 (os_open s))\<rparr>"
  have "ensure_fd (open_ok 0) 0 s = ?s1" using assms by (intro ensure_fd_spec) auto
  moreover have "ensure_fd (open_ok 1) 1 ?s1 = ?s2" using assms by (subst ensure_fd_spec) auto
  moreover have "ensure_fd (open_ok 2) 2 ?s2 = s\<lparr>os_open := insert 2 (insert 1 (insert 0 (os_open s)))\<rparr>"
    using assms by (subst ensure_fd_spec) auto
  ultimately have eq: "ensureStandardFDs open_ok s = s\<lparr>os_open := {0, 1, 2} \<union> os_open s\<rparr>"
    by (simp add: ensureStandardFDs_def insert_commute)
  obtain fd s' where new: "os_new_fd (ensureStandardFDs open_ok s) = (fd, s')" by fastforce
  then have "fd > 2" using os_new_fd_spec(2) [OF new] assms(2) unfolding eq by simp
  then show ?thesis using eq new by simp
qed

theorem standard_fds_open_witness:
  "ensureStandardFDs (\<lambda>_. True) (fds_init\<lparr>os_open := {0, 5}\<rparr>) = fds_init\<lparr>os_open := {0, 1, 2, 5}\<rparr>"
  using standard_fds_open [of "\<lambda>_. True" "fds_init\<lparr>os_open := {0, 5}\<rparr>"] by (simp add: insert_commute)

section \<open>What the manager owns\<close>

definition objects :: "daqm \<Rightarrow> nat list" where
  "objects m = (case frameServer m of None \<Rightarrow> [] | Some p \<Rightarrow> [p]) @ daqCards m"

text \<open>Every live object is reached through one pointer of the manager, and none was deleted twice.\<close>

definition owns :: "daqm \<Rightarrow> bool" where
  "owns m \<longleftrightarrow> heap_live m = set (objects m) \<and> distinct (objects m) \<and> (\<forall>p \<in> heap_live m. p < heap_next m) \<and> double_frees m = 0"

lemma owns_same:
  "objects m' = objects m \<Longrightarrow> heap_live m' = heap_live m \<Longrightarrow> heap_next m' = heap_next m \<Longrightarrow> double_frees m' = double_frees m \<Longrightarrow> owns m' = owns m"
  by (simp add: owns_def)

lemma objects_dsys [simp]:
  "objects (m\<lparr>dsys := d\<rparr>) = objects m" "objects (m\<lparr>shmfd := k\<rparr>) = objects m" "objects (m\<lparr>shmPtr := b\<rparr>) = objects m"
  "objects (m\<lparr>daqCardList := l\<rparr>) = objects m" "objects (m\<lparr>daqCardPortBits := n\<rparr>) = objects m"
  by (simp_all add: objects_def)

lemma owns_dsys [simp]: "owns (m\<lparr>dsys := d\<rparr>) = owns m" "owns (m\<lparr>daqCardList := l\<rparr>) = owns m" "owns (m\<lparr>daqCardPortBits := n\<rparr>) = owns m"
  by (rule owns_same; simp)+

lemma owns_shared [simp]: "owns (allocateSharedMemory e m) = owns m"
  by (rule owns_same) (simp_all add: allocateSharedMemory_def split: prod.split)

lemma shared_simps [simp]:
  "frameServer (allocateSharedMemory e m) = frameServer m" "daqCards (allocateSharedMemory e m) = daqCards m"
  "daqCardList (allocateSharedMemory e m) = daqCardList m" "heap_live (allocateSharedMemory e m) = heap_live m"
  "daqType (allocateSharedMemory e m) = daqType m"
  by (simp_all add: allocateSharedMemory_def split: prod.split)

lemma listening_simps:
  "createListeningSocket e m = (fd, m') \<Longrightarrow> \<exists>d. m' = m\<lparr>dsys := d\<rparr>"
  by (cases m) (auto simp: createListeningSocket_def Let_def split: if_splits prod.splits)

lemma open_cards_owns:
  "owns m \<Longrightarrow> frameServer m = None \<Longrightarrow> open_cards e paths m = (ok, m') \<Longrightarrow> owns m' \<and> frameServer m' = None"
proof (induction e paths m rule: open_cards.induct)
  case (2 e path paths m)
  obtain card m1 where new: "new_object m = (card, m1)" by fastforce
  show ?case
  proof (cases "e_card e path")
    case True
    have "owns (m1\<lparr>daqCards := daqCards m1 @ [card]\<rparr>)" "frameServer (m1\<lparr>daqCards := daqCards m1 @ [card]\<rparr>) = None"
      using 2(2,3) new by (auto simp: new_object_def owns_def objects_def less_Suc_eq)
    with True new 2(1) [OF _ refl] 2(4) show ?thesis by (simp add: new)
  next
    case False
    then show ?thesis using 2(2-4) by simp
  qed
qed simp

lemma frame_server_owns: "owns m \<Longrightarrow> frameServer m = None \<Longrightarrow> owns (create_frame_server e m)"
  by (auto simp: create_frame_server_def new_object_def owns_def objects_def Let_def less_Suc_eq)

lemma initialize_owns:
  assumes "owns m" and "frameServer m = None" and "initialize e m = (ok, m')"
  shows "owns m'"
proof -
  define m2 where "m2 = (let m1 = (if daqCardList m = [] then m\<lparr>daqCardList := [''/dev/psdaq0'']\<rparr> else m)
    in if length (daqCardList m1) = 2 then m1\<lparr>daqCardPortBits := 2\<rparr> else m1)"
  have m2: "owns m2" "frameServer m2 = None" using assms(1,2) by (simp_all add: m2_def Let_def)
  obtain fd m3 where l: "createListeningSocket e m2 = (fd, m3)" by fastforce
  then have m3: "owns m3" "frameServer m3 = None" using listening_simps [OF l] m2 by auto
  let ?m4 = "allocateSharedMemory e (m3\<lparr>dsys := setServerFD DAQ fd (dsys m3)\<rparr>)"
  have m4: "owns ?m4" "frameServer ?m4 = None" using m3 by simp_all
  obtain ok5 m5 where o: "open_cards e (daqCardList ?m4) ?m4 = (ok5, m5)" by fastforce
  have m5: "owns m5" "frameServer m5 = None" using open_cards_owns [OF m4 o] by simp_all
  show ?thesis
    using assms(3) assms(1) m3(1) m4 m5 frame_server_owns [OF m4] frame_server_owns [OF m5] o l
    by (auto simp: initialize_def m2_def [symmetric, unfolded Let_def] Let_def split: if_splits prod.splits)
qed

lemma fold_delete_live:
  "distinct ps \<Longrightarrow> set ps \<subseteq> heap_live m \<Longrightarrow> double_frees (fold delete_object ps m) = double_frees m"
proof (induction ps arbitrary: m)
  case (Cons p ps)
  then have "set ps \<subseteq> heap_live (delete_object p m)" by auto
  with Cons show ?case by simp
qed simp

lemma cleanup_objects: "cleanup m = freeSharedMemory (fold delete_object (objects m) m)"
  by (simp add: cleanup_def objects_def Let_def split: option.split)

lemma cleanup_owned:
  assumes "owns m"
  shows "heap_live (cleanup m) = {}" and "double_frees (cleanup m) = 0"
  using assms fold_delete [of "objects m" m] fold_delete_live [of "objects m" m]
  by (auto simp: cleanup_objects owns_def freeSharedMemory_def)

section \<open>Shut-down\<close>

text \<open>
  The program may end when no acquisition has been started or each has been stopped, or while one
  is running; the manager then owns its objects.
\<close>

definition may_end :: "controller \<Rightarrow> bool" where
  "may_end c \<longleftrightarrow> owns (mgr (acq c)) \<and>
     (tpc (acq c) = NoThread \<and> \<not> daqRunning (acq c) \<or> (tpc (acq c) = Polling \<or> tpc (acq c) = Leaving) \<and> daqRunning (acq c))"

lemma with_hub_owns [simp]: "owns (snd (with_hub f h m)) = owns m"
  by (simp add: with_hub_def Let_def)

lemma run_may_end:
  assumes "may_end c" and "\<not> keepRunning c"
  shows "\<exists>c'. controller_run ep c = Return c' \<and> may_end c'"
proof -
  obtain ch m1 where 1: "with_hub (stop_client COMMAND (fst ep)) (commandHub c) (mgr (acq c)) = (ch, m1)" by fastforce
  obtain eh m2 where 2: "with_hub (stop_client EVENT (snd ep)) (eventHub c) m1 = (eh, m2)" by fastforce
  have "owns m2"
    using assms(1) 1 2 with_hub_owns [of "stop_client COMMAND (fst ep)" "commandHub c" "mgr (acq c)"]
      with_hub_owns [of "stop_client EVENT (snd ep)" "eventHub c" m1] by (simp add: may_end_def)
  then show ?thesis using assms 1 2 by (simp add: controller_run_def may_end_def set_mgr_def)
qed

lemma destroy_may_end:
  assumes "may_end c"
  shows "\<exists>c'. controller_destroy ep c = Return c' \<and> heap_live (mgr (acq c')) = {} \<and> double_frees (mgr (acq c')) = 0"
proof -
  obtain ch m1 where 1: "with_hub (stop_client COMMAND (fst ep)) (commandHub c) (mgr (acq c)) = (ch, m1)" by fastforce
  obtain eh m2 where 2: "with_hub (stop_client EVENT (snd ep)) (eventHub c) m1 = (eh, m2)" by fastforce
  have own: "owns m2"
    using assms 1 2 with_hub_owns [of "stop_client COMMAND (fst ep)" "commandHub c" "mgr (acq c)"]
      with_hub_owns [of "stop_client EVENT (snd ep)" "eventHub c" m1] by (simp add: may_end_def)
  let ?c = "set_mgr m2 (c\<lparr>commandHub := ch, eventHub := eh\<rparr>)"
  have "mgr (acq ?c) = m2" "tpc (acq ?c) = tpc (acq c)" "daqRunning (acq ?c) = daqRunning (acq c)" by (simp_all add: set_mgr_def)
  then obtain s where "dispatch_destroy (acq ?c) = Return s" "mgr s = m2"
    using assms by (auto simp: dispatch_destroy_def thread_completes_def may_end_def split: thread_pc.splits)
  then show ?thesis using cleanup_owned [OF own] 1 2 by (simp add: controller_destroy_def manager_destroy_def)
qed



section \<open>Where it does not\<close>

text \<open>
  The acquisition thread ends by itself when a signal asks for it; it lowers \<open>daqRunning\<close>, and the
  destructor of the dispatcher, which joins the thread only while that flag is up, then leaves a thread that is
  joinable to its destructor, and the program is terminated.
\<close>

inductive signal_or_step :: "control \<Rightarrow> control \<Rightarrow> bool" where
  catchUserStop: "signal_or_step s (s\<lparr>globalUserStop := True\<rparr>)"
| control_step: "cstep s s' \<Longrightarrow> signal_or_step s s'"

theorem ended_thread_terminates:
  "\<exists>s. signal_or_step\<^sup>*\<^sup>* (control_init gbe_manager [Start net_ok]) s \<and> pending s = [] \<and> cpc s = Idle \<and> dispatch_destroy s = Fault"
proof -
  let ?s = "\<lparr>pending = [], cpc = Idle, tpc = Entered, daqRunning = True, globalUserStop = False, mutex_held = False,
     mgr = daqm_example, results = [True]\<rparr> :: control"
  let ?s1 = "?s\<lparr>tpc := Polling, globalUserStop := False\<rparr>" and ?s2 = "?s\<lparr>tpc := Polling, globalUserStop := True\<rparr>"
  let ?s3 = "?s2\<lparr>tpc := Leaving\<rparr>" and ?s4 = "?s2\<lparr>tpc := Ended, daqRunning := False\<rparr>"
  have up: "cstep\<^sup>*\<^sup>* a b \<Longrightarrow> signal_or_step\<^sup>*\<^sup>* a b" for a b
    by (induction rule: rtranclp_induct) (auto intro: control_step rtranclp.rtrancl_into_rtrancl)
  have 0: "signal_or_step\<^sup>*\<^sup>* (control_init gbe_manager [Start net_ok]) ?s"
    using spawned_reachable [of "[]"] up unfolding reachable_def by blast
  have 1: "signal_or_step ?s ?s1" by (rule control_step, rule run_clears) (simp_all add: daqm_example_server)
  have 2: "signal_or_step ?s1 ?s2" using catchUserStop [of ?s1] by simp
  have 3: "signal_or_step ?s2 ?s3" by (rule control_step, rule poll_ends) simp_all
  have 4: "signal_or_step ?s3 ?s4" using control_step [OF thread_ends [of ?s3]] by simp
  have "signal_or_step\<^sup>*\<^sup>* (control_init gbe_manager [Start net_ok]) ?s4"
    by (rule rtranclp.rtrancl_into_rtrancl [OF rtranclp.rtrancl_into_rtrancl [OF rtranclp.rtrancl_into_rtrancl
        [OF rtranclp.rtrancl_into_rtrancl [OF 0 1] 2] 3] 4])
  moreover have "dispatch_destroy ?s4 = Fault" by (simp add: dispatch_destroy_def)
  ultimately show ?thesis by (intro exI [of _ ?s4]) simp
qed

text \<open>
  START initialises the manager again, although the start of the program has done so: the pointer
  to the first frame server is overwritten, and nothing deletes it any more.
\<close>

theorem start_after_initialize_leaks:
  assumes "frameServer m = Some p" and "owns m" and "daqType m = ''GBE''" and "initialize e m = (True, m')"
  shows "frameServer m' \<noteq> Some p \<and> p \<in> heap_live (cleanup m')"
proof -
  define m2 where "m2 = (let m1 = (if daqCardList m = [] then m\<lparr>daqCardList := [''/dev/psdaq0'']\<rparr> else m)
    in if length (daqCardList m1) = 2 then m1\<lparr>daqCardPortBits := 2\<rparr> else m1)"
  obtain fd m3 where l: "createListeningSocket e m2 = (fd, m3)" by fastforce
  let ?m4 = "allocateSharedMemory e (m3\<lparr>dsys := setServerFD DAQ fd (dsys m3)\<rparr>)"
  have own4: "owns ?m4 \<and> frameServer ?m4 = Some p \<and> daqType ?m4 = ''GBE''"
  proof -
    have "owns m2 \<and> frameServer m2 = Some p \<and> daqType m2 = ''GBE''" using assms(1-3) by (simp add: m2_def Let_def)
    moreover obtain d where "m3 = m2\<lparr>dsys := d\<rparr>" using listening_simps [OF l] by blast
    ultimately show ?thesis by simp
  qed
  have "m' = create_frame_server e ?m4 \<and> frameServer m' \<noteq> None"
    using assms(4) l own4 by (auto simp: initialize_def m2_def [symmetric, unfolded Let_def] Let_def split: if_splits prod.splits)
  then show ?thesis using own4
    by (auto simp: create_frame_server_def new_object_def owns_def objects_def Let_def split: if_splits)
qed

theorem start_after_initialize_leaks_witness: "\<exists>m'. initialize net_ok daqm_example = (True, m') \<and> 0 \<in> heap_live (cleanup m')"
proof -
  have own: "owns daqm_example"
    using initialize_owns [OF _ _ gbe_start] by (simp add: owns_def objects_def gbe_manager_def daqm_new_def)
  have "0 \<le> lowest_free n 0 opn" for n opn using lowest_free_ge [of 0] by simp
  then have "0 \<le> lowest_free n 0 opn" "\<not> lowest_free n 0 opn < 0" "lowest_free n 0 opn \<noteq> -1" for n opn
    by (simp_all add: not_less) (metis le_minus_one_simps(3))
  then have "fst (initialize net_ok daqm_example)"
    using daqm_example_server
    by (simp add: initialize_def net_ok_def createListeningSocket_def allocateSharedMemory_def create_frame_server_def new_object_def
        os_new_fd_def Let_def split: prod.split)
  then obtain m' where "initialize net_ok daqm_example = (True, m')" by (cases "initialize net_ok daqm_example") auto
  with start_after_initialize_leaks [OF _ own _ this] daqm_example_server show ?thesis by auto
qed

end
