(* ===== verification/Daqd.thy ===== *)
theory Daqd
  imports Controller
begin

text \<open>
  The stand-alone acquisition daemon (\<^verbatim>\<open>external/daqd/tools/daqd.cpp\<close>): its options, its start with
  the jumps to the clean-up, and its poll loop, which is not the one of the acquisition manager: it does not test
  \<^verbatim>\<open>accept\<close> and does not close what is left. The machine is the state of the manager's model;
  beside it are the names of local sockets and of shared memory that exist.
\<close>

section \<open>Options\<close>

datatype daqd_option = SocketName string | DebugLevel string | DaqTypeOption string | CardOption string | UnknownOption

record daqd_settings =
  clientSocketName :: string
  debugLevel :: int
  daqTypeNumber :: int
  cardList :: "string list"

definition daqd_defaults :: daqd_settings where
  "daqd_defaults = \<lparr>clientSocketName = ''/tmp/d.sock'', debugLevel = 0, daqTypeNumber = -1, cardList = []\<rparr>"

text \<open>
  \<open>None\<close>: the daemon ends with -1. \<open>to_int\<close> is \<^verbatim>\<open>boost::lexical_cast<int>\<close>, whose exception nobody
  catches.
\<close>

fun daqd_options :: "(string \<Rightarrow> int option) \<Rightarrow> daqd_option list \<Rightarrow> daqd_settings \<Rightarrow> daqd_settings option run" where
  "daqd_options to_int [] d = Return (Some d)"
| "daqd_options to_int (SocketName s # os) d = daqd_options to_int os (d\<lparr>clientSocketName := s\<rparr>)"
| "daqd_options to_int (DebugLevel s # os) d =
     (case to_int s of None \<Rightarrow> Fault | Some n \<Rightarrow> daqd_options to_int os (d\<lparr>debugLevel := n\<rparr>))"
| "daqd_options to_int (DaqTypeOption s # os) d =
     (if s = ''GBE'' then daqd_options to_int os (d\<lparr>daqTypeNumber := 0\<rparr>)
      else if s = ''PFP_KX7'' then daqd_options to_int os (d\<lparr>daqTypeNumber := 1\<rparr>)
      else Return None)"
| "daqd_options to_int (CardOption s # os) d = daqd_options to_int os (d\<lparr>cardList := cardList d @ [s]\<rparr>)"
| "daqd_options to_int (UnknownOption # os) d = Return None"

definition card_port_bits :: "string list \<Rightarrow> nat" where
  "card_port_bits cards = (if length cards = 1 then 5 else 2)"

definition daqd_settle :: "daqd_settings \<Rightarrow> daqd_settings option" where
  "daqd_settle d =
     (if length (cardList d) > 2 then None
      else let d1 = (if cardList d = [] then d\<lparr>cardList := [''/dev/psdaq0'']\<rparr> else d) in
        if daqTypeNumber d1 = -1 then None else Some d1)"

section \<open>Start and clean-up\<close>

record daqd =
  machine :: daqm
  socketFiles :: "string set"
  shmNames :: "string set"

definition shmName :: string where "shmName = ''/daqd_shm''"

text \<open>
  What the calls answer: those of the manager, the result of \<^verbatim>\<open>chmod\<close>. \<^verbatim>\<open>bind\<close> fails on a name that
  exists.
\<close>

definition daqd_listen :: "init_env \<Rightarrow> bool \<Rightarrow> string \<Rightarrow> daqd \<Rightarrow> int \<times> daqd" where
  "daqd_listen e chmod_ok name d =
     (if \<not> e_socket e then (-1, d)
      else let (fd, s) = os_new_fd (dsys (machine d)); d1 = d\<lparr>machine := (machine d)\<lparr>dsys := s\<rparr>\<rparr> in
      if \<not> (e_bind e \<and> name \<notin> socketFiles d) then (-1, d1)
      else let d2 = d1\<lparr>socketFiles := insert name (socketFiles d1)\<rparr> in
      if \<not> chmod_ok then (-1, d2)
      else if \<not> e_listen e then (-1, d2)
      else (fd, d2))"

definition daqd_allocate :: "init_env \<Rightarrow> daqd \<Rightarrow> daqd" where
  "daqd_allocate e d =
     d\<lparr>machine := allocateSharedMemory e (machine d),
       shmNames := (if e_shm_open e then insert shmName (shmNames d - {shmName}) else shmNames d - {shmName})\<rparr>"

definition remove_client_socket :: "int \<Rightarrow> string \<Rightarrow> daqd \<Rightarrow> daqd" where
  "remove_client_socket fd name d =
     (if fd \<noteq> -1 then d\<lparr>machine := (machine d)\<lparr>dsys := os_close fd (dsys (machine d))\<rparr>, socketFiles := socketFiles d - {name}\<rparr> else d)"

definition cleanup_shared :: "int \<Rightarrow> string \<Rightarrow> daqd \<Rightarrow> daqd" where
  "cleanup_shared fd name d =
     remove_client_socket fd name (d\<lparr>machine := freeSharedMemory (machine d), shmNames := shmNames d - {shmName}\<rparr>)"

definition cleanup_cards :: "int \<Rightarrow> string \<Rightarrow> daqd \<Rightarrow> daqd" where
  "cleanup_cards fd name d =
     cleanup_shared fd name (d\<lparr>machine := fold delete_object (daqCards (machine d)) (machine d)\<rparr>)"

definition cleanup_server :: "int \<Rightarrow> string \<Rightarrow> daqd \<Rightarrow> daqd" where
  "cleanup_server fd name d =
     cleanup_cards fd name (d\<lparr>machine := (case frameServer (machine d) of None \<Rightarrow> machine d | Some p \<Rightarrow> delete_object p (machine d))\<rparr>)"

section \<open>The poll loop\<close>

text \<open>
  What happens in a turn: nothing, a failing \<^verbatim>\<open>epoll_pwait\<close>, a connection with the results of
  \<^verbatim>\<open>accept\<close> and \<^verbatim>\<open>epoll_ctl\<close>, and an event of a client: an error, a request with the status of \<open>handleRequest\<close>, or
  none of these.
\<close>

datatype daqd_event = Quiet | PollFails | Incoming bool bool | HangUp int | Request int int | Strange int

text \<open>
  The descriptors, the list of clients, the clients that no list holds any more, and the descriptors that \<^verbatim>\<open>epoll\<close>
  watches.
\<close>

record daqd_poll =
  pfds :: fds
  pclients :: "(int, unit) std_map"
  pleaked :: nat
  watched :: "int set"

definition drop_poll_client :: "int \<Rightarrow> daqd_poll \<Rightarrow> daqd_poll" where
  "drop_poll_client fd p =
     p\<lparr>watched := watched p - {fd}, pfds := (if map_find (pclients p) fd = None then pfds p else os_close fd (pfds p)),
       pclients := map_erase fd (pclients p)\<rparr>"

text \<open>\<open>None\<close> ends the loop; \<open>Fault\<close>: the request of a client that is not in the list.\<close>

fun daqd_turn :: "daqd_event \<Rightarrow> daqd_poll \<Rightarrow> daqd_poll option run" where
  "daqd_turn Quiet p = Return (Some p)"
| "daqd_turn PollFails p = Return None"
| "daqd_turn (Incoming accepted ctl_ok) p =
     (let (fd, s) = (if accepted then os_new_fd (pfds p) else (-1, pfds p)) in
      Return (Some (p\<lparr>pfds := s, watched := (if accepted \<and> ctl_ok then insert fd (watched p) else watched p),
        pleaked := (if map_find (pclients p) fd = None then pleaked p else pleaked p + 1),
        pclients := (if map_find (pclients p) fd = None then map_put fd () (pclients p) else pclients p)\<rparr>)))"
| "daqd_turn (HangUp fd) p = Return (Some (drop_poll_client fd p))"
| "daqd_turn (Request fd actionStatus) p =
     (if map_find (pclients p) fd = None then Fault
      else Return (Some (if actionStatus = -1 then drop_poll_client fd p else p)))"
| "daqd_turn (Strange fd) p = Return (Some (drop_poll_client fd p))"

text \<open>The events of a turn are those of watched descriptors; the loop ends with the list (a signal) or a failure.\<close>

definition event_ok :: "daqd_event \<Rightarrow> daqd_poll \<Rightarrow> bool" where
  "event_ok ev p \<longleftrightarrow> (case ev of HangUp fd \<Rightarrow> fd \<in> watched p | Request fd st \<Rightarrow> fd \<in> watched p | Strange fd \<Rightarrow> fd \<in> watched p | _ \<Rightarrow> True)"

fun daqd_turns :: "daqd_event list \<Rightarrow> daqd_poll \<Rightarrow> daqd_poll run" where
  "daqd_turns [] p = Return p"
| "daqd_turns (ev # evs) p =
     (if \<not> event_ok ev p then Return p
      else bind_run (daqd_turn ev p) (\<lambda>r. case r of None \<Rightarrow> Return p | Some p' \<Rightarrow> daqd_turns evs p'))"

text \<open>The descriptor of \<^verbatim>\<open>epoll\<close> is never closed, nor are the clients that are still there.\<close>

definition daqd_pollSocket :: "bool \<Rightarrow> bool \<Rightarrow> daqd_event list \<Rightarrow> fds \<Rightarrow> fds run" where
  "daqd_pollSocket epoll_ok ctl_ok evs s =
     (if \<not> epoll_ok then Return s
      else let (ep, s1) = os_new_fd s in
        if \<not> ctl_ok then Return s1
        else bind_run (daqd_turns evs \<lparr>pfds = s1, pclients = [], pleaked = 0, watched = {}\<rparr>) (\<lambda>p. Return (pfds p)))"

section \<open>The program\<close>

definition daqd_serve :: "init_env \<Rightarrow> bool \<times> bool \<times> daqd_event list \<Rightarrow> daqd_settings \<Rightarrow> int \<Rightarrow> daqd \<Rightarrow> (int \<times> daqd) run" where
  "daqd_serve e poll cfg fd d =
     (let name = clientSocketName cfg; m = machine d;
          (opened, m1) = (if daqTypeNumber cfg = 1 then open_cards e (cardList cfg) m else (True, m)); d1 = d\<lparr>machine := m1\<rparr> in
      if \<not> opened then Return (-1, cleanup_cards fd name d1)
      else let m2 = create_frame_server (if daqTypeNumber cfg = 1 then e\<lparr>e_server := True\<rparr> else e) m1; d2 = d\<lparr>machine := m2\<rparr> in
        if frameServer m2 = None then Return (-1, cleanup_server fd name d2)
        else bind_run (daqd_pollSocket (fst poll) (fst (snd poll)) (snd (snd poll)) (dsys m2)) (\<lambda>s.
          Return (0, cleanup_server fd name (d2\<lparr>machine := m2\<lparr>dsys := s\<rparr>\<rparr>))))"

definition daqd_main ::
  "(string \<Rightarrow> int option) \<Rightarrow> init_env \<Rightarrow> bool \<Rightarrow> bool \<times> bool \<times> daqd_event list \<Rightarrow> daqd_option list \<Rightarrow> daqd \<Rightarrow> (int \<times> daqd) run" where
  "daqd_main to_int e chmod_ok poll opts d =
     bind_run (daqd_options to_int opts daqd_defaults) (\<lambda>r. case r of
         None \<Rightarrow> Return (-1, d)
       | Some cfg \<Rightarrow> (case daqd_settle cfg of
             None \<Rightarrow> Return (-1, d)
           | Some cfg \<Rightarrow>
               let (fd, d1) = daqd_listen e chmod_ok (clientSocketName cfg) d in
               if fd < 0 then Return (-1, remove_client_socket fd (clientSocketName cfg) d1)
               else let d2 = daqd_allocate e d1 in
                 if shmfd (machine d2) = -1 \<or> \<not> shmPtr (machine d2) then Return (-1, cleanup_shared fd (clientSocketName cfg) d2)
                 else daqd_serve e poll cfg fd d2))"

section \<open>No request without a client\<close>

definition daqd_poll_ok :: "fds \<Rightarrow> daqd_poll \<Rightarrow> bool" where
  "daqd_poll_ok s p \<longleftrightarrow> map_ok (pclients p) \<and> watched p \<subseteq> set (map_keys (pclients p)) - {-1} \<and> finite (os_open (pfds p)) \<and>
     set (map_keys (pclients p)) - {-1} \<subseteq> os_open (pfds p) - os_open s \<and> os_open s \<subseteq> os_open (pfds p) \<and>
     stray_closes (pfds p) = stray_closes s"

lemma os_new_fd_fresh:
  "os_new_fd s = (fd, s') \<Longrightarrow> finite (os_open s) \<Longrightarrow> fd \<notin> os_open s \<and> 0 \<le> fd \<and> s' = s\<lparr>os_open := insert fd (os_open s)\<rparr>"
  using lowest_free_notin [of "os_open s" 0] lowest_free_ge [of 0] by (auto simp: os_new_fd_def Let_def)

lemma drop_poll_ok:
  assumes "daqd_poll_ok s p" and "fd \<in> watched p"
  shows "daqd_poll_ok s (drop_poll_client fd p)"
proof -
  have fd: "fd \<in> set (map_keys (pclients p))" "fd \<noteq> -1" "fd \<in> os_open (pfds p)" "fd \<notin> os_open s"
    using assms by (auto simp: daqd_poll_ok_def)
  then have "map_find (pclients p) fd \<noteq> None" by (auto simp: map_keys_find)
  then show ?thesis using assms fd by (auto simp: daqd_poll_ok_def drop_poll_client_def os_close_def std_map_simps)
qed

lemma daqd_turn_ok:
  assumes "daqd_poll_ok s p" and "event_ok ev p"
  shows "\<exists>r. daqd_turn ev p = Return r \<and> (\<forall>p'. r = Some p' \<longrightarrow> daqd_poll_ok s p')"
proof (cases ev)
  case (Incoming accepted ctl_ok)
  show ?thesis
  proof (cases accepted)
    case True
    obtain fd t where new: "os_new_fd (pfds p) = (fd, t)" by fastforce
    have fd: "fd \<notin> os_open (pfds p)" "0 \<le> fd" "t = (pfds p)\<lparr>os_open := insert fd (os_open (pfds p))\<rparr>"
      using os_new_fd_fresh [OF new] assms(1) by (simp_all add: daqd_poll_ok_def)
    then have "fd \<notin> set (map_keys (pclients p))" using assms(1) by (auto simp: daqd_poll_ok_def)
    then have "map_find (pclients p) fd = None" by (cases "map_find (pclients p) fd") (simp_all add: map_keys_find)
    then show ?thesis using Incoming True new fd assms(1) by (auto simp: daqd_poll_ok_def std_map_simps)
  next
    case False
    then show ?thesis using Incoming assms(1) by (auto simp: daqd_poll_ok_def std_map_simps)
  qed
next
  case (Request fd st)
  then have "fd \<in> set (map_keys (pclients p))" using assms by (auto simp: daqd_poll_ok_def event_ok_def)
  then have "map_find (pclients p) fd \<noteq> None" by (auto simp: map_keys_find)
  then show ?thesis using Request assms drop_poll_ok [OF assms(1)] by (simp add: event_ok_def)
qed (use assms drop_poll_ok [OF assms(1)] in \<open>simp_all add: event_ok_def\<close>)

lemma daqd_turns_ok: "daqd_poll_ok s p \<Longrightarrow> \<exists>p'. daqd_turns evs p = Return p' \<and> daqd_poll_ok s p'"
proof (induction evs arbitrary: p)
  case (Cons ev evs)
  show ?case
  proof (cases "event_ok ev p")
    case True
    then obtain r where "daqd_turn ev p = Return r" "\<forall>p'. r = Some p' \<longrightarrow> daqd_poll_ok s p'"
      using daqd_turn_ok [OF Cons.prems] by blast
    then show ?thesis using Cons True by (cases r) auto
  next
    case False
    then show ?thesis using Cons.prems by simp
  qed
qed simp

lemma daqd_pollSocket_ok:
  assumes "finite (os_open s)"
  shows "\<exists>s'. daqd_pollSocket epoll_ok ctl_ok evs s = Return s' \<and> os_open s \<subseteq> os_open s' \<and> stray_closes s' = stray_closes s"
proof -
  obtain ep s1 where new: "os_new_fd s = (ep, s1)" by fastforce
  have s1: "os_open s \<subseteq> os_open s1" "stray_closes s1 = stray_closes s" "finite (os_open s1)"
    using os_new_fd_fresh [OF new assms] assms by auto
  have "daqd_poll_ok s1 \<lparr>pfds = s1, pclients = [], pleaked = 0, watched = {}\<rparr>"
    using s1(3) by (simp add: daqd_poll_ok_def map_keys_def)
  from daqd_turns_ok [OF this, of evs] obtain p where
    "daqd_turns evs \<lparr>pfds = s1, pclients = [], pleaked = 0, watched = {}\<rparr> = Return p" "daqd_poll_ok s1 p" by blast
  then show ?thesis using new s1 by (cases epoll_ok; cases ctl_ok) (auto simp: daqd_pollSocket_def daqd_poll_ok_def)
qed

section \<open>The end of the daemon\<close>

lemma cleanup_sys: "dsys (cleanup m) = (if shmfd m \<noteq> -1 then os_close (shmfd m) (dsys m) else dsys m)"
  using fold_delete [of "objects m" m] by (simp add: cleanup_objects freeSharedMemory_def)

lemma cleanup_server_eq:
  assumes "fd \<noteq> -1"
  shows "cleanup_server fd name d = d\<lparr>machine := (cleanup (machine d))\<lparr>dsys := os_close fd (dsys (cleanup (machine d)))\<rparr>,
    shmNames := shmNames d - {shmName}, socketFiles := socketFiles d - {name}\<rparr>"
  using assms by (cases "frameServer (machine d)")
    (simp_all add: cleanup_server_def cleanup_cards_def cleanup_shared_def remove_client_socket_def cleanup_def Let_def)

lemma cleanup_cards_eq: "frameServer (machine d) = None \<Longrightarrow> cleanup_cards fd name d = cleanup_server fd name d"
  by (simp add: cleanup_server_def)

lemma cleanup_shared_eq: "objects (machine d) = [] \<Longrightarrow> cleanup_shared fd name d = cleanup_server fd name d"
  by (cases "frameServer (machine d)") (simp_all add: objects_def cleanup_server_def cleanup_cards_def)

text \<open>What is left when the daemon has cleaned up after the state \<open>d0\<close> in which it had nothing but its socket.\<close>

definition gone :: "string \<Rightarrow> fds \<Rightarrow> daqd \<Rightarrow> daqd \<Rightarrow> bool" where
  "gone name s d d' \<longleftrightarrow> heap_live (machine d') = {} \<and> double_frees (machine d') = 0 \<and> stray_closes (dsys (machine d')) = stray_closes s \<and>
     socketFiles d' = socketFiles d - {name} \<and> shmNames d' = shmNames d - {shmName}"

lemma cleanup_gone:
  assumes "owns (machine d)" and "fd \<noteq> -1" and "fd \<in> os_open (dsys (machine d))"
    and "shmfd (machine d) = -1 \<or> shmfd (machine d) \<in> os_open (dsys (machine d)) - {fd}"
  shows "gone name (dsys (machine d)) d (cleanup_server fd name d)"
  using assms cleanup_owned [OF assms(1)]
  by (auto simp: gone_def cleanup_server_eq cleanup_sys os_close_def)

lemma open_cards_keeps:
  "open_cards e paths m = (ok, m') \<Longrightarrow> dsys m' = dsys m \<and> shmfd m' = shmfd m"
proof (induction e paths m rule: open_cards.induct)
  case (2 e path paths m)
  obtain card m1 where new: "new_object m = (card, m1)" by fastforce
  then have "dsys m1 = dsys m" "shmfd m1 = shmfd m" by (auto simp: new_object_def)
  with 2(1) [OF _ refl] 2(2) new show ?case by (cases "e_card e path") auto
qed simp

lemma frame_server_keeps [simp]: "dsys (create_frame_server e m) = dsys m" "shmfd (create_frame_server e m) = shmfd m"
  by (simp_all add: create_frame_server_def new_object_def Let_def)

lemma daqd_serve_gone:
  assumes "owns (machine d)" and "frameServer (machine d) = None" and "fd \<noteq> -1" and "finite (os_open (dsys (machine d)))"
    and "fd \<in> os_open (dsys (machine d))" and "shmfd (machine d) \<in> os_open (dsys (machine d)) - {fd}"
  shows "\<exists>r d'. daqd_serve e poll cfg fd d = Return (r, d') \<and> gone (clientSocketName cfg) (dsys (machine d)) d d'"
proof -
  obtain ok m1 where 1: "(if daqTypeNumber cfg = 1 then open_cards e (cardList cfg) (machine d) else (True, machine d)) = (ok, m1)" by fastforce
  have m1: "owns m1" "frameServer m1 = None" "dsys m1 = dsys (machine d)" "shmfd m1 = shmfd (machine d)"
    using 1 assms(1,2) open_cards_owns [of "machine d" e "cardList cfg" ok m1] open_cards_keeps [of e "cardList cfg" "machine d" ok m1]
    by (auto split: if_splits)
  let ?e = "if daqTypeNumber cfg = 1 then e\<lparr>e_server := True\<rparr> else e"
  let ?m2 = "create_frame_server ?e m1"
  have m2: "owns ?m2" "dsys ?m2 = dsys (machine d)" "shmfd ?m2 = shmfd (machine d)" using frame_server_owns [OF m1(1,2), of ?e] m1(3,4) by simp_all
  have same: "gone name s (d\<lparr>machine := m\<rparr>) d' = gone name s d d'" for name s m d' by (simp add: gone_def)
  show ?thesis
  proof (cases "ok \<and> frameServer ?m2 \<noteq> None")
    case False
    let ?m = "if ok then ?m2 else m1"
    have "gone (clientSocketName cfg) (dsys ?m) (d\<lparr>machine := ?m\<rparr>) (cleanup_server fd (clientSocketName cfg) (d\<lparr>machine := ?m\<rparr>))"
      using cleanup_gone [of "d\<lparr>machine := ?m\<rparr>" fd] m1 m2 assms by auto
    moreover have "daqd_serve e poll cfg fd d = Return (-1, cleanup_server fd (clientSocketName cfg) (d\<lparr>machine := ?m\<rparr>))"
      using False 1 m1(2) by (auto simp: daqd_serve_def cleanup_cards_eq Let_def)
    moreover have "dsys ?m = dsys (machine d)" using m1(3) m2(2) by simp
    ultimately show ?thesis unfolding same by auto
  next
    case True
    obtain s where s: "daqd_pollSocket (fst poll) (fst (snd poll)) (snd (snd poll)) (dsys (machine d)) = Return s"
      "os_open (dsys (machine d)) \<subseteq> os_open s" "stray_closes s = stray_closes (dsys (machine d))"
      using daqd_pollSocket_ok [OF assms(4)] by blast
    let ?d = "d\<lparr>machine := ?m2\<lparr>dsys := s\<rparr>\<rparr>"
    have up: "fd \<in> os_open s" "shmfd (machine d) \<in> os_open s \<and> shmfd (machine d) \<noteq> fd" using assms(5,6) s(2) by auto
    have "gone (clientSocketName cfg) s ?d (cleanup_server fd (clientSocketName cfg) ?d)"
      using cleanup_gone [of ?d fd "clientSocketName cfg"] m2(1,3) assms(3) up by simp
    moreover have "daqd_serve e poll cfg fd d = Return (0, cleanup_server fd (clientSocketName cfg) ?d)"
      using True 1 s(1) m2(2) by (simp add: daqd_serve_def Let_def)
    ultimately show ?thesis using s(3) by (auto simp: gone_def)
  qed
qed

fun numbers_ok :: "(string \<Rightarrow> int option) \<Rightarrow> daqd_option \<Rightarrow> bool" where
  "numbers_ok to_int (DebugLevel s) = (to_int s \<noteq> None)"
| "numbers_ok to_int _ = True"

lemma options_return: "\<forall>opt \<in> set opts. numbers_ok to_int opt \<Longrightarrow> \<exists>r. daqd_options to_int opts cfg = Return r"
  by (induction to_int opts cfg rule: daqd_options.induct) auto


definition daqd_example :: daqd where
  "daqd_example = \<lparr>machine = gbe_manager, socketFiles = {''/tmp/x''}, shmNames = {}\<rparr>"

lemma daqd_example_fresh: "owns (machine daqd_example)" "objects (machine daqd_example) = []" "os_open (dsys (machine daqd_example)) = {0, 1, 2}"
  "stray_closes (dsys (machine daqd_example)) = 0"
  by (simp_all add: daqd_example_def gbe_manager_def daqm_new_def owns_def objects_def fds_init_def)


text \<open>
  Where \<^verbatim>\<open>chmod\<close> or \<^verbatim>\<open>listen\<close> fails, the socket that \<^verbatim>\<open>bind\<close> has made stays in the file system,
  because the jump goes by the result -1; the next start then fails although nothing is wrong.
\<close>

theorem stale_socket:
  "\<exists>d'. daqd_main to_int (net_ok\<lparr>e_listen := False\<rparr>) True poll [DaqTypeOption ''GBE''] daqd_example = Return (-1, d') \<and>
    (\<exists>d''. daqd_main to_int net_ok True poll [DaqTypeOption ''GBE''] d' = Return (-1, d''))"
proof -
  let ?name = "''/tmp/d.sock''"
  obtain fd s where new: "os_new_fd (dsys (machine daqd_example)) = (fd, s)" by fastforce
  let ?d = "daqd_example\<lparr>machine := (machine daqd_example)\<lparr>dsys := s\<rparr>, socketFiles := insert ?name (socketFiles daqd_example)\<rparr>"
  have "?name \<notin> socketFiles daqd_example" by (simp add: daqd_example_def)
  then have 1: "daqd_main to_int (net_ok\<lparr>e_listen := False\<rparr>) True poll [DaqTypeOption ''GBE''] daqd_example = Return (-1, ?d)"
    using new by (simp add: daqd_main_def daqd_settle_def daqd_listen_def net_ok_def remove_client_socket_def daqd_defaults_def Let_def)
  obtain fd2 s2 where new2: "os_new_fd s = (fd2, s2)" by fastforce
  have "\<exists>d''. daqd_main to_int net_ok True poll [DaqTypeOption ''GBE''] ?d = Return (-1, d'')"
    using new2 by (simp add: daqd_main_def daqd_settle_def daqd_listen_def net_ok_def remove_client_socket_def daqd_defaults_def Let_def)
  with 1 show ?thesis by blast
qed

end
