(* ===== verification/Spec2Isabelle.thy ===== *)
theory Spec2Isabelle
  imports CrcDetection HubConnection StreamClient DaqControl Dispatch DaqClient RawAccounting Calibration
    ThreadPool OrderedHandler ProcessHit Convert CoarseSort CardBuffers CardRegisters TdcTable QdcTable Singles
    Threshold Controller Daqd
begin

text \<open>
  A model of the flight software for the time-of-flight detector of GRAMS (\<^verbatim>\<open>src/FlightOps\<close>) and of
  the parts of the PETsys acquisition and processing library that it is linked with
  (\<^verbatim>\<open>src/FlightOps/external\<close>). The program is written in C++; each theory translates one or a few of its
  files, with the names of the source where they are free.

  \<^bold>\<open>The program.\<close> The hub computer sends command packets over TCP; the command client reads them,
  acknowledges each, and hands it to the dispatcher, which starts or stops the acquisition or calls a
  Python or C++ service; the event client and the servers report results and heart beats. The
  acquisition manager owns the frame server, which copies the frames that arrive from the front end
  (by UDP, or from PCIe cards) into a ring in shared memory, and a local socket over which clients
  read pointers into that ring and send commands to the front end. \<^verbatim>\<open>write_raw\<close> copies the ring to a raw
  data file with an index. The analysis reads that file back, in a pipeline of handlers driven by a
  pool of threads: decoding, sorting, calibration, grouping, coincidences, and a writer that must see
  the buffers in their order. The tables of the calibration are made by three programs from special
  recordings: the event words are counted while recording, sorted by ASIC, and fitted by one worker
  for each ASIC.

  \<^bold>\<open>Commands.\<close>
  \<^item> \<open>CommandCodes\<close>: the two enumerations and their conversions (\<^verbatim>\<open>GRAMS_TOF_CommandDefs.h\<close>,
    \<^verbatim>\<open>CommunicationCodes.hh\<close>).
  \<^item> \<open>Codec\<close>, \<open>CrcDetection\<close>: packets and check sums (\<^verbatim>\<open>GRAMS_TOF_CommandCodec.cpp\<close>): round trip, exactly
    which buffers are accepted, no read outside the buffer, every corrupted byte found.
  \<^item> \<open>StdMap\<close>, \<open>FDManager\<close>: \<^verbatim>\<open>std::map\<close> as an interface, descriptors and their owners over a table of the
    kernel's open descriptors (\<^verbatim>\<open>GRAMS_TOF_FDManager\<close>, \<^verbatim>\<open>GRAMS_TOF_Client\<close>): single ownership, sending all or
    an error.
  \<^item> \<open>StreamClient\<close>: the read loop of the command client, as an instance of a deframer: the result
    does not depend on how TCP cuts the stream, packets are served in order, the buffer is bounded.
  \<^item> \<open>HubConnection\<close>, \<open>Servers\<close>: connecting, losing and stopping a connection; accepting, reading,
    broadcasting and dropping of clients, with an invariant of the event server.
  \<^item> \<open>Config\<close>: configuration values and the files of a run with their time stamps, over an explicit file
    system (\<^verbatim>\<open>GRAMS_TOF_Config.cpp\<close>).
  \<^item> \<open>Dispatch\<close>: the table of commands and each handler (\<^verbatim>\<open>GRAMS_TOF_CommandDispatch.cpp\<close>,
    \<^verbatim>\<open>GRAMS_TOF_PythonIntegration.cpp\<close>, \<^verbatim>\<open>GRAMS_TOF_Analyzer.cpp\<close>, the answer in
    \<^verbatim>\<open>GRAMS_TOF_DAQController.cpp\<close>); services are parameters that return or throw.
  \<^item> \<open>Controller\<close>: the program itself, from the standard descriptors to the destructors
    (\<^verbatim>\<open>GRAMS_TOF_DAQController.cpp\<close>, \<^verbatim>\<open>grams_tof_client_daq.cpp\<close>): whatever fails, every object is deleted once.

  \<^bold>\<open>Acquisition.\<close>
  \<^item> \<open>DaqManager\<close>: objects, shared memory, the listening socket and the poll loop
    (\<^verbatim>\<open>GRAMS_TOF_DAQManager.cpp\<close>); \<open>DaqControl\<close>: START, STOP and RESET against the acquisition thread as
    interleaved steps.
  \<^item> \<open>RawFrame\<close>, \<open>FrameServer\<close>: words of a frame, and the ring, which refines a bounded queue (the locale
    \<open>bounded_queue\<close>); \<open>UDPFrameServer\<close>, \<open>DAQFrameServer\<close>: the workers that fill it and the commands to the
    front end; \<open>DaqClient\<close>: requests on the local socket.
  \<^item> \<open>CardBuffers\<close>: the buffers between the thread that reads a card and the worker, as interleaved steps
    (\<^verbatim>\<open>PFP_KX7.cpp\<close>): frames in order, none overwritten, no jam; \<open>CardRegisters\<close>: its registers over a bus:
    commands are posted completely or not at all, replies taken once, switches, clock.
  \<^item> \<open>Daqd\<close>: the stand-alone daemon (\<^verbatim>\<open>daqd.cpp\<close>) on the manager's machine: on every path nothing is left.

  \<^bold>\<open>Raw data.\<close>
  \<^item> \<open>Bytes\<close>: words as their eight bytes. \<open>RawWriter\<close>: \<^verbatim>\<open>write_raw.cpp\<close>, blocks of frames, accounting, index,
    calibration pool. \<open>RawReader\<close>: \<^verbatim>\<open>RawReader.cpp\<close>, buffered reading, a step, decoding.
  \<^item> \<open>RawFiles\<close>: both together: what is recorded is read back, whatever pieces \<^verbatim>\<open>read\<close> returns;
    \<open>RawAccounting\<close>: the totals of writer and reader; \<open>Calibration\<close>: counting in parallel;
    \<open>Convert\<close>: from the ring to the rows of the converted file.

  \<^bold>\<open>Processing.\<close>
  \<^item> \<open>EventBuffer\<close>: buffers and hits (\<^verbatim>\<open>external/base/include\<close>). \<open>ThreadPool\<close>, \<open>OrderedHandler\<close>: threads, mutexes and
    conditions as step relations, with wake-ups that nobody asked for: every job runs once, buffers
    are handled in order, and neither can jam.
  \<^item> \<open>SystemConfig\<close>: the tables and their files; \<open>CoarseSort\<close>, \<open>ProcessHit\<close>, \<open>Grouping\<close>: the handlers.
    Floating-point operations are the fields of a record of \<open>Arithmetic\<close>, of which only asymmetry of
    the comparison is ever assumed.
  \<^item> \<open>Singles\<close>, \<open>Decimal\<close>: the conversion to calibrated hits (\<^verbatim>\<open>convert_raw_to_singles_impl.cpp\<close>), from the
    pipeline to the files with their parts and segments: every hit once, in the right part, and from a
    recorded file.

  \<^bold>\<open>Making the tables.\<close>
  \<^item> \<open>CalibrationSort\<close>: the counted words sorted into temporary files, one for each ASIC;
    \<open>CalibrationWorkers\<close>: the table in shared memory and the forked workers, as a step relation; the locale
    \<open>asic_work\<close> says what a worker may do to the table, and its instances are both calibrations.
  \<^item> \<open>TdcCalibration\<close>, \<open>TdcTable\<close> (\<^verbatim>\<open>process_tdc_calibration_impl.cpp\<close>) and \<open>QdcCalibration\<close>, \<open>QdcTable\<close>
    (\<^verbatim>\<open>process_qdc_calibration_impl.cpp\<close>): the calibration of an ASIC, the adjustment and the table, which the
    loader of \<open>SystemConfig\<close> reads back.
  \<^item> \<open>Threshold\<close>: \<^verbatim>\<open>process_threshold_calibration_impl.cpp\<close>, from the text of its tables to a row for every channel.
  The fits of ROOT are parameters: functions from the filled histogram, the start values and a state
  of their own to a result or none.

  \<^bold>\<open>Conventions.\<close> Machine integers are words where their width matters. Reads and writes outside an
  array are \<open>None\<close> or \<open>Fault\<close>, exceptions are values. Results of system calls are inputs; the
  interleavings of threads are the paths of a step relation whose steps are critical sections. Loops
  that may not end have fuel: a read loop ends with its input, so the number of reads is enough; the
  walk over the ring needs at most twice the slots of the ring; a step of a raw file needs two turns
  per frame; a sort needs the square of the limit of hits, plus one. Theorems that something is
  returned are stated with these bounds.

  \<^bold>\<open>Not modelled.\<close> Logging, plots and printed reports (output only). The kernel driver of the card (what
  its registers and reads answer is the environment), ROOT (fits and trees), the embedded interpreter and
  the scripts (services here), the mapping of shared memory and its Python binding (\<^verbatim>\<open>shm_raw.cpp\<close>, whose
  accessors are in \<open>RawFrame\<close>). The parsers of command lines, the test programs, the INI reader and the other
  vendored libraries (CLI11, fmt, pybind11), which make up nine tenths of the lines of the repository.
\<close>

end
